(* ===== verification/Prelude.thy ===== *)
theory Prelude
  imports Main "HOL-Library.Word" "HOL-Library.AList" "HOL-Library.List_Lexorder"
    "HOL-Library.Product_Lexorder"
begin

text \<open>
  What every component shares: the exceptions of the program and results that carry them, the
  sequencing of computations that may raise, loops whose body may raise, bytes and their reading
  as big-endian integers, Python's insertion-ordered dictionaries, and generic lemmas about all
  of these.

  Conventions.  Python's unbounded integers are \<open>int\<close>; a byte string is a list of 8-bit
  words; a function that may raise returns \<open>exn + 'a\<close> with \<open>Inl\<close> for the exception, so that
  every raise is a branch of the model.  \<open>NoReturn\<close> is no exception of the
  program: it is the value of a loop that runs forever, so that termination is a claim to prove.
  Of a \<open>ValidationError\<close> the model keeps the stable code (\<open>core/errors.py\<close>) and drops the
  human-readable detail.
\<close>

section \<open>Exceptions and results\<close>

datatype exn =
    DecodeError
  | ValidationError string
  | ValueError
  | OverflowError
  | IndexError
  | KeyError
  | AssertionError
  | RuntimeError
  | IntegrityError
  | ZlibError
  | ChunkError
  | ChunkTooLarge
  | UnicodeDecodeError
  | UnicodeEncodeError
  | AttributeError
  | ZeroDivisionError
  | PaymentLinkError
  | WalletError
  | WrongPassword
  | TypeError
  | FileNotFoundError
  | StopIteration
  | ProtocolError bool
  | NoReturn

type_synonym 'a result = "exn + 'a"

named_theorems result_simps \<open>rewrite rules for computations that may raise\<close>

fun rbind :: "'a result \<Rightarrow> ('a \<Rightarrow> 'b result) \<Rightarrow> 'b result" where
  "rbind (Inl e) f = Inl e"
| "rbind (Inr x) f = f x"

lemma rbind_Inr_iff [result_simps]: "rbind m f = Inr y \<longleftrightarrow> (\<exists>x. m = Inr x \<and> f x = Inr y)"
  by (cases m) auto

lemma rbind_Inl_iff [result_simps]:
  "rbind m f = Inl e \<longleftrightarrow> m = Inl e \<or> (\<exists>x. m = Inr x \<and> f x = Inl e)"
  by (cases m) auto

lemma rbind_cong [fundef_cong]:
  "m = m' \<Longrightarrow> (\<And>x. m' = Inr x \<Longrightarrow> f x = g x) \<Longrightarrow> rbind m f = rbind m' g"
  by (cases m') auto

lemma rbind_assoc: "rbind (rbind m f) g = rbind m (\<lambda>x. rbind (f x) g)"
  by (cases m) auto

lemma if_Inl_eq_Inr [result_simps]: "(if b then Inl e else m) = Inr x \<longleftrightarrow> \<not> b \<and> m = Inr x"
  by simp

text \<open>\<open>try: ... except ...: pass\<close> around a computation whose value is kept when it succeeds.\<close>

definition result_or :: "'a \<Rightarrow> 'a result \<Rightarrow> 'a" where
  "result_or d m = (case m of Inl _ \<Rightarrow> d | Inr x \<Rightarrow> x)"

lemma result_or_simps [simp]: "result_or d (Inl e) = d" "result_or d (Inr x) = x"
  by (simp_all add: result_or_def)

section \<open>Loops whose body may raise\<close>

text \<open>\<open>for x in xs: body\<close> over a state the body updates; the first raise stops the loop.\<close>

fun for_each :: "('a \<Rightarrow> 's \<Rightarrow> 's result) \<Rightarrow> 'a list \<Rightarrow> 's \<Rightarrow> 's result" where
  "for_each f [] s = Inr s"
| "for_each f (x # xs) s = rbind (f x s) (for_each f xs)"

lemma for_each_append: "for_each f (xs @ ys) s = rbind (for_each f xs s) (for_each f ys)"
proof (induction xs arbitrary: s)
  case (Cons x xs)
  then show ?case by (cases "f x s") auto
qed simp

lemma for_each_invariant:
  assumes "for_each f xs s = Inr t" and "I s"
    and "\<And>x s t. x \<in> set xs \<Longrightarrow> f x s = Inr t \<Longrightarrow> I s \<Longrightarrow> I t"
  shows "I t"
  using assms by (induction xs arbitrary: s) (fastforce simp: result_simps)+

lemma for_each_cong [fundef_cong]:
  "xs = ys \<Longrightarrow> s = t \<Longrightarrow> (\<And>x s. x \<in> set ys \<Longrightarrow> f x s = g x s) \<Longrightarrow> for_each f xs s = for_each g ys t"
proof (induction xs arbitrary: ys s t)
  case (Cons x xs)
  have "rbind (f x s) (for_each f xs) = rbind (g x s) (for_each g xs)"
    by (rule rbind_cong) (use Cons in auto)
  with Cons.prems show ?case by auto
qed simp

text \<open>A loop simulates another one through an abstraction of the state when its body does.\<close>

definition rmap :: "('a \<Rightarrow> 'b) \<Rightarrow> 'a result \<Rightarrow> 'b result" where
  "rmap f m = rbind m (\<lambda>x. Inr (f x))"

lemma rmap_simps [simp]: "rmap f (Inl e) = Inl e" "rmap f (Inr x) = Inr (f x)"
  by (simp_all add: rmap_def)

lemma rmap_Inr_iff [result_simps]: "rmap f m = Inr y \<longleftrightarrow> (\<exists>x. m = Inr x \<and> y = f x)"
  by (cases m) auto

lemma rmap_rbind: "rmap f (rbind m g) = rbind m (\<lambda>x. rmap f (g x))"
  by (cases m) auto

lemma for_each_refine:
  assumes "\<And>x s. x \<in> set xs \<Longrightarrow> I s \<Longrightarrow> rmap al (f x s) = g x (al s)"
    and "\<And>x s t. x \<in> set xs \<Longrightarrow> I s \<Longrightarrow> f x s = Inr t \<Longrightarrow> I t" and "I s"
  shows "rmap al (for_each f xs s) = for_each g xs (al s)"
  using assms
proof (induction xs arbitrary: s)
  case (Cons x xs)
  from Cons.prems(1) [of x s] Cons.prems(3) have eq: "g x (al s) = rmap al (f x s)" by simp
  show ?case
  proof (cases "f x s")
    case (Inr t)
    then have "I t" using Cons.prems(2) [of x s t] Cons.prems(3) by simp
    have "rmap al (for_each f xs t) = for_each g xs (al t)"
      by (rule Cons.IH [OF Cons.prems(1) Cons.prems(2) \<open>I t\<close>]) simp_all
    with Inr eq show ?thesis by simp
  qed (simp add: eq)
qed simp

text \<open>\<open>for x in xs: check(x)\<close> where \<open>check\<close> only raises or returns.\<close>

fun check_each :: "('a \<Rightarrow> unit result) \<Rightarrow> 'a list \<Rightarrow> unit result" where
  "check_each f [] = Inr ()"
| "check_each f (x # xs) = rbind (f x) (\<lambda>_. check_each f xs)"

lemma check_each_Inr [result_simps]: "check_each f xs = Inr u \<longleftrightarrow> (\<forall>x\<in>set xs. f x = Inr ())"
  by (induction xs) (auto simp: result_simps)

lemma check_each_Inl: "check_each f xs = Inl e \<Longrightarrow> \<exists>x\<in>set xs. f x = Inl e"
  by (induction xs) (auto simp: result_simps)

text \<open>\<open>[f(x) for x in xs]\<close> where \<open>f\<close> may raise.\<close>

fun map_each :: "('a \<Rightarrow> 'b result) \<Rightarrow> 'a list \<Rightarrow> 'b list result" where
  "map_each f [] = Inr []"
| "map_each f (x # xs) = rbind (f x) (\<lambda>y. rbind (map_each f xs) (\<lambda>ys. Inr (y # ys)))"

lemma map_each_Inr [result_simps]: "map_each f xs = Inr ys \<longleftrightarrow> list_all2 (\<lambda>x y. f x = Inr y) xs ys"
  by (induction xs arbitrary: ys) (auto simp: result_simps list_all2_Cons1)

lemma map_each_all_Inr: "(\<And>x. x \<in> set xs \<Longrightarrow> f x = Inr (g x)) \<Longrightarrow> map_each f xs = Inr (map g xs)"
  by (induction xs) auto

section \<open>Loops that may not end\<close>

text \<open>\<open>while True: step\<close>: the step continues with a new state (\<open>Inl\<close>) or ends the loop with what the loop
  gives (\<open>Inr\<close>, itself a result that may have raised).\<close>

partial_function (option) loop_forever :: "('s \<Rightarrow> 's + 'r) \<Rightarrow> 's \<Rightarrow> 'r option" where
  "loop_forever step s = (case step s of Inl s' \<Rightarrow> loop_forever step s' | Inr r \<Rightarrow> Some r)"

declare loop_forever.simps [code]

definition run_loop :: "('s \<Rightarrow> 's + 'a result) \<Rightarrow> 's \<Rightarrow> 'a result" where
  "run_loop step s = (case loop_forever step s of None \<Rightarrow> Inl NoReturn | Some r \<Rightarrow> r)"

lemma run_loop_unfold: "run_loop step s = (case step s of Inl s' \<Rightarrow> run_loop step s' | Inr r \<Rightarrow> r)"
  unfolding run_loop_def by (subst loop_forever.simps) (simp split: sum.splits)

text \<open>A body that may raise: \<open>step\<close> gives the state to continue with or the final value.\<close>

definition try_step :: "('s + 'a) result \<Rightarrow> 's + 'a result" where
  "try_step m = (case m of Inl e \<Rightarrow> Inr (Inl e) | Inr (Inl s) \<Rightarrow> Inl s | Inr (Inr x) \<Rightarrow> Inr (Inr x))"

lemma try_step_simps [simp]:
  "try_step (Inl e) = Inr (Inl e)" "try_step (Inr (Inl s)) = Inl s" "try_step (Inr (Inr x)) = Inr (Inr x)"
  by (simp_all add: try_step_def)

section \<open>Bytes and big-endian integers\<close>

type_synonym byte = "8 word"
type_synonym bytes = "byte list"

text \<open>\<open>int.from_bytes(data, "big")\<close>, and the big-endian digits that \<open>to_bytes\<close> produces when the
  value fits.\<close>

definition from_be :: "bytes \<Rightarrow> int" where
  "from_be bs = foldl (\<lambda>n b. n * 256 + uint b) 0 bs"

fun to_be :: "nat \<Rightarrow> int \<Rightarrow> bytes" where
  "to_be 0 v = []"
| "to_be (Suc n) v = to_be n (v div 256) @ [word_of_int v]"

text \<open>\<open>value.to_bytes(size, "big")\<close> with its \<open>OverflowError\<close>.\<close>

definition to_bytes :: "int \<Rightarrow> nat \<Rightarrow> bytes result" where
  "to_bytes v n = (if v < 0 \<or> v \<ge> 256 ^ n then Inl OverflowError else Inr (to_be n v))"

lemma length_to_be [simp]: "length (to_be n v) = n"
  by (induction n arbitrary: v) auto

lemma last_to_be: "0 < n \<Longrightarrow> last (to_be n v) = word_of_int v"
  by (cases n) simp_all

lemma to_be_Nil_iff [simp]: "to_be n v = [] \<longleftrightarrow> n = 0"
  by (metis length_0_conv length_to_be)

lemma from_be_Nil [simp]: "from_be [] = 0"
  by (simp add: from_be_def)

lemma from_be_snoc [simp]: "from_be (bs @ [b]) = from_be bs * 256 + uint b"
  by (simp add: from_be_def)

lemma from_be_nonneg [simp]: "0 \<le> from_be bs"
  by (induction bs rule: rev_induct) auto

lemma from_be_bound: "from_be bs < 256 ^ length bs"
proof (induction bs rule: rev_induct)
  case (snoc b bs)
  have "uint b \<le> 255"
    using uint_lt2p [of b] by simp
  moreover have "from_be bs + 1 \<le> 256 ^ length bs"
    using snoc.IH by simp
  ultimately show ?case by simp
qed simp

lemma from_be_append: "from_be (xs @ ys) = from_be xs * 256 ^ length ys + from_be ys"
  by (induction ys rule: rev_induct) (simp_all flip: append_assoc add: algebra_simps)

lemma from_be_to_be_mod: "from_be (to_be n v) = v mod 256 ^ n"
proof (induction n arbitrary: v)
  case (Suc n)
  have "from_be (to_be (Suc n) v) = (v div 256) mod 256 ^ n * 256 + v mod 256"
    by (simp add: Suc.IH uint_word_of_int)
  also have "\<dots> = v mod (256 * 256 ^ n)"
    by (simp add: zmod_zmult2_eq)
  finally show ?case by simp
qed simp

lemma from_be_to_be [simp]: "0 \<le> v \<Longrightarrow> v < 256 ^ n \<Longrightarrow> from_be (to_be n v) = v"
  by (simp add: from_be_to_be_mod)

lemma to_be_from_be [simp]: "to_be (length bs) (from_be bs) = bs"
proof (induction bs rule: rev_induct)
  case (snoc b bs)
  have "(from_be bs * 256 + uint b) div 256 = from_be bs"
    using uint_lt2p [of b] by simp
  moreover have "word_of_int (from_be bs * 256 + uint b) = b"
  proof -
    have eq: "(256 :: byte) = 0" by simp
    have "(word_of_int (from_be bs * 256 + uint b) :: byte) = word_of_int (from_be bs) * 256 + b"
      by simp
    also have "\<dots> = b" by (simp only: eq mult_zero_right add_0)
    finally show ?thesis .
  qed
  ultimately show ?case using snoc.IH by simp
qed simp

lemma to_be_from_be': "length bs = n \<Longrightarrow> to_be n (from_be bs) = bs"
  by auto

lemma from_be_inject: "length xs = length ys \<Longrightarrow> from_be xs = from_be ys \<longleftrightarrow> xs = ys"
  by (metis to_be_from_be)

lemma to_be_inject:
  "0 \<le> v \<Longrightarrow> v < 256 ^ n \<Longrightarrow> 0 \<le> w \<Longrightarrow> w < 256 ^ n \<Longrightarrow> to_be n v = to_be n w \<longleftrightarrow> v = w"
  by (metis from_be_to_be)

section \<open>Insertion-ordered dictionaries\<close>

text \<open>
  A Python dictionary whose order matters is an association list with distinct keys:
  \<open>AList.update\<close> is \<open>d[k] = v\<close> (an existing key keeps its place), \<open>AList.delete\<close> is
  \<open>d.pop(k, None)\<close>.  \<open>move_to_end\<close> is \<open>OrderedDict.move_to_end\<close>.
\<close>

definition move_to_end :: "'k \<Rightarrow> ('k \<times> 'v) list \<Rightarrow> ('k \<times> 'v) list" where
  "move_to_end k d =
     (case map_of d k of None \<Rightarrow> d | Some v \<Rightarrow> AList.delete k d @ [(k, v)])"

lemma map_of_move_to_end [simp]: "map_of (move_to_end k d) = map_of d"
proof (cases "map_of d k")
  case (Some v)
  have "map_of (AList.delete k d @ [(k, v)]) x = map_of d x" for x
    by (cases "x = k") (auto simp: map_add_def Some delete_conv split: option.splits)
  with Some show ?thesis by (auto simp: move_to_end_def)
qed (simp add: move_to_end_def)

lemma distinct_move_to_end: "distinct (map fst d) \<Longrightarrow> distinct (map fst (move_to_end k d))"
  by (auto simp: move_to_end_def distinct_delete delete_keys distinct_removeAll split: option.splits)

lemma length_update_new: "map_of d k = None \<Longrightarrow> AList.update k v d = d @ [(k, v)]"
  by (induction d) (auto split: if_splits)

section \<open>Lists\<close>

lemma sum_list_filter_split:
  fixes f :: "'a \<Rightarrow> int"
  shows "sum_list (map f xs) = sum_list (map f (filter P xs)) + sum_list (map f (filter (\<lambda>x. \<not> P x) xs))"
  by (induction xs) auto

lemma sum_list_nonneg_int: "(\<And>x. x \<in> set xs \<Longrightarrow> 0 \<le> x) \<Longrightarrow> 0 \<le> sum_list (xs :: int list)"
  by (induction xs) auto

lemma member_le_sum_list_int:
  "x \<in> set xs \<Longrightarrow> (\<And>y. y \<in> set xs \<Longrightarrow> 0 \<le> y) \<Longrightarrow> x \<le> sum_list (xs :: int list)"
  by (induction xs) (auto simp: sum_list_nonneg_int add_increasing add_increasing2)

end
