(* ===== verification/Base58.thy ===== *)
theory Base58
  imports Prelude
begin

text \<open>
  \<open>crypto/base58.py\<close>: Bitcoin-style base58.  Decoding and encoding are shown to be inverse to each
  other in both directions, leading zero bytes included, so that a byte string has exactly one
  base58 text.
\<close>

definition ALPHABET :: string where
  "ALPHABET = ''123456789ABCDEFGHJKLMNPQRSTUVWXYZabcdefghijkmnopqrstuvwxyz''"

definition char_index :: "char \<Rightarrow> int option" where
  "char_index c = map_of (zip ALPHABET (map int [0..<58])) c"

text \<open>The \<open>while number:\<close> loop; \<open>digits\<close> is built least significant digit first.\<close>

function digits_loop :: "int \<Rightarrow> string \<Rightarrow> string" where
  "digits_loop number digits =
     (if number > 0 then digits_loop (number div 58) (digits @ [ALPHABET ! nat (number mod 58)])
      else digits)"
  by pat_completeness auto
termination
  by (relation "measure (\<lambda>(n, _). nat n)") auto

declare digits_loop.simps [simp del]

definition b58encode :: "bytes \<Rightarrow> string" where
  "b58encode data =
     (let leading_zeros = length data - length (dropWhile (\<lambda>b. b = 0) data)
      in replicate leading_zeros CHR ''1'' @ rev (digits_loop (from_be data) []))"

function bit_length :: "int \<Rightarrow> nat" where
  "bit_length n = (if n > 0 then Suc (bit_length (n div 2)) else 0)"
  by pat_completeness auto
termination
  by (relation "measure nat") auto

declare bit_length.simps [simp del]

definition decode_number :: "string \<Rightarrow> int result" where
  "decode_number text =
     for_each (\<lambda>c n. case char_index c of None \<Rightarrow> Inl ValueError | Some i \<Rightarrow> Inr (n * 58 + i)) text 0"

definition b58decode :: "string \<Rightarrow> bytes result" where
  "b58decode text =
     rbind (decode_number text) (\<lambda>number.
       let leading_ones = length text - length (dropWhile (\<lambda>c. c = CHR ''1'') text);
           body = (if number \<noteq> 0 then to_be ((bit_length number + 7) div 8) number else [])
       in Inr (replicate leading_ones 0 @ body))"

section \<open>Digits\<close>

lemma length_ALPHABET: "length ALPHABET = 58"
  by (simp add: ALPHABET_def)

lemma distinct_ALPHABET: "distinct ALPHABET"
  by (simp add: ALPHABET_def)

lemma char_index_nth: "0 \<le> d \<Longrightarrow> d < 58 \<Longrightarrow> char_index (ALPHABET ! nat d) = Some d"
  unfolding char_index_def
  by (subst map_of_zip_nth) (auto simp: length_ALPHABET distinct_ALPHABET)

lemma char_index_Some: "char_index c = Some d \<Longrightarrow> 0 \<le> d \<and> d < 58 \<and> c = ALPHABET ! nat d"
  unfolding char_index_def
  by (auto dest!: map_of_SomeD simp: in_set_zip length_ALPHABET)

lemma char_index_1: "char_index c = Some 0 \<longleftrightarrow> c = CHR ''1''"
  using char_index_nth [of 0] char_index_Some [of c 0] by (auto simp: ALPHABET_def)

text \<open>Base-58 numerals, most significant digit first.\<close>

function b58_digits :: "int \<Rightarrow> string" where
  "b58_digits n = (if n > 0 then b58_digits (n div 58) @ [ALPHABET ! nat (n mod 58)] else [])"
  by pat_completeness auto
termination
  by (relation "measure nat") auto

declare b58_digits.simps [simp del]

lemma digits_loop_eq: "digits_loop n ds = ds @ rev (b58_digits n)"
proof (induction n ds rule: digits_loop.induct)
  case (1 n ds)
  then show ?case
    by (cases "n > 0") (simp_all add: digits_loop.simps [of n] b58_digits.simps [of n])
qed

lemma decode_number_append:
  "decode_number (s @ [c]) = rbind (decode_number s)
     (\<lambda>n. case char_index c of None \<Rightarrow> Inl ValueError | Some i \<Rightarrow> Inr (n * 58 + i))"
proof -
  have "for_each f [c] = f c" for f :: "char \<Rightarrow> int \<Rightarrow> int result"
    by (rule ext) (metis for_each.simps rbind.elims)
  then show ?thesis by (simp add: decode_number_def for_each_append)
qed

lemma decode_number_Nil [simp]: "decode_number [] = Inr 0"
  by (simp add: decode_number_def)

lemma decode_b58_digits: "0 \<le> n \<Longrightarrow> decode_number (b58_digits n) = Inr n"
proof (induction n rule: b58_digits.induct)
  case (1 n)
  then show ?case
    by (cases "n > 0") (simp_all add: b58_digits.simps [of n] decode_number_append char_index_nth b58_digits.simps [of 0])
qed

lemma hd_b58_digits: "0 < n \<Longrightarrow> b58_digits n \<noteq> [] \<and> hd (b58_digits n) \<noteq> CHR ''1''"
proof (induction n rule: b58_digits.induct)
  case (1 n)
  show ?case
  proof (cases "n div 58 > 0")
    case True
    with 1 show ?thesis by (simp add: b58_digits.simps [of n] hd_append)
  next
    case False
    then have n: "n < 58" using "1.prems" by simp
    with "1.prems" have "b58_digits n = [ALPHABET ! nat n]"
      by (simp add: b58_digits.simps [of n] b58_digits.simps [of 0])
    moreover have "ALPHABET ! nat n \<noteq> CHR ''1''"
      using char_index_nth [of n] char_index_1 [of "ALPHABET ! nat n"] n "1.prems" by auto
    ultimately show ?thesis by simp
  qed
qed

lemma decode_number_ones: "decode_number (replicate k CHR ''1'' @ s) = decode_number s"
proof -
  have "decode_number (replicate k CHR ''1'') = Inr 0"
  proof (induction k)
    case (Suc k)
    have "char_index CHR ''1'' = Some 0" by (simp add: char_index_1)
    with Suc show ?case
      using decode_number_append [of "replicate k CHR ''1''" "CHR ''1''"]
      by (simp add: replicate_append_same)
  qed simp
  then show ?thesis by (simp add: decode_number_def for_each_append)
qed

lemma decode_number_nonneg: "decode_number t = Inr n \<Longrightarrow> 0 \<le> n"
proof (induction t arbitrary: n rule: rev_induct)
  case (snoc c t)
  from snoc.prems obtain m i where "decode_number t = Inr m" "char_index c = Some i" "n = m * 58 + i"
    by (auto simp: decode_number_append result_simps split: option.splits)
  with snoc.IH char_index_Some [of c i] show ?case by simp
qed simp

lemma b58_digits_decode:
  "decode_number t = Inr n \<Longrightarrow> t = [] \<or> hd t \<noteq> CHR ''1'' \<Longrightarrow> b58_digits n = t"
proof (induction t arbitrary: n rule: rev_induct)
  case Nil
  then show ?case by (simp add: b58_digits.simps)
next
  case (snoc c t)
  from snoc.prems(1) obtain m i where m: "decode_number t = Inr m" and i: "char_index c = Some i" and n: "n = m * 58 + i"
    by (auto simp: decode_number_append result_simps split: option.splits)
  note ic = char_index_Some [OF i]
  from snoc.prems(2) have "t = [] \<or> hd t \<noteq> CHR ''1''" by (cases t) auto
  then have t: "b58_digits m = t" using snoc.IH [OF m] by blast
  have "0 < n"
  proof (cases "t = []")
    case True
    then have "i \<noteq> 0" using snoc.prems(2) i char_index_1 [of c] by auto
    with n ic decode_number_nonneg [OF m] show ?thesis by linarith
  next
    case False
    then have "m > 0" using t by (cases "m > 0") (simp_all add: b58_digits.simps [of m])
    with n ic show ?thesis by simp
  qed
  moreover have "n div 58 = m" "n mod 58 = i" using n ic by simp_all
  ultimately show ?case using ic t by (simp add: b58_digits.simps [of n])
qed

lemma length_b58_digits: "n < 58 ^ k \<Longrightarrow> length (b58_digits n) \<le> k"
proof (induction k arbitrary: n)
  case 0
  then show ?case by (simp add: b58_digits.simps)
next
  case (Suc k)
  then have "length (b58_digits (n div 58)) \<le> k" by (intro Suc.IH) auto
  then show ?case by (simp add: b58_digits.simps [of n])
qed

section \<open>Minimal byte length\<close>

lemma bit_length_bounds: "0 < n \<Longrightarrow> 2 ^ (bit_length n - 1) \<le> n \<and> n < 2 ^ bit_length n \<and> 0 < bit_length n"
proof (induction n rule: bit_length.induct)
  case (1 n)
  show ?case
  proof (cases "n div 2 > 0")
    case True
    with "1.IH" "1.prems" have IH: "2 ^ (bit_length (n div 2) - 1) \<le> n div 2" "n div 2 < 2 ^ bit_length (n div 2)"
        "0 < bit_length (n div 2)" by auto
    then have "2 * 2 ^ (bit_length (n div 2) - 1) \<le> n" "n < 2 * 2 ^ bit_length (n div 2)" by linarith+
    with IH(3) "1.prems" show ?thesis
      by (simp add: bit_length.simps [of n] flip: power_Suc)
  next
    case False
    with "1.prems" have "n = 1" by linarith
    then show ?thesis by (simp add: bit_length.simps [of 1] bit_length.simps [of 0])
  qed
qed

lemma byte_length:
  assumes "256 ^ k \<le> n" "n < 256 ^ Suc k"
  shows "(bit_length n + 7) div 8 = Suc k"
proof -
  have "0 < n" using assms(1) by (rule less_le_trans [rotated]) simp
  note b = bit_length_bounds [OF this]
  have pow: "(256 :: int) ^ j = 2 ^ (8 * j)" for j by (simp add: power_mult)
  have "(2 :: int) ^ (8 * k) < 2 ^ bit_length n" using b assms(1) unfolding pow by linarith
  then have "8 * k < bit_length n" by simp
  moreover have "(2 :: int) ^ (bit_length n - 1) < 2 ^ (8 * Suc k)"
    using b assms(2) unfolding pow by (meson le_less_trans)
  then have "bit_length n - 1 < 8 * Suc k" by (rule power_less_imp_less_exp [rotated]) simp
  ultimately show ?thesis by auto
qed

lemma from_be_Cons: "from_be (b # bs) = uint b * 256 ^ length bs + from_be bs"
  using from_be_append [of "[b]" bs] by (simp add: from_be_def)

lemma from_be_leading: "bs \<noteq> [] \<Longrightarrow> hd bs \<noteq> 0 \<Longrightarrow> 256 ^ (length bs - 1) \<le> from_be bs"
proof (cases bs)
  case (Cons b cs)
  assume "hd bs \<noteq> 0"
  then have "1 \<le> uint b" using Cons by (simp add: uint_0_iff order.strict_iff_order int_one_le_iff_zero_less)
  then have "1 * 256 ^ length cs \<le> uint b * 256 ^ length cs" by (intro mult_right_mono) auto
  then have "256 ^ length cs \<le> uint b * 256 ^ length cs + from_be cs"
    using from_be_nonneg [of cs] by linarith
  then show ?thesis by (simp add: Cons from_be_Cons)
qed simp

lemma to_be_minimal:
  assumes "bs = [] \<or> hd bs \<noteq> 0"
  shows "(if from_be bs \<noteq> 0 then to_be ((bit_length (from_be bs) + 7) div 8) (from_be bs) else []) = bs"
proof (cases "bs = []")
  case False
  then obtain k where k: "length bs = Suc k" by (cases bs) auto
  have "256 ^ k \<le> from_be bs" using from_be_leading [of bs] False assms k by simp
  moreover have "from_be bs < 256 ^ Suc k" using from_be_bound [of bs] k by simp
  ultimately have "(bit_length (from_be bs) + 7) div 8 = length bs" "from_be bs \<noteq> 0"
    using byte_length [of k "from_be bs"] k by (auto simp: order.strict_iff_order)
  then show ?thesis by simp
qed simp

lemma hd_to_be_minimal:
  assumes "0 < n"
  shows "to_be ((bit_length n + 7) div 8) n \<noteq> []" and "hd (to_be ((bit_length n + 7) div 8) n) \<noteq> 0"
    and "from_be (to_be ((bit_length n + 7) div 8) n) = n"
proof -
  note b = bit_length_bounds [OF assms]
  let ?L = "(bit_length n + 7) div 8"
  have L: "bit_length n \<le> 8 * ?L" "8 * (?L - 1) < bit_length n" "0 < ?L" using b by auto
  have "n < 2 ^ (8 * ?L)"
    using b L(1) by (meson less_le_trans one_le_numeral power_increasing)
  then show eq: "from_be (to_be ?L n) = n" using assms by (simp add: power_mult)
  show ne: "to_be ?L n \<noteq> []" using L(3) by (metis length_to_be length_0_conv less_irrefl)
  show "hd (to_be ?L n) \<noteq> 0"
  proof
    assume "hd (to_be ?L n) = 0"
    with ne obtain cs where cs: "to_be ?L n = 0 # cs" by (cases "to_be ?L n") auto
    then have "length cs = ?L - 1" by (metis length_to_be length_Cons diff_Suc_1)
    with from_be_bound [of cs] eq cs have "n < 256 ^ (?L - 1)" by (simp add: from_be_Cons)
    also have "(256 :: int) ^ (?L - 1) = 2 ^ (8 * (?L - 1))" by (simp add: power_mult)
    also have "\<dots> \<le> 2 ^ (bit_length n - 1)" using L(2) by (intro power_increasing) auto
    also have "\<dots> \<le> n" using b by simp
    finally show False by simp
  qed
qed

section \<open>Base58 is a bijection\<close>

lemma split_leading: "xs = replicate (length xs - length (dropWhile (\<lambda>x. x = a) xs)) a @ dropWhile (\<lambda>x. x = a) xs"
proof (induction xs)
  case (Cons x xs)
  have "length (dropWhile (\<lambda>x. x = a) xs) \<le> length xs" by (rule length_dropWhile_le)
  with Cons show ?case by (auto simp: Suc_diff_le)
qed simp

lemma hd_dropWhile_eq: "dropWhile (\<lambda>x. x = a) xs = [] \<or> hd (dropWhile (\<lambda>x. x = a) xs) \<noteq> a"
  using hd_dropWhile [of "\<lambda>x. x = a" xs] by blast

lemma dropWhile_replicate_append: "ys = [] \<or> hd ys \<noteq> a \<Longrightarrow> dropWhile (\<lambda>x. x = a) (replicate k a @ ys) = ys"
  by (induction k) (auto simp: dropWhile_eq_self_iff)

lemma from_be_zeros: "from_be (replicate k 0 @ bs) = from_be bs"
  by (induction k) (simp_all add: from_be_Cons)

definition b58_text :: "nat \<Rightarrow> bytes \<Rightarrow> string" where
  "b58_text k body = replicate k CHR ''1'' @ b58_digits (from_be body)"

lemma b58encode_text:
  "body = [] \<or> hd body \<noteq> 0 \<Longrightarrow> b58encode (replicate k 0 @ body) = b58_text k body"
  by (simp add: b58encode_def b58_text_def dropWhile_replicate_append from_be_zeros digits_loop_eq)

lemma b58_digits_leading: "b58_digits n = [] \<or> hd (b58_digits n) \<noteq> CHR ''1''"
  using hd_b58_digits [of n] by (cases "0 < n") (auto simp: b58_digits.simps [of n])

lemma b58decode_text:
  "body = [] \<or> hd body \<noteq> 0 \<Longrightarrow> b58decode (b58_text k body) = Inr (replicate k 0 @ body)"
  using to_be_minimal [of body] b58_digits_leading [of "from_be body"]
  by (simp add: b58decode_def b58_text_def decode_number_ones decode_b58_digits dropWhile_replicate_append)

text \<open>Decoding the text of any byte string gives that byte string back, leading zero bytes included.\<close>

lemma b58decode_encode: "b58decode (b58encode data) = Inr data"
  using split_leading [of data 0] hd_dropWhile_eq [of 0 data] b58encode_text b58decode_text by metis

text \<open>Conversely every text that decodes is the encoding of what it decodes to.\<close>

lemma b58encode_b58decode:
  assumes "b58decode t = Inr data"
  shows "b58encode data = t"
proof -
  define k where "k = length t - length (dropWhile (\<lambda>c. c = CHR ''1'') t)"
  define u where "u = dropWhile (\<lambda>c. c = CHR ''1'') t"
  have t: "t = replicate k CHR ''1'' @ u" and u: "u = [] \<or> hd u \<noteq> CHR ''1''"
    unfolding k_def u_def by (rule split_leading, rule hd_dropWhile_eq)
  from assms obtain n where n: "decode_number t = Inr n"
    and d: "data = replicate k 0 @ (if n \<noteq> 0 then to_be ((bit_length n + 7) div 8) n else [])"
    by (auto simp: b58decode_def result_simps Let_def k_def)
  have n0: "0 \<le> n" by (rule decode_number_nonneg [OF n])
  have "b58_digits n = u" using n u t by (intro b58_digits_decode) (simp_all add: decode_number_ones)
  with n0 d t show ?thesis
    by (cases "n = 0") (simp_all add: b58encode_text b58_text_def hd_to_be_minimal b58encode_text [of "[]", simplified])
qed

text \<open>C4. Base58 texts and byte strings correspond one to one, leading zero bytes included: a text decodes
  to a byte string exactly when it is the encoding of it; every other text is refused.\<close>

theorem b58decode_b58encode: "b58decode t = Inr data \<longleftrightarrow> t = b58encode data"
  using b58encode_b58decode b58decode_encode by metis

lemma length_b58encode: "length data \<le> 25 \<Longrightarrow> length (b58encode data) \<le> 40"
proof -
  assume len: "length data \<le> 25"
  define k where "k = length data - length (dropWhile (\<lambda>b. b = 0) data)"
  define body where "body = dropWhile (\<lambda>b. b = 0) data"
  have d: "data = replicate k 0 @ body" and b: "body = [] \<or> hd body \<noteq> 0"
    unfolding k_def body_def by (rule split_leading, rule hd_dropWhile_eq)
  let ?m = "length body"
  have m: "?m \<le> 25" "k \<le> 25 - ?m" using len d by (auto dest: arg_cong [where f = length])
  have "from_be body < 256 ^ ?m" by (rule from_be_bound)
  also have "(256 :: int) ^ ?m \<le> 58 ^ (?m + (?m * 2 + 4) div 5)"
  proof -
    have "\<forall>i\<in>set [0..<26]. (256 :: int) ^ i \<le> 58 ^ (i + (i * 2 + 4) div 5)"
      by (simp add: upt_rec)
    with m show ?thesis by auto
  qed
  finally have "length (b58_digits (from_be body)) \<le> ?m + (?m * 2 + 4) div 5"
    by (rule length_b58_digits)
  with m have "k + length (b58_digits (from_be body)) \<le> 40" by linarith
  then show ?thesis unfolding d b58encode_text [OF b] by (simp add: b58_text_def)
qed

end
