(* ===== verification/Hashing.thy ===== *)
theory Hashing
  imports Prelude
begin

text \<open>
  \<open>core/hashing.py\<close>: SHA-256 and the Merkle root.  The record \<open>prims\<close> holds the functions of
  libraries the program calls (OpenSSL's SHA-256 through hashlib, libsodium's Ed25519 and Argon2id
  through PyNaCl, zlib); it is the first argument of every definition that uses one of them.  The loop
  of the source, which hashes level by level from the leaves up, is shown to compute the root that
  RFC 6962 defines top down, and two leaf lists with one root are shown to exhibit a collision
  of the hash function among the strings that were hashed.
\<close>

record prims =
  hash256 :: "bytes \<Rightarrow> bytes"
  pub_of :: "bytes \<Rightarrow> bytes"
  ed_sign :: "bytes \<Rightarrow> bytes \<Rightarrow> bytes"
  ed_verify :: "bytes \<Rightarrow> bytes \<Rightarrow> bytes \<Rightarrow> bool"
  argon2id :: "bytes \<Rightarrow> bytes \<Rightarrow> int \<Rightarrow> int \<Rightarrow> bytes"
  zcompress :: "bytes \<Rightarrow> bytes"
  zdecompress :: "bytes \<Rightarrow> int \<Rightarrow> (bytes \<times> bytes \<times> bool \<times> bytes) result"

definition sha256 :: "prims \<Rightarrow> bytes \<Rightarrow> bytes" where
  "sha256 P data = hash256 P data"

text \<open>SHA-256 digests have 32 bytes (FIPS 180-4).\<close>

definition digest32 :: "prims \<Rightarrow> bool" where
  "digest32 P \<longleftrightarrow> (\<forall>d. length (hash256 P d) = 32)"

lemma length_sha256: "digest32 P \<Longrightarrow> length (sha256 P d) = 32"
  by (simp add: digest32_def sha256_def)

text \<open>Toy functions with the shape of the real ones, at which the hypotheses of theorems are shown to
  hold: a digest that is the last bytes of its input in reverse, a signature that is the same for
  every message and accepted only in this form, a proof-of-work hash of one byte, and a
  compression that only adds a leading byte.\<close>

definition example_prims :: prims where
  "example_prims = \<lparr>hash256 = \<lambda>d. take 32 (rev d @ replicate 32 0), pub_of = \<lambda>k. take 32 (k @ replicate 32 5),
     ed_sign = \<lambda>k m. replicate 64 1, ed_verify = \<lambda>k m s. s = replicate 64 1,
     argon2id = \<lambda>d s i m. [255 - last d],
     zcompress = \<lambda>d. 120 # d, zdecompress = \<lambda>d n. Inr (tl d, [], True, [])\<rparr>"

lemma digest32_example: "digest32 example_prims"
  by (auto simp: digest32_def example_prims_def min_def)

lemma example_digest_hd: "d \<noteq> [] \<Longrightarrow> hd (sha256 example_prims d) = last d"
  by (simp add: sha256_def example_prims_def hd_append hd_rev)

section \<open>The Merkle root, level by level\<close>

text \<open>One round of the loop: \<open>range(0, len(level) - 1, 2)\<close> are the even indices below
  \<open>len(level) - 1\<close>; an odd last node is carried up.\<close>

definition paired :: "prims \<Rightarrow> bytes list \<Rightarrow> bytes list" where
  "paired P level =
     map (\<lambda>i. sha256 P ([1] @ level ! i @ level ! (i + 1))) (filter even [0..<length level - 1])"

definition next_level :: "prims \<Rightarrow> bytes list \<Rightarrow> bytes list" where
  "next_level P level =
     paired P level @ (if odd (length level) then [last level] else [])"

lemma filter_even_upt: "filter even [0..<n] = map ((*) 2) [0..<(n + 1) div 2]"
proof (induction n)
  case (Suc n)
  then show ?case by (cases "even n") auto
qed simp

lemma paired_alt:
  "paired P level = map (\<lambda>i. sha256 P ([1] @ level ! (2 * i) @ level ! (2 * i + 1))) [0..<length level div 2]"
proof -
  have "(length level - 1 + 1) div 2 = length level div 2" by (cases level) auto
  then show ?thesis unfolding paired_def filter_even_upt by (simp add: comp_def)
qed

lemma length_paired [simp]: "length (paired P level) = length level div 2"
  by (simp add: paired_alt)

lemma length_next_level [simp]: "length (next_level P level) = (length level + 1) div 2"
  by (simp add: next_level_def)

function merkle_loop :: "prims \<Rightarrow> bytes list \<Rightarrow> bytes list" where
  "merkle_loop P level =
     (if length level > 1 then merkle_loop P (next_level P level) else level)"
  by pat_completeness auto
termination
  by (relation "measure (\<lambda>(P, level). length level)") auto

declare merkle_loop.simps [simp del]

definition leaf_hash :: "prims \<Rightarrow> bytes \<Rightarrow> bytes" where
  "leaf_hash P leaf = sha256 P ([0] @ leaf)"

definition merkle_root :: "prims \<Rightarrow> bytes list \<Rightarrow> bytes result" where
  "merkle_root P leaves =
     (if leaves = [] then Inl ValueError
      else Inr (hd (merkle_loop P (map (leaf_hash P) leaves))))"

section \<open>The Merkle tree hash of RFC 6962\<close>

text \<open>The largest power of two below \<open>n\<close>, for \<open>n > 1\<close>.\<close>

fun split_point :: "nat \<Rightarrow> nat" where
  "split_point n = (if n \<le> 2 then 1 else 2 * split_point ((n + 1) div 2))"

declare split_point.simps [simp del]

lemma split_point_bounds: "1 < n \<Longrightarrow> 0 < split_point n \<and> split_point n < n \<and> n \<le> 2 * split_point n"
proof (induction n rule: split_point.induct)
  case (1 n)
  show ?case
  proof (cases "n \<le> 2")
    case True
    with "1.prems" show ?thesis by (simp add: split_point.simps [of n])
  next
    case False
    let ?m = "(n + 1) div 2"
    from False have "0 < split_point ?m \<and> split_point ?m < ?m \<and> ?m \<le> 2 * split_point ?m"
      by (intro "1.IH") auto
    moreover have "split_point n = 2 * split_point ?m"
      using False by (simp add: split_point.simps [of n])
    ultimately show ?thesis by linarith
  qed
qed

lemma split_point_pos: "1 < n \<Longrightarrow> 0 < split_point n"
  and split_point_less: "1 < n \<Longrightarrow> split_point n < n"
  using split_point_bounds by auto

lemma split_point_pow2: "\<exists>k. split_point n = 2 ^ k"
proof (induction n rule: split_point.induct)
  case (1 n)
  show ?case
  proof (cases "n \<le> 2")
    case True
    then show ?thesis by (intro exI [of _ 0]) (simp add: split_point.simps [of n])
  next
    case False
    then obtain k where "split_point ((n + 1) div 2) = 2 ^ k" using "1.IH" by blast
    with False show ?thesis by (intro exI [of _ "Suc k"]) (simp add: split_point.simps [of n])
  qed
qed

text \<open>The hash of a list of nodes, and of a list of leaves.\<close>

function tree_hash :: "prims \<Rightarrow> bytes list \<Rightarrow> bytes" where
  "tree_hash P nodes =
     (if length nodes \<le> 1 then hd nodes
      else let k = split_point (length nodes)
           in sha256 P ([1] @ tree_hash P (take k nodes) @ tree_hash P (drop k nodes)))"
  by pat_completeness auto
termination
  by (relation "measure (\<lambda>(P, nodes). length nodes)")
     (auto simp: not_le split_point_less split_point_pos intro!: diff_less)

declare tree_hash.simps [simp del]

definition rfc6962_root :: "prims \<Rightarrow> bytes list \<Rightarrow> bytes" where
  "rfc6962_root P leaves = tree_hash P (map (leaf_hash P) leaves)"

lemma tree_hash_single [simp]: "tree_hash P [x] = x"
  by (simp add: tree_hash.simps)

lemma tree_hash_split:
  "1 < length xs \<Longrightarrow> tree_hash P xs =
     sha256 P ([1] @ tree_hash P (take (split_point (length xs)) xs)
                   @ tree_hash P (drop (split_point (length xs)) xs))"
  by (simp add: tree_hash.simps [of P xs] Let_def)

section \<open>The loop computes the tree hash\<close>

lemma next_level_single [simp]: "next_level P [x] = [x]"
  by (simp add: next_level_def paired_alt)

lemma next_level_append:
  assumes "even (length xs)"
  shows "next_level P (xs @ ys) = next_level P xs @ next_level P ys"
proof -
  obtain m where m: "length xs = 2 * m" using assms by (auto elim: evenE)
  have "[0..<m + length ys div 2] = [0..<m] @ [m..<m + length ys div 2]"
    by (rule upt_add_eq_append) simp
  also have "[m..<m + length ys div 2] = map (\<lambda>i. i + m) [0..<length ys div 2]"
    by (simp add: map_add_upt add.commute)
  finally have split: "[0..<m + length ys div 2] = [0..<m] @ map (\<lambda>i. i + m) [0..<length ys div 2]" .
  have "paired P (xs @ ys) = paired P xs @ paired P ys"
    by (simp add: paired_alt m split nth_append comp_def del: upt_Suc)
  moreover have "last (xs @ ys) = last ys" if "odd (length ys)"
    using that by (cases ys) auto
  ultimately show ?thesis using assms by (auto simp: next_level_def)
qed

lemma tree_hash_next_level: "xs \<noteq> [] \<Longrightarrow> tree_hash P (next_level P xs) = tree_hash P xs"
proof (induction "length xs" arbitrary: xs rule: less_induct)
  case less
  consider "length xs = 1" | "length xs = 2" | "length xs > 2"
    using less.prems by (metis One_nat_def Suc_1 Suc_lessI length_greater_0_conv)
  then show ?case
  proof cases
    case 1
    then obtain x where "xs = [x]" by (auto simp: length_Suc_conv)
    then show ?thesis by simp
  next
    case 2
    then obtain x y where "xs = [x, y]" by (auto simp: length_Suc_conv numeral_2_eq_2)
    then show ?thesis
      by (simp add: next_level_def paired_alt tree_hash.simps [of P "[x, y]"] split_point.simps)
  next
    case 3
    let ?n = "length xs" and ?m = "(length xs + 1) div 2"
    let ?k = "split_point ?n" and ?j = "split_point ?m"
    have kj: "?k = 2 * ?j" using 3 by (simp add: split_point.simps [of ?n])
    have j: "0 < ?j" "?j < ?m" using split_point_bounds [of ?m] 3 by auto
    have k: "?k < ?n" "0 < ?k" using split_point_bounds [of ?n] 3 by auto
    let ?l = "take ?k xs" and ?r = "drop ?k xs"
    have "next_level P xs = next_level P (?l @ ?r)" by simp
    also have "\<dots> = next_level P ?l @ next_level P ?r"
      by (rule next_level_append) (use k kj in simp)
    finally have nl: "next_level P xs = next_level P ?l @ next_level P ?r" .
    have len: "length (next_level P ?l) = ?j" using k kj by simp
    have parts: "take ?j (next_level P xs) = next_level P ?l" "drop ?j (next_level P xs) = next_level P ?r"
      unfolding nl using len by auto
    have "tree_hash P (next_level P xs) =
        sha256 P ([1] @ tree_hash P (take ?j (next_level P xs)) @ tree_hash P (drop ?j (next_level P xs)))"
      using j tree_hash_split [of "next_level P xs" P] unfolding length_next_level by linarith
    also note parts(1)
    also note parts(2)
    also have "tree_hash P (next_level P ?l) = tree_hash P ?l"
      by (rule less.hyps) (use k in auto)
    also have "tree_hash P (next_level P ?r) = tree_hash P ?r"
      by (rule less.hyps) (use k in auto)
    also have "sha256 P ([1] @ tree_hash P ?l @ tree_hash P ?r) = tree_hash P xs"
      using 3 by (simp add: tree_hash_split)
    finally show ?thesis .
  qed
qed

lemma merkle_loop_tree: "xs \<noteq> [] \<Longrightarrow> merkle_loop P xs = [tree_hash P xs]"
proof (induction P xs rule: merkle_loop.induct)
  case (1 P xs)
  show ?case
  proof (cases "length xs > 1")
    case True
    then have "0 < length (next_level P xs)" by simp
    then have "next_level P xs \<noteq> []" by (rule length_greater_0_conv [THEN iffD1])
    with True "1.IH" show ?thesis
      by (simp add: merkle_loop.simps [of P xs] tree_hash_next_level [OF "1.prems"])
  next
    case False
    with "1.prems" obtain x where "xs = [x]" by (cases xs) auto
    then show ?thesis by (simp add: merkle_loop.simps)
  qed
qed

text \<open>C1. The bottom-up loop of \<open>merkle_root\<close>, which hashes neighbours in pairs and carries an odd
  last node up, returns exactly the RFC 6962 root of the leaves, the recursive definition that
  splits at the largest power of two below the number of leaves.\<close>

theorem merkle_root_rfc6962:
  "merkle_root P leaves = (if leaves = [] then Inl ValueError else Inr (rfc6962_root P leaves))"
  by (simp add: merkle_root_def rfc6962_root_def merkle_loop_tree)

section \<open>Equal roots exhibit a collision\<close>

text \<open>Every string that is hashed while the root of \<open>leaves\<close> is computed.\<close>

function hashed_nodes :: "prims \<Rightarrow> bytes list \<Rightarrow> bytes list" where
  "hashed_nodes P leaves =
     (if length leaves \<le> 1 then [[0] @ hd leaves]
      else let l = take (split_point (length leaves)) leaves; r = drop (split_point (length leaves)) leaves
           in ([1] @ rfc6962_root P l @ rfc6962_root P r) # hashed_nodes P l @ hashed_nodes P r)"
  by pat_completeness auto
termination
  by (relation "measure (\<lambda>(P, leaves). length leaves)")
     (auto simp: not_le split_point_less split_point_pos intro!: diff_less)

declare hashed_nodes.simps [simp del]

lemma rfc6962_root_hd: "leaves \<noteq> [] \<Longrightarrow> rfc6962_root P leaves = sha256 P (hd (hashed_nodes P leaves))"
proof (cases "length leaves \<le> 1")
  case True
  moreover assume "leaves \<noteq> []"
  ultimately obtain x where "leaves = [x]" by (cases leaves) auto
  then show ?thesis by (simp add: rfc6962_root_def hashed_nodes.simps leaf_hash_def)
next
  case False
  then show ?thesis
    by (simp add: rfc6962_root_def hashed_nodes.simps [of P leaves] Let_def take_map drop_map
        tree_hash_split)
qed

lemma hashed_nodes_nonempty: "hashed_nodes P leaves \<noteq> []"
  by (simp add: hashed_nodes.simps [of P leaves] Let_def)

lemma hd_hashed_nodes: "hd (hashed_nodes P zs) =
    (if length zs \<le> 1 then 0 # hd zs
     else 1 # rfc6962_root P (take (split_point (length zs)) zs)
            @ rfc6962_root P (drop (split_point (length zs)) zs))"
  by (simp add: hashed_nodes.simps [of P zs] Let_def)

lemma length_rfc6962_root: "digest32 P \<Longrightarrow> leaves \<noteq> [] \<Longrightarrow> length (rfc6962_root P leaves) = 32"
  by (simp add: rfc6962_root_hd length_sha256)

lemma collision_below:
  assumes "digest32 P" "xs \<noteq> []" "ys \<noteq> []" "rfc6962_root P xs = rfc6962_root P ys" "xs \<noteq> ys"
  shows "\<exists>a\<in>set (hashed_nodes P xs). \<exists>b\<in>set (hashed_nodes P ys). a \<noteq> b \<and> sha256 P a = sha256 P b"
  using assms(2-)
proof (induction "length xs" arbitrary: xs ys rule: less_induct)
  case less
  let ?a = "hd (hashed_nodes P xs)" and ?b = "hd (hashed_nodes P ys)"
  show ?case
  proof (cases "?a = ?b")
    case False
    with less.prems show ?thesis
      by (metis hashed_nodes_nonempty list.set_sel(1) rfc6962_root_hd)
  next
    case True
    show ?thesis
    proof (cases "length xs \<le> 1 \<or> length ys \<le> 1")
      case True
      with \<open>?a = ?b\<close> have "length xs \<le> 1" "length ys \<le> 1" "hd xs = hd ys"
        by (auto simp: hd_hashed_nodes split: if_splits)
      with less.prems(1,2,4) have False by (cases xs; cases ys) auto
      then show ?thesis ..
    next
      case False
      let ?l = "\<lambda>zs. take (split_point (length zs)) zs" and ?r = "\<lambda>zs. drop (split_point (length zs)) zs"
      have parts: "?l zs \<noteq> [] \<and> ?r zs \<noteq> [] \<and> length (?l zs) < length zs \<and> length (?r zs) < length zs
          \<and> set (hashed_nodes P (?l zs)) \<subseteq> set (hashed_nodes P zs)
          \<and> set (hashed_nodes P (?r zs)) \<subseteq> set (hashed_nodes P zs)"
        if "\<not> length zs \<le> 1" for zs :: "bytes list"
        using that split_point_bounds [of "length zs"]
        by (auto simp: hashed_nodes.simps [of P zs] Let_def)
      from False \<open>?a = ?b\<close> have "rfc6962_root P (?l xs) @ rfc6962_root P (?r xs)
          = rfc6962_root P (?l ys) @ rfc6962_root P (?r ys)"
        by (simp add: hd_hashed_nodes)
      then have eq: "rfc6962_root P (?l xs) = rfc6962_root P (?l ys)" "rfc6962_root P (?r xs) = rfc6962_root P (?r ys)"
        using False parts [of xs] parts [of ys] assms(1) by (simp_all add: length_rfc6962_root)
      from less.prems(4) have "?l xs \<noteq> ?l ys \<or> ?r xs \<noteq> ?r ys"
        by (metis append_take_drop_id)
      then show ?thesis
      proof
        assume "?l xs \<noteq> ?l ys"
        with less.hyps [of "?l xs" "?l ys"] False eq parts [of xs] parts [of ys] show ?thesis by blast
      next
        assume "?r xs \<noteq> ?r ys"
        with less.hyps [of "?r xs" "?r ys"] False eq parts [of xs] parts [of ys] show ?thesis by blast
      qed
    qed
  qed
qed

text \<open>C2. Two different lists of leaves never share a Merkle root unless SHA-256 itself collides on
  two strings that were hashed for the two roots: the 0x00 / 0x01 prefixes and the absence of node
  duplication leave no other way (the weakness of Bitcoin's tree).\<close>

theorem merkle_root_collision:
  assumes "digest32 P" and "merkle_root P xs = Inr root" and "merkle_root P ys = Inr root" and "xs \<noteq> ys"
  shows "\<exists>a\<in>set (hashed_nodes P xs). \<exists>b\<in>set (hashed_nodes P ys). a \<noteq> b \<and> sha256 P a = sha256 P b"
  using assms by (intro collision_below) (auto simp: merkle_root_def rfc6962_root_def merkle_loop_tree split: if_splits)

lemma merkle_root_collision_witness:
  "\<exists>a\<in>set (hashed_nodes example_prims [[1], [2]]).
     \<exists>b\<in>set (hashed_nodes example_prims [2 # replicate 31 0]).
       a \<noteq> b \<and> sha256 example_prims a = sha256 example_prims b"
proof (rule merkle_root_collision [OF digest32_example])
  show "merkle_root example_prims [[1], [2]] = Inr (replicate 31 0 @ [2])"
    "merkle_root example_prims [2 # replicate 31 0] = Inr (replicate 31 0 @ [2])"
    by (simp_all add: merkle_root_def merkle_loop_tree tree_hash.simps [of _ "[_, _]"] leaf_hash_def sha256_def
        example_prims_def Let_def split_point.simps numeral_eq_Suc)
qed simp

end
