(* ===== verification/Amounts.thy ===== *)
theory Amounts
  imports Prelude
begin

text \<open>
  \<open>core/amounts.py\<close>: amounts as integers of base units and their text form.  Strings are HOL
  strings, that is Python strings over the code points below 256; the white space \<open>str.strip\<close>
  removes is the white space among these.
\<close>

definition DECIMALS :: nat where "DECIMALS = 6"

definition COIN :: int where "COIN = 10 ^ DECIMALS"

definition MAX_AMOUNT :: int where "MAX_AMOUNT = 2 ^ 63 - 1"

lemma COIN_eq [simp]: "COIN = 1000000"
  by (simp add: COIN_def DECIMALS_def)

section \<open>Python's string functions\<close>

definition is_space :: "char \<Rightarrow> bool" where
  "is_space c \<longleftrightarrow> (let n = of_char c :: nat in (9 \<le> n \<and> n \<le> 13) \<or> (28 \<le> n \<and> n \<le> 32) \<or> n = 133 \<or> n = 160)"

definition rstrip :: "(char \<Rightarrow> bool) \<Rightarrow> string \<Rightarrow> string" where
  "rstrip p s = rev (dropWhile p (rev s))"

definition strip :: "(char \<Rightarrow> bool) \<Rightarrow> string \<Rightarrow> string" where
  "strip p s = rstrip p (dropWhile p s)"

text \<open>The class \<open>[0-9]\<close>.\<close>

definition is_digit :: "char \<Rightarrow> bool" where
  "is_digit c \<longleftrightarrow> (let n = of_char c :: nat in 48 \<le> n \<and> n \<le> 57)"

definition digit_value :: "char \<Rightarrow> int" where
  "digit_value c = int (of_char c) - 48"

definition digit_char :: "int \<Rightarrow> char" where
  "digit_char d = char_of (nat d + 48)"

text \<open>\<open>int(text)\<close> of a text of digits, and \<open>str(n)\<close> of a natural number.\<close>

definition int_of_digits :: "string \<Rightarrow> int" where
  "int_of_digits s = foldl (\<lambda>n c. n * 10 + digit_value c) 0 s"

function str_of_int :: "int \<Rightarrow> string" where
  "str_of_int n = (if n < 10 then [digit_char n] else str_of_int (n div 10) @ [digit_char (n mod 10)])"
  by pat_completeness auto
termination
  by (relation "measure nat") auto

declare str_of_int.simps [simp del]

definition ljust :: "nat \<Rightarrow> char \<Rightarrow> string \<Rightarrow> string" where
  "ljust n c s = s @ replicate (n - length s) c"

text \<open>\<open>f"{n:06d}"\<close>: padded with zeros on the left.\<close>

definition zero_padded :: "nat \<Rightarrow> int \<Rightarrow> string" where
  "zero_padded width n = (let s = str_of_int n in replicate (width - length s) CHR ''0'' @ s)"

section \<open>Parsing and formatting\<close>

text \<open>
  The regular expression \<open>^([0-9]+)(?:\.([0-9]{1,6}))?$\<close>: \<open>Some (whole, frac)\<close> when it matches, with
  the empty string for a missing second group.  (After \<open>strip\<close> no newline is left for \<open>$\<close> to skip.)
\<close>

definition amount_re :: "string \<Rightarrow> (string \<times> string) option" where
  "amount_re s =
     (let whole = takeWhile is_digit s; tail = dropWhile is_digit s
      in if whole = [] then None
         else case tail of
             [] \<Rightarrow> Some (whole, [])
           | c # frac \<Rightarrow>
               if c = CHR ''.'' \<and> 1 \<le> length frac \<and> length frac \<le> DECIMALS \<and> list_all is_digit frac
               then Some (whole, frac) else None)"

definition parse_amount :: "string \<Rightarrow> int result" where
  "parse_amount text =
     (case amount_re (strip is_space text) of
        None \<Rightarrow> Inl ValueError
      | Some (whole, frac) \<Rightarrow>
          (let units = int_of_digits whole * COIN + int_of_digits (ljust DECIMALS CHR ''0'' frac)
           in if units > MAX_AMOUNT then Inl ValueError else Inr units))"

definition format_amount :: "int \<Rightarrow> bool \<Rightarrow> string" where
  "format_amount units fixed =
     (let sign = (if units < 0 then ''-'' else []);
          whole = \<bar>units\<bar> div COIN; frac = \<bar>units\<bar> mod COIN;
          frac_text = zero_padded DECIMALS frac;
          frac_text = (if \<not> fixed then rstrip (\<lambda>c. c = CHR ''0'') frac_text else frac_text)
      in if frac_text \<noteq> [] then sign @ str_of_int whole @ ''.'' @ frac_text
         else sign @ str_of_int whole)"

section \<open>Digits\<close>

lemma not_is_digit_dot [simp]: "\<not> is_digit CHR ''.''"
  and is_digit_0 [simp]: "is_digit CHR ''0''"
  by (simp_all add: is_digit_def)

lemma of_char_digit_char: "0 \<le> d \<Longrightarrow> d < 10 \<Longrightarrow> (of_char (digit_char d) :: nat) = nat d + 48"
  by (simp add: digit_char_def of_char_of)

lemma is_digit_digit_char [simp]: "0 \<le> d \<Longrightarrow> d < 10 \<Longrightarrow> is_digit (digit_char d)"
  by (simp add: is_digit_def of_char_digit_char)

lemma digit_value_digit_char [simp]: "0 \<le> d \<Longrightarrow> d < 10 \<Longrightarrow> digit_value (digit_char d) = d"
  by (simp add: digit_value_def of_char_digit_char)

lemma digit_value_bounds: "is_digit c \<Longrightarrow> 0 \<le> digit_value c \<and> digit_value c < 10"
  by (auto simp: is_digit_def digit_value_def Let_def)

lemma digit_not_space: "is_digit c \<Longrightarrow> \<not> is_space c"
  by (auto simp: is_digit_def is_space_def Let_def)

lemma int_of_digits_snoc [simp]: "int_of_digits (s @ [c]) = int_of_digits s * 10 + digit_value c"
  by (simp add: int_of_digits_def)

lemma int_of_digits_Nil [simp]: "int_of_digits [] = 0"
  by (simp add: int_of_digits_def)

lemma int_of_digits_append: "int_of_digits (s @ t) = int_of_digits s * 10 ^ length t + int_of_digits t"
  by (induction t rule: rev_induct) (simp_all flip: append_assoc add: algebra_simps)

lemma int_of_digits_zeros [simp]: "int_of_digits (replicate n CHR ''0'') = 0"
  by (induction n) (simp_all add: replicate_append_same [symmetric] digit_value_def)

lemma int_of_digits_bounds: "list_all is_digit s \<Longrightarrow> 0 \<le> int_of_digits s \<and> int_of_digits s < 10 ^ length s"
proof (induction s rule: rev_induct)
  case (snoc c s)
  then have "0 \<le> int_of_digits s" "int_of_digits s + 1 \<le> 10 ^ length s" "0 \<le> digit_value c" "digit_value c < 10"
    using digit_value_bounds [of c] by auto
  then show ?case by simp
qed simp

lemma str_of_int_digits: "0 \<le> n \<Longrightarrow> list_all is_digit (str_of_int n)"
proof (induction n rule: str_of_int.induct)
  case (1 n)
  then show ?case by (cases "n < 10") (simp_all add: str_of_int.simps [of n])
qed

lemma int_of_str_of_int [simp]: "0 \<le> n \<Longrightarrow> int_of_digits (str_of_int n) = n"
proof (induction n rule: str_of_int.induct)
  case (1 n)
  then show ?case by (cases "n < 10") (simp_all add: str_of_int.simps [of n] int_of_digits_def)
qed

lemma str_of_int_nonempty [simp]: "str_of_int n \<noteq> []"
  by (simp add: str_of_int.simps [of n])

lemma length_str_of_int: "0 \<le> n \<Longrightarrow> n < 10 ^ k \<Longrightarrow> 0 < k \<Longrightarrow> length (str_of_int n) \<le> k"
proof (induction n arbitrary: k rule: str_of_int.induct)
  case (1 n)
  show ?case
  proof (cases "n < 10")
    case True
    with "1.prems" show ?thesis by (simp add: str_of_int.simps [of n])
  next
    case False
    with "1.prems" obtain j where k: "k = Suc j" "0 < j"
      by (cases k; cases "k - 1") auto
    with False "1.prems" have "length (str_of_int (n div 10)) \<le> j"
      by (intro "1.IH") auto
    with k False show ?thesis by (simp add: str_of_int.simps [of n])
  qed
qed

section \<open>Padding and stripping\<close>

lemma rstrip_ljust: "ljust (length s) x (rstrip (\<lambda>c. c = x) s) = s"
proof (induction s rule: rev_induct)
  case (snoc c s)
  have "length (rstrip (\<lambda>c. c = x) s) \<le> length s"
    using length_dropWhile_le [of _ "rev s"] by (simp add: rstrip_def)
  with snoc show ?case
    by (auto simp: ljust_def rstrip_def Suc_diff_le replicate_append_same [symmetric] simp flip: append_assoc)
qed (simp add: ljust_def rstrip_def)

lemma strip_id: "s \<noteq> [] \<Longrightarrow> \<not> p (hd s) \<Longrightarrow> \<not> p (last s) \<Longrightarrow> strip p s = s"
proof -
  assume "s \<noteq> []" "\<not> p (hd s)" "\<not> p (last s)"
  then have "dropWhile p s = s" "dropWhile p (rev s) = rev s"
    by (auto simp: dropWhile_eq_self_iff hd_rev)
  then show ?thesis by (simp add: strip_def rstrip_def)
qed

lemma list_all_rstrip: "list_all P s \<Longrightarrow> list_all P (rstrip p s)"
  by (auto simp: rstrip_def list_all_iff dest: set_dropWhileD)

lemma length_zero_padded: "0 \<le> n \<Longrightarrow> n < 10 ^ k \<Longrightarrow> 0 < k \<Longrightarrow> length (zero_padded k n) = k"
  using length_str_of_int [of n k] by (simp add: zero_padded_def Let_def)

lemma int_of_zero_padded: "0 \<le> n \<Longrightarrow> int_of_digits (zero_padded k n) = n"
  by (simp add: zero_padded_def Let_def int_of_digits_append)

lemma zero_padded_digits: "0 \<le> n \<Longrightarrow> list_all is_digit (zero_padded k n)"
  using str_of_int_digits [of n] by (auto simp: zero_padded_def Let_def list_all_iff)

lemma takeWhile_digits: "list_all is_digit s \<Longrightarrow> takeWhile is_digit (s @ t) = s @ takeWhile is_digit t"
  and dropWhile_digits: "list_all is_digit s \<Longrightarrow> dropWhile is_digit (s @ t) = dropWhile is_digit t"
  by (simp_all add: list_all_iff)

lemma amount_re_whole: "list_all is_digit w \<Longrightarrow> w \<noteq> [] \<Longrightarrow> amount_re w = Some (w, [])"
  using takeWhile_digits [of w "[]"] dropWhile_digits [of w "[]"]
  by (simp add: amount_re_def Let_def del: takeWhile_eq_all_conv dropWhile_eq_Nil_conv)

lemma amount_re_frac:
  "list_all is_digit w \<Longrightarrow> w \<noteq> [] \<Longrightarrow> list_all is_digit f \<Longrightarrow> f \<noteq> [] \<Longrightarrow> length f \<le> DECIMALS \<Longrightarrow>
   amount_re (w @ CHR ''.'' # f) = Some (w, f)"
  by (auto simp: amount_re_def Let_def takeWhile_digits dropWhile_digits Suc_le_eq)

lemma amount_re_Some:
  assumes "amount_re s = Some (w, f)"
  shows "list_all is_digit w \<and> list_all is_digit f \<and> length f \<le> DECIMALS"
  using assms set_takeWhileD [of _ is_digit s]
  by (auto simp: amount_re_def Let_def list_all_iff split: if_splits list.splits)

section \<open>Parsing undoes formatting\<close>

lemma format_amount_fields:
  fixes fixed :: bool
  assumes "0 \<le> units"
  defines "frac_text \<equiv> (if fixed then zero_padded DECIMALS (units mod COIN)
      else rstrip (\<lambda>c. c = CHR ''0'') (zero_padded DECIMALS (units mod COIN)))"
  shows "amount_re (strip is_space (format_amount units fixed)) = Some (str_of_int (units div COIN), frac_text)"
    and "int_of_digits (ljust DECIMALS CHR ''0'' frac_text) = units mod COIN"
proof -
  let ?w = "str_of_int (units div COIN)" and ?z = "zero_padded DECIMALS (units mod COIN)"
  have z: "length ?z = DECIMALS" "list_all is_digit ?z" "int_of_digits ?z = units mod COIN"
    by (rule length_zero_padded zero_padded_digits int_of_zero_padded; simp add: DECIMALS_def)+
  have w: "list_all is_digit ?w" "?w \<noteq> []"
    using assms(1) by (simp_all add: str_of_int_digits)
  have "length frac_text \<le> length ?z"
    by (simp add: frac_text_def rstrip_def length_dropWhile_le [where xs = "rev ?z", simplified])
  then have fr: "list_all is_digit frac_text" "length frac_text \<le> DECIMALS"
    using z by (simp_all add: frac_text_def list_all_rstrip)
  have shape: "format_amount units fixed = (if frac_text = [] then ?w else ?w @ CHR ''.'' # frac_text)"
    using assms(1) by (simp add: format_amount_def frac_text_def Let_def)
  have "\<not> is_space (hd ?w)" "\<not> is_space (last ?w)" "frac_text \<noteq> [] \<Longrightarrow> \<not> is_space (last frac_text)"
    using w fr by (auto simp: list_all_iff digit_not_space)
  then have "strip is_space (format_amount units fixed) = format_amount units fixed"
    using w(2) by (intro strip_id) (simp_all add: shape)
  then show "amount_re (strip is_space (format_amount units fixed)) = Some (?w, frac_text)"
    using w fr by (simp add: shape amount_re_whole amount_re_frac)
  have "ljust DECIMALS CHR ''0'' frac_text = ?z"
    using rstrip_ljust [of ?z] z(1) by (simp add: frac_text_def ljust_def)
  then show "int_of_digits (ljust DECIMALS CHR ''0'' frac_text) = units mod COIN"
    using z(3) by simp
qed

lemma format_then_parse:
  assumes "0 \<le> units" and "units \<le> MAX_AMOUNT"
  shows "parse_amount (format_amount units fixed) = Inr units"
  unfolding parse_amount_def format_amount_fields(1) [OF assms(1)]
  using assms by (simp only: option.case prod.case Let_def format_amount_fields(2) [OF assms(1)])
    (simp add: div_mult_mod_eq [of units "1000000", simplified mult.commute])

text \<open>C3. Formatting an amount, with or without trailing zeros, and parsing the text gives the amount
  back, for every amount the protocol allows.\<close>

theorem parse_format_amount:
  assumes "0 \<le> units" and "units \<le> MAX_AMOUNT"
  shows "parse_amount (format_amount units fixed) = Inr units"
  using assms by (rule format_then_parse)

theorem parse_format_amount_witness:
  "parse_amount (format_amount 12500000 False) = Inr 12500000 \<and> (12500000 :: int) \<le> MAX_AMOUNT"
proof
  show le: "(12500000 :: int) \<le> MAX_AMOUNT" by (simp add: MAX_AMOUNT_def)
  show "parse_amount (format_amount 12500000 False) = Inr 12500000"
    by (rule parse_format_amount [OF _ le]) simp
qed

lemma parse_amount_range:
  assumes "parse_amount text = Inr units"
  shows "0 \<le> units \<and> units \<le> MAX_AMOUNT"
proof -
  from assms obtain w f where m: "amount_re (strip is_space text) = Some (w, f)"
      and u: "units = int_of_digits w * COIN + int_of_digits (ljust DECIMALS CHR ''0'' f)" "units \<le> MAX_AMOUNT"
    by (auto simp: parse_amount_def Let_def split: option.splits prod.splits if_splits)
  have "list_all is_digit (ljust DECIMALS CHR ''0'' f)"
    using amount_re_Some [OF m] by (auto simp: ljust_def list_all_iff)
  then show ?thesis
    using u amount_re_Some [OF m] by (auto dest!: int_of_digits_bounds)
qed

lemma parse_amount_error: "parse_amount text = Inl e \<Longrightarrow> e = ValueError"
  by (auto simp: parse_amount_def Let_def split: option.splits prod.splits if_splits)

end
