(* ===== verification/Params.thy ===== *)
theory Params
  imports Amounts
begin

text \<open>
  \<open>core/params.py\<close>: the parameters of a network and the four networks.  The salt and the genesis
  message are byte strings written as ASCII literals in the source.
\<close>

definition ascii :: "string \<Rightarrow> bytes" where
  "ascii s = map of_char s"

definition zero_bytes :: "nat \<Rightarrow> bytes" where
  "zero_bytes n = replicate n 0"

lemma length_zero_bytes [simp]: "length (zero_bytes n) = n"
  by (simp add: zero_bytes_def)

record pow_params =
  memory_kib :: int
  iterations :: int
  salt :: bytes

definition target_for :: "int \<Rightarrow> int" where
  "target_for expected_hashes = 2 ^ 256 div expected_hashes - 1"

record network_params =
  name :: string
  network_id :: int
  address_prefix :: string
  default_port :: int
  pow :: pow_params
  pow_limit :: int
  genesis_target :: int
  pow_no_retarget :: bool
  block_reward :: int
  target_spacing :: int
  asert_half_life :: int
  coinbase_maturity :: int
  finality_depth :: int
  chunk_size :: int
  snapshot_delay :: int
  chunks_per_mega_chunk :: int
  max_block_size :: int
  median_time_span :: nat
  max_future_drift :: int
  genesis_timestamp :: "int option"
  genesis_message :: bytes
  genesis_nonce :: "int option"
  genesis_id :: "bytes option"

text \<open>\<open>__post_init__\<close>: what constructing (or replacing fields of) a \<open>NetworkParams\<close> checks.\<close>

definition post_init :: "network_params \<Rightarrow> network_params result" where
  "post_init N =
     (if chunk_size N < 2 \<or> \<not> (0 \<le> snapshot_delay N \<and> snapshot_delay N < chunk_size N)
      then Inl ValueError else Inr N)"

definition ARGON2_MAINNET :: pow_params where
  "ARGON2_MAINNET = \<lparr>memory_kib = 4096, iterations = 1, salt = ascii ''TalCash/Argon2/1''\<rparr>"

definition MAINNET :: network_params where
  "MAINNET = \<lparr>
     name = ''mainnet'', network_id = 1, address_prefix = ''tc'', default_port = 64184,
     pow = ARGON2_MAINNET, pow_limit = target_for 600, genesis_target = target_for 18000,
     pow_no_retarget = False, block_reward = 10 * COIN, target_spacing = 60,
     asert_half_life = 60 * 60, coinbase_maturity = 100, finality_depth = 100, chunk_size = 1440,
     snapshot_delay = 10, chunks_per_mega_chunk = 365, max_block_size = 1000000,
     median_time_span = 11, max_future_drift = 5 * 60,
     genesis_timestamp = None, genesis_message = [], genesis_nonce = None, genesis_id = None\<rparr>"

definition TESTNET :: network_params where
  "TESTNET = MAINNET\<lparr>
     name := ''testnet'', network_id := 2, address_prefix := ''tt'', default_port := 64185,
     genesis_timestamp := Some 1790314770,
     genesis_message := ascii ''TalCash testnet, 25 Sep 2026'',
     genesis_nonce := Some 18117,
     genesis_id := Some (to_be 32 0x6a6cf3fa017cc101dc8bec6dec72a5802b37a6637ae847b4e8f4266739b6beef)\<rparr>"

definition DEVNET :: network_params where
  "DEVNET = MAINNET\<lparr>
     name := ''devnet'', network_id := 4, address_prefix := ''td'', default_port := 64187,
     pow_limit := target_for 10, genesis_target := target_for 300, target_spacing := 1,
     asert_half_life := 60, chunk_size := 60, snapshot_delay := 5, max_future_drift := 10\<rparr>"

definition REGTEST :: network_params where
  "REGTEST = MAINNET\<lparr>
     name := ''regtest'', network_id := 3, address_prefix := ''tr'', default_port := 64186,
     pow := \<lparr>memory_kib = 8, iterations = 1, salt = ascii ''TalCash/Argon2/1''\<rparr>,
     pow_limit := target_for 2, genesis_target := target_for 2, pow_no_retarget := True,
     genesis_timestamp := Some 1767225600,
     genesis_message := ascii ''TalCash regtest'',
     genesis_nonce := Some 1,
     genesis_id := Some (to_be 32 0xca4d99507e879bb59d28eb9d4a578d54b5c833c5d51f3e8e5a95d76faa63393b)\<rparr>"

definition NETWORKS :: "network_params list" where
  "NETWORKS = [MAINNET, TESTNET, DEVNET, REGTEST]"

lemma networks_post_init: "N \<in> set NETWORKS \<Longrightarrow> post_init N = Inr N"
  by (auto simp: NETWORKS_def post_init_def MAINNET_def TESTNET_def DEVNET_def REGTEST_def)

end
