(* ===== verification/Address.thy ===== *)
theory Address
  imports Base58 Hashing Params
begin

text \<open>
  \<open>crypto/address.py\<close> and \<open>crypto/keys.py\<close>: address payloads and their text form, and the
  wrappers around Ed25519.  Text and payload are shown to determine each other.
\<close>

section \<open>Keys\<close>

definition PRIVATE_KEY_SIZE :: nat where "PRIVATE_KEY_SIZE = 32"
definition PUBLIC_KEY_SIZE :: nat where "PUBLIC_KEY_SIZE = 32"
definition SIGNATURE_SIZE :: nat where "SIGNATURE_SIZE = 64"

definition public_key :: "prims \<Rightarrow> bytes \<Rightarrow> bytes" where
  "public_key P private_key = pub_of P private_key"

definition sign :: "prims \<Rightarrow> bytes \<Rightarrow> bytes \<Rightarrow> bytes" where
  "sign P private_key message = ed_sign P private_key message"

definition verify :: "prims \<Rightarrow> bytes \<Rightarrow> bytes \<Rightarrow> bytes \<Rightarrow> bool" where
  "verify P pk message signature =
     (if length pk \<noteq> PUBLIC_KEY_SIZE \<or> length signature \<noteq> SIGNATURE_SIZE then False
      else ed_verify P pk message signature)"

section \<open>Addresses\<close>

definition ADDRESS_VERSION :: byte where "ADDRESS_VERSION = 0"
definition PAYLOAD_SIZE :: nat where "PAYLOAD_SIZE = 21"
definition CHECKSUM_SIZE :: nat where "CHECKSUM_SIZE = 4"
definition MAX_BASE58_LENGTH :: nat where "MAX_BASE58_LENGTH = 40"

definition BURN_PAYLOAD :: bytes where "BURN_PAYLOAD = zero_bytes PAYLOAD_SIZE"

definition payload_from_public_key :: "prims \<Rightarrow> bytes \<Rightarrow> bytes" where
  "payload_from_public_key P pk = [ADDRESS_VERSION] @ take 20 (sha256 P pk)"

definition is_known_payload :: "bytes \<Rightarrow> bool" where
  "is_known_payload payload \<longleftrightarrow> length payload = PAYLOAD_SIZE \<and> payload ! 0 = ADDRESS_VERSION"

definition checksum :: "prims \<Rightarrow> string \<Rightarrow> bytes \<Rightarrow> bytes" where
  "checksum P prefix payload = take CHECKSUM_SIZE (sha256 P (sha256 P (ascii prefix @ payload)))"

definition encode_address :: "prims \<Rightarrow> bytes \<Rightarrow> string \<Rightarrow> string result" where
  "encode_address P payload prefix =
     (if \<not> is_known_payload payload then Inl ValueError
      else Inr (prefix @ b58encode (payload @ checksum P prefix payload)))"

definition startswith :: "'a list \<Rightarrow> 'a list \<Rightarrow> bool" where
  "startswith text prefix \<longleftrightarrow> take (length prefix) text = prefix"

definition decode_address :: "prims \<Rightarrow> string \<Rightarrow> string \<Rightarrow> bytes result" where
  "decode_address P text prefix =
     (if \<not> startswith text prefix then Inl ValueError
      else if length text > length prefix + MAX_BASE58_LENGTH then Inl ValueError
      else rbind (b58decode (drop (length prefix) text)) (\<lambda>raw.
        if length raw \<noteq> PAYLOAD_SIZE + CHECKSUM_SIZE then Inl ValueError
        else let payload = take PAYLOAD_SIZE raw; check = drop PAYLOAD_SIZE raw
             in if check \<noteq> checksum P prefix payload then Inl ValueError
                else if \<not> is_known_payload payload then Inl ValueError
                else Inr payload))"

definition is_valid_address :: "prims \<Rightarrow> string \<Rightarrow> string \<Rightarrow> bool" where
  "is_valid_address P text prefix = (case decode_address P text prefix of Inr _ \<Rightarrow> True | Inl _ \<Rightarrow> False)"

lemma length_checksum: "digest32 P \<Longrightarrow> length (checksum P prefix payload) = CHECKSUM_SIZE"
  by (simp add: checksum_def length_sha256 CHECKSUM_SIZE_def)

lemma length_payload_from_public_key: "digest32 P \<Longrightarrow> length (payload_from_public_key P pk) = PAYLOAD_SIZE"
  by (simp add: payload_from_public_key_def length_sha256 PAYLOAD_SIZE_def)

lemma is_known_payload_from_public_key: "digest32 P \<Longrightarrow> is_known_payload (payload_from_public_key P pk)"
  by (simp add: is_known_payload_def length_payload_from_public_key) (simp add: payload_from_public_key_def)

lemma is_known_payload_burn: "is_known_payload BURN_PAYLOAD"
  by (simp add: is_known_payload_def BURN_PAYLOAD_def zero_bytes_def PAYLOAD_SIZE_def ADDRESS_VERSION_def)

lemma decode_number_error: "decode_number t = Inl e \<Longrightarrow> e = ValueError"
  by (induction t rule: rev_induct) (auto simp: decode_number_append result_simps split: option.splits)

lemma decode_address_error: "decode_address P text prefix = Inl e \<Longrightarrow> e = ValueError"
  by (auto simp: decode_address_def b58decode_def result_simps Let_def split: if_splits
      dest: decode_number_error)

lemma decode_iff_encode:
  assumes "digest32 P"
  shows "decode_address P text prefix = Inr payload \<longleftrightarrow> encode_address P payload prefix = Inr text"
proof
  assume "decode_address P text prefix = Inr payload"
  then obtain raw where raw: "b58decode (drop (length prefix) text) = Inr raw"
      and p: "payload = take PAYLOAD_SIZE raw" "drop PAYLOAD_SIZE raw = checksum P prefix payload"
        "is_known_payload payload"
      and pre: "take (length prefix) text = prefix"
    by (auto simp: decode_address_def result_simps Let_def startswith_def split: if_splits)
  have "raw = payload @ checksum P prefix payload" using p by (metis append_take_drop_id)
  with b58encode_b58decode [OF raw]
  have "b58encode (payload @ checksum P prefix payload) = drop (length prefix) text" by simp
  moreover have "prefix @ drop (length prefix) text = text" using pre by (metis append_take_drop_id)
  ultimately show "encode_address P payload prefix = Inr text" using p(3) by (simp add: encode_address_def)
next
  assume "encode_address P payload prefix = Inr text"
  then have known: "is_known_payload payload"
      and t: "text = prefix @ b58encode (payload @ checksum P prefix payload)"
    by (auto simp: encode_address_def split: if_splits)
  have len: "length payload = 21" "length (checksum P prefix payload) = 4"
    using known length_checksum [OF assms] by (simp_all add: is_known_payload_def PAYLOAD_SIZE_def CHECKSUM_SIZE_def)
  then have "length (b58encode (payload @ checksum P prefix payload)) \<le> 40"
    by (intro length_b58encode) simp
  with known len show "decode_address P text prefix = Inr payload"
    by (simp add: decode_address_def startswith_def t MAX_BASE58_LENGTH_def b58decode_encode
        PAYLOAD_SIZE_def CHECKSUM_SIZE_def Let_def)
qed

text \<open>C5. Text addresses and payloads correspond one to one: a text decodes to a payload exactly when
  it is the encoding of that payload, under the same network prefix.  So every payload's address
  decodes to it, and no second text does.\<close>

theorem decode_address_iff:
  assumes "digest32 P"
  shows "decode_address P text prefix = Inr payload \<longleftrightarrow> encode_address P payload prefix = Inr text"
  using assms by (rule decode_iff_encode)

lemma decode_address_iff_witness:
  "\<exists>text. encode_address example_prims BURN_PAYLOAD ''tc'' = Inr text \<and>
     decode_address example_prims text ''tc'' = Inr BURN_PAYLOAD"
  using decode_address_iff [OF digest32_example] by (simp add: encode_address_def is_known_payload_burn)

end
