(* ===== verification/Encoding.thy ===== *)
theory Encoding
  imports Prelude
begin

text \<open>
  \<open>core/encoding.py\<close>: the canonical binary encoding.  A \<open>Writer\<close> is the list of parts written so
  far; a \<open>Reader\<close> is the data and a position.  The locale \<open>codec\<close> is the contract between a
  writing function, the bytes it stands for and the reading function: reading what was written
  gives the value back, and whatever is read is exactly what writing the value gives, so that every
  value has exactly one valid encoding.  The locale is interpreted here for the primitive fields and
  by the theories that define transactions, headers and blocks for those.
\<close>

section \<open>Writer\<close>

definition uint_bytes :: "int \<Rightarrow> nat \<Rightarrow> bytes result" where
  "uint_bytes v n =
     (if v < 0 \<or> v \<ge> 2 ^ (8 * n) then Inl ValueError else Inr (to_be n v))"

type_synonym writer = "bytes list"

definition new_writer :: writer where "new_writer = []"

definition write_uint :: "nat \<Rightarrow> int \<Rightarrow> writer \<Rightarrow> writer result" where
  "write_uint n v w = rbind (uint_bytes v n) (\<lambda>b. Inr (w @ [b]))"

definition w_u8 :: "int \<Rightarrow> writer \<Rightarrow> writer result" where "w_u8 = write_uint 1"
definition w_u32 :: "int \<Rightarrow> writer \<Rightarrow> writer result" where "w_u32 = write_uint 4"
definition w_u64 :: "int \<Rightarrow> writer \<Rightarrow> writer result" where "w_u64 = write_uint 8"
definition w_u256 :: "int \<Rightarrow> writer \<Rightarrow> writer result" where "w_u256 = write_uint 32"

definition w_fixed :: "nat \<Rightarrow> bytes \<Rightarrow> writer \<Rightarrow> writer result" where
  "w_fixed n data w = (if length data \<noteq> n then Inl ValueError else Inr (w @ [data]))"

definition w_var8 :: "bytes \<Rightarrow> writer \<Rightarrow> writer result" where
  "w_var8 data w = rbind (w_u8 (int (length data)) w) (\<lambda>w. Inr (w @ [data]))"

definition w_raw :: "bytes \<Rightarrow> writer \<Rightarrow> writer result" where
  "w_raw data w = Inr (w @ [data])"

definition getvalue :: "writer \<Rightarrow> bytes" where
  "getvalue w = concat w"

text \<open>Method chaining: \<open>w.u8(x).u64(y)\<close>.\<close>

definition w_then :: "(writer \<Rightarrow> writer result) \<Rightarrow> (writer \<Rightarrow> writer result) \<Rightarrow> writer \<Rightarrow> writer result" where
  "w_then f g w = rbind (f w) g"

section \<open>Reader\<close>

record reader =
  r_data :: bytes
  r_pos :: nat

definition new_reader :: "bytes \<Rightarrow> reader" where
  "new_reader data = \<lparr>r_data = data, r_pos = 0\<rparr>"

type_synonym 'a parser = "reader \<Rightarrow> ('a \<times> reader) result"

definition take_bytes :: "nat \<Rightarrow> bytes parser" where
  "take_bytes n r =
     (let e = r_pos r + n
      in if e > length (r_data r) then Inl DecodeError
         else Inr (take n (drop (r_pos r) (r_data r)), r\<lparr>r_pos := e\<rparr>))"

definition p_bind :: "'a parser \<Rightarrow> ('a \<Rightarrow> 'b parser) \<Rightarrow> 'b parser" where
  "p_bind p f r = rbind (p r) (\<lambda>(x, r'). f x r')"

definition p_return :: "'a \<Rightarrow> 'a parser" where
  "p_return x r = Inr (x, r)"

definition p_raise :: "exn \<Rightarrow> 'a parser" where
  "p_raise e r = Inl e"

definition read_uint :: "nat \<Rightarrow> int parser" where
  "read_uint n = p_bind (take_bytes n) (\<lambda>b. p_return (from_be b))"

definition r_u8 :: "int parser" where "r_u8 = read_uint 1"
definition r_u32 :: "int parser" where "r_u32 = read_uint 4"
definition r_u64 :: "int parser" where "r_u64 = read_uint 8"
definition r_u256 :: "int parser" where "r_u256 = read_uint 32"

definition r_fixed :: "nat \<Rightarrow> bytes parser" where
  "r_fixed = take_bytes"

definition r_var8 :: "bytes parser" where
  "r_var8 = p_bind r_u8 (\<lambda>n. take_bytes (nat n))"

definition remaining :: "reader \<Rightarrow> int" where
  "remaining r = int (length (r_data r)) - int (r_pos r)"

definition expect_end :: "reader \<Rightarrow> unit result" where
  "expect_end r = (if r_pos r \<noteq> length (r_data r) then Inl DecodeError else Inr ())"

text \<open>\<open>[read(r) for _ in range(n)]\<close>\<close>

fun read_many :: "nat \<Rightarrow> 'a parser \<Rightarrow> 'a list parser" where
  "read_many 0 p = p_return []"
| "read_many (Suc n) p = p_bind p (\<lambda>x. p_bind (read_many n p) (\<lambda>xs. p_return (x # xs)))"

text \<open>\<open>r = Reader(data); x = read(r); r.expect_end(); return x\<close>\<close>

definition read_all :: "'a parser \<Rightarrow> bytes \<Rightarrow> 'a result" where
  "read_all p data =
     rbind (p (new_reader data)) (\<lambda>(x, r). rbind (expect_end r) (\<lambda>_. Inr x))"

section \<open>What a reading or writing function does with bytes\<close>

named_theorems codec_intros \<open>how the bytes of a sequence of reads and writes are put together\<close>

definition well_placed :: "reader \<Rightarrow> bool" where
  "well_placed r \<longleftrightarrow> r_pos r \<le> length (r_data r)"

definition rest :: "reader \<Rightarrow> bytes" where
  "rest r = drop (r_pos r) (r_data r)"

definition advance :: "nat \<Rightarrow> reader \<Rightarrow> reader" where
  "advance n r = r\<lparr>r_pos := r_pos r + n\<rparr>"

text \<open>\<open>reads p bs x\<close>: at the bytes \<open>bs\<close> the parser returns \<open>x\<close> and moves past them.
  \<open>gives p R\<close>: whatever it returns stands in \<open>R\<close> to the bytes it moved past.\<close>

definition reads :: "'a parser \<Rightarrow> bytes \<Rightarrow> 'a \<Rightarrow> bool" where
  "reads p bs x \<longleftrightarrow>
     (\<forall>r t. well_placed r \<longrightarrow> rest r = bs @ t \<longrightarrow> p r = Inr (x, advance (length bs) r))"

definition gives :: "'a parser \<Rightarrow> ('a \<Rightarrow> bytes \<Rightarrow> bool) \<Rightarrow> bool" where
  "gives p R \<longleftrightarrow>
     (\<forall>r x r'. well_placed r \<longrightarrow> p r = Inr (x, r') \<longrightarrow>
        (\<exists>bs t. rest r = bs @ t \<and> r' = advance (length bs) r \<and> R x bs))"

definition decode_errors_only :: "'a parser \<Rightarrow> bool" where
  "decode_errors_only p \<longleftrightarrow> (\<forall>r e. p r = Inl e \<longrightarrow> e = DecodeError)"

definition writes :: "(writer \<Rightarrow> writer result) \<Rightarrow> bytes \<Rightarrow> bool" where
  "writes f bs \<longleftrightarrow> (\<forall>w. \<exists>w'. f w = Inr w' \<and> getvalue w' = getvalue w @ bs)"

lemma well_placed_advance: "well_placed r \<Longrightarrow> rest r = bs @ t \<Longrightarrow> well_placed (advance (length bs) r)"
  by (auto simp: well_placed_def rest_def advance_def dest: arg_cong [where f = length])

lemma rest_advance: "rest r = bs @ t \<Longrightarrow> rest (advance (length bs) r) = t"
  unfolding rest_def advance_def by (metis add.commute append_eq_conv_conj drop_drop reader.select_convs(1,2)
      reader.surjective reader.update_convs(2))

lemma advance_advance [simp]: "advance m (advance n r) = advance (n + m) r"
  by (simp add: advance_def add.assoc)

lemma advance_0 [simp]: "advance 0 r = r"
  by (simp add: advance_def)

lemma well_placed_new [simp]: "well_placed (new_reader d)"
  by (simp add: well_placed_def new_reader_def)

lemma rest_new [simp]: "rest (new_reader d) = d"
  by (simp add: rest_def new_reader_def)

lemma readsD: "reads p bs x \<Longrightarrow> well_placed r \<Longrightarrow> rest r = bs @ t \<Longrightarrow> p r = Inr (x, advance (length bs) r)"
  by (simp add: reads_def)

lemma reads_cong: "reads p bs x \<Longrightarrow> bs = cs \<Longrightarrow> x = y \<Longrightarrow> reads p cs y"
  by simp

lemma givesD:
  assumes "gives p R" "well_placed r" "p r = Inr (x, r')"
  obtains bs t where "rest r = bs @ t" "r' = advance (length bs) r" "R x bs"
  using assms unfolding gives_def by blast

lemma reads_bind [codec_intros]:
  "reads p bs x \<Longrightarrow> reads (f x) cs y \<Longrightarrow> reads (p_bind p f) (bs @ cs) y"
  unfolding reads_def p_bind_def
  by (simp add: well_placed_advance rest_advance)

lemma reads_return [codec_intros]: "reads (p_return x) [] x"
  by (simp add: reads_def p_return_def)

lemma reads_end: "x = y \<Longrightarrow> reads (p_return x) [] y"
  by (simp add: reads_return)

lemma gives_bind:
  assumes "gives p R" and "\<And>x. gives (f x) (S x)"
  shows "gives (p_bind p f) (\<lambda>y bs. \<exists>x b1 b2. bs = b1 @ b2 \<and> R x b1 \<and> S x y b2)"
  unfolding gives_def
proof (intro allI impI)
  fix r y r' assume wp: "well_placed r" and run: "p_bind p f r = Inr (y, r')"
  then obtain x r1 where 1: "p r = Inr (x, r1)" and 2: "f x r1 = Inr (y, r')"
    by (auto simp: p_bind_def result_simps)
  from assms(1) wp 1 obtain b1 t1 where b1: "rest r = b1 @ t1" "r1 = advance (length b1) r" "R x b1"
    by (rule givesD)
  then have "well_placed r1" "rest r1 = t1"
    using wp by (simp_all add: well_placed_advance rest_advance)
  from assms(2) this(1) 2 obtain b2 t2 where "rest r1 = b2 @ t2" "r' = advance (length b2) r1" "S x y b2"
    by (rule givesD)
  with b1 \<open>rest r1 = t1\<close>
  have "rest r = (b1 @ b2) @ t2" "r' = advance (length (b1 @ b2)) r" "S x y b2"
    by simp_all
  with \<open>R x b1\<close> show "\<exists>bs t. rest r = bs @ t \<and> r' = advance (length bs) r \<and>
      (\<exists>x b1 b2. bs = b1 @ b2 \<and> R x b1 \<and> S x y b2)" by blast
qed

lemma gives_return: "gives (p_return x) (\<lambda>y bs. y = x \<and> bs = [])"
  by (simp add: gives_def p_return_def)

lemma gives_raise: "gives (p_raise e) (\<lambda>y bs. False)"
  by (simp add: gives_def p_raise_def)

lemma gives_if: "gives p R \<Longrightarrow> gives q S \<Longrightarrow> gives (if b then p else q) (\<lambda>x bs. if b then R x bs else S x bs)"
  by auto

lemma gives_mono: "gives p R \<Longrightarrow> (\<And>x bs. R x bs \<Longrightarrow> S x bs) \<Longrightarrow> gives p S"
  unfolding gives_def by blast

lemma errors_bind [codec_intros]:
  "decode_errors_only p \<Longrightarrow> (\<And>x. decode_errors_only (f x)) \<Longrightarrow> decode_errors_only (p_bind p f)"
  unfolding decode_errors_only_def p_bind_def by (auto simp: result_simps)

lemma errors_return [codec_intros]: "decode_errors_only (p_return x)"
  by (simp add: decode_errors_only_def p_return_def)

lemma errors_raise [codec_intros]: "decode_errors_only (p_raise DecodeError)"
  by (simp add: decode_errors_only_def p_raise_def)

lemma errors_if [codec_intros]:
  "decode_errors_only p \<Longrightarrow> decode_errors_only q \<Longrightarrow> decode_errors_only (if b then p else q)"
  by simp

lemma writes_then [codec_intros]: "writes f bs \<Longrightarrow> writes g cs \<Longrightarrow> writes (w_then f g) (bs @ cs)"
  unfolding writes_def w_then_def by (metis append.assoc rbind.simps(2))

lemma writes_raw [codec_intros]: "writes (w_raw data) data"
  by (simp add: writes_def w_raw_def getvalue_def)

lemma writesD: "writes f bs \<Longrightarrow> rbind (f new_writer) (\<lambda>w. Inr (getvalue w)) = Inr bs"
  unfolding writes_def by (metis append_Nil concat.simps(1) getvalue_def new_writer_def rbind.simps(2))

lemma writes_Inr: "writes f bs \<Longrightarrow> f w = Inr w' \<Longrightarrow> getvalue w' = getvalue w @ bs"
  unfolding writes_def by (metis sum.inject(2))

section \<open>The contract of an encoding\<close>

locale codec =
  fixes ok :: "'a \<Rightarrow> bool"
    and enc :: "'a \<Rightarrow> bytes"
    and wr :: "'a \<Rightarrow> writer \<Rightarrow> writer result"
    and rd :: "'a parser"
  assumes wr_enc: "ok x \<Longrightarrow> writes (wr x) (enc x)"
    and wr_bad: "\<not> ok x \<Longrightarrow> \<exists>e. wr x w = Inl e"
    and rd_enc: "ok x \<Longrightarrow> reads rd (enc x) x"
    and rd_exact: "gives rd (\<lambda>x bs. ok x \<and> bs = enc x)"
    and rd_errors: "decode_errors_only rd"
begin

lemma wr_Inr: "wr x w = Inr w' \<Longrightarrow> ok x"
  using wr_bad [of x w] by auto

lemma read_all_enc: "ok x \<Longrightarrow> read_all rd (enc x) = Inr x"
proof -
  assume "ok x"
  then have "rd (new_reader (enc x)) = Inr (x, advance (length (enc x)) (new_reader (enc x)))"
    by (intro readsD [OF rd_enc, where t = "[]"]) simp_all
  then show ?thesis by (simp add: read_all_def expect_end_def advance_def new_reader_def)
qed

lemma read_all_iff: "read_all rd d = Inr x \<longleftrightarrow> ok x \<and> d = enc x"
proof
  assume "read_all rd d = Inr x"
  then obtain r where r: "rd (new_reader d) = Inr (x, r)" "r_pos r = length (r_data r)"
    by (auto simp: read_all_def result_simps expect_end_def split: if_splits)
  obtain bs t where "rest (new_reader d) = bs @ t" "r = advance (length bs) (new_reader d)"
      "ok x \<and> bs = enc x"
    by (rule givesD [OF rd_exact well_placed_new r(1)])
  with r(2) show "ok x \<and> d = enc x"
    unfolding rest_new by (simp add: advance_def new_reader_def)
qed (auto simp: read_all_enc)

lemma read_all_error: "read_all rd d = Inl e \<Longrightarrow> e = DecodeError"
  using rd_errors
  by (auto simp: read_all_def result_simps expect_end_def decode_errors_only_def split: if_splits)

lemma write_iff: "rbind (wr x new_writer) (\<lambda>w. Inr (getvalue w)) = Inr bs \<longleftrightarrow> ok x \<and> bs = enc x"
  using writesD [OF wr_enc, of x] wr_bad [of x new_writer] by (cases "ok x") auto

lemma prefix_free:
  assumes "ok x" "ok y" "enc x @ s = enc y @ t"
  shows "x = y \<and> s = t"
proof -
  let ?r = "new_reader (enc x @ s)"
  have "rd ?r = Inr (x, advance (length (enc x)) ?r)"
    by (rule readsD [OF rd_enc [OF assms(1)]]) simp_all
  moreover have "rd ?r = Inr (y, advance (length (enc y)) ?r)"
    by (rule readsD [OF rd_enc [OF assms(2)], where t = t]) (simp_all add: assms(3))
  ultimately have "x = y" by simp
  with assms(3) show ?thesis by simp
qed

lemma enc_inject: "ok x \<Longrightarrow> ok y \<Longrightarrow> enc x = enc y \<longleftrightarrow> x = y"
  using prefix_free [of x y "[]" "[]"] by auto

lemma many_reads: "list_all ok xs \<Longrightarrow> reads (read_many (length xs) rd) (concat (map enc xs)) xs"
proof (induction xs)
  case (Cons x xs)
  then have "reads (p_bind rd (\<lambda>x. p_bind (read_many (length xs) rd) (\<lambda>xs. p_return (x # xs))))
      (enc x @ concat (map enc xs) @ []) (x # xs)"
    by (intro reads_bind [OF rd_enc] reads_bind [OF Cons.IH] reads_return) simp_all
  then show ?case by simp
qed (auto intro: codec_intros)

lemma many_exact: "gives (read_many n rd) (\<lambda>xs bs. length xs = n \<and> list_all ok xs \<and> bs = concat (map enc xs))"
proof (induction n)
  case 0
  show ?case by (auto intro: gives_mono [OF gives_return])
next
  case (Suc n)
  show ?case unfolding read_many.simps
    by (rule gives_mono [OF gives_bind [OF rd_exact gives_bind [OF Suc gives_return]]]) auto
qed

lemma many_errors: "decode_errors_only (read_many n rd)"
  by (induction n) (auto intro!: codec_intros rd_errors)

lemma many_writes: "list_all ok xs \<Longrightarrow> writes (for_each wr xs) (concat (map enc xs))"
proof (induction xs)
  case (Cons x xs)
  then have "writes (w_then (wr x) (for_each wr xs)) (enc x @ concat (map enc xs))"
    by (auto intro!: codec_intros wr_enc)
  moreover have "for_each wr (x # xs) = w_then (wr x) (for_each wr xs)"
    by (simp add: fun_eq_iff w_then_def)
  ultimately show ?case by simp
qed (simp add: writes_def)

lemma many_wr_Inr: "for_each wr xs w = Inr w' \<Longrightarrow> list_all ok xs"
  by (induction xs arbitrary: w) (auto simp: result_simps dest: wr_Inr)

end

section \<open>The primitive fields keep the contract\<close>

definition fits :: "nat \<Rightarrow> int \<Rightarrow> bool" where
  "fits n v \<longleftrightarrow> 0 \<le> v \<and> v < 2 ^ (8 * n)"

lemma fits_256: "fits n v \<longleftrightarrow> 0 \<le> v \<and> v < 256 ^ n"
  by (simp add: fits_def power_mult)

lemma fits_from_be: "length bs = n \<Longrightarrow> fits n (from_be bs)"
  using from_be_bound [of bs] by (simp add: fits_256)

lemma to_bytes_fits: "to_bytes v n = Inr bs \<longleftrightarrow> fits n v \<and> bs = to_be n v"
  by (auto simp: to_bytes_def fits_256)

lemma take_bytes_reads: "length bs = n \<Longrightarrow> reads (take_bytes n) bs bs"
proof -
  assume n: "length bs = n"
  have "take_bytes n r = Inr (bs, advance (length bs) r)" if "well_placed r" "rest r = bs @ t" for r t
  proof -
    have "length (drop (r_pos r) (r_data r)) = length (bs @ t)"
      using that(2) by (simp only: rest_def)
    then have "r_pos r + n \<le> length (r_data r)"
      using n that(1) by (simp add: well_placed_def)
    with that(2) n show ?thesis by (simp add: take_bytes_def rest_def advance_def)
  qed
  then show ?thesis unfolding reads_def by blast
qed

lemma take_bytes_gives: "gives (take_bytes n) (\<lambda>x bs. length x = n \<and> bs = x)"
  unfolding gives_def
proof (intro allI impI)
  fix r x r' assume "take_bytes n r = Inr (x, r')"
  then have x: "x = take n (rest r)" "r' = r\<lparr>r_pos := r_pos r + n\<rparr>" and "length x = n"
    by (auto simp: take_bytes_def rest_def Let_def split: if_splits)
  then have "rest r = x @ drop n (rest r)" "r' = advance (length x) r"
    by (simp_all add: advance_def)
  with \<open>length x = n\<close> show "\<exists>bs t. rest r = bs @ t \<and> r' = advance (length bs) r \<and> length x = n \<and> bs = x"
    by blast
qed

lemma take_bytes_errors [codec_intros]: "decode_errors_only (take_bytes n)"
  by (auto simp: decode_errors_only_def take_bytes_def Let_def)

lemma writes_append: "(\<And>w. f w = Inr (w @ [bs])) \<Longrightarrow> writes f bs"
  by (simp add: writes_def getvalue_def)

interpretation uint: codec "fits n" "to_be n" "write_uint n" "read_uint n" for n
proof
  fix v
  show "writes (write_uint n v) (to_be n v)" if "fits n v"
    using that by (intro writes_append) (simp add: write_uint_def uint_bytes_def fits_def)
  show "\<exists>e. write_uint n v w = Inl e" if "\<not> fits n v" for w
    using that by (auto simp: write_uint_def uint_bytes_def fits_def)
  show "reads (read_uint n) (to_be n v) v" if "fits n v"
  proof -
    have "reads (read_uint n) (to_be n v @ []) (from_be (to_be n v))"
      unfolding read_uint_def by (rule reads_bind [OF take_bytes_reads reads_return]) simp
    with that show ?thesis by (simp add: fits_256)
  qed
  show "gives (read_uint n) (\<lambda>v bs. fits n v \<and> bs = to_be n v)"
    unfolding read_uint_def
    by (rule gives_mono [OF gives_bind [OF take_bytes_gives gives_return]]) (auto simp: fits_from_be)
  show "decode_errors_only (read_uint n)"
    unfolding read_uint_def by (intro codec_intros)
qed

interpretation u8: codec "fits 1" "to_be 1" w_u8 r_u8
  unfolding w_u8_def r_u8_def by (rule uint.codec_axioms)

interpretation u32: codec "fits 4" "to_be 4" w_u32 r_u32
  unfolding w_u32_def r_u32_def by (rule uint.codec_axioms)

interpretation u64: codec "fits 8" "to_be 8" w_u64 r_u64
  unfolding w_u64_def r_u64_def by (rule uint.codec_axioms)

interpretation u256: codec "fits 32" "to_be 32" w_u256 r_u256
  unfolding w_u256_def r_u256_def by (rule uint.codec_axioms)

interpretation fixedc: codec "\<lambda>d. length d = n" "\<lambda>d. d" "w_fixed n" "r_fixed n" for n
  by unfold_locales
     (auto simp: w_fixed_def r_fixed_def intro!: writes_append take_bytes_reads take_bytes_errors
       gives_mono [OF take_bytes_gives])

definition var8_enc :: "bytes \<Rightarrow> bytes" where
  "var8_enc d = to_be 1 (int (length d)) @ d"

interpretation var8c: codec "\<lambda>d. length d \<le> 255" var8_enc w_var8 r_var8
proof
  fix d :: bytes
  have fits: "fits (Suc 0) (int (length d)) \<longleftrightarrow> length d \<le> 255" by (auto simp: fits_def)
  have wr: "w_var8 d = w_then (write_uint 1 (int (length d))) (w_raw d)"
    by (simp add: w_var8_def w_then_def w_raw_def [abs_def] w_u8_def fun_eq_iff)
  show "writes (w_var8 d) (var8_enc d)" if "length d \<le> 255"
    unfolding wr var8_enc_def using that by (intro codec_intros uint.wr_enc) (simp add: fits)
  show "\<exists>e. w_var8 d w = Inl e" if "\<not> length d \<le> 255" for w
    using that uint.wr_bad [of 1 "int (length d)" w] by (auto simp: fits wr w_then_def)
  show "reads r_var8 (var8_enc d) d" if "length d \<le> 255"
    unfolding r_var8_def r_u8_def var8_enc_def using that
    by (intro reads_bind [OF uint.rd_enc take_bytes_reads]) (simp_all add: fits)
  show "gives r_var8 (\<lambda>d bs. length d \<le> 255 \<and> bs = var8_enc d)"
    unfolding r_var8_def r_u8_def
    by (rule gives_mono [OF gives_bind [OF uint.rd_exact take_bytes_gives]])
       (auto simp: var8_enc_def fits_def)
  show "decode_errors_only r_var8"
    unfolding r_var8_def r_u8_def by (intro codec_intros uint.rd_errors)
qed

lemmas primitive_writes = u8.wr_enc u32.wr_enc u64.wr_enc u256.wr_enc fixedc.wr_enc var8c.wr_enc
lemmas primitive_errors = u8.rd_errors u32.rd_errors u64.rd_errors u256.rd_errors fixedc.rd_errors var8c.rd_errors

lemmas primitive_reads =
  reads_bind [OF u8.rd_enc] reads_bind [OF u32.rd_enc] reads_bind [OF u64.rd_enc] reads_bind [OF u256.rd_enc]
  reads_bind [OF fixedc.rd_enc] reads_bind [OF var8c.rd_enc] reads_end

lemmas primitive_written = u8.wr_Inr u32.wr_Inr u64.wr_Inr u256.wr_Inr fixedc.wr_Inr var8c.wr_Inr

lemma then_Inr: "w_then f g w = Inr w' \<longleftrightarrow> (\<exists>v. f w = Inr v \<and> g v = Inr w')"
  by (simp add: w_then_def result_simps)

lemma refuses: "(\<And>w'. m = Inr w' \<Longrightarrow> P) \<Longrightarrow> \<not> P \<Longrightarrow> \<exists>e. m = Inl e"
  by (cases m) auto

end
