(* ===== verification/Tx.thy ===== *)
theory Tx
  imports Encoding Address
begin

text \<open>
  \<open>core/tx.py\<close>: transfers and coinbases, their bytes, and the rules that need no chain state.
  \<open>serialize\<close> raises for a field that does not fit its place in the layout; \<open>txid\<close>, \<open>size\<close> and
  \<open>signing_message\<close> are over the bytes of the layout, which are the bytes \<open>serialize\<close> returns
  (lemma \<open>serialize_iff\<close>), and every transaction that was read from bytes fits.
\<close>

definition TX_VERSION :: int where "TX_VERSION = 1"
definition TYPE_COINBASE :: int where "TYPE_COINBASE = 0"
definition TYPE_TRANSFER :: int where "TYPE_TRANSFER = 1"
definition MAX_OUTPUTS :: nat where "MAX_OUTPUTS = 255"
definition MAX_MEMO_SIZE :: nat where "MAX_MEMO_SIZE = 255"
definition SIGNATURE_DOMAIN :: bytes where "SIGNATURE_DOMAIN = ascii ''TalCash/tx/1'' @ [0]"

record tx_output =
  out_address :: bytes
  out_amount :: int

record transfer =
  tf_network_id :: int
  tf_sender_public_key :: bytes
  tf_nonce :: int
  tf_fee :: int
  tf_outputs :: "tx_output list"
  tf_memo :: bytes
  tf_signature :: bytes

record coinbase =
  cb_network_id :: int
  cb_height :: int
  cb_address :: bytes
  cb_amount :: int
  cb_memo :: bytes

datatype transaction = Transfer transfer | Coinbase coinbase

definition is_coinbase :: "transaction \<Rightarrow> bool" where
  "is_coinbase tx = (case tx of Coinbase _ \<Rightarrow> True | Transfer _ \<Rightarrow> False)"

section \<open>Writing\<close>

definition write_output :: "tx_output \<Rightarrow> writer \<Rightarrow> writer result" where
  "write_output p = w_then (w_fixed PAYLOAD_SIZE (out_address p)) (w_u64 (out_amount p))"

definition write_unsigned :: "transfer \<Rightarrow> writer \<Rightarrow> writer result" where
  "write_unsigned t =
     w_then (w_u8 TX_VERSION) (w_then (w_u8 (tf_network_id t)) (w_then (w_u8 TYPE_TRANSFER)
     (w_then (w_fixed PUBLIC_KEY_SIZE (tf_sender_public_key t)) (w_then (w_u64 (tf_nonce t)) (w_then (w_u64 (tf_fee t))
     (w_then (w_u8 (int (length (tf_outputs t))))
     (w_then (for_each write_output (tf_outputs t))
     (w_var8 (tf_memo t)))))))))"

definition write_transfer :: "transfer \<Rightarrow> writer \<Rightarrow> writer result" where
  "write_transfer t = w_then (write_unsigned t) (w_fixed SIGNATURE_SIZE (tf_signature t))"

definition write_coinbase :: "coinbase \<Rightarrow> writer \<Rightarrow> writer result" where
  "write_coinbase c =
     w_then (w_u8 TX_VERSION) (w_then (w_u8 (cb_network_id c)) (w_then (w_u8 TYPE_COINBASE)
     (w_then (w_u64 (cb_height c)) (w_then (w_fixed PAYLOAD_SIZE (cb_address c))
     (w_then (w_u64 (cb_amount c)) (w_var8 (cb_memo c)))))))"

definition write_transaction :: "transaction \<Rightarrow> writer \<Rightarrow> writer result" where
  "write_transaction tx = (case tx of Transfer t \<Rightarrow> write_transfer t | Coinbase c \<Rightarrow> write_coinbase c)"

definition serialize_tx :: "transaction \<Rightarrow> bytes result" where
  "serialize_tx tx = rbind (write_transaction tx new_writer) (\<lambda>w. Inr (getvalue w))"

definition unsigned_bytes :: "transfer \<Rightarrow> bytes result" where
  "unsigned_bytes t = rbind (write_unsigned t new_writer) (\<lambda>w. Inr (getvalue w))"

text \<open>The layout as one expression.\<close>

definition output_bytes :: "tx_output \<Rightarrow> bytes" where
  "output_bytes p = out_address p @ to_be 8 (out_amount p)"

definition unsigned_layout :: "transfer \<Rightarrow> bytes" where
  "unsigned_layout t =
     to_be 1 TX_VERSION @ to_be 1 (tf_network_id t) @ to_be 1 TYPE_TRANSFER @
     tf_sender_public_key t @ to_be 8 (tf_nonce t) @ to_be 8 (tf_fee t) @
     to_be 1 (int (length (tf_outputs t))) @ concat (map output_bytes (tf_outputs t)) @
     var8_enc (tf_memo t)"

definition transfer_bytes :: "transfer \<Rightarrow> bytes" where
  "transfer_bytes t = unsigned_layout t @ tf_signature t"

definition coinbase_bytes :: "coinbase \<Rightarrow> bytes" where
  "coinbase_bytes c =
     to_be 1 TX_VERSION @ to_be 1 (cb_network_id c) @ to_be 1 TYPE_COINBASE @
     to_be 8 (cb_height c) @ cb_address c @ to_be 8 (cb_amount c) @ var8_enc (cb_memo c)"

definition tx_bytes :: "transaction \<Rightarrow> bytes" where
  "tx_bytes tx = (case tx of Transfer t \<Rightarrow> transfer_bytes t | Coinbase c \<Rightarrow> coinbase_bytes c)"

definition txid :: "prims \<Rightarrow> transaction \<Rightarrow> bytes" where
  "txid P tx = sha256 P (tx_bytes tx)"

definition tx_size :: "transaction \<Rightarrow> int" where
  "tx_size tx = int (length (tx_bytes tx))"

definition sender :: "prims \<Rightarrow> transfer \<Rightarrow> bytes" where
  "sender P t = payload_from_public_key P (tf_sender_public_key t)"

definition total_spent :: "transfer \<Rightarrow> int" where
  "total_spent t = sum_list (map out_amount (tf_outputs t)) + tf_fee t"

definition tx_memo :: "transaction \<Rightarrow> bytes" where
  "tx_memo tx = (case tx of Transfer t \<Rightarrow> tf_memo t | Coinbase c \<Rightarrow> cb_memo c)"

definition tx_network_id :: "transaction \<Rightarrow> int" where
  "tx_network_id tx = (case tx of Transfer t \<Rightarrow> tf_network_id t | Coinbase c \<Rightarrow> cb_network_id c)"

definition signing_message :: "transfer \<Rightarrow> bytes result" where
  "signing_message t = rbind (unsigned_bytes t) (\<lambda>b. Inr (SIGNATURE_DOMAIN @ b))"

definition sign_transfer :: "prims \<Rightarrow> bytes \<Rightarrow> transfer \<Rightarrow> transfer result" where
  "sign_transfer P private_key t =
     (if public_key P private_key \<noteq> tf_sender_public_key t then Inl ValueError
      else rbind (signing_message t) (\<lambda>m. Inr (t\<lparr>tf_signature := sign P private_key m\<rparr>)))"

definition has_valid_signature :: "prims \<Rightarrow> transfer \<Rightarrow> bool result" where
  "has_valid_signature P t =
     rbind (signing_message t) (\<lambda>m. Inr (verify P (tf_sender_public_key t) m (tf_signature t)))"

section \<open>Reading\<close>

definition read_output :: "tx_output parser" where
  "read_output = p_bind (r_fixed PAYLOAD_SIZE) (\<lambda>address. p_bind r_u64 (\<lambda>amount.
     p_return \<lparr>out_address = address, out_amount = amount\<rparr>))"

definition read_transfer_fields :: "int \<Rightarrow> transaction parser" where
  "read_transfer_fields nid =
     p_bind (r_fixed PUBLIC_KEY_SIZE) (\<lambda>pk. p_bind r_u64 (\<lambda>nonce. p_bind r_u64 (\<lambda>fee.
     p_bind r_u8 (\<lambda>count. p_bind (read_many (nat count) read_output) (\<lambda>outputs.
     p_bind r_var8 (\<lambda>memo. p_bind (r_fixed SIGNATURE_SIZE) (\<lambda>signature.
     p_return (Transfer \<lparr>tf_network_id = nid, tf_sender_public_key = pk, tf_nonce = nonce, tf_fee = fee,
       tf_outputs = outputs, tf_memo = memo, tf_signature = signature\<rparr>))))))))"

definition read_coinbase_fields :: "int \<Rightarrow> transaction parser" where
  "read_coinbase_fields nid =
     p_bind r_u64 (\<lambda>height. p_bind (r_fixed PAYLOAD_SIZE) (\<lambda>address. p_bind r_u64 (\<lambda>amount.
     p_bind r_var8 (\<lambda>memo.
     p_return (Coinbase \<lparr>cb_network_id = nid, cb_height = height, cb_address = address,
       cb_amount = amount, cb_memo = memo\<rparr>)))))"

definition read_transaction :: "transaction parser" where
  "read_transaction =
     p_bind r_u8 (\<lambda>version.
       if version \<noteq> TX_VERSION then p_raise DecodeError
       else p_bind r_u8 (\<lambda>nid. p_bind r_u8 (\<lambda>tx_type.
         if tx_type = TYPE_TRANSFER then read_transfer_fields nid
         else if tx_type = TYPE_COINBASE then read_coinbase_fields nid
         else p_raise DecodeError)))"

definition transaction_from_bytes :: "bytes \<Rightarrow> transaction result" where
  "transaction_from_bytes data = read_all read_transaction data"

section \<open>The rules that need no chain state\<close>

definition check_output :: "tx_output \<Rightarrow> unit result" where
  "check_output p =
     (if \<not> is_known_payload (out_address p) then Inl (ValidationError ''bad-address'')
      else if \<not> (1 \<le> out_amount p \<and> out_amount p \<le> MAX_AMOUNT) then Inl (ValidationError ''bad-amount'')
      else Inr ())"

definition check_transaction :: "prims \<Rightarrow> network_params \<Rightarrow> transaction \<Rightarrow> unit result" where
  "check_transaction P N tx =
     (if tx_network_id tx \<noteq> network_id N then Inl (ValidationError ''wrong-network'')
      else if length (tx_memo tx) > MAX_MEMO_SIZE then Inl (ValidationError ''memo-too-large'')
      else case tx of
        Coinbase c \<Rightarrow>
          if \<not> is_known_payload (cb_address c) then Inl (ValidationError ''bad-address'')
          else if \<not> (0 \<le> cb_amount c \<and> cb_amount c \<le> MAX_AMOUNT) then Inl (ValidationError ''bad-amount'')
          else Inr ()
      | Transfer t \<Rightarrow>
          if \<not> (1 \<le> length (tf_outputs t) \<and> length (tf_outputs t) \<le> MAX_OUTPUTS)
          then Inl (ValidationError ''bad-output-count'')
          else rbind (check_each check_output (tf_outputs t)) (\<lambda>_.
            if \<not> (0 \<le> tf_fee t \<and> tf_fee t \<le> MAX_AMOUNT) then Inl (ValidationError ''bad-fee'')
            else if total_spent t > MAX_AMOUNT then Inl (ValidationError ''amount-overflow'')
            else rbind (has_valid_signature P t) (\<lambda>valid.
              if \<not> valid then Inl (ValidationError ''bad-signature'') else Inr ())))"

section \<open>Transactions have exactly one encoding\<close>

definition output_fits :: "tx_output \<Rightarrow> bool" where
  "output_fits p \<longleftrightarrow> length (out_address p) = PAYLOAD_SIZE \<and> fits 8 (out_amount p)"

definition unsigned_fits :: "transfer \<Rightarrow> bool" where
  "unsigned_fits t \<longleftrightarrow>
     fits 1 (tf_network_id t) \<and> length (tf_sender_public_key t) = PUBLIC_KEY_SIZE \<and>
     fits 8 (tf_nonce t) \<and> fits 8 (tf_fee t) \<and> fits 1 (int (length (tf_outputs t))) \<and>
     list_all output_fits (tf_outputs t) \<and> length (tf_memo t) \<le> 255"

definition transfer_fits :: "transfer \<Rightarrow> bool" where
  "transfer_fits t \<longleftrightarrow> unsigned_fits t \<and> length (tf_signature t) = SIGNATURE_SIZE"

definition coinbase_fits :: "coinbase \<Rightarrow> bool" where
  "coinbase_fits c \<longleftrightarrow>
     fits 1 (cb_network_id c) \<and> fits 8 (cb_height c) \<and> length (cb_address c) = PAYLOAD_SIZE \<and>
     fits 8 (cb_amount c) \<and> length (cb_memo c) \<le> 255"

definition tx_fits :: "transaction \<Rightarrow> bool" where
  "tx_fits tx = (case tx of Transfer t \<Rightarrow> transfer_fits t | Coinbase c \<Rightarrow> coinbase_fits c)"

lemma fits_types: "fits 1 TX_VERSION" "fits 1 TYPE_TRANSFER" "fits 1 TYPE_COINBASE"
  by (simp_all add: fits_def TX_VERSION_def TYPE_TRANSFER_def TYPE_COINBASE_def)

interpretation outputc: codec output_fits output_bytes write_output read_output
proof
  fix p :: tx_output
  show "writes (write_output p) (output_bytes p)" if "output_fits p"
    unfolding write_output_def output_bytes_def using that
    by (intro codec_intros primitive_writes) (simp_all add: output_fits_def)
  show "\<exists>e. write_output p w = Inl e" if "\<not> output_fits p" for w
    by (rule refuses [OF _ that]) (auto simp: write_output_def then_Inr output_fits_def dest: primitive_written)
  show "reads read_output (output_bytes p) p" if "output_fits p"
    unfolding read_output_def using that
    by (intro reads_cong [OF reads_bind [OF fixedc.rd_enc reads_bind [OF u64.rd_enc reads_return]]])
       (auto simp: output_fits_def output_bytes_def)
  show "gives read_output (\<lambda>p bs. output_fits p \<and> bs = output_bytes p)"
    unfolding read_output_def
    by (rule gives_mono [OF gives_bind [OF fixedc.rd_exact gives_bind [OF u64.rd_exact gives_return]]])
       (auto simp: output_fits_def output_bytes_def)
  show "decode_errors_only read_output"
    unfolding read_output_def by (intro codec_intros primitive_errors)
qed

lemma unsigned_writes: "unsigned_fits t \<Longrightarrow> writes (write_unsigned t) (unsigned_layout t)"
  unfolding write_unsigned_def unsigned_layout_def
  by (intro codec_intros primitive_writes fits_types outputc.many_writes) (simp_all add: unsigned_fits_def)

lemma unsigned_written: "write_unsigned t w = Inr w' \<Longrightarrow> unsigned_fits t"
  unfolding write_unsigned_def then_Inr unsigned_fits_def
  by (blast dest: primitive_written outputc.many_wr_Inr)

lemma read_transfer_gives:
  "gives (read_transfer_fields nid) (\<lambda>tx bs. \<exists>t. tx = Transfer t \<and> tf_network_id t = nid \<and>
     (fits 1 nid \<longrightarrow> transfer_fits t) \<and>
     to_be 1 TX_VERSION @ to_be 1 nid @ to_be 1 TYPE_TRANSFER @ bs = transfer_bytes t)"
  unfolding read_transfer_fields_def
  by (rule gives_mono [OF gives_bind [OF fixedc.rd_exact gives_bind [OF u64.rd_exact gives_bind [OF u64.rd_exact
        gives_bind [OF u8.rd_exact gives_bind [OF outputc.many_exact gives_bind [OF var8c.rd_exact
        gives_bind [OF fixedc.rd_exact gives_return]]]]]]]])
     (auto simp: transfer_fits_def unsigned_fits_def transfer_bytes_def unsigned_layout_def fits_def)

lemma read_coinbase_gives:
  "gives (read_coinbase_fields nid) (\<lambda>tx bs. \<exists>c. tx = Coinbase c \<and> cb_network_id c = nid \<and>
     (fits 1 nid \<longrightarrow> coinbase_fits c) \<and>
     to_be 1 TX_VERSION @ to_be 1 nid @ to_be 1 TYPE_COINBASE @ bs = coinbase_bytes c)"
  unfolding read_coinbase_fields_def
  by (rule gives_mono [OF gives_bind [OF u64.rd_exact gives_bind [OF fixedc.rd_exact gives_bind [OF u64.rd_exact
        gives_bind [OF var8c.rd_exact gives_return]]]]])
     (auto simp: coinbase_fits_def coinbase_bytes_def)

text \<open>The three bytes every transaction starts with lead to the reader of its kind.\<close>

lemma read_header:
  assumes "reads (if kind = TYPE_TRANSFER then read_transfer_fields nid else read_coinbase_fields nid) bs tx"
    and "fits 1 nid" and "kind = TYPE_TRANSFER \<or> kind = TYPE_COINBASE"
  shows "reads read_transaction (to_be 1 TX_VERSION @ to_be 1 nid @ to_be 1 kind @ bs) tx"
proof -
  let ?rest = "\<lambda>nid kind. if kind = TYPE_TRANSFER then read_transfer_fields nid
      else if kind = TYPE_COINBASE then read_coinbase_fields nid else p_raise DecodeError"
  have kind: "fits 1 kind" using assms(3) fits_types by blast
  have "reads (?rest nid kind) bs tx" using assms(1,3) by (simp split: if_splits)
  then have "reads (p_bind r_u8 (?rest nid)) (to_be 1 kind @ bs) tx"
    by (rule reads_bind [OF u8.rd_enc [OF kind]])
  then have "reads (p_bind r_u8 (\<lambda>nid. p_bind r_u8 (?rest nid))) (to_be 1 nid @ to_be 1 kind @ bs) tx"
    by (rule reads_bind [OF u8.rd_enc [OF assms(2)]])
  then show ?thesis unfolding read_transaction_def
    by (intro reads_bind [OF u8.rd_enc [OF fits_types(1)]]) simp
qed

lemma outputs_reads: "list_all output_fits xs \<Longrightarrow>
    reads (read_many (nat (int (length xs))) read_output) (concat (map output_bytes xs)) xs"
  using outputc.many_reads by simp

interpretation txc: codec tx_fits tx_bytes write_transaction read_transaction
proof
  fix tx :: transaction
  show "writes (write_transaction tx) (tx_bytes tx)" if "tx_fits tx"
  proof (cases tx)
    case (Transfer t)
    with that have "writes (write_transfer t) (transfer_bytes t)"
      unfolding write_transfer_def transfer_bytes_def
      by (intro codec_intros unsigned_writes primitive_writes) (simp_all add: tx_fits_def transfer_fits_def)
    with Transfer show ?thesis by (simp add: write_transaction_def tx_bytes_def)
  next
    case (Coinbase c)
    with that have "writes (write_coinbase c) (coinbase_bytes c)"
      unfolding write_coinbase_def coinbase_bytes_def
      by (intro codec_intros primitive_writes fits_types) (simp_all add: tx_fits_def coinbase_fits_def)
    with Coinbase show ?thesis by (simp add: write_transaction_def tx_bytes_def)
  qed
  show "\<exists>e. write_transaction tx w = Inl e" if "\<not> tx_fits tx" for w
    by (rule refuses [OF _ that])
       (auto simp: write_transaction_def write_transfer_def write_coinbase_def then_Inr tx_fits_def
         transfer_fits_def coinbase_fits_def split: transaction.splits
         dest: unsigned_written fixedc.wr_Inr u8.wr_Inr u64.wr_Inr var8c.wr_Inr)
  show "reads read_transaction (tx_bytes tx) tx" if "tx_fits tx"
  proof (cases tx)
    case (Transfer t)
    then have t: "transfer_fits t" using that by (simp add: tx_fits_def)
    have "reads (read_transfer_fields (tf_network_id t))
        (tf_sender_public_key t @ to_be 8 (tf_nonce t) @ to_be 8 (tf_fee t) @
         to_be 1 (int (length (tf_outputs t))) @ concat (map output_bytes (tf_outputs t)) @
         var8_enc (tf_memo t) @ tf_signature t @ []) tx"
      unfolding read_transfer_fields_def
      by (intro primitive_reads reads_bind [OF outputs_reads])
         (use t in \<open>simp_all add: transfer_fits_def unsigned_fits_def Transfer\<close>)
    then have "reads read_transaction (to_be 1 TX_VERSION @ to_be 1 (tf_network_id t) @ to_be 1 TYPE_TRANSFER @
        (tf_sender_public_key t @ to_be 8 (tf_nonce t) @ to_be 8 (tf_fee t) @
         to_be 1 (int (length (tf_outputs t))) @ concat (map output_bytes (tf_outputs t)) @
         var8_enc (tf_memo t) @ tf_signature t @ [])) tx"
      by (intro read_header) (use t in \<open>simp_all add: transfer_fits_def unsigned_fits_def\<close>)
    with Transfer show ?thesis by (simp add: tx_bytes_def transfer_bytes_def unsigned_layout_def)
  next
    case (Coinbase c)
    then have c: "coinbase_fits c" using that by (simp add: tx_fits_def)
    have "reads (read_coinbase_fields (cb_network_id c))
        (to_be 8 (cb_height c) @ cb_address c @ to_be 8 (cb_amount c) @ var8_enc (cb_memo c) @ []) tx"
      unfolding read_coinbase_fields_def
      by (intro primitive_reads) (use c in \<open>simp_all add: coinbase_fits_def Coinbase\<close>)
    then have "reads read_transaction (to_be 1 TX_VERSION @ to_be 1 (cb_network_id c) @ to_be 1 TYPE_COINBASE @
        (to_be 8 (cb_height c) @ cb_address c @ to_be 8 (cb_amount c) @ var8_enc (cb_memo c) @ [])) tx"
      by (intro read_header) (use c in \<open>simp_all add: coinbase_fits_def TYPE_COINBASE_def TYPE_TRANSFER_def\<close>)
    with Coinbase show ?thesis by (simp add: tx_bytes_def coinbase_bytes_def)
  qed
  show "gives read_transaction (\<lambda>tx bs. tx_fits tx \<and> bs = tx_bytes tx)"
    unfolding read_transaction_def
    by (rule gives_mono [OF gives_bind [OF u8.rd_exact gives_if [OF gives_raise gives_bind [OF u8.rd_exact
          gives_bind [OF u8.rd_exact gives_if [OF read_transfer_gives gives_if [OF read_coinbase_gives gives_raise]]]]]]])
       (auto simp: tx_fits_def tx_bytes_def split: if_splits)
  show "decode_errors_only read_transaction"
    unfolding read_transaction_def read_transfer_fields_def read_coinbase_fields_def
    by (intro codec_intros primitive_errors outputc.many_errors)
qed

lemma serialize_iff: "serialize_tx tx = Inr d \<longleftrightarrow> tx_fits tx \<and> d = tx_bytes tx"
  unfolding serialize_tx_def by (rule txc.write_iff)

text \<open>C6. A byte string decodes to a transaction exactly when it is what that transaction serializes to:
  decoding undoes serializing, and no second byte string, no truncated or extended one, decodes to
  the same transaction.\<close>

theorem transaction_roundtrip:
  "transaction_from_bytes d = Inr tx \<longleftrightarrow> serialize_tx tx = Inr d"
  unfolding transaction_from_bytes_def serialize_iff by (rule txc.read_all_iff)

lemma transaction_from_bytes_error: "transaction_from_bytes d = Inl e \<Longrightarrow> e = DecodeError"
  unfolding transaction_from_bytes_def by (rule txc.read_all_error)

section \<open>Signatures\<close>

lemma unsigned_bytes_iff: "unsigned_bytes t = Inr b \<longleftrightarrow> unsigned_fits t \<and> b = unsigned_layout t"
proof (cases "unsigned_fits t")
  case True
  then show ?thesis using writesD [OF unsigned_writes] by (auto simp: unsigned_bytes_def)
next
  case False
  then show ?thesis by (auto simp: unsigned_bytes_def result_simps dest: unsigned_written)
qed

lemma signing_message_iff:
  "signing_message t = Inr m \<longleftrightarrow> unsigned_fits t \<and> m = SIGNATURE_DOMAIN @ unsigned_layout t"
  by (auto simp: signing_message_def result_simps unsigned_bytes_iff)

lemma unsigned_layout_inject:
  assumes "unsigned_fits t" "unsigned_fits u" "unsigned_layout t = unsigned_layout u"
  shows "t\<lparr>tf_signature := s\<rparr> = u\<lparr>tf_signature := s\<rparr>"
proof -
  let ?z = "zero_bytes SIGNATURE_SIZE"
  let ?t = "Transfer (t\<lparr>tf_signature := ?z\<rparr>)" and ?u = "Transfer (u\<lparr>tf_signature := ?z\<rparr>)"
  have "unsigned_layout (v\<lparr>tf_signature := w\<rparr>) = unsigned_layout v" for v w
    by (simp add: unsigned_layout_def)
  then have "tx_bytes ?t = tx_bytes ?u"
    using assms(3) by (simp add: tx_bytes_def transfer_bytes_def)
  moreover have "tx_fits ?t" "tx_fits ?u"
    using assms(1,2) by (simp_all add: tx_fits_def transfer_fits_def unsigned_fits_def)
  ultimately have "?t = ?u" using txc.enc_inject by blast
  then show ?thesis by (cases t; cases u) simp
qed

text \<open>C7. The signed message determines every field of a transfer except the signature itself, the
  network, the nonce, the fee and each receiver's amount included: no field can be changed without
  changing the message that was signed.\<close>

theorem signature_covers_every_field:
  assumes "signing_message t = Inr m" and "signing_message u = Inr m"
  shows "u = t\<lparr>tf_signature := tf_signature u\<rparr>"
  using unsigned_layout_inject [of u t "tf_signature u"] assms
  by (auto simp: signing_message_iff)

definition example_transfer :: transfer where
  "example_transfer = \<lparr>tf_network_id = 1, tf_sender_public_key = replicate 32 5, tf_nonce = 3, tf_fee = 1000,
     tf_outputs = [\<lparr>out_address = BURN_PAYLOAD, out_amount = 250000\<rparr>], tf_memo = [104, 105],
     tf_signature = zero_bytes 64\<rparr>"

lemma example_transfer_fits: "unsigned_fits example_transfer"
  by (simp add: unsigned_fits_def example_transfer_def output_fits_def fits_def BURN_PAYLOAD_def
      PUBLIC_KEY_SIZE_def PAYLOAD_SIZE_def)

lemma signature_covers_every_field_witness:
  "example_transfer\<lparr>tf_signature := replicate 64 9\<rparr>
     = example_transfer\<lparr>tf_signature := tf_signature (example_transfer\<lparr>tf_signature := replicate 64 9\<rparr>)\<rparr>"
proof (rule signature_covers_every_field)
  show "signing_message example_transfer = Inr (SIGNATURE_DOMAIN @ unsigned_layout example_transfer)"
    "signing_message (example_transfer\<lparr>tf_signature := replicate 64 9\<rparr>)
       = Inr (SIGNATURE_DOMAIN @ unsigned_layout example_transfer)"
    using example_transfer_fits
    by (simp_all add: signing_message_iff unsigned_fits_def unsigned_layout_def)
qed

text \<open>Libsodium's documented contract: a signature made with a private key verifies under its public
  key, and keys and signatures have their fixed sizes.\<close>

definition ed25519_correct :: "prims \<Rightarrow> bool" where
  "ed25519_correct P \<longleftrightarrow>
     (\<forall>sk. length (pub_of P sk) = PUBLIC_KEY_SIZE \<and>
        (\<forall>m. length (ed_sign P sk m) = SIGNATURE_SIZE \<and> ed_verify P (pub_of P sk) m (ed_sign P sk m)))"

lemma signed_is_valid:
  assumes "ed25519_correct P" "sign_transfer P sk t = Inr u"
  shows "has_valid_signature P u = Inr True" and "u = t\<lparr>tf_signature := tf_signature u\<rparr>"
proof -
  from assms(2) obtain m where m: "signing_message t = Inr m" and pk: "pub_of P sk = tf_sender_public_key t"
      and u: "u = t\<lparr>tf_signature := ed_sign P sk m\<rparr>"
    by (auto simp: sign_transfer_def public_key_def sign_def result_simps split: if_splits)
  have "signing_message u = Inr m"
    using m by (simp add: u signing_message_iff unsigned_fits_def unsigned_layout_def)
  with assms(1) show "has_valid_signature P u = Inr True"
    by (simp add: has_valid_signature_def u verify_def pk [symmetric] ed25519_correct_def)
  show "u = t\<lparr>tf_signature := tf_signature u\<rparr>" by (simp add: u)
qed

section \<open>What a checked transaction guarantees\<close>

text \<open>The parts of \<open>check_transaction\<close> a block's application relies on.\<close>

definition tx_amounts_ok :: "transaction \<Rightarrow> bool" where
  "tx_amounts_ok tx = (case tx of
     Coinbase c \<Rightarrow> 0 \<le> cb_amount c \<and> cb_amount c \<le> MAX_AMOUNT
   | Transfer t \<Rightarrow> tf_outputs t \<noteq> [] \<and> 0 \<le> tf_fee t \<and> total_spent t \<le> MAX_AMOUNT \<and>
       (\<forall>p\<in>set (tf_outputs t). 1 \<le> out_amount p \<and> out_amount p \<le> MAX_AMOUNT))"

lemma check_output_Inr: "check_output p = Inr u \<longleftrightarrow>
    is_known_payload (out_address p) \<and> 1 \<le> out_amount p \<and> out_amount p \<le> MAX_AMOUNT"
  by (auto simp: check_output_def)

lemma check_transaction_amounts: "check_transaction P N tx = Inr u \<Longrightarrow> tx_amounts_ok tx"
  by (auto simp: check_transaction_def tx_amounts_ok_def result_simps check_output_Inr Let_def
      split: if_splits transaction.splits)

text \<open>On a transaction whose fields have their sizes, as a decoded one's do, a failing check raises
  a \<open>ValidationError\<close> and nothing else.\<close>

lemma check_transaction_Inl:
  assumes "check_transaction P N tx = Inl x" "tx_fits tx"
  shows "\<exists>code. x = ValidationError code"
proof (cases tx)
  case (Transfer t)
  have out: "check_output p = Inl y \<Longrightarrow> \<exists>code. y = ValidationError code" for p y
    by (auto simp: check_output_def split: if_splits)
  have "signing_message t = Inr (SIGNATURE_DOMAIN @ unsigned_layout t)"
    using assms(2) Transfer by (simp add: signing_message_iff tx_fits_def transfer_fits_def)
  then have "has_valid_signature P t \<noteq> Inl y" for y by (simp add: has_valid_signature_def)
  then show ?thesis
    using assms(1) Transfer
    by (auto simp: check_transaction_def result_simps dest: check_each_Inl out split: if_splits)
qed (use assms(1) in \<open>auto simp: check_transaction_def split: if_splits\<close>)

lemma check_transaction_Transfer:
  "check_transaction P N (Transfer t) = Inr u \<Longrightarrow>
     tf_network_id t = network_id N \<and> has_valid_signature P t = Inr True \<and>
     (\<forall>p\<in>set (tf_outputs t). is_known_payload (out_address p))"
  by (auto simp: check_transaction_def result_simps check_output_Inr tx_network_id_def split: if_splits)

lemma signed_transfer_accepted:
  assumes "ed25519_correct P" and "sign_transfer P sk t = Inr u"
    and "tf_network_id t = network_id N" and "length (tf_memo t) \<le> 255"
    and "tf_outputs t \<noteq> []" and "length (tf_outputs t) \<le> 255"
    and "\<forall>p\<in>set (tf_outputs t). is_known_payload (out_address p) \<and> 1 \<le> out_amount p"
    and "0 \<le> tf_fee t" and "total_spent t \<le> MAX_AMOUNT"
  shows "check_transaction P N (Transfer u) = Inr ()"
proof -
  note u = signed_is_valid [OF assms(1,2)]
  have f: "tf_outputs u = tf_outputs t" "tf_fee u = tf_fee t" "tf_memo u = tf_memo t"
      "tf_network_id u = tf_network_id t" "total_spent u = total_spent t"
    by (subst u(2), simp add: total_spent_def)+
  let ?amounts = "map out_amount (tf_outputs t)"
  have pos: "\<forall>a\<in>set ?amounts. 0 \<le> a" using assms(7) by force
  have "a \<le> MAX_AMOUNT" if "a \<in> set ?amounts" for a
    using member_le_sum_list_int [of a ?amounts] that pos assms(8,9) by (simp add: total_spent_def)
  moreover have "tf_fee t \<le> MAX_AMOUNT"
    using sum_list_nonneg_int [of ?amounts] pos assms(9) by (simp add: total_spent_def)
  moreover have "1 \<le> length (tf_outputs t)" using assms(5) by (simp add: Suc_le_eq)
  ultimately show ?thesis
    using assms(3-) u(1) f check_each_Inr [of check_output "tf_outputs t" "()"]
    by (simp add: check_transaction_def tx_network_id_def tx_memo_def MAX_MEMO_SIZE_def MAX_OUTPUTS_def
        check_output_Inr)
qed

text \<open>Signing and checking fit together: a transfer built for this network with between 1 and 255
  outputs of at least one base unit to known addresses, with a fee and a total in range, and signed
  by its sender's key, passes every rule of \<open>check_transaction\<close>.\<close>

theorem signed_transfer_is_accepted:
  assumes "ed25519_correct P" and "sign_transfer P sk t = Inr u"
    and "tf_network_id t = network_id N" and "length (tf_memo t) \<le> 255"
    and "tf_outputs t \<noteq> []" and "length (tf_outputs t) \<le> 255"
    and "\<forall>p\<in>set (tf_outputs t). is_known_payload (out_address p) \<and> 1 \<le> out_amount p"
    and "0 \<le> tf_fee t" and "total_spent t \<le> MAX_AMOUNT"
  shows "check_transaction P N (Transfer u) = Inr ()"
  using assms by (rule signed_transfer_accepted)

lemma ed25519_correct_example: "ed25519_correct example_prims"
  by (auto simp: ed25519_correct_def example_prims_def PUBLIC_KEY_SIZE_def SIGNATURE_SIZE_def min_def)

lemma signed_transfer_is_accepted_witness:
  "\<exists>u. sign_transfer example_prims [] example_transfer = Inr u \<and>
     check_transaction example_prims MAINNET (Transfer u) = Inr ()"
proof -
  have key: "public_key example_prims [] = tf_sender_public_key example_transfer"
    by (simp add: public_key_def example_prims_def example_transfer_def zero_bytes_def)
  obtain m where "signing_message example_transfer = Inr m"
    using example_transfer_fits signing_message_iff by blast
  with key obtain u where u: "sign_transfer example_prims [] example_transfer = Inr u"
    by (auto simp: sign_transfer_def)
  then have "check_transaction example_prims MAINNET (Transfer u) = Inr ()"
    by (rule signed_transfer_is_accepted [OF ed25519_correct_example])
       (simp_all add: example_transfer_def MAINNET_def is_known_payload_burn total_spent_def MAX_AMOUNT_def)
  with u show ?thesis by blast
qed

end
