(* ===== verification/Block.thy ===== *)
theory Block
  imports Tx
begin

text \<open>
  \<open>core/block.py\<close>: headers and blocks, their bytes, and the rules that need no chain state.  As for
  transactions, \<open>block_id\<close> and \<open>block_size\<close> are over the bytes of the layout, which are what
  \<open>serialize\<close> returns for every header and block whose fields fit.
\<close>

definition BLOCK_VERSION :: int where "BLOCK_VERSION = 1"
definition HEADER_SIZE :: nat where "HEADER_SIZE = 156"

record block_header =
  bh_version :: int
  bh_height :: int
  bh_prev_id :: bytes
  bh_merkle_root :: bytes
  bh_snapshot_root :: bytes
  bh_timestamp :: int
  bh_target :: int
  bh_nonce :: int

record block =
  header :: block_header
  transactions :: "transaction list"

definition write_header :: "block_header \<Rightarrow> writer \<Rightarrow> writer result" where
  "write_header h =
     w_then (w_u32 (bh_version h)) (w_then (w_u64 (bh_height h)) (w_then (w_fixed 32 (bh_prev_id h))
     (w_then (w_fixed 32 (bh_merkle_root h)) (w_then (w_fixed 32 (bh_snapshot_root h))
     (w_then (w_u64 (bh_timestamp h)) (w_then (w_u256 (bh_target h)) (w_u64 (bh_nonce h))))))))"

definition serialize_header :: "block_header \<Rightarrow> bytes result" where
  "serialize_header h = rbind (write_header h new_writer) (\<lambda>w. Inr (getvalue w))"

definition header_bytes :: "block_header \<Rightarrow> bytes" where
  "header_bytes h =
     to_be 4 (bh_version h) @ to_be 8 (bh_height h) @ bh_prev_id h @ bh_merkle_root h @
     bh_snapshot_root h @ to_be 8 (bh_timestamp h) @ to_be 32 (bh_target h) @ to_be 8 (bh_nonce h)"

definition block_id :: "prims \<Rightarrow> block_header \<Rightarrow> bytes" where
  "block_id P h = sha256 P (header_bytes h)"

definition read_header :: "block_header parser" where
  "read_header =
     p_bind r_u32 (\<lambda>version. p_bind r_u64 (\<lambda>height. p_bind (r_fixed 32) (\<lambda>prev.
     p_bind (r_fixed 32) (\<lambda>merkle. p_bind (r_fixed 32) (\<lambda>snapshot. p_bind r_u64 (\<lambda>timestamp.
     p_bind r_u256 (\<lambda>target. p_bind r_u64 (\<lambda>nonce.
     p_return \<lparr>bh_version = version, bh_height = height, bh_prev_id = prev, bh_merkle_root = merkle,
       bh_snapshot_root = snapshot, bh_timestamp = timestamp, bh_target = target, bh_nonce = nonce\<rparr>))))))))"

definition header_from_bytes :: "bytes \<Rightarrow> block_header result" where
  "header_from_bytes data = read_all read_header data"

definition compute_merkle_root :: "prims \<Rightarrow> transaction list \<Rightarrow> bytes result" where
  "compute_merkle_root P txs = merkle_root P (map (txid P) txs)"

text \<open>\<open>w.raw(self.header.serialize())\<close> and \<open>w.raw(tx.serialize())\<close>\<close>

definition write_raw_header :: "block_header \<Rightarrow> writer \<Rightarrow> writer result" where
  "write_raw_header h w = rbind (serialize_header h) (\<lambda>d. w_raw d w)"

definition write_raw_tx :: "transaction \<Rightarrow> writer \<Rightarrow> writer result" where
  "write_raw_tx tx w = rbind (serialize_tx tx) (\<lambda>d. w_raw d w)"

definition write_block :: "block \<Rightarrow> writer \<Rightarrow> writer result" where
  "write_block b =
     w_then (write_raw_header (header b))
       (w_then (w_u32 (int (length (transactions b)))) (for_each write_raw_tx (transactions b)))"

definition serialize_block :: "block \<Rightarrow> bytes result" where
  "serialize_block b = rbind (write_block b new_writer) (\<lambda>w. Inr (getvalue w))"

definition block_bytes :: "block \<Rightarrow> bytes" where
  "block_bytes b =
     header_bytes (header b) @ to_be 4 (int (length (transactions b))) @ concat (map tx_bytes (transactions b))"

definition block_size :: "block \<Rightarrow> int" where
  "block_size b = int (length (block_bytes b))"

definition height :: "block \<Rightarrow> int" where
  "height b = bh_height (header b)"

definition coinbase_of :: "block \<Rightarrow> coinbase result" where
  "coinbase_of b =
     (case transactions b of
        [] \<Rightarrow> Inl IndexError
      | Coinbase c # _ \<Rightarrow> Inr c
      | Transfer _ # _ \<Rightarrow> Inl AssertionError)"

definition read_block :: "block parser" where
  "read_block =
     p_bind read_header (\<lambda>h. p_bind r_u32 (\<lambda>count. p_bind (read_many (nat count) read_transaction) (\<lambda>txs.
     p_return \<lparr>header = h, transactions = txs\<rparr>)))"

definition block_from_bytes :: "bytes \<Rightarrow> block result" where
  "block_from_bytes data = read_all read_block data"

definition check_block :: "prims \<Rightarrow> network_params \<Rightarrow> block \<Rightarrow> unit result" where
  "check_block P N b =
     (if bh_version (header b) \<noteq> BLOCK_VERSION then Inl (ValidationError ''bad-version'')
      else if block_size b > max_block_size N then Inl (ValidationError ''block-too-large'')
      else if transactions b = [] \<or> \<not> is_coinbase (hd (transactions b))
      then Inl (ValidationError ''missing-coinbase'')
      else if list_ex is_coinbase (tl (transactions b)) then Inl (ValidationError ''extra-coinbase'')
      else rbind (coinbase_of b) (\<lambda>c.
        if cb_height c \<noteq> bh_height (header b) then Inl (ValidationError ''bad-coinbase-height'')
        else if \<not> distinct (map (txid P) (transactions b)) then Inl (ValidationError ''duplicate-transaction'')
        else rbind (compute_merkle_root P (transactions b)) (\<lambda>root.
          if root \<noteq> bh_merkle_root (header b) then Inl (ValidationError ''bad-merkle-root'')
          else check_each (check_transaction P N) (transactions b))))"

section \<open>Headers and blocks have exactly one encoding\<close>

definition header_fits :: "block_header \<Rightarrow> bool" where
  "header_fits h \<longleftrightarrow>
     fits 4 (bh_version h) \<and> fits 8 (bh_height h) \<and> length (bh_prev_id h) = 32 \<and>
     length (bh_merkle_root h) = 32 \<and> length (bh_snapshot_root h) = 32 \<and> fits 8 (bh_timestamp h) \<and>
     fits 32 (bh_target h) \<and> fits 8 (bh_nonce h)"

definition block_fits :: "block \<Rightarrow> bool" where
  "block_fits b \<longleftrightarrow>
     header_fits (header b) \<and> fits 4 (int (length (transactions b))) \<and> list_all tx_fits (transactions b)"

interpretation headerc: codec header_fits header_bytes write_header read_header
proof
  fix h :: block_header
  show "writes (write_header h) (header_bytes h)" if "header_fits h"
    unfolding write_header_def header_bytes_def
    by (intro codec_intros primitive_writes) (use that in \<open>simp_all add: header_fits_def\<close>)
  show "\<exists>e. write_header h w = Inl e" if "\<not> header_fits h" for w
    by (rule refuses [OF _ that]) (auto simp: write_header_def then_Inr header_fits_def dest: primitive_written)
  show "reads read_header (header_bytes h) h" if "header_fits h"
  proof -
    have "reads read_header (to_be 4 (bh_version h) @ to_be 8 (bh_height h) @ bh_prev_id h @ bh_merkle_root h @
        bh_snapshot_root h @ to_be 8 (bh_timestamp h) @ to_be 32 (bh_target h) @ to_be 8 (bh_nonce h) @ []) h"
      unfolding read_header_def
      by (intro primitive_reads) (use that in \<open>simp_all add: header_fits_def\<close>)
    then show ?thesis by (simp add: header_bytes_def)
  qed
  show "gives read_header (\<lambda>h bs. header_fits h \<and> bs = header_bytes h)"
    unfolding read_header_def
    by (rule gives_mono [OF gives_bind [OF u32.rd_exact gives_bind [OF u64.rd_exact gives_bind [OF fixedc.rd_exact
          gives_bind [OF fixedc.rd_exact gives_bind [OF fixedc.rd_exact gives_bind [OF u64.rd_exact
          gives_bind [OF u256.rd_exact gives_bind [OF u64.rd_exact gives_return]]]]]]]]])
       (auto simp: header_fits_def header_bytes_def)
  show "decode_errors_only read_header"
    unfolding read_header_def by (intro codec_intros primitive_errors)
qed

lemma serialize_header_iff: "serialize_header h = Inr d \<longleftrightarrow> header_fits h \<and> d = header_bytes h"
  unfolding serialize_header_def by (rule headerc.write_iff)

lemma length_header_bytes: "header_fits h \<Longrightarrow> length (header_bytes h) = HEADER_SIZE"
  by (simp add: header_bytes_def header_fits_def HEADER_SIZE_def)

lemma raw_header_writes: "header_fits h \<Longrightarrow> writes (write_raw_header h) (header_bytes h)"
  by (intro writes_append) (simp add: write_raw_header_def serialize_header_iff [THEN iffD2] w_raw_def)

lemma raw_header_written: "write_raw_header h w = Inr w' \<Longrightarrow> header_fits h"
  by (auto simp: write_raw_header_def result_simps serialize_header_iff)

interpretation raw_txc: codec tx_fits tx_bytes write_raw_tx read_transaction
proof
  show "writes (write_raw_tx tx) (tx_bytes tx)" if "tx_fits tx" for tx
    using that by (intro writes_append) (simp add: write_raw_tx_def serialize_iff [THEN iffD2] w_raw_def)
  show "\<exists>e. write_raw_tx tx w = Inl e" if "\<not> tx_fits tx" for tx w
    by (rule refuses [OF _ that]) (auto simp: write_raw_tx_def result_simps serialize_iff)
qed (rule txc.rd_enc txc.rd_exact txc.rd_errors; assumption?)+

lemma txs_reads: "list_all tx_fits xs \<Longrightarrow>
    reads (read_many (nat (int (length xs))) read_transaction) (concat (map tx_bytes xs)) xs"
  using txc.many_reads by simp

interpretation blockc: codec block_fits block_bytes write_block read_block
proof
  fix b :: block
  show "writes (write_block b) (block_bytes b)" if "block_fits b"
    unfolding write_block_def block_bytes_def
    by (intro codec_intros raw_header_writes primitive_writes raw_txc.many_writes)
       (use that in \<open>simp_all add: block_fits_def\<close>)
  show "\<exists>e. write_block b w = Inl e" if "\<not> block_fits b" for w
    by (rule refuses [OF _ that])
       (auto simp: write_block_def then_Inr block_fits_def
         dest: raw_header_written u32.wr_Inr raw_txc.many_wr_Inr)
  show "reads read_block (block_bytes b) b" if "block_fits b"
  proof -
    have "reads read_block (header_bytes (header b) @ to_be 4 (int (length (transactions b))) @
        concat (map tx_bytes (transactions b)) @ []) b"
      unfolding read_block_def
      by (intro reads_bind [OF headerc.rd_enc] primitive_reads reads_bind [OF txs_reads])
         (use that in \<open>simp_all add: block_fits_def\<close>)
    then show ?thesis by (simp add: block_bytes_def)
  qed
  show "gives read_block (\<lambda>b bs. block_fits b \<and> bs = block_bytes b)"
    unfolding read_block_def
    by (rule gives_mono [OF gives_bind [OF headerc.rd_exact gives_bind [OF u32.rd_exact
          gives_bind [OF txc.many_exact gives_return]]]])
       (auto simp: block_fits_def block_bytes_def fits_def)
  show "decode_errors_only read_block"
    unfolding read_block_def by (intro codec_intros headerc.rd_errors primitive_errors txc.many_errors)
qed

lemma serialize_block_iff: "serialize_block b = Inr d \<longleftrightarrow> block_fits b \<and> d = block_bytes b"
  unfolding serialize_block_def by (rule blockc.write_iff)

lemma header_from_bytes_iff: "header_from_bytes d = Inr h \<longleftrightarrow> header_fits h \<and> d = header_bytes h"
  unfolding header_from_bytes_def by (rule headerc.read_all_iff)

lemma header_from_bytes_error: "header_from_bytes d = Inl e \<Longrightarrow> e = DecodeError"
  unfolding header_from_bytes_def by (rule headerc.read_all_error)

lemma block_from_bytes_iff: "block_from_bytes d = Inr b \<longleftrightarrow> block_fits b \<and> d = block_bytes b"
  unfolding block_from_bytes_def by (rule blockc.read_all_iff)

lemma block_from_bytes_error: "block_from_bytes d = Inl e \<Longrightarrow> e = DecodeError"
  unfolding block_from_bytes_def by (rule blockc.read_all_error)

text \<open>C9. A byte string decodes to a block exactly when it is what that block serializes to, and its
  first 156 bytes are then the encoding of the block's header: the id taken over a prefix of
  a stored block's bytes is the id of its header.\<close>

theorem block_roundtrip:
  "block_from_bytes d = Inr b \<longleftrightarrow>
     serialize_block b = Inr d \<and> header_from_bytes (take HEADER_SIZE d) = Inr (header b)"
  by (auto simp: block_from_bytes_iff serialize_block_iff header_from_bytes_iff block_fits_def
      block_bytes_def length_header_bytes)

section \<open>What a checked block guarantees\<close>

lemma check_block_Inr:
  assumes "check_block P N b = Inr u"
  obtains c ts where "transactions b = Coinbase c # map Transfer ts" and "cb_height c = height b"
    and "\<forall>tx\<in>set (transactions b). check_transaction P N tx = Inr ()"
    and "distinct (map (txid P) (transactions b))"
    and "compute_merkle_root P (transactions b) = Inr (bh_merkle_root (header b))"
    and "bh_version (header b) = BLOCK_VERSION" and "block_size b \<le> max_block_size N"
proof -
  from assms have ne: "transactions b \<noteq> []" "is_coinbase (hd (transactions b))"
      "\<not> list_ex is_coinbase (tl (transactions b))"
    by (auto simp: check_block_def split: if_splits)
  then obtain c rest where t: "transactions b = Coinbase c # rest" "\<not> list_ex is_coinbase rest"
    by (cases "transactions b"; cases "hd (transactions b)") (auto simp: is_coinbase_def)
  then have "\<exists>ts. rest = map Transfer ts"
  proof (induction rest arbitrary: b)
    case (Cons tx rest)
    from Cons.prems(2) obtain t where "tx = Transfer t" by (cases tx) (auto simp: is_coinbase_def)
    moreover from Cons.IH [of "\<lparr>header = header b, transactions = Coinbase c # rest\<rparr>"] Cons.prems(2)
    obtain ts where "rest = map Transfer ts" by auto
    ultimately show ?case by (intro exI [of _ "t # ts"]) simp
  qed simp
  then obtain ts where "rest = map Transfer ts" ..
  with assms t ne show ?thesis
    by (intro that [of c ts])
       (auto simp: check_block_def coinbase_of_def height_def result_simps split: if_splits)
qed

lemma coinbase_of_Cons [simp]: "transactions b = Coinbase c # ts \<Longrightarrow> coinbase_of b = Inr c"
  by (simp add: coinbase_of_def)

end
