(* ===== verification/Difficulty.thy ===== *)
theory Difficulty
  imports Block
begin

text \<open>
  \<open>core/difficulty.py\<close>: the ASERT rule, the work of a target and the median time.  Shifts are written
  as division and multiplication by powers of two; \<open>div\<close> on \<open>int\<close> is Python's floor division.  A
  half life of zero, which no network has, makes the source raise; the lemmas assume it positive.
  The rule is shown to be exact at whole half lives, monotone in the parent's time (also where the
  fixed-point polynomial hands over to the next power of two) and clamped.
\<close>

definition RADIX_BITS :: nat where "RADIX_BITS = 16"
definition RADIX :: int where "RADIX = 2 ^ RADIX_BITS"

text \<open>\<open>x >> n\<close>, and \<open>x << n if n >= 0 else x >> -n\<close>\<close>

definition shift_right :: "int \<Rightarrow> nat \<Rightarrow> int" where
  "shift_right x n = x div 2 ^ n"

definition shift_by :: "int \<Rightarrow> int \<Rightarrow> int" where
  "shift_by x s = (if s \<ge> 0 then x * 2 ^ nat s else shift_right x (nat (- s)))"

definition asert_factor :: "int \<Rightarrow> int" where
  "asert_factor frac =
     RADIX + shift_right (195766423245049 * frac + 971821376 * frac ^ 2 + 5127 * frac ^ 3 + 2 ^ 47) 48"

definition asert_exponent :: "int \<Rightarrow> int \<Rightarrow> int \<Rightarrow> int \<Rightarrow> int \<Rightarrow> int \<Rightarrow> int" where
  "asert_exponent anchor_timestamp anchor_height parent_timestamp parent_height spacing half_life =
     (let time_delta = parent_timestamp - anchor_timestamp;
          height_delta = parent_height - anchor_height
      in ((time_delta - spacing * height_delta) * RADIX) div half_life)"

text \<open>The part of the function after the exponent is known.\<close>

definition asert_scale :: "int \<Rightarrow> int \<Rightarrow> int \<Rightarrow> int" where
  "asert_scale anchor_target limit exponent =
     (let shifts = shift_right exponent RADIX_BITS;
          frac = exponent - shifts * 2 ^ RADIX_BITS
      in if shifts > 256 then limit
         else if shifts < - 512 then 1
         else let target = anchor_target * asert_factor frac;
                  target = shift_by target shifts;
                  target = shift_right target RADIX_BITS
              in max 1 (min target limit))"

definition asert_target :: "int \<Rightarrow> int \<Rightarrow> int \<Rightarrow> int \<Rightarrow> int \<Rightarrow> int \<Rightarrow> int \<Rightarrow> int \<Rightarrow> int" where
  "asert_target anchor_target anchor_timestamp anchor_height parent_timestamp parent_height spacing
       half_life limit =
     asert_scale anchor_target limit
       (asert_exponent anchor_timestamp anchor_height parent_timestamp parent_height spacing half_life)"

definition next_target :: "network_params \<Rightarrow> block_header \<Rightarrow> block_header \<Rightarrow> int" where
  "next_target N genesis parent =
     (if pow_no_retarget N then genesis_target N
      else asert_target (bh_target genesis) (bh_timestamp genesis) (bh_height genesis)
             (bh_timestamp parent) (bh_height parent) (target_spacing N) (asert_half_life N) (pow_limit N))"

definition block_work :: "int \<Rightarrow> int" where
  "block_work target = 2 ^ 256 div (target + 1)"

definition median_time_past :: "int list \<Rightarrow> int result" where
  "median_time_past timestamps =
     (let ordered = sort timestamps
      in if ordered = [] then Inl IndexError else Inr (ordered ! (length ordered div 2)))"

section \<open>The fixed-point factor\<close>

lemma RADIX_eq: "RADIX = 65536"
  by (simp add: RADIX_def RADIX_BITS_def)

lemma asert_factor_0 [simp]: "asert_factor 0 = RADIX"
  by (simp add: asert_factor_def shift_right_def)

lemma asert_factor_mono:
  assumes "0 \<le> a" "a \<le> b"
  shows "asert_factor a \<le> asert_factor b"
proof -
  have "a ^ 2 \<le> b ^ 2" "a ^ 3 \<le> b ^ 3" using assms by (simp_all add: power_mono)
  with assms(2) have "195766423245049 * a + 971821376 * a ^ 2 + 5127 * a ^ 3 + 2 ^ 47
      \<le> 195766423245049 * b + 971821376 * b ^ 2 + 5127 * b ^ 3 + (2 ^ 47 :: int)"
    by (intro add_mono mult_left_mono) simp_all
  then show ?thesis
    unfolding asert_factor_def shift_right_def by (intro add_left_mono zdiv_mono1) simp_all
qed

lemma asert_factor_bounds:
  assumes "0 \<le> frac" "frac < RADIX"
  shows "RADIX \<le> asert_factor frac \<and> asert_factor frac \<le> 2 * RADIX"
proof -
  have "asert_factor 0 \<le> asert_factor frac" using assms by (intro asert_factor_mono) auto
  moreover have "asert_factor frac \<le> asert_factor 65535"
    using assms by (intro asert_factor_mono) (auto simp: RADIX_eq)
  moreover have "asert_factor 65535 \<le> 2 * RADIX" by (simp add: asert_factor_def shift_right_def RADIX_eq)
  ultimately show ?thesis by simp
qed

section \<open>Scaling\<close>

text \<open>The unclamped target: both branches of the shift are one floor division.\<close>

lemma shift_by_mono: "x \<le> y \<Longrightarrow> shift_by x s \<le> shift_by y s"
  by (auto simp: shift_by_def shift_right_def zdiv_mono1)

lemma shift_by_Suc: "0 \<le> x \<Longrightarrow> shift_by (2 * x) s = shift_by x (s + 1)"
proof (cases "s \<ge> 0")
  case True
  then show ?thesis by (simp add: shift_by_def nat_add_distrib)
next
  case False
  then have n: "nat (- s) = Suc (nat (- (s + 1)))" by simp
  show ?thesis
  proof (cases "s = - 1")
    case True
    then show ?thesis by (simp add: shift_by_def shift_right_def)
  next
    case False
    with \<open>\<not> s \<ge> 0\<close> n show ?thesis by (simp add: shift_by_def shift_right_def del: minus_add_distrib)
  qed
qed

lemma shift_by_mono_shift: "0 \<le> x \<Longrightarrow> s \<le> t \<Longrightarrow> shift_by x s \<le> shift_by x t"
proof (induction "nat (t - s)" arbitrary: t)
  case (Suc n)
  then have "shift_by x s \<le> shift_by x (t - 1)" by simp
  also have "\<dots> \<le> shift_by (2 * x) (t - 1)" using Suc.prems by (intro shift_by_mono) simp
  also have "\<dots> = shift_by x t" using Suc.prems by (simp add: shift_by_Suc)
  finally show ?case .
qed simp

definition raw_target :: "int \<Rightarrow> int \<Rightarrow> int" where
  "raw_target anchor_target e =
     shift_right (shift_by (anchor_target * asert_factor (e mod RADIX)) (e div RADIX)) RADIX_BITS"

lemma raw_target_mono:
  assumes "0 \<le> a" "e \<le> e'"
  shows "raw_target a e \<le> raw_target a e'"
proof -
  let ?s = "e div RADIX" and ?t = "e' div RADIX"
  have st: "?s \<le> ?t" using assms(2) by (intro zdiv_mono1) (simp_all add: RADIX_eq)
  have bnd: "RADIX \<le> asert_factor (x mod RADIX) \<and> asert_factor (x mod RADIX) \<le> 2 * RADIX" for x
    by (intro asert_factor_bounds) (simp_all add: RADIX_eq)
  have "shift_by (a * asert_factor (e mod RADIX)) ?s \<le> shift_by (a * asert_factor (e' mod RADIX)) ?t"
  proof (cases "?s = ?t")
    case True
    then have "e mod RADIX \<le> e' mod RADIX"
      using assms(2) by (metis add_le_cancel_left mult_div_mod_eq)
    then have "a * asert_factor (e mod RADIX) \<le> a * asert_factor (e' mod RADIX)"
      using assms(1) by (intro mult_left_mono asert_factor_mono) (simp_all add: RADIX_eq)
    with True show ?thesis by (simp add: shift_by_mono)
  next
    case False
    with st have st: "?s + 1 \<le> ?t" by simp
    have R: "0 \<le> RADIX" by (simp add: RADIX_eq)
    have "shift_by (a * asert_factor (e mod RADIX)) ?s \<le> shift_by (2 * (a * RADIX)) ?s"
      using mult_left_mono [of "asert_factor (e mod RADIX)" "2 * RADIX" a] bnd [of e] assms(1)
      by (intro shift_by_mono) (simp add: mult.left_commute)
    also have "\<dots> = shift_by (a * RADIX) (?s + 1)" using assms(1) R by (intro shift_by_Suc) simp
    also have "\<dots> \<le> shift_by (a * RADIX) ?t" using assms(1) R st by (intro shift_by_mono_shift) simp_all
    also have "\<dots> \<le> shift_by (a * asert_factor (e' mod RADIX)) ?t"
      using bnd [of e'] assms(1) by (intro shift_by_mono mult_left_mono) simp_all
    finally show ?thesis .
  qed
  then show ?thesis unfolding raw_target_def shift_right_def by (intro zdiv_mono1) simp_all
qed

lemma asert_scale_alt:
  "asert_scale a limit e =
     (if e div RADIX > 256 then limit else if e div RADIX < - 512 then 1
      else max 1 (min (raw_target a e) limit))"
proof -
  have "e - e div RADIX * RADIX = e mod RADIX" by (simp add: minus_div_mult_eq_mod)
  then show ?thesis
    by (simp add: asert_scale_def raw_target_def shift_right_def [of e] Let_def flip: RADIX_def)
qed

lemma asert_scale_mono:
  assumes "0 \<le> a" "1 \<le> limit" "e \<le> e'"
  shows "asert_scale a limit e \<le> asert_scale a limit e'"
proof -
  have "e div RADIX \<le> e' div RADIX" using assms(3) by (intro zdiv_mono1) (simp_all add: RADIX_eq)
  with assms raw_target_mono [OF assms(1,3)] show ?thesis by (auto simp: asert_scale_alt)
qed

lemma asert_target_range: "1 \<le> limit \<Longrightarrow> 1 \<le> asert_target a t0 h0 t h sp hl limit \<and> asert_target a t0 h0 t h sp hl limit \<le> limit"
  by (auto simp: asert_target_def asert_scale_alt)

lemma asert_exponent_whole:
  assumes "0 < hl" "t - t0 = sp * (h - h0) + k * hl"
  shows "asert_exponent t0 h0 t h sp hl = k * RADIX"
proof -
  have "(t - t0 - sp * (h - h0)) * RADIX = (k * RADIX) * hl" using assms(2) by simp
  then show ?thesis unfolding asert_exponent_def Let_def
    by (metis assms(1) less_irrefl nonzero_mult_div_cancel_right)
qed

lemma asert_scale_whole: "- 512 \<le> k \<Longrightarrow> k \<le> 256 \<Longrightarrow>
    asert_scale a limit (k * RADIX) = max 1 (min (shift_right (shift_by (a * RADIX) k) RADIX_BITS) limit)"
  by (simp add: asert_scale_alt raw_target_def RADIX_eq)

lemma shift_radix_up: "0 \<le> k \<Longrightarrow> shift_right (shift_by (a * RADIX) k) RADIX_BITS = a * 2 ^ nat k"
  by (simp add: shift_by_def shift_right_def RADIX_BITS_def RADIX_def)

lemma shift_radix_down: "k < 0 \<Longrightarrow> shift_right (shift_by (a * RADIX) k) RADIX_BITS = a div 2 ^ nat (- k)"
proof -
  assume "k < 0"
  have "a * RADIX div 2 ^ nat (- k) div RADIX = a * RADIX div RADIX div 2 ^ nat (- k)"
    by (simp add: mult.commute flip: zdiv_zmult2_eq add: RADIX_eq)
  with \<open>k < 0\<close> show ?thesis by (simp add: shift_by_def shift_right_def flip: RADIX_def) (simp add: RADIX_eq)
qed

text \<open>C10. The target halves or doubles exactly with every half life the chain is ahead of or behind its
  schedule: \<open>k\<close> half lives behind multiply the anchor target by \<open>2^k\<close>, \<open>k\<close> ahead divide it, within
  the clamps 1 and \<open>pow_limit\<close>; on schedule (\<open>k = 0\<close>) it is the anchor target itself.\<close>

theorem asert_half_lives:
  assumes "0 < half_life" and "- 512 \<le> k" and "k \<le> 256"
    and "parent_timestamp - anchor_timestamp = spacing * (parent_height - anchor_height) + k * half_life"
  shows "asert_target anchor_target anchor_timestamp anchor_height parent_timestamp parent_height spacing
           half_life limit =
         max 1 (min (if k \<ge> 0 then anchor_target * 2 ^ nat k else anchor_target div 2 ^ nat (- k)) limit)"
  using asert_exponent_whole [OF assms(1,4)] asert_scale_whole [OF assms(2,3)]
  by (simp add: asert_target_def shift_radix_up shift_radix_down)

lemma asert_half_lives_witness:
  "asert_target (target_for 18000) 1000 0 (1000 + 60 * 5 - 3600) 5 60 3600 (target_for 600) =
   target_for 18000 div 2"
  by (rule trans [OF asert_half_lives [where k = "- 1"]]) (simp_all add: target_for_def)

text \<open>C11. A later parent never makes the next block harder: the target is monotone in the parent's
  timestamp, across every hand-over between the fixed-point polynomial and the shifts and through
  both clamps, and it stays within 1 and the easiest target \<open>pow_limit\<close>.\<close>

theorem asert_monotone:
  assumes "0 < half_life" and "0 \<le> anchor_target" and "1 \<le> limit" and "parent_timestamp \<le> later"
  shows "1 \<le> asert_target anchor_target anchor_timestamp anchor_height parent_timestamp parent_height
               spacing half_life limit \<and>
         asert_target anchor_target anchor_timestamp anchor_height parent_timestamp parent_height
             spacing half_life limit
           \<le> asert_target anchor_target anchor_timestamp anchor_height later parent_height
               spacing half_life limit \<and>
         asert_target anchor_target anchor_timestamp anchor_height later parent_height
             spacing half_life limit \<le> limit"
proof -
  have "asert_exponent anchor_timestamp anchor_height parent_timestamp parent_height spacing half_life
      \<le> asert_exponent anchor_timestamp anchor_height later parent_height spacing half_life"
    unfolding asert_exponent_def Let_def using assms(1,4)
    by (intro zdiv_mono1 mult_right_mono) (simp_all add: RADIX_eq)
  with assms show ?thesis
    using asert_scale_mono asert_target_range [OF assms(3)] by (simp add: asert_target_def)
qed

lemma asert_monotone_witness:
  "asert_target (target_for 18000) 0 0 655 10 60 3600 (target_for 600)
     \<le> asert_target (target_for 18000) 0 0 656 10 60 3600 (target_for 600)"
proof -
  have "0 \<le> target_for 18000" "1 \<le> target_for 600" by (simp_all add: target_for_def)
  then show ?thesis by (intro asert_monotone [THEN conjunct2, THEN conjunct1]) simp_all
qed

section \<open>Work and median time\<close>

lemma block_work_nonneg: "0 \<le> target \<Longrightarrow> 0 \<le> block_work target"
  by (simp add: block_work_def pos_imp_zdiv_nonneg_iff)

lemma block_work_pos: "0 \<le> target \<Longrightarrow> target < 2 ^ 256 \<Longrightarrow> 1 \<le> block_work target"
  using zdiv_mono1 [of "target + 1" "2 ^ 256" "target + 1"] by (simp add: block_work_def)

lemma block_work_antimono: "0 \<le> t \<Longrightarrow> t \<le> u \<Longrightarrow> block_work u \<le> block_work t"
  unfolding block_work_def by (intro zdiv_mono2) auto

lemma median_time_past_Inr: "ts \<noteq> [] \<Longrightarrow> median_time_past ts = Inr (sort ts ! (length ts div 2))"
  by (simp add: median_time_past_def Let_def) (metis length_0_conv length_sort)

lemma median_member: "median_time_past ts = Inr m \<Longrightarrow> m \<in> set ts"
proof -
  assume m: "median_time_past ts = Inr m"
  then have "ts \<noteq> []" by (auto simp: median_time_past_def Let_def)
  then have "length ts div 2 < length (sort ts)" by simp
  then have "sort ts ! (length ts div 2) \<in> set (sort ts)" by (rule nth_mem)
  with m \<open>ts \<noteq> []\<close> show "m \<in> set ts" by (simp add: median_time_past_Inr)
qed

text \<open>A minority of wrong clocks cannot move the median: when more than half of the timestamps lie
  between two bounds, the median does.\<close>

theorem median_of_majority:
  assumes "median_time_past timestamps = Inr m"
    and "length timestamps < 2 * length (filter (\<lambda>t. lo \<le> t \<and> t \<le> hi) timestamps)"
  shows "lo \<le> m \<and> m \<le> hi"
proof -
  let ?s = "sort timestamps" and ?n = "length timestamps" and ?i = "length timestamps div 2"
  let ?P = "\<lambda>t. lo \<le> t \<and> t \<le> hi"
  have ne: "timestamps \<noteq> []" using assms(1) by (auto simp: median_time_past_def Let_def)
  then have m: "m = ?s ! ?i" using assms(1) by (simp add: median_time_past_Inr)
  have i: "?i < ?n" using ne by simp
  have count: "length (filter ?P ?s) = length (filter ?P timestamps)"
    by (metis length_sort filter_sort)
  have split: "filter ?P ?s = filter ?P (take k ?s) @ filter ?P (drop k ?s)" for k
    using filter_append [of ?P "take k ?s" "drop k ?s"] by simp
  show ?thesis
  proof (rule ccontr)
    assume "\<not> ?thesis"
    then consider "m < lo" | "hi < m" by linarith
    then show False
    proof cases
      case 1
      have "?s ! j < lo" if "j < Suc ?i" for j
        using sorted_nth_mono [of ?s j ?i] that i 1 m by simp
      then have "\<forall>t\<in>set (take (Suc ?i) ?s). \<not> ?P t"
        by (force simp: in_set_conv_nth)
      then have "filter ?P (take (Suc ?i) ?s) = []" by (simp add: filter_empty_conv)
      then have "filter ?P ?s = filter ?P (drop (Suc ?i) ?s)"
        using split [of "Suc ?i"] by simp
      then have "length (filter ?P ?s) \<le> ?n - Suc ?i"
        using length_filter_le [of ?P "drop (Suc ?i) ?s"] by simp
      with assms(2) count i show False by linarith
    next
      case 2
      have "hi < ?s ! (?i + j)" if "?i + j < ?n" for j
        using sorted_nth_mono [of ?s ?i "?i + j"] that 2 m by simp
      then have "\<forall>t\<in>set (drop ?i ?s). \<not> ?P t"
        unfolding all_set_conv_all_nth by (simp add: less_diff_conv add.commute not_le)
      then have "filter ?P (drop ?i ?s) = []" by (simp add: filter_empty_conv)
      then have "filter ?P ?s = filter ?P (take ?i ?s)"
        using split [of ?i] by simp
      then have "length (filter ?P ?s) \<le> ?i"
        using length_filter_le [of ?P "take ?i ?s"] by simp
      with assms(2) count show False by linarith
    qed
  qed
qed

lemma median_of_majority_witness: "\<exists>m. median_time_past [1, 105, 100, 999, 110] = Inr m \<and> 100 \<le> m \<and> m \<le> 110"
proof -
  have m: "median_time_past [1, 105, 100, 999, 110] = Inr 105" by code_simp
  then show ?thesis using median_of_majority [OF m, of 100 110] by simp
qed

end
