(* ===== verification/Pow.thy ===== *)
theory Pow
  imports Difficulty
begin

text \<open>
  \<open>core/pow.py\<close>: the Argon2id hash of a header, the target test and the nonce search.  The search runs
  without a bound when \<open>max_attempts\<close> is None, so it is a partial function whose value None is a run
  that does not return; with a positive stride it is shown to return, and to find the first winning
  nonce of its residue class.
\<close>

definition NONCE_SIZE :: nat where "NONCE_SIZE = 8"

definition pow_hash_bytes :: "prims \<Rightarrow> bytes \<Rightarrow> pow_params \<Rightarrow> bytes" where
  "pow_hash_bytes P data params = argon2id P data (salt params) (iterations params) (memory_kib params * 1024)"

definition pow_hash :: "prims \<Rightarrow> block_header \<Rightarrow> pow_params \<Rightarrow> bytes result" where
  "pow_hash P h params = rbind (serialize_header h) (\<lambda>d. Inr (pow_hash_bytes P d params))"

definition meets_target :: "prims \<Rightarrow> block_header \<Rightarrow> pow_params \<Rightarrow> bool result" where
  "meets_target P h params = rbind (pow_hash P h params) (\<lambda>d. Inr (from_be d \<le> bh_target h))"

text \<open>The loop of \<open>mine\<close>; \<open>prefix\<close> is the serialized header less its nonce.\<close>

partial_function (option) mine_loop ::
  "prims \<Rightarrow> block_header \<Rightarrow> pow_params \<Rightarrow> bytes \<Rightarrow> int \<Rightarrow> int option \<Rightarrow> int \<Rightarrow> int \<Rightarrow> block_header option result option" where
  "mine_loop P h params prefix stride max_attempts nonce attempts =
     (if \<not> (max_attempts = None \<or> attempts < the max_attempts) then Some (Inr None)
      else if nonce \<ge> 2 ^ 64 then Some (Inr None)
      else (case to_bytes nonce NONCE_SIZE of
          Inl e \<Rightarrow> Some (Inl e)
        | Inr nonce_bytes \<Rightarrow>
            if from_be (pow_hash_bytes P (prefix @ nonce_bytes) params) \<le> bh_target h
            then Some (Inr (Some (h\<lparr>bh_nonce := nonce\<rparr>)))
            else mine_loop P h params prefix stride max_attempts (nonce + stride) (attempts + 1)))"

declare mine_loop.simps [code]

definition mine :: "prims \<Rightarrow> block_header \<Rightarrow> pow_params \<Rightarrow> int \<Rightarrow> int \<Rightarrow> int option
    \<Rightarrow> block_header option result option" where
  "mine P h params start_nonce stride max_attempts =
     (case serialize_header h of
        Inl e \<Rightarrow> Some (Inl e)
      | Inr d \<Rightarrow> mine_loop P h params (take (length d - NONCE_SIZE) d) stride max_attempts start_nonce 0)"

section \<open>The hash is of the header with its new nonce\<close>

lemma prefix_header_bytes:
  "header_fits h \<Longrightarrow> take (length (header_bytes h) - NONCE_SIZE) (header_bytes h) @ to_be 8 n = header_bytes (h\<lparr>bh_nonce := n\<rparr>)"
  by (simp add: header_bytes_def NONCE_SIZE_def header_fits_def)

lemma header_fits_nonce: "header_fits h \<Longrightarrow> 0 \<le> n \<Longrightarrow> n < 2 ^ 64 \<Longrightarrow> header_fits (h\<lparr>bh_nonce := n\<rparr>)"
  by (simp add: header_fits_def fits_def)

definition wins :: "prims \<Rightarrow> block_header \<Rightarrow> pow_params \<Rightarrow> int \<Rightarrow> bool" where
  "wins P h params n \<longleftrightarrow> from_be (pow_hash_bytes P (header_bytes (h\<lparr>bh_nonce := n\<rparr>)) params) \<le> bh_target h"

lemma meets_target_iff: "meets_target P h params = Inr b \<longleftrightarrow> header_fits h \<and> b = wins P h params (bh_nonce h)"
  by (auto simp: meets_target_def pow_hash_def result_simps serialize_header_iff wins_def)

lemma to_bytes_nonce: "0 \<le> n \<Longrightarrow> n < 2 ^ 64 \<Longrightarrow> to_bytes n NONCE_SIZE = Inr (to_be 8 n)"
  by (simp add: to_bytes_def NONCE_SIZE_def)

text \<open>One turn of the loop, over the serialized header.\<close>

lemma mine_loop_step:
  assumes "header_fits h" "prefix = take (length (header_bytes h) - NONCE_SIZE) (header_bytes h)" "0 \<le> n"
  shows "mine_loop P h params prefix stride m n a =
     (if \<not> (m = None \<or> a < the m) \<or> n \<ge> 2 ^ 64 then Some (Inr None)
      else if wins P h params n then Some (Inr (Some (h\<lparr>bh_nonce := n\<rparr>)))
      else mine_loop P h params prefix stride m (n + stride) (a + 1))"
  using prefix_header_bytes [OF assms(1), of n] assms(3)
  by (subst mine_loop.simps) (auto simp: assms(2) to_bytes_nonce wins_def)

text \<open>What a search from \<open>n\<close> after \<open>a\<close> attempts returns: the first nonce that wins, or nothing if none
  of those it may try does.\<close>

definition search_result ::
  "prims \<Rightarrow> block_header \<Rightarrow> pow_params \<Rightarrow> int \<Rightarrow> int option \<Rightarrow> int \<Rightarrow> int \<Rightarrow> block_header option \<Rightarrow> bool" where
  "search_result P h params stride m n a r \<longleftrightarrow>
     (let may_try = (\<lambda>k :: nat. (m = None \<or> a + int k < the m) \<and> n + int k * stride < 2 ^ 64)
      in case r of
           None \<Rightarrow> \<forall>k. may_try k \<longrightarrow> \<not> wins P h params (n + int k * stride)
         | Some h' \<Rightarrow> \<exists>k. may_try k \<and> wins P h params (n + int k * stride)
             \<and> (\<forall>j < k. \<not> wins P h params (n + int j * stride))
             \<and> h' = h\<lparr>bh_nonce := n + int k * stride\<rparr>)"

lemma search_result_next:
  assumes "\<not> wins P h params n" "m = None \<or> a < the m" "n < 2 ^ 64"
    and "search_result P h params stride m (n + stride) (a + 1) r"
  shows "search_result P h params stride m n a r"
proof -
  have shift: "n + stride + int k * stride = n + int (Suc k) * stride"
      "a + 1 + int k = a + int (Suc k)" for k by (simp_all add: algebra_simps)
  show ?thesis
  proof (cases r)
    case None
    show ?thesis unfolding search_result_def Let_def None option.case
    proof (intro allI impI)
      fix k assume k: "(m = None \<or> a + int k < the m) \<and> n + int k * stride < 2 ^ 64"
      show "\<not> wins P h params (n + int k * stride)"
      proof (cases k)
        case (Suc j)
        with k assms(4) show ?thesis
          by (auto simp: search_result_def None shift)
      qed (use assms(1) in simp)
    qed
  next
    case (Some h')
    with assms(4) obtain k where k: "m = None \<or> a + int (Suc k) < the m" "n + int (Suc k) * stride < 2 ^ 64"
        "wins P h params (n + int (Suc k) * stride)" "\<forall>j<k. \<not> wins P h params (n + int (Suc j) * stride)"
        "h' = h\<lparr>bh_nonce := n + int (Suc k) * stride\<rparr>"
      by (auto simp: search_result_def shift)
    moreover have "\<forall>j < Suc k. \<not> wins P h params (n + int j * stride)"
      using k(4) assms(1) by (auto simp: less_Suc_eq_0_disj)
    ultimately show ?thesis unfolding search_result_def Let_def Some option.case by blast
  qed
qed

lemma search_result_stop:
  assumes "0 \<le> stride" "\<not> (m = None \<or> a < the m) \<or> n \<ge> 2 ^ 64"
  shows "search_result P h params stride m n a None"
proof -
  have "\<not> ((m = None \<or> a + int k < the m) \<and> n + int k * stride < 2 ^ 64)" for k :: nat
  proof -
    have "n \<le> n + int k * stride" "a \<le> a + int k" using assms(1) by simp_all
    with assms(2) show ?thesis by linarith
  qed
  then show ?thesis unfolding search_result_def Let_def by (simp only: option.case) blast
qed

lemma search_result_hit:
  "m = None \<or> a < the m \<Longrightarrow> n < 2 ^ 64 \<Longrightarrow> wins P h params n
    \<Longrightarrow> search_result P h params stride m n a (Some (h\<lparr>bh_nonce := n\<rparr>))"
  unfolding search_result_def by (auto intro!: exI [of _ 0])

lemma mine_loop_returns:
  assumes "header_fits h" "prefix = take (length (header_bytes h) - NONCE_SIZE) (header_bytes h)"
    and "0 < stride" "0 \<le> n"
  shows "\<exists>r. mine_loop P h params prefix stride m n a = Some (Inr r) \<and> search_result P h params stride m n a r"
  using assms(4)
proof (induction "nat (2 ^ 64 - n)" arbitrary: n a rule: less_induct)
  case less
  note step = mine_loop_step [OF assms(1,2) less.prems, of P params stride m a]
  consider "\<not> (m = None \<or> a < the m) \<or> n \<ge> 2 ^ 64"
    | "(m = None \<or> a < the m) \<and> n < 2 ^ 64" "wins P h params n"
    | "(m = None \<or> a < the m) \<and> n < 2 ^ 64" "\<not> wins P h params n" by fastforce
  then show ?case
  proof cases
    case 1
    with search_result_stop [of stride m a n P h params] assms(3) show ?thesis by (auto simp: step)
  next
    case 2
    with search_result_hit [of m a n P h params stride] show ?thesis by (auto simp: step)
  next
    case 3
    with less.prems assms(3) less.hyps [of "n + stride" "a + 1"]
    obtain r where "mine_loop P h params prefix stride m (n + stride) (a + 1) = Some (Inr r)"
        "search_result P h params stride m (n + stride) (a + 1) r" by auto
    with 3 search_result_next show ?thesis by (auto simp: step)
  qed
qed

text \<open>C13. With a positive stride the nonce search returns, whatever \<open>max_attempts\<close> is, and its answer is
  exact: a winning header has the first nonce of \<open>start, start + stride, ...\<close> whose hash meets the
  target, passes \<open>meets_target\<close> and differs from the given header in the nonce only; None means that no
  nonce it was allowed to try wins.\<close>

theorem mine_finds_first:
  assumes "header_fits h" and "0 < stride" and "0 \<le> start"
  shows "\<exists>r. mine P h params start stride m = Some (Inr r) \<and>
             search_result P h params stride m start 0 r \<and>
             (case r of None \<Rightarrow> True | Some h' \<Rightarrow>
                meets_target P h' params = Inr True \<and> h'\<lparr>bh_nonce := bh_nonce h\<rparr> = h)"
proof -
  from assms(1) have ser: "serialize_header h = Inr (header_bytes h)" by (simp add: serialize_header_iff)
  obtain r where r: "mine_loop P h params (take (length (header_bytes h) - NONCE_SIZE) (header_bytes h))
      stride m start 0 = Some (Inr r)" "search_result P h params stride m start 0 r"
    using mine_loop_returns [OF assms(1) refl assms(2,3)] by blast
  have "meets_target P h' params = Inr True \<and> h'\<lparr>bh_nonce := bh_nonce h\<rparr> = h" if "r = Some h'" for h'
  proof -
    from r(2) that obtain k where k: "wins P h params (start + int k * stride)"
        "start + int k * stride < 2 ^ 64" "h' = h\<lparr>bh_nonce := start + int k * stride\<rparr>"
      by (auto simp: search_result_def)
    moreover have "0 \<le> start + int k * stride" using assms(2,3) by simp
    ultimately show ?thesis
      using header_fits_nonce [OF assms(1)] by (auto simp: meets_target_iff) (simp add: wins_def)
  qed
  with r show ?thesis by (auto simp: mine_def ser split: option.splits)
qed

definition example_header :: block_header where
  "example_header = \<lparr>bh_version = 1, bh_height = 0, bh_prev_id = zero_bytes 32, bh_merkle_root = zero_bytes 32,
     bh_snapshot_root = zero_bytes 32, bh_timestamp = 0, bh_target = 7, bh_nonce = 0\<rparr>"

lemma mine_finds_first_witness:
  "\<exists>r. mine example_prims example_header ARGON2_MAINNET 240 3 None = Some (Inr r) \<and>
       search_result example_prims example_header ARGON2_MAINNET 3 None 240 0 r"
proof -
  have "header_fits example_header" by (simp add: header_fits_def example_header_def fits_def)
  then show ?thesis using mine_finds_first [of example_header 3 240] by fastforce
qed

end
