(* ===== verification/State.thy ===== *)
theory State
  imports Pow
begin

text \<open>
  \<open>core/state.py\<close>: accounts, the overlay that records a block's writes, the header rules, the state
  transition \<open>apply_block\<close> and the in-memory state.  The abstract specification is a ledger, a
  function from addresses to accounts that credits and transfers update directly; the overlay
  refines it.  The locale \<open>state_store\<close> is the contract of a place where accounts are kept, and what
  holds of a block's changes is proved in it once: applying them gives the ledger's result, and
  writing the previous values back restores the state exactly.
\<close>

section \<open>Accounts and contexts\<close>

record account =
  balance :: int
  acct_nonce :: int

definition EMPTY_ACCOUNT :: account where
  "EMPTY_ACCOUNT = \<lparr>balance = 0, acct_nonce = 0\<rparr>"

text \<open>A \<open>StateView\<close> is its \<open>get_account\<close> method.\<close>

type_synonym state_view = "bytes \<Rightarrow> account"
type_synonym accounts = "(bytes \<times> account) list"

record block_context =
  cx_parent :: block_header
  cx_median_time_past :: int
  cx_expected_target :: int
  cx_matured_coinbase :: "coinbase option"
  cx_snapshot_root :: bytes

record state_changes =
  sc_accounts :: accounts
  sc_previous :: accounts
  sc_fees :: int

section \<open>The overlay\<close>

record overlay =
  ov_base :: state_view
  ov_accounts :: accounts
  ov_previous :: accounts

definition new_overlay :: "state_view \<Rightarrow> overlay" where
  "new_overlay base = \<lparr>ov_base = base, ov_accounts = [], ov_previous = []\<rparr>"

definition ov_get :: "overlay \<Rightarrow> bytes \<Rightarrow> account" where
  "ov_get ov a = (case map_of (ov_accounts ov) a of Some acc \<Rightarrow> acc | None \<Rightarrow> ov_base ov a)"

definition ov_set :: "bytes \<Rightarrow> account \<Rightarrow> overlay \<Rightarrow> overlay" where
  "ov_set a acc ov =
     (let ov = (if map_of (ov_previous ov) a = None
                then ov\<lparr>ov_previous := AList.update a (ov_base ov a) (ov_previous ov)\<rparr> else ov)
      in ov\<lparr>ov_accounts := AList.update a acc (ov_accounts ov)\<rparr>)"

definition ov_credit :: "bytes \<Rightarrow> int \<Rightarrow> overlay \<Rightarrow> overlay result" where
  "ov_credit a amount ov =
     (let account = ov_get ov a; new = balance account + amount
      in if new > MAX_AMOUNT then Inl (ValidationError ''balance-overflow'')
         else Inr (ov_set a \<lparr>balance = new, acct_nonce = acct_nonce account\<rparr> ov))"

section \<open>Header rules\<close>

definition check_header_against_parent ::
  "prims \<Rightarrow> network_params \<Rightarrow> block_header \<Rightarrow> block_header \<Rightarrow> int \<Rightarrow> int \<Rightarrow> bool \<Rightarrow> unit result" where
  "check_header_against_parent P N h parent mtp expected_target check_pow =
     (if bh_height h \<noteq> bh_height parent + 1 then Inl (ValidationError ''bad-height'')
      else if bh_prev_id h \<noteq> block_id P parent then Inl (ValidationError ''bad-prev-id'')
      else if bh_timestamp h \<le> mtp then Inl (ValidationError ''time-too-old'')
      else if bh_target h \<noteq> expected_target then Inl (ValidationError ''bad-target'')
      else if check_pow
      then rbind (meets_target P h (pow N)) (\<lambda>ok. if \<not> ok then Inl (ValidationError ''bad-pow'') else Inr ())
      else Inr ())"

definition check_header :: "prims \<Rightarrow> network_params \<Rightarrow> block_header \<Rightarrow> block_context \<Rightarrow> bool \<Rightarrow> unit result" where
  "check_header P N h ctx check_pow =
     rbind (check_header_against_parent P N h (cx_parent ctx) (cx_median_time_past ctx) (cx_expected_target ctx)
              check_pow) (\<lambda>_.
       if bh_snapshot_root h \<noteq> cx_snapshot_root ctx then Inl (ValidationError ''bad-snapshot-root'') else Inr ())"

definition check_not_in_future :: "network_params \<Rightarrow> block_header \<Rightarrow> int \<Rightarrow> unit result" where
  "check_not_in_future N h now =
     (if bh_timestamp h > now + max_future_drift N then Inl (ValidationError ''time-too-new'') else Inr ())"

section \<open>Applying a block\<close>

definition credit_matured :: "network_params \<Rightarrow> int \<Rightarrow> coinbase option \<Rightarrow> overlay \<Rightarrow> overlay result" where
  "credit_matured N h matured ov =
     (let due_height = h - coinbase_maturity N
      in if due_height \<ge> 0
         then (case matured of
                 None \<Rightarrow> Inl ValueError
               | Some c \<Rightarrow> if cb_height c \<noteq> due_height then Inl ValueError
                           else ov_credit (cb_address c) (cb_amount c) ov)
         else if matured \<noteq> None then Inl ValueError else Inr ov)"

definition apply_transfer :: "prims \<Rightarrow> transaction \<Rightarrow> overlay \<times> int \<Rightarrow> (overlay \<times> int) result" where
  "apply_transfer P tx s =
     (case tx of
        Coinbase _ \<Rightarrow> Inl AssertionError
      | Transfer t \<Rightarrow>
          (let ov = fst s; fees = snd s; src = ov_get ov (sender P t)
           in if tf_nonce t \<noteq> acct_nonce src then Inl (ValidationError ''bad-nonce'')
              else if total_spent t > balance src then Inl (ValidationError ''insufficient-funds'')
              else rbind (for_each (\<lambda>p ov. ov_credit (out_address p) (out_amount p) ov) (tf_outputs t)
                       (ov_set (sender P t)
                          \<lparr>balance = balance src - total_spent t, acct_nonce = acct_nonce src + 1\<rparr> ov))
                     (\<lambda>ov. Inr (ov, fees + tf_fee t))))"

definition apply_block ::
  "prims \<Rightarrow> network_params \<Rightarrow> block \<Rightarrow> block_context \<Rightarrow> state_view \<Rightarrow> bool \<Rightarrow> state_changes result" where
  "apply_block P N b ctx st check_pow =
     rbind (check_header P N (header b) ctx check_pow) (\<lambda>_.
     rbind (check_block P N b) (\<lambda>_.
     rbind (credit_matured N (bh_height (header b)) (cx_matured_coinbase ctx) (new_overlay st)) (\<lambda>ov.
     rbind (for_each (apply_transfer P) (tl (transactions b)) (ov, 0)) (\<lambda>(ov, fees).
     rbind (coinbase_of b) (\<lambda>c.
       if cb_amount c \<noteq> block_reward N + fees then Inl (ValidationError ''bad-coinbase-amount'')
       else Inr \<lparr>sc_accounts = ov_accounts ov, sc_previous = ov_previous ov, sc_fees = fees\<rparr>)))))"

section \<open>The in-memory state\<close>

type_synonym memory_state = "bytes \<rightharpoonup> account"

definition memory_new :: memory_state where "memory_new = Map.empty"

definition memory_get :: "memory_state \<Rightarrow> bytes \<Rightarrow> account" where
  "memory_get m a = (case m a of Some acc \<Rightarrow> acc | None \<Rightarrow> EMPTY_ACCOUNT)"

definition memory_write :: "accounts \<Rightarrow> memory_state \<Rightarrow> memory_state" where
  "memory_write values m =
     fold (\<lambda>(a, acc) m. if acc = EMPTY_ACCOUNT then m(a := None) else m(a \<mapsto> acc)) values m"

definition memory_apply :: "state_changes \<Rightarrow> memory_state \<Rightarrow> memory_state" where
  "memory_apply ch m = memory_write (sc_accounts ch) m"

definition memory_revert :: "state_changes \<Rightarrow> memory_state \<Rightarrow> memory_state" where
  "memory_revert ch m = memory_write (sc_previous ch) m"

section \<open>The ledger: what a block means\<close>

type_synonym ledger = "bytes \<Rightarrow> account"

definition ledger_credit :: "bytes \<Rightarrow> int \<Rightarrow> ledger \<Rightarrow> ledger result" where
  "ledger_credit a amount L =
     (if balance (L a) + amount > MAX_AMOUNT then Inl (ValidationError ''balance-overflow'')
      else Inr (L(a := \<lparr>balance = balance (L a) + amount, acct_nonce = acct_nonce (L a)\<rparr>)))"

definition ledger_pay :: "tx_output \<Rightarrow> ledger \<Rightarrow> ledger result" where
  "ledger_pay p = ledger_credit (out_address p) (out_amount p)"

definition ledger_transfer :: "prims \<Rightarrow> transfer \<Rightarrow> ledger \<Rightarrow> ledger result" where
  "ledger_transfer P t L =
     (let s = sender P t
      in if tf_nonce t \<noteq> acct_nonce (L s) then Inl (ValidationError ''bad-nonce'')
         else if total_spent t > balance (L s) then Inl (ValidationError ''insufficient-funds'')
         else for_each ledger_pay (tf_outputs t)
                (L(s := \<lparr>balance = balance (L s) - total_spent t, acct_nonce = acct_nonce (L s) + 1\<rparr>)))"

definition ledger_mature :: "coinbase option \<Rightarrow> ledger \<Rightarrow> ledger result" where
  "ledger_mature matured L =
     (case matured of None \<Rightarrow> Inr L | Some c \<Rightarrow> ledger_credit (cb_address c) (cb_amount c) L)"

definition ledger_block :: "prims \<Rightarrow> coinbase option \<Rightarrow> transfer list \<Rightarrow> ledger \<Rightarrow> ledger result" where
  "ledger_block P matured ts L = rbind (ledger_mature matured L) (for_each (ledger_transfer P) ts)"

text \<open>The ledger that a dictionary of new values makes of a state.\<close>

definition patched :: "state_view \<Rightarrow> accounts \<Rightarrow> ledger" where
  "patched st d a = (case map_of d a of Some acc \<Rightarrow> acc | None \<Rightarrow> st a)"

section \<open>The overlay refines the ledger\<close>

text \<open>Both dictionaries have the same keys, and the previous values are those of the base.\<close>

definition overlay_ok :: "state_view \<Rightarrow> overlay \<Rightarrow> bool" where
  "overlay_ok st ov \<longleftrightarrow> ov_base ov = st
     \<and> distinct (map fst (ov_accounts ov)) \<and> distinct (map fst (ov_previous ov))
     \<and> set (map fst (ov_previous ov)) = set (map fst (ov_accounts ov))
     \<and> (\<forall>(a, acc)\<in>set (ov_previous ov). acc = st a)"

lemma overlay_ok_new [simp]: "overlay_ok st (new_overlay st)"
  by (simp add: overlay_ok_def new_overlay_def)

lemma ov_get_new [simp]: "ov_get (new_overlay st) = st"
  by (simp add: ov_get_def new_overlay_def fun_eq_iff)

lemma ov_get_set [simp]: "ov_get (ov_set a acc ov) = (ov_get ov)(a := acc)"
  by (auto simp: ov_get_def ov_set_def fun_eq_iff Let_def update_conv' split: option.splits)

lemma map_of_None_keys: "map_of d a = None \<longleftrightarrow> a \<notin> set (map fst d)"
  by (simp add: map_of_eq_None_iff)

lemma overlay_ok_set:
  assumes "overlay_ok st ov"
  shows "overlay_ok st (ov_set a acc ov)"
proof (cases "a \<in> set (map fst (ov_previous ov))")
  case True
  then have "map_of (ov_previous ov) a \<noteq> None" by (simp only: map_of_None_keys) simp
  with assms True show ?thesis
    by (auto simp: overlay_ok_def ov_set_def Let_def distinct_update dom_update insert_absorb)
next
  case False
  then have "map_of (ov_previous ov) a = None" by (simp only: map_of_None_keys) simp
  with assms False show ?thesis
    by (auto simp: overlay_ok_def ov_set_def Let_def distinct_update dom_update length_update_new)
qed

lemma ov_credit_refines: "rmap ov_get (ov_credit a x ov) = ledger_credit a x (ov_get ov)"
  by (simp add: ov_credit_def ledger_credit_def Let_def)

lemma ov_credit_ok: "ov_credit a x ov = Inr ov' \<Longrightarrow> overlay_ok st ov \<Longrightarrow> overlay_ok st ov'"
  by (auto simp: ov_credit_def Let_def overlay_ok_set split: if_splits)

lemma pay_refines:
  "rmap ov_get (for_each (\<lambda>p. ov_credit (out_address p) (out_amount p)) ps ov) = for_each ledger_pay ps (ov_get ov)"
  by (rule for_each_refine [where I = "\<lambda>_. True"]) (simp_all add: ov_credit_refines ledger_pay_def)

lemma pay_ok:
  "for_each (\<lambda>p. ov_credit (out_address p) (out_amount p)) ps ov = Inr ov' \<Longrightarrow> overlay_ok st ov \<Longrightarrow> overlay_ok st ov'"
  by (erule for_each_invariant) (auto intro: ov_credit_ok)

lemma apply_transfer_refines:
  "rmap (\<lambda>s. ov_get (fst s)) (apply_transfer P (Transfer t) s) = ledger_transfer P t (ov_get (fst s))"
proof -
  have "rmap (\<lambda>s. ov_get (fst s)) (rbind m (\<lambda>ov. Inr (ov, x))) = rmap ov_get m" for m and x :: int
    by (cases m) auto
  then show ?thesis
    by (auto simp: apply_transfer_def ledger_transfer_def Let_def pay_refines)
qed

lemma apply_transfer_ok:
  "apply_transfer P tx s = Inr s' \<Longrightarrow> overlay_ok st (fst s) \<Longrightarrow> overlay_ok st (fst s')"
  by (auto simp: apply_transfer_def Let_def result_simps pay_ok overlay_ok_set split: transaction.splits if_splits)

lemma apply_transfers_refine:
  "rmap (\<lambda>s. ov_get (fst s)) (for_each (apply_transfer P) (map Transfer ts) s)
     = for_each (ledger_transfer P) ts (ov_get (fst s))"
proof (induction ts arbitrary: s)
  case (Cons t ts)
  show ?case
  proof (cases "apply_transfer P (Transfer t) s")
    case (Inl e)
    with apply_transfer_refines [of P t s] have "ledger_transfer P t (ov_get (fst s)) = Inl e" by simp
    with Inl show ?thesis by simp
  next
    case (Inr s')
    with apply_transfer_refines [of P t s] have "ledger_transfer P t (ov_get (fst s)) = Inr (ov_get (fst s'))" by simp
    with Inr Cons.IH [of s'] show ?thesis by simp
  qed
qed simp

lemma apply_transfers_fees:
  "for_each (apply_transfer P) (map Transfer ts) s = Inr s' \<Longrightarrow> snd s' = snd s + sum_list (map tf_fee ts)"
proof (induction ts arbitrary: s)
  case (Cons t ts)
  then obtain s1 where 1: "apply_transfer P (Transfer t) s = Inr s1"
      and 2: "for_each (apply_transfer P) (map Transfer ts) s1 = Inr s'" by (auto simp: result_simps)
  from 1 have "snd s1 = snd s + tf_fee t"
    by (auto simp: apply_transfer_def Let_def result_simps split: if_splits)
  with Cons.IH [OF 2] show ?case by simp
qed simp

lemma credit_matured_refines:
  "credit_matured N h matured (new_overlay st) = Inr ov \<Longrightarrow> ledger_mature matured st = Inr (ov_get ov) \<and> overlay_ok st ov"
  using ov_credit_refines [of _ _ "new_overlay st"]
  by (auto simp: credit_matured_def ledger_mature_def Let_def split: if_splits option.splits
      intro: ov_credit_ok dest: arg_cong [where f = "rmap ov_get"])

text \<open>Every address that a maturing coinbase or a list of transfers mentions.\<close>

definition touched :: "prims \<Rightarrow> coinbase option \<Rightarrow> transfer list \<Rightarrow> bytes set" where
  "touched P matured ts =
     (case matured of None \<Rightarrow> {} | Some c \<Rightarrow> {cb_address c}) \<union>
     (\<Union>t\<in>set ts. insert (sender P t) (out_address ` set (tf_outputs t)))"

text \<open>A property of every address the block mentions holds of every address it writes.\<close>

definition keys_in :: "bytes set \<Rightarrow> overlay \<Rightarrow> bool" where
  "keys_in A ov \<longleftrightarrow> fst ` set (ov_accounts ov) \<subseteq> A"

lemma keys_in_new [simp]: "keys_in A (new_overlay st)"
  by (simp add: keys_in_def new_overlay_def)

lemma keys_in_set: "keys_in A ov \<Longrightarrow> a \<in> A \<Longrightarrow> keys_in A (ov_set a acc ov)"
  by (auto simp: keys_in_def ov_set_def Let_def dom_update)

lemma keys_in_credit: "ov_credit a x ov = Inr ov' \<Longrightarrow> keys_in A ov \<Longrightarrow> a \<in> A \<Longrightarrow> keys_in A ov'"
  by (auto simp: ov_credit_def Let_def keys_in_set split: if_splits)

lemma keys_in_transfer:
  assumes "apply_transfer P (Transfer t) s = Inr s'" "keys_in A (fst s)" "sender P t \<in> A"
    and "out_address ` set (tf_outputs t) \<subseteq> A"
  shows "keys_in A (fst s')"
proof -
  from assms(1) obtain ov1 where run: "for_each (\<lambda>p. ov_credit (out_address p) (out_amount p)) (tf_outputs t)
      (ov_set (sender P t) ov1 (fst s)) = Inr (fst s')"
    by (auto simp: apply_transfer_def Let_def result_simps split: if_splits)
  show ?thesis
    by (rule for_each_invariant [OF run]) (use assms(2-4) in \<open>auto intro: keys_in_set keys_in_credit\<close>)
qed

lemma keys_in_transfers:
  "for_each (apply_transfer P) (map Transfer ts) s = Inr s' \<Longrightarrow> keys_in A (fst s) \<Longrightarrow>
     (\<forall>t\<in>set ts. sender P t \<in> A \<and> out_address ` set (tf_outputs t) \<subseteq> A) \<Longrightarrow> keys_in A (fst s')"
  by (erule for_each_invariant) (auto intro: keys_in_transfer)

lemma keys_in_matured:
  "credit_matured N h matured ov = Inr ov' \<Longrightarrow> keys_in A ov \<Longrightarrow> (\<forall>c. matured = Some c \<longrightarrow> cb_address c \<in> A)
     \<Longrightarrow> keys_in A ov'"
  by (auto simp: credit_matured_def Let_def keys_in_credit split: if_splits option.splits)

text \<open>What \<open>apply_block\<close> returning means.\<close>

lemma apply_block_Inr:
  assumes "apply_block P N b ctx st check_pow = Inr ch"
  obtains c ts where "transactions b = Coinbase c # map Transfer ts"
    and "\<forall>t\<in>set ts. check_transaction P N (Transfer t) = Inr ()" and "check_transaction P N (Coinbase c) = Inr ()"
    and "check_header P N (header b) ctx check_pow = Inr ()" and "check_block P N b = Inr ()"
    and "ledger_block P (cx_matured_coinbase ctx) ts st = Inr (patched st (sc_accounts ch))"
    and "sc_fees ch = sum_list (map tf_fee ts)" and "cb_amount c = block_reward N + sc_fees ch"
    and "\<exists>ov. overlay_ok st ov \<and> sc_accounts ch = ov_accounts ov \<and> sc_previous ch = ov_previous ov
           \<and> keys_in (touched P (cx_matured_coinbase ctx) ts) ov"
proof -
  from assms obtain ov ov' where h: "check_header P N (header b) ctx check_pow = Inr ()"
      and b: "check_block P N b = Inr ()"
      and m: "credit_matured N (bh_height (header b)) (cx_matured_coinbase ctx) (new_overlay st) = Inr ov"
      and t: "for_each (apply_transfer P) (tl (transactions b)) (ov, 0) = Inr (ov', sc_fees ch)"
      and c: "rbind (coinbase_of b) (\<lambda>c. if cb_amount c \<noteq> block_reward N + sc_fees ch
                then Inl (ValidationError ''bad-coinbase-amount'') else Inr ch) = Inr ch"
      and ch: "sc_accounts ch = ov_accounts ov'" "sc_previous ch = ov_previous ov'"
    by (fastforce simp: apply_block_def result_simps split: if_splits)
  from b obtain c ts where tx: "transactions b = Coinbase c # map Transfer ts"
      and ok: "\<forall>tx\<in>set (transactions b). check_transaction P N tx = Inr ()"
    by (rule check_block_Inr)
  note mat = credit_matured_refines [OF m]
  from t tx have run: "for_each (apply_transfer P) (map Transfer ts) (ov, 0) = Inr (ov', sc_fees ch)" by simp
  have ok': "overlay_ok st ov'"
    using for_each_invariant [OF run, of "\<lambda>s. overlay_ok st (fst s)"] mat apply_transfer_ok by fastforce
  then have base: "ov_base ov' = st" by (simp add: overlay_ok_def)
  have "ov_get ov' = patched st (sc_accounts ch)"
    unfolding fun_eq_iff ov_get_def patched_def ch base by simp
  then have "ledger_block P (cx_matured_coinbase ctx) ts st = Inr (patched st (sc_accounts ch))"
    using apply_transfers_refine [of P ts "(ov, 0)"] mat run by (simp add: ledger_block_def)
  moreover have "keys_in (touched P (cx_matured_coinbase ctx) ts) ov"
    by (rule keys_in_matured [OF m]) (auto simp: touched_def)
  then have "keys_in (touched P (cx_matured_coinbase ctx) ts) ov'"
    using keys_in_transfers [OF run] by (auto simp: touched_def)
  moreover have "sc_fees ch = sum_list (map tf_fee ts)" using apply_transfers_fees [OF run] by simp
  moreover have "cb_amount c = block_reward N + sc_fees ch" using c tx by (simp split: if_splits)
  ultimately show ?thesis using tx ok h b ok' ch that [of c ts] by auto
qed

section \<open>What the ledger keeps\<close>

definition total_balance :: "bytes set \<Rightarrow> ledger \<Rightarrow> int" where
  "total_balance A L = (\<Sum>a\<in>A. balance (L a))"

definition matured_amount :: "coinbase option \<Rightarrow> int" where
  "matured_amount matured = (case matured of None \<Rightarrow> 0 | Some c \<Rightarrow> cb_amount c)"

lemma finite_touched [simp]: "finite (touched P matured ts)"
  by (simp add: touched_def split: option.splits)

lemma total_balance_update:
  "finite A \<Longrightarrow> a \<in> A \<Longrightarrow> total_balance A (L(a := acc)) = total_balance A L + balance acc - balance (L a)"
  by (simp add: total_balance_def sum.remove)

lemma ledger_credit_total:
  "ledger_credit a x L = Inr L' \<Longrightarrow> finite A \<Longrightarrow> a \<in> A \<Longrightarrow> total_balance A L' = total_balance A L + x"
  by (auto simp: ledger_credit_def total_balance_update split: if_splits)

lemma ledger_pay_total:
  "for_each ledger_pay ps L = Inr L' \<Longrightarrow> finite A \<Longrightarrow> out_address ` set ps \<subseteq> A
     \<Longrightarrow> total_balance A L' = total_balance A L + sum_list (map out_amount ps)"
proof (induction ps arbitrary: L)
  case (Cons p ps)
  then obtain L1 where "ledger_pay p L = Inr L1" "for_each ledger_pay ps L1 = Inr L'"
    by (auto simp: result_simps)
  with Cons show ?case using ledger_credit_total [of "out_address p" "out_amount p" L L1 A]
    by (simp add: ledger_pay_def)
qed simp

lemma ledger_transfer_total:
  assumes "ledger_transfer P t L = Inr L'" "finite A" "sender P t \<in> A" "out_address ` set (tf_outputs t) \<subseteq> A"
  shows "total_balance A L' = total_balance A L - tf_fee t"
proof -
  let ?acc = "\<lparr>balance = balance (L (sender P t)) - total_spent t, acct_nonce = acct_nonce (L (sender P t)) + 1\<rparr>"
  from assms(1) have "for_each ledger_pay (tf_outputs t) (L(sender P t := ?acc)) = Inr L'"
    by (auto simp: ledger_transfer_def Let_def split: if_splits)
  from ledger_pay_total [OF this assms(2,4)] show ?thesis
    using assms(2,3) by (simp add: total_balance_update total_spent_def)
qed

lemma ledger_block_total:
  assumes "ledger_block P matured ts L = Inr L'" "finite A" "touched P matured ts \<subseteq> A"
  shows "total_balance A L' = total_balance A L + matured_amount matured - sum_list (map tf_fee ts)"
proof -
  from assms(1) obtain L1 where 1: "ledger_mature matured L = Inr L1"
      and 2: "for_each (ledger_transfer P) ts L1 = Inr L'" by (auto simp: ledger_block_def result_simps)
  from 1 assms(2,3) have mat: "total_balance A L1 = total_balance A L + matured_amount matured"
    by (auto simp: ledger_mature_def matured_amount_def touched_def ledger_credit_total split: option.splits)
  have "touched P None ts \<subseteq> A" using assms(3) by (auto simp: touched_def)
  with 2 have "total_balance A L' = total_balance A L1 - sum_list (map tf_fee ts)"
  proof (induction ts arbitrary: L1)
    case (Cons t ts)
    then obtain L2 where "ledger_transfer P t L1 = Inr L2" "for_each (ledger_transfer P) ts L2 = Inr L'"
      by (auto simp: result_simps)
    with Cons show ?case using ledger_transfer_total [of P t L1 L2 A] assms(2)
      by (auto simp: touched_def)
  qed simp
  with mat show ?thesis by simp
qed

text \<open>Balances that do not change outside \<open>A\<close> leave the difference of the totals over \<open>A\<close>.\<close>

lemma total_balance_extend:
  assumes "finite A" "finite B" "\<And>a. a \<notin> A \<Longrightarrow> L' a = L a"
    and "total_balance (A \<union> B) L' = total_balance (A \<union> B) L + x"
  shows "total_balance A L' = total_balance A L + x"
proof -
  have split: "total_balance (A \<union> B) M = total_balance A M + total_balance (B - A) M" for M
    using sum.union_disjoint [of A "B - A" "\<lambda>a. balance (M a)"] assms(1,2)
    by (simp add: total_balance_def Un_Diff_cancel)
  have "total_balance (B - A) L' = total_balance (B - A) L"
    unfolding total_balance_def by (rule sum.cong) (simp_all add: assms(3))
  with assms(4) split show ?thesis by simp
qed

lemma patched_outside: "a \<notin> fst ` set d \<Longrightarrow> patched st d a = st a"
  using map_of_eq_None_iff [of d a] by (simp add: patched_def)

text \<open>Balances in range, nonces not negative.\<close>

definition account_ok :: "account \<Rightarrow> bool" where
  "account_ok acc \<longleftrightarrow> 0 \<le> balance acc \<and> balance acc \<le> MAX_AMOUNT \<and> 0 \<le> acct_nonce acc"

definition ledger_ok :: "ledger \<Rightarrow> bool" where
  "ledger_ok L \<longleftrightarrow> (\<forall>a. account_ok (L a))"

lemma ledger_credit_ok: "ledger_credit a x L = Inr L' \<Longrightarrow> 0 \<le> x \<Longrightarrow> ledger_ok L \<Longrightarrow> ledger_ok L'"
  by (auto simp: ledger_credit_def ledger_ok_def account_ok_def split: if_splits)

lemma ledger_transfer_ok:
  assumes "ledger_transfer P t L = Inr L'" "tx_amounts_ok (Transfer t)" "ledger_ok L"
  shows "ledger_ok L'"
proof -
  let ?acc = "\<lparr>balance = balance (L (sender P t)) - total_spent t, acct_nonce = acct_nonce (L (sender P t)) + 1\<rparr>"
  have amounts: "\<forall>p\<in>set (tf_outputs t). 0 \<le> out_amount p" "0 \<le> tf_fee t"
    using assms(2) by (auto simp: tx_amounts_ok_def)
  then have "0 \<le> total_spent t"
    unfolding total_spent_def by (intro add_nonneg_nonneg sum_list_nonneg_int) auto
  with assms(1,3) have run: "for_each ledger_pay (tf_outputs t) (L(sender P t := ?acc)) = Inr L'"
      and "ledger_ok (L(sender P t := ?acc))"
    by (auto simp: ledger_transfer_def Let_def ledger_ok_def account_ok_def split: if_splits)
       (smt (verit))
  from for_each_invariant [OF run, of ledger_ok] this(2) show ?thesis
    using ledger_credit_ok amounts(1) by (auto simp: ledger_pay_def)
qed

lemma ledger_block_ok:
  assumes "ledger_block P matured ts L = Inr L'" "\<forall>t\<in>set ts. tx_amounts_ok (Transfer t)"
    and "0 \<le> matured_amount matured" "ledger_ok L"
  shows "ledger_ok L'"
proof -
  from assms(1) obtain L1 where 1: "ledger_mature matured L = Inr L1"
      and 2: "for_each (ledger_transfer P) ts L1 = Inr L'" by (auto simp: ledger_block_def result_simps)
  from 1 assms(3,4) have "ledger_ok L1"
    by (auto simp: ledger_mature_def matured_amount_def ledger_credit_ok split: option.splits)
  then show ?thesis
    using for_each_invariant [OF 2, of ledger_ok] ledger_transfer_ok assms(2) by blast
qed

text \<open>The nonces an account's transfers carry.\<close>

definition nonces_of :: "prims \<Rightarrow> bytes \<Rightarrow> transfer list \<Rightarrow> int list" where
  "nonces_of P a ts = map tf_nonce (filter (\<lambda>t. sender P t = a) ts)"

lemma ledger_credit_nonce: "ledger_credit a x L = Inr L' \<Longrightarrow> acct_nonce (L' b) = acct_nonce (L b)"
  by (auto simp: ledger_credit_def split: if_splits)

lemma ledger_pay_nonce: "for_each ledger_pay ps L = Inr L' \<Longrightarrow> acct_nonce (L' b) = acct_nonce (L b)"
  by (erule for_each_invariant [where I = "\<lambda>M. acct_nonce (M b) = acct_nonce (L b)"])
     (simp_all add: ledger_pay_def ledger_credit_nonce)

lemma ledger_transfer_nonce:
  assumes "ledger_transfer P t L = Inr L'"
  shows "acct_nonce (L' a) = (if a = sender P t then tf_nonce t + 1 else acct_nonce (L a))"
    and "tf_nonce t = acct_nonce (L (sender P t))"
  using assms ledger_pay_nonce [of "tf_outputs t" _ L' a]
  by (auto simp: ledger_transfer_def Let_def split: if_splits)

lemma ledger_transfers_nonces:
  assumes "for_each (ledger_transfer P) ts L = Inr L'"
  shows "acct_nonce (L a) \<le> acct_nonce (L' a) \<and> nonces_of P a ts = [acct_nonce (L a) .. acct_nonce (L' a) - 1]"
  using assms
proof (induction ts arbitrary: L)
  case (Cons t ts)
  then obtain M where M: "ledger_transfer P t L = Inr M" "for_each (ledger_transfer P) ts M = Inr L'"
    by (auto simp: result_simps)
  note IH = Cons.IH [OF M(2)]
  show ?case
  proof (cases "sender P t = a")
    case True
    then have "acct_nonce (M a) = acct_nonce (L a) + 1" "tf_nonce t = acct_nonce (L a)"
      using ledger_transfer_nonce [OF M(1)] by auto
    with True IH show ?thesis by (simp add: nonces_of_def upto_rec1)
  next
    case False
    with ledger_transfer_nonce(1) [OF M(1), of a] IH show ?thesis by (simp add: nonces_of_def)
  qed
qed (simp add: nonces_of_def)

lemma ledger_block_nonces:
  assumes "ledger_block P matured ts L = Inr L'"
  shows "acct_nonce (L a) \<le> acct_nonce (L' a) \<and> nonces_of P a ts = [acct_nonce (L a) .. acct_nonce (L' a) - 1]"
proof -
  from assms obtain L1 where 1: "ledger_mature matured L = Inr L1"
      and 2: "for_each (ledger_transfer P) ts L1 = Inr L'" by (auto simp: ledger_block_def result_simps)
  from 1 have "acct_nonce (L1 a) = acct_nonce (L a)"
    by (auto simp: ledger_mature_def split: option.splits dest: ledger_credit_nonce [of _ _ _ _ a])
  with ledger_transfers_nonces [OF 2, of a] show ?thesis by simp
qed

section \<open>Where accounts are kept\<close>

locale state_store =
  fixes get_acc :: "'s \<Rightarrow> bytes \<Rightarrow> account"
    and write_accs :: "accounts \<Rightarrow> 's \<Rightarrow> 's"
    and good :: "'s \<Rightarrow> bool"
  assumes get_write: "distinct (map fst d) \<Longrightarrow> get_acc (write_accs d s) = patched (get_acc s) d"
    and good_write: "good s \<Longrightarrow> distinct (map fst d) \<Longrightarrow> good (write_accs d s)"
    and get_inject: "good s \<Longrightarrow> good t \<Longrightarrow> get_acc s = get_acc t \<Longrightarrow> s = t"
begin

lemma changes_distinct:
  "apply_block P N b ctx st check_pow = Inr ch \<Longrightarrow> distinct (map fst (sc_accounts ch)) \<and> distinct (map fst (sc_previous ch))"
  by (erule apply_block_Inr) (auto simp: overlay_ok_def)

lemma get_apply:
  "apply_block P N b ctx st check_pow = Inr ch
     \<Longrightarrow> get_acc (write_accs (sc_accounts ch) s) = patched (get_acc s) (sc_accounts ch)"
  using changes_distinct get_write by blast

lemma revert_apply:
  assumes "good s" and "apply_block P N b ctx (get_acc s) check_pow = Inr ch"
  shows "write_accs (sc_previous ch) (write_accs (sc_accounts ch) s) = s"
proof -
  note d = changes_distinct [OF assms(2), THEN conjunct1] changes_distinct [OF assms(2), THEN conjunct2]
  from assms(2) obtain ov where ov: "overlay_ok (get_acc s) ov" "sc_accounts ch = ov_accounts ov"
      "sc_previous ch = ov_previous ov" by (rule apply_block_Inr) blast
  have "patched (patched (get_acc s) (sc_accounts ch)) (sc_previous ch) a = get_acc s a" for a
  proof (cases "map_of (sc_previous ch) a")
    case None
    then have "a \<notin> fst ` set (sc_accounts ch)"
      using ov by (simp add: overlay_ok_def map_of_eq_None_iff)
    with None show ?thesis by (simp add: patched_def [of _ "sc_previous ch"] patched_outside)
  next
    case (Some acc)
    then have "acc = get_acc s a" using ov by (auto simp: overlay_ok_def dest: map_of_SomeD)
    with Some show ?thesis by (simp add: patched_def [of _ "sc_previous ch"])
  qed
  then have "get_acc (write_accs (sc_previous ch) (write_accs (sc_accounts ch) s)) = get_acc s"
    by (simp add: get_write d fun_eq_iff)
  then show ?thesis using assms(1) d by (intro get_inject good_write)
qed

end

text \<open>The in-memory state never stores an empty account.\<close>

definition memory_ok :: "memory_state \<Rightarrow> bool" where
  "memory_ok m \<longleftrightarrow> (\<forall>a. m a \<noteq> Some EMPTY_ACCOUNT)"

lemma memory_ok_new [simp]: "memory_ok memory_new"
  by (simp add: memory_ok_def memory_new_def)

lemma memory_write_Cons:
  "memory_write ((a, acc) # d) m = memory_write d (if acc = EMPTY_ACCOUNT then m(a := None) else m(a \<mapsto> acc))"
  by (simp add: memory_write_def)

lemma memory_get_write: "distinct (map fst d) \<Longrightarrow> memory_get (memory_write d m) = patched (memory_get m) d"
proof (induction d arbitrary: m)
  case (Cons entry d)
  obtain a acc where e: "entry = (a, acc)" by (cases entry) auto
  let ?m = "if acc = EMPTY_ACCOUNT then m(a := None) else m(a \<mapsto> acc)"
  have "memory_get ?m = (memory_get m)(a := acc)" by (auto simp: memory_get_def fun_eq_iff)
  with Cons e have "memory_get (memory_write (entry # d) m) = patched ((memory_get m)(a := acc)) d"
    by (simp add: memory_write_Cons)
  also have "\<dots> = patched (memory_get m) (entry # d)"
    using Cons.prems e map_of_eq_None_iff [of d a] by (auto simp: patched_def fun_eq_iff split: option.splits)
  finally show ?case .
qed (simp add: memory_write_def patched_def fun_eq_iff)

interpretation mem: state_store memory_get memory_write memory_ok
proof
  fix d :: accounts and m :: memory_state
  assume "distinct (map fst d)"
  then show "memory_get (memory_write d m) = patched (memory_get m) d" by (rule memory_get_write)
next
  fix d :: accounts and m :: memory_state
  show "memory_ok m \<Longrightarrow> memory_ok (memory_write d m)"
  proof (induction d arbitrary: m)
    case (Cons entry d)
    obtain a acc where e: "entry = (a, acc)" by (cases entry) auto
    have "memory_ok (if acc = EMPTY_ACCOUNT then m(a := None) else m(a \<mapsto> acc))"
      using Cons.prems by (auto simp: memory_ok_def)
    then show ?case unfolding e memory_write_Cons by (rule Cons.IH)
  qed (simp add: memory_write_def)
next
  fix m m' :: memory_state
  assume ok: "memory_ok m" "memory_ok m'" and eq: "memory_get m = memory_get m'"
  show "m = m'"
  proof
    fix a
    from eq have "memory_get m a = memory_get m' a" by simp
    with ok show "m a = m' a" by (auto simp: memory_get_def memory_ok_def split: option.splits)
  qed
qed

section \<open>What applying a block guarantees\<close>

text \<open>C14. The overlay implements the ledger: when \<open>apply_block\<close> accepts a block, the state with its changes
  applied is exactly what crediting the matured coinbase and running the block's transfers one after
  the other on the ledger gives; the fees are the sum of the transfers' fees, the coinbase claims
  exactly the reward plus these fees, and the transfers are all the transactions but the first.\<close>

theorem apply_block_refines_ledger:
  assumes "apply_block P N b ctx (memory_get m) check_pow = Inr ch"
  shows "\<exists>c ts. transactions b = Coinbase c # map Transfer ts \<and>
           ledger_block P (cx_matured_coinbase ctx) ts (memory_get m) = Inr (memory_get (memory_apply ch m)) \<and>
           sc_fees ch = sum_list (map tf_fee ts) \<and> cb_amount c = block_reward N + sc_fees ch"
  using apply_block_Inr [OF assms] mem.get_apply [OF assms, of m] by (metis memory_apply_def)

text \<open>C15. Undoing a block restores the state exactly: writing the previous values back gives the state
  before the block, entry for entry.\<close>

theorem revert_undoes_apply:
  assumes "memory_ok m" and "apply_block P N b ctx (memory_get m) check_pow = Inr ch"
  shows "memory_revert ch (memory_apply ch m) = m"
  unfolding memory_revert_def memory_apply_def using assms by (rule mem.revert_apply)

text \<open>C16. Money is conserved: over any finite set of addresses outside which the block changes nothing, the
  total of the balances changes by exactly the coinbase that matured less the fees, and the new
  coinbase is the reward plus these fees; spendable and immature money together grow by exactly the
  block reward.\<close>

theorem block_conserves_money:
  assumes "apply_block P N b ctx (memory_get m) check_pow = Inr ch" and "finite A"
    and "\<forall>a. a \<notin> A \<longrightarrow> memory_get (memory_apply ch m) a = memory_get m a"
  shows "\<exists>c. coinbase_of b = Inr c \<and>
           total_balance A (memory_get (memory_apply ch m)) + cb_amount c
             = total_balance A (memory_get m) + matured_amount (cx_matured_coinbase ctx) + block_reward N"
proof -
  from assms(1) obtain c ts where t: "transactions b = Coinbase c # map Transfer ts"
      and run: "ledger_block P (cx_matured_coinbase ctx) ts (memory_get m) = Inr (patched (memory_get m) (sc_accounts ch))"
      and c: "sc_fees ch = sum_list (map tf_fee ts)" "cb_amount c = block_reward N + sc_fees ch"
    by (rule apply_block_Inr) auto
  let ?B = "touched P (cx_matured_coinbase ctx) ts"
  have new: "memory_get (memory_apply ch m) = patched (memory_get m) (sc_accounts ch)"
    unfolding memory_apply_def using assms(1) by (rule mem.get_apply)
  have "total_balance A (memory_get (memory_apply ch m))
      = total_balance A (memory_get m) + (matured_amount (cx_matured_coinbase ctx) - sum_list (map tf_fee ts))"
    by (rule total_balance_extend [OF assms(2) finite_touched [of P "cx_matured_coinbase ctx" ts]])
       (use ledger_block_total [OF run, of "A \<union> ?B"] assms(2,3) new in auto)
  with t c show ?thesis by (intro exI [of _ c]) simp
qed

text \<open>C17. Balances stay in range: if every account starts with a balance between 0 and \<open>2^63 - 1\<close> and the
  maturing coinbase is not negative, no account can be overdrawn or overflow by a block, and no nonce
  decreases.\<close>

theorem balances_stay_in_range:
  assumes "apply_block P N b ctx (memory_get m) check_pow = Inr ch"
    and "ledger_ok (memory_get m)" and "0 \<le> matured_amount (cx_matured_coinbase ctx)"
  shows "ledger_ok (memory_get (memory_apply ch m)) \<and>
         acct_nonce (memory_get m a) \<le> acct_nonce (memory_get (memory_apply ch m) a)"
proof -
  from assms(1) obtain c ts where run: "ledger_block P (cx_matured_coinbase ctx) ts (memory_get m)
        = Inr (patched (memory_get m) (sc_accounts ch))"
      and ok: "\<forall>t\<in>set ts. check_transaction P N (Transfer t) = Inr ()"
    by (rule apply_block_Inr) auto
  from ok have "\<forall>t\<in>set ts. tx_amounts_ok (Transfer t)" using check_transaction_amounts by blast
  from ledger_block_ok [OF run this assms(3,2)] ledger_block_nonces [OF run, of a] show ?thesis
    unfolding memory_apply_def mem.get_apply [OF assms(1)] by simp
qed

text \<open>Applying blocks one after the other, each in its context.\<close>

definition replay_step ::
  "prims \<Rightarrow> network_params \<Rightarrow> bool \<Rightarrow> block \<times> block_context \<Rightarrow> memory_state \<Rightarrow> memory_state result" where
  "replay_step P N check_pow step m =
     rbind (apply_block P N (fst step) (snd step) (memory_get m) check_pow) (\<lambda>ch. Inr (memory_apply ch m))"

definition transfers_of :: "block \<Rightarrow> transfer list" where
  "transfers_of b = concat (map (\<lambda>tx. case tx of Transfer t \<Rightarrow> [t] | Coinbase c \<Rightarrow> []) (transactions b))"

lemma transfers_of_Cons: "transactions b = Coinbase c # map Transfer ts \<Longrightarrow> transfers_of b = ts"
proof -
  assume "transactions b = Coinbase c # map Transfer ts"
  moreover have "concat (map (\<lambda>tx. case tx of Transfer t \<Rightarrow> [t] | Coinbase c \<Rightarrow> []) (map Transfer ts)) = ts"
    by (induction ts) auto
  ultimately show ?thesis by (simp add: transfers_of_def)
qed

lemma nonces_of_append: "nonces_of P a (ts @ us) = nonces_of P a ts @ nonces_of P a us"
  by (simp add: nonces_of_def)

lemma upto_append: "i \<le> j \<Longrightarrow> j \<le> k + 1 \<Longrightarrow> [i..j - 1] @ [j..k] = [i..k]" for i :: int
  by (cases "j = k + 1") (simp_all add: upto_split1)

text \<open>C18. No transfer is ever replayed: over any sequence of applied blocks, the transfers of one sender
  carry, in order, exactly the nonces from the account's nonce before to its nonce after, each once.
  A second copy of a transfer, in the same block or in a later one, is refused.\<close>

theorem nonces_are_consecutive:
  assumes "for_each (replay_step P N check_pow) steps m = Inr m'"
  shows "acct_nonce (memory_get m a) \<le> acct_nonce (memory_get m' a) \<and>
         nonces_of P a (concat (map (\<lambda>step. transfers_of (fst step)) steps))
           = [acct_nonce (memory_get m a) .. acct_nonce (memory_get m' a) - 1]"
  using assms
proof (induction steps arbitrary: m)
  case (Cons step steps)
  then obtain ch where ch: "apply_block P N (fst step) (snd step) (memory_get m) check_pow = Inr ch"
      and rest: "for_each (replay_step P N check_pow) steps (memory_apply ch m) = Inr m'"
    by (auto simp: replay_step_def [of _ _ _ step] result_simps)
  from ch obtain c ts where t: "transactions (fst step) = Coinbase c # map Transfer ts"
      and run: "ledger_block P (cx_matured_coinbase (snd step)) ts (memory_get m)
        = Inr (patched (memory_get m) (sc_accounts ch))"
    by (rule apply_block_Inr) auto
  have "memory_get (memory_apply ch m) = patched (memory_get m) (sc_accounts ch)"
    unfolding memory_apply_def using ch by (rule mem.get_apply)
  with ledger_block_nonces [OF run, of a] Cons.IH [OF rest] show ?case
    by (simp add: transfers_of_Cons [OF t] nonces_of_append upto_append)
qed (simp add: nonces_of_def)

section \<open>An example\<close>

text \<open>A block of height 1 whose one transfer pays the burn address, in a state where the sender has one
  coin and has sent three transfers before.\<close>

definition example_txs :: "transaction list" where
  "example_txs =
     [Coinbase \<lparr>cb_network_id = 1, cb_height = 1, cb_address = BURN_PAYLOAD, cb_amount = 10001000, cb_memo = []\<rparr>,
      Transfer (example_transfer\<lparr>tf_signature := replicate 64 1\<rparr>)]"

definition example_block :: block where
  "example_block =
     \<lparr>header = \<lparr>bh_version = 1, bh_height = 1, bh_prev_id = block_id example_prims example_header,
        bh_merkle_root = rfc6962_root example_prims (map (txid example_prims) example_txs),
        bh_snapshot_root = zero_bytes 32, bh_timestamp = 60, bh_target = 7, bh_nonce = 250\<rparr>,
      transactions = example_txs\<rparr>"

definition example_context :: block_context where
  "example_context = \<lparr>cx_parent = example_header, cx_median_time_past = 0, cx_expected_target = 7,
     cx_matured_coinbase = None, cx_snapshot_root = zero_bytes 32\<rparr>"

definition example_sender :: bytes where
  "example_sender = 0 # replicate 20 5"

definition example_state :: memory_state where
  "example_state = [example_sender \<mapsto> \<lparr>balance = 1000000, acct_nonce = 3\<rparr>]"

lemma example_sender: "sender example_prims (example_transfer\<lparr>tf_signature := s\<rparr>) = example_sender"
  by (simp add: sender_def payload_from_public_key_def example_transfer_def example_prims_def sha256_def
      example_sender_def ADDRESS_VERSION_def)

lemma example_txids: "txid example_prims (example_txs ! 0) \<noteq> txid example_prims (example_txs ! 1)"
proof -
  have "tx_bytes (example_txs ! 0) \<noteq> [] \<and> last (tx_bytes (example_txs ! 0)) = 0"
    "tx_bytes (example_txs ! 1) \<noteq> [] \<and> last (tx_bytes (example_txs ! 1)) = 1"
    by (simp_all add: example_txs_def tx_bytes_def coinbase_bytes_def transfer_bytes_def var8_enc_def)
  then have "hd (txid example_prims (example_txs ! 0)) = 0" "hd (txid example_prims (example_txs ! 1)) = 1"
    by (simp_all add: txid_def example_digest_hd)
  then show ?thesis by auto
qed

lemma example_header_ok: "check_header example_prims MAINNET (header example_block) example_context True = Inr ()"
proof -
  have ids: "length (block_id example_prims h) = 32" for h
    using digest32_example by (simp add: block_id_def length_sha256)
  have root: "length (rfc6962_root example_prims (map (txid example_prims) example_txs)) = 32"
    by (rule length_rfc6962_root [OF digest32_example]) (simp add: example_txs_def)
  have "header_fits (header example_block)"
    by (simp add: header_fits_def fits_def example_block_def ids root)
  moreover have "last (header_bytes (header example_block)) = 250"
    by (simp add: header_bytes_def last_append last_to_be example_block_def)
  then have "wins example_prims (header example_block) (pow MAINNET) (bh_nonce (header example_block))"
    by (simp add: wins_def pow_hash_bytes_def example_prims_def from_be_def example_block_def)
  ultimately have "meets_target example_prims (header example_block) (pow MAINNET) = Inr True"
    by (simp add: meets_target_iff)
  then show ?thesis
    by (simp add: check_header_def check_header_against_parent_def example_block_def example_context_def
        example_header_def)
qed

lemma example_block_ok: "check_block example_prims MAINNET example_block = Inr ()"
proof -
  have size: "block_size example_block \<le> max_block_size MAINNET"
    using digest32_example
    by (simp add: block_size_def block_bytes_def example_block_def header_bytes_def example_txs_def tx_bytes_def
        transfer_bytes_def coinbase_bytes_def unsigned_layout_def example_transfer_def output_bytes_def
        var8_enc_def MAINNET_def block_id_def length_sha256 length_rfc6962_root BURN_PAYLOAD_def PAYLOAD_SIZE_def)
  have tx: "check_transaction example_prims MAINNET tx = Inr ()" if "tx \<in> set example_txs" for tx
  proof -
    have msg: "signing_message (example_transfer\<lparr>tf_signature := replicate 64 1\<rparr>)
        = Inr (SIGNATURE_DOMAIN @ unsigned_layout example_transfer)"
      using example_transfer_fits by (simp add: signing_message_iff unsigned_fits_def unsigned_layout_def)
    have "has_valid_signature example_prims (example_transfer\<lparr>tf_signature := replicate 64 1\<rparr>) = Inr True"
      unfolding has_valid_signature_def msg
      by (simp add: verify_def PUBLIC_KEY_SIZE_def SIGNATURE_SIZE_def example_transfer_def example_prims_def)
    with that show ?thesis
      by (auto simp: example_txs_def check_transaction_def tx_network_id_def tx_memo_def MAX_MEMO_SIZE_def
          MAINNET_def example_transfer_def is_known_payload_burn MAX_AMOUNT_def MAX_OUTPUTS_def check_output_def
          total_spent_def)
  qed
  have ids: "distinct (map (txid example_prims) example_txs)"
    using example_txids by (simp add: example_txs_def)
  have root: "compute_merkle_root example_prims (transactions example_block)
      = Inr (bh_merkle_root (header example_block))"
    by (simp add: compute_merkle_root_def merkle_root_def merkle_loop_tree rfc6962_root_def example_block_def)
       (simp add: example_txs_def)
  have txs: "transactions example_block = example_txs" and cb: "coinbase_of example_block = Inr
      \<lparr>cb_network_id = 1, cb_height = 1, cb_address = BURN_PAYLOAD, cb_amount = 10001000, cb_memo = []\<rparr>"
    and kinds: "example_txs \<noteq> []" "is_coinbase (hd example_txs)" "\<not> list_ex is_coinbase (tl example_txs)"
    and fields: "bh_version (header example_block) = BLOCK_VERSION" "bh_height (header example_block) = 1"
    by (simp_all add: example_block_def example_txs_def coinbase_of_def is_coinbase_def BLOCK_VERSION_def)
  have each: "check_each (check_transaction example_prims MAINNET) example_txs = Inr ()"
    unfolding check_each_Inr using tx by blast
  show ?thesis
    using size by (simp add: check_block_def txs cb kinds fields ids root [unfolded txs] each)
qed

lemma example_applies:
  "\<exists>ch. apply_block example_prims MAINNET example_block example_context (memory_get example_state) True = Inr ch"
proof -
  let ?t = "example_transfer\<lparr>tf_signature := replicate 64 1\<rparr>"
  let ?ov = "new_overlay (memory_get example_state)"
  have src: "memory_get example_state (sender example_prims ?t) = \<lparr>balance = 1000000, acct_nonce = 3\<rparr>"
    unfolding example_sender by (simp add: example_state_def memory_get_def)
  have burn: "BURN_PAYLOAD \<noteq> example_sender"
  proof -
    have "BURN_PAYLOAD ! 1 = 0" "example_sender ! 1 = 5"
      by (simp_all add: BURN_PAYLOAD_def example_sender_def zero_bytes_def PAYLOAD_SIZE_def)
    then show ?thesis by auto
  qed
  have fields: "tf_nonce ?t = 3" "tf_fee ?t = 1000" "total_spent ?t = 251000"
      "tf_outputs ?t = [\<lparr>out_address = BURN_PAYLOAD, out_amount = 250000\<rparr>]"
    by (simp_all add: example_transfer_def total_spent_def)
  have other: "memory_get example_state BURN_PAYLOAD = EMPTY_ACCOUNT" "BURN_PAYLOAD \<noteq> sender example_prims ?t"
    using burn unfolding example_sender by (simp_all add: example_state_def memory_get_def)
  have "\<exists>ov. apply_transfer example_prims (Transfer ?t) (?ov, 0) = Inr (ov, 1000)"
    by (simp add: apply_transfer_def src other fields ov_credit_def Let_def MAX_AMOUNT_def EMPTY_ACCOUNT_def)
  moreover have "tl (transactions example_block) = [Transfer ?t]"
      "coinbase_of example_block = Inr \<lparr>cb_network_id = 1, cb_height = 1, cb_address = BURN_PAYLOAD,
         cb_amount = 10001000, cb_memo = []\<rparr>"
    by (simp_all add: example_block_def example_txs_def coinbase_of_def)
  moreover have "credit_matured MAINNET (bh_height (header example_block)) (cx_matured_coinbase example_context) ?ov
      = Inr ?ov"
    by (simp add: credit_matured_def example_block_def example_context_def MAINNET_def)
  moreover have "block_reward MAINNET = 10000000" by (simp add: MAINNET_def)
  ultimately show ?thesis
    by (auto simp: apply_block_def example_header_ok example_block_ok)
qed

lemma example_memory_ok: "memory_ok example_state"
  by (simp add: memory_ok_def example_state_def EMPTY_ACCOUNT_def)

lemma apply_block_refines_ledger_witness:
  "\<exists>ch. \<exists>c ts. transactions example_block = Coinbase c # map Transfer ts \<and>
     ledger_block example_prims None ts (memory_get example_state) = Inr (memory_get (memory_apply ch example_state))"
  using example_applies apply_block_refines_ledger [of example_prims MAINNET example_block example_context example_state True]
  by (fastforce simp: example_context_def)

lemma revert_undoes_apply_witness:
  "\<exists>ch. apply_block example_prims MAINNET example_block example_context (memory_get example_state) True = Inr ch \<and>
     memory_revert ch (memory_apply ch example_state) = example_state"
  using example_applies revert_undoes_apply [OF example_memory_ok] by blast

lemma block_conserves_money_witness:
  "\<exists>ch A c. coinbase_of example_block = Inr c \<and>
     total_balance A (memory_get (memory_apply ch example_state)) + cb_amount c
       = total_balance A (memory_get example_state) + 10000000"
proof -
  obtain ch where ch: "apply_block example_prims MAINNET example_block example_context (memory_get example_state) True = Inr ch"
    using example_applies by blast
  have "\<forall>a. a \<notin> fst ` set (sc_accounts ch) \<longrightarrow>
      memory_get (memory_apply ch example_state) a = memory_get example_state a"
    unfolding memory_apply_def mem.get_apply [OF ch] by (simp add: patched_outside)
  from block_conserves_money [OF ch _ this] show ?thesis
    by (auto simp: example_context_def matured_amount_def MAINNET_def)
qed

lemma balances_stay_in_range_witness:
  "\<exists>ch. ledger_ok (memory_get (memory_apply ch example_state)) \<and>
     acct_nonce (memory_get example_state example_sender) \<le> acct_nonce (memory_get (memory_apply ch example_state) example_sender)"
proof -
  have "ledger_ok (memory_get example_state)"
    by (simp add: ledger_ok_def account_ok_def memory_get_def example_state_def EMPTY_ACCOUNT_def MAX_AMOUNT_def)
  moreover have "0 \<le> matured_amount (cx_matured_coinbase example_context)"
    by (simp add: matured_amount_def example_context_def)
  ultimately show ?thesis using example_applies balances_stay_in_range by blast
qed

lemma nonces_are_consecutive_witness:
  "\<exists>m'. nonces_of example_prims example_sender (transfers_of example_block)
     = [3 .. acct_nonce (memory_get m' example_sender) - 1]"
proof -
  obtain m' where "for_each (replay_step example_prims MAINNET True) [(example_block, example_context)] example_state = Inr m'"
    using example_applies by (auto simp: replay_step_def)
  moreover have "acct_nonce (memory_get example_state example_sender) = 3"
    by (simp add: memory_get_def example_state_def)
  ultimately show ?thesis
    using nonces_are_consecutive [of example_prims MAINNET True "[(example_block, example_context)]" example_state _ example_sender]
    by auto
qed

end
