(* ===== verification/Snapshot.thy ===== *)
theory Snapshot
  imports State
begin

text \<open>
  \<open>core/snapshot.py\<close> and \<open>core/genesis.py\<close>: the fingerprint of all balances, the heights at which it is
  taken and committed to, and the genesis block.  The root is shown to depend on the ledger only, and
  to bind it: two ledgers with one root exhibit a collision of SHA-256 among the strings hashed.
\<close>

section \<open>The state root\<close>

definition NO_SNAPSHOT :: bytes where "NO_SNAPSHOT = zero_bytes 32"

definition EMPTY_STATE_ROOT :: "prims \<Rightarrow> bytes" where
  "EMPTY_STATE_ROOT P = sha256 P []"

definition account_leaf :: "bytes \<Rightarrow> account \<Rightarrow> bytes result" where
  "account_leaf a acc =
     (if length a \<noteq> PAYLOAD_SIZE then Inl ValueError
      else rbind (to_bytes (balance acc) 8) (\<lambda>bal.
           rbind (to_bytes (acct_nonce acc) 8) (\<lambda>non. Inr (a @ bal @ non))))"

definition state_root :: "prims \<Rightarrow> accounts \<Rightarrow> bytes result" where
  "state_root P accs =
     (let ordered = sort_key fst (filter (\<lambda>item. snd item \<noteq> EMPTY_ACCOUNT) accs)
      in if list_ex (\<lambda>((first, _), (second, _)). first = second) (zip ordered (tl ordered)) then Inl ValueError
         else if ordered = [] then Inr (EMPTY_STATE_ROOT P)
         else rbind (map_each (\<lambda>(a, acc). account_leaf a acc) ordered) (merkle_root P))"

section \<open>Snapshot heights\<close>

definition is_snapshot_point :: "int \<Rightarrow> network_params \<Rightarrow> bool" where
  "is_snapshot_point h N \<longleftrightarrow> (h + 1) mod chunk_size N = 0"

definition snapshot_height :: "int \<Rightarrow> network_params \<Rightarrow> int option" where
  "snapshot_height h N =
     (let finished_chunks = (h - snapshot_delay N) div chunk_size N
      in if finished_chunks < 1 then None else Some (finished_chunks * chunk_size N - 1))"

section \<open>The genesis block\<close>

definition build_genesis :: "prims \<Rightarrow> network_params \<Rightarrow> int \<Rightarrow> bytes \<Rightarrow> int \<Rightarrow> block result" where
  "build_genesis P N timestamp message nonce =
     (let cb = Coinbase \<lparr>cb_network_id = network_id N, cb_height = 0, cb_address = BURN_PAYLOAD,
                 cb_amount = block_reward N, cb_memo = message\<rparr>
      in rbind (compute_merkle_root P [cb]) (\<lambda>root. Inr
         \<lparr>header = \<lparr>bh_version = BLOCK_VERSION, bh_height = 0, bh_prev_id = zero_bytes 32,
             bh_merkle_root = root, bh_snapshot_root = NO_SNAPSHOT, bh_timestamp = timestamp,
             bh_target = genesis_target N, bh_nonce = nonce\<rparr>,
          transactions = [cb]\<rparr>))"

text \<open>None is a search that does not return, as for \<open>mine\<close>.\<close>

definition mine_genesis :: "prims \<Rightarrow> network_params \<Rightarrow> int \<Rightarrow> bytes \<Rightarrow> block result option" where
  "mine_genesis P N timestamp message =
     (case build_genesis P N timestamp message 0 of
        Inl e \<Rightarrow> Some (Inl e)
      | Inr b \<Rightarrow>
          (case mine P (header b) (pow N) 0 1 None of
             None \<Rightarrow> None
           | Some (Inl e) \<Rightarrow> Some (Inl e)
           | Some (Inr None) \<Rightarrow> Some (Inl AssertionError)
           | Some (Inr (Some h)) \<Rightarrow> Some (Inr \<lparr>header = h, transactions = transactions b\<rparr>)))"

definition genesis_block :: "prims \<Rightarrow> network_params \<Rightarrow> block result" where
  "genesis_block P N =
     (case (genesis_timestamp N, genesis_nonce N, genesis_id N) of
        (Some timestamp, Some nonce, Some gid) \<Rightarrow>
          rbind (build_genesis P N timestamp (genesis_message N) nonce) (\<lambda>b.
            if block_id P (header b) \<noteq> gid then Inl RuntimeError else Inr b)
      | _ \<Rightarrow> Inl RuntimeError)"

section \<open>The root depends on the ledger only\<close>

text \<open>The non-empty accounts of a dictionary, sorted by address: what the root is taken over.\<close>

definition ordered_accounts :: "accounts \<Rightarrow> accounts" where
  "ordered_accounts accs = sort_key fst (filter (\<lambda>item. snd item \<noteq> EMPTY_ACCOUNT) accs)"

lemma set_ordered: "set (ordered_accounts accs) = {item \<in> set accs. snd item \<noteq> EMPTY_ACCOUNT}"
  by (auto simp: ordered_accounts_def)

lemma sorted_ordered: "sorted (map fst (ordered_accounts accs))"
  by (simp add: ordered_accounts_def)

lemma distinct_ordered: "distinct (map fst accs) \<Longrightarrow> distinct (map fst (ordered_accounts accs))"
proof -
  assume "distinct (map fst accs)"
  then have "distinct (map fst (filter (\<lambda>item. snd item \<noteq> EMPTY_ACCOUNT) accs))"
    by (rule distinct_map_filter)
  then show ?thesis by (simp add: ordered_accounts_def distinct_map)
qed

lemma no_adjacent_equal:
  "distinct (map fst xs) \<Longrightarrow> \<not> list_ex (\<lambda>((first, _), (second, _)). first = second) (zip xs (tl xs))"
proof (induction xs)
  case (Cons x xs)
  then show ?case by (cases xs) auto
qed simp

definition ledger_of :: "accounts \<Rightarrow> ledger" where
  "ledger_of accs = patched (\<lambda>_. EMPTY_ACCOUNT) accs"

lemma ordered_member:
  "distinct (map fst accs) \<Longrightarrow> (a, acc) \<in> set (ordered_accounts accs) \<longleftrightarrow> acc \<noteq> EMPTY_ACCOUNT \<and> ledger_of accs a = acc"
  by (auto simp: set_ordered ledger_of_def patched_def split: option.splits
      intro: eq_key_imp_eq_value)

lemma ordered_cong:
  assumes "distinct (map fst xs)" "distinct (map fst ys)" "ledger_of xs = ledger_of ys"
  shows "ordered_accounts xs = ordered_accounts ys"
proof -
  have "set (ordered_accounts xs) = set (ordered_accounts ys)"
    using ordered_member [OF assms(1)] ordered_member [OF assms(2)] assms(3) by auto
  moreover note distinct_ordered [OF assms(1)] distinct_ordered [OF assms(2)]
  moreover have "inj_on fst (set (ordered_accounts xs) \<union> set (ordered_accounts ys))"
    using calculation by (simp add: distinct_map)
  ultimately show ?thesis
    by (intro map_sorted_distinct_set_unique [where f = fst]) (simp_all add: sorted_ordered)
qed

lemma state_root_alt:
  "distinct (map fst accs) \<Longrightarrow> state_root P accs =
     (if ordered_accounts accs = [] then Inr (EMPTY_STATE_ROOT P)
      else rbind (map_each (\<lambda>(a, acc). account_leaf a acc) (ordered_accounts accs)) (merkle_root P))"
  using no_adjacent_equal [OF distinct_ordered]
  by (auto simp: state_root_def ordered_accounts_def [symmetric] Let_def)

text \<open>C19. The state root is a function of the ledger: two enumerations of the accounts, in any order and
  with or without empty accounts, that give every address the same account have the same root.\<close>

theorem state_root_of_ledger:
  assumes "distinct (map fst xs)" and "distinct (map fst ys)" and "ledger_of xs = ledger_of ys"
  shows "state_root P xs = state_root P ys"
  using assms by (simp add: state_root_alt ordered_cong [OF assms])

lemma state_root_of_ledger_witness:
  "state_root example_prims [([2], \<lparr>balance = 5, acct_nonce = 1\<rparr>), ([1], \<lparr>balance = 7, acct_nonce = 0\<rparr>)]
   = state_root example_prims [([1], \<lparr>balance = 7, acct_nonce = 0\<rparr>), ([3], EMPTY_ACCOUNT), ([2], \<lparr>balance = 5, acct_nonce = 1\<rparr>)]"
  by (rule state_root_of_ledger) (auto simp: ledger_of_def patched_def fun_eq_iff)

section \<open>The root binds the ledger\<close>

definition leaf_bytes :: "bytes \<times> account \<Rightarrow> bytes" where
  "leaf_bytes item = fst item @ to_be 8 (balance (snd item)) @ to_be 8 (acct_nonce (snd item))"

text \<open>The strings hashed for the root of a ledger.\<close>

definition hashed_for_root :: "prims \<Rightarrow> accounts \<Rightarrow> bytes list" where
  "hashed_for_root P accs =
     (if ordered_accounts accs = [] then [[]] else hashed_nodes P (map leaf_bytes (ordered_accounts accs)))"

lemma account_leaf_Inr: "account_leaf a acc = Inr d \<longleftrightarrow>
    length a = PAYLOAD_SIZE \<and> d = leaf_bytes (a, acc) \<and> 0 \<le> balance acc \<and> balance acc < 2 ^ 64
    \<and> 0 \<le> acct_nonce acc \<and> acct_nonce acc < 2 ^ 64"
  by (auto simp: account_leaf_def result_simps to_bytes_def leaf_bytes_def)

lemma leaf_bytes_inject:
  assumes "account_leaf a acc = Inr d" "account_leaf b bcc = Inr d"
  shows "a = b \<and> acc = bcc"
proof -
  from assms have l: "length a = length b" and
    eq: "a @ to_be 8 (balance acc) @ to_be 8 (acct_nonce acc) = b @ to_be 8 (balance bcc) @ to_be 8 (acct_nonce bcc)"
    by (auto simp: account_leaf_Inr leaf_bytes_def)
  then have "a = b" "to_be 8 (balance acc) = to_be 8 (balance bcc)" "to_be 8 (acct_nonce acc) = to_be 8 (acct_nonce bcc)"
    by auto
  with assms show ?thesis by (auto simp: account_leaf_Inr to_be_inject)
qed

lemma map_each_leaves:
  "map_each (\<lambda>(a, acc). account_leaf a acc) xs = Inr ls \<Longrightarrow>
     ls = map leaf_bytes xs \<and> (\<forall>(a, acc)\<in>set xs. account_leaf a acc = Inr (leaf_bytes (a, acc)))"
  unfolding map_each_Inr by (induction xs ls rule: list_all2_induct) (auto simp: account_leaf_Inr)

lemma state_root_Inr:
  assumes "distinct (map fst accs)" "state_root P accs = Inr r"
  shows "r = sha256 P (hd (hashed_for_root P accs))"
    and "\<forall>(a, acc)\<in>set (ordered_accounts accs). account_leaf a acc = Inr (leaf_bytes (a, acc))"
proof -
  have "r = sha256 P (hd (hashed_for_root P accs)) \<and>
      (\<forall>(a, acc)\<in>set (ordered_accounts accs). account_leaf a acc = Inr (leaf_bytes (a, acc)))"
  proof (cases "ordered_accounts accs = []")
    case True
    with assms show ?thesis by (simp add: state_root_alt hashed_for_root_def EMPTY_STATE_ROOT_def)
  next
    case False
    with assms obtain ls where ls: "map_each (\<lambda>(a, acc). account_leaf a acc) (ordered_accounts accs) = Inr ls"
        and r: "merkle_root P ls = Inr r" by (auto simp: state_root_alt rbind_Inr_iff)
    note leaves = map_each_leaves [OF ls]
    from r leaves False have "r = rfc6962_root P (map leaf_bytes (ordered_accounts accs))"
      by (simp add: merkle_root_def merkle_loop_tree rfc6962_root_def)
    with leaves False show ?thesis by (simp add: hashed_for_root_def rfc6962_root_hd)
  qed
  then show "r = sha256 P (hd (hashed_for_root P accs))"
    and "\<forall>(a, acc)\<in>set (ordered_accounts accs). account_leaf a acc = Inr (leaf_bytes (a, acc))" by auto
qed

lemma state_root_rfc6962:
  "distinct (map fst accs) \<Longrightarrow> state_root P accs = Inr r \<Longrightarrow> ordered_accounts accs \<noteq> [] \<Longrightarrow>
     r = rfc6962_root P (map leaf_bytes (ordered_accounts accs))"
  using state_root_Inr(1) [of accs P r] by (simp add: hashed_for_root_def rfc6962_root_hd)

text \<open>C20. The state root commits to every balance and nonce: two states with one root are the same ledger,
  or SHA-256 collides on two of the strings that were hashed for the roots.  So the accounts a node
  downloads for a snapshot are the ones whose root the proof-of-work-checked headers carry.\<close>

theorem state_root_binds:
  assumes "digest32 P" and "distinct (map fst xs)" and "distinct (map fst ys)"
    and "state_root P xs = Inr r" and "state_root P ys = Inr r" and "ledger_of xs \<noteq> ledger_of ys"
  shows "\<exists>a\<in>set (hashed_for_root P xs). \<exists>b\<in>set (hashed_for_root P ys). a \<noteq> b \<and> sha256 P a = sha256 P b"
proof -
  let ?X = "ordered_accounts xs" and ?Y = "ordered_accounts ys"
  note rx = state_root_Inr [OF assms(2,4)] and ry = state_root_Inr [OF assms(3,5)]
  have neq: "?X \<noteq> ?Y"
  proof
    assume eq: "?X = ?Y"
    have "ledger_of xs a = ledger_of ys a" for a
      using ordered_member [OF assms(2), of a] ordered_member [OF assms(3), of a] eq by metis
    with assms(6) show False by auto
  qed
  have ne: "hashed_for_root P zs \<noteq> []" for zs by (simp add: hashed_for_root_def hashed_nodes_nonempty)
  consider "?X = [] \<or> ?Y = []" | "?X \<noteq> []" "?Y \<noteq> []" by blast
  then show ?thesis
  proof cases
    case 1
    with neq have "hd (hashed_for_root P xs) \<noteq> hd (hashed_for_root P ys)"
      by (auto simp: hashed_for_root_def hd_hashed_nodes)
    with rx(1) ry(1) ne show ?thesis by (metis list.set_sel(1))
  next
    case 2
    have "map leaf_bytes ?X \<noteq> map leaf_bytes ?Y"
    proof
      assume eq: "map leaf_bytes ?X = map leaf_bytes ?Y"
      have "?X = ?Y"
      proof (rule map_inj_on [OF eq inj_onI])
        fix u v assume "u \<in> set ?X \<union> set ?Y" "v \<in> set ?X \<union> set ?Y" "leaf_bytes u = leaf_bytes v"
        with rx(2) ry(2) show "u = v"
          using leaf_bytes_inject [of "fst u" "snd u" "leaf_bytes u" "fst v" "snd v"] by (force simp: prod_eq_iff)
      qed
      with neq show False ..
    qed
    with 2 show ?thesis
      using collision_below [OF assms(1), of "map leaf_bytes ?X" "map leaf_bytes ?Y"]
        state_root_rfc6962 [OF assms(2,4)] state_root_rfc6962 [OF assms(3,5)]
      by (simp add: hashed_for_root_def)
  qed
qed

section \<open>When a snapshot is taken and committed to\<close>

lemma chunk_bounds:
  assumes "0 < k"
  shows "(x :: int) div k * k \<le> x \<and> x < x div k * k + k"
  using pos_mod_bound [OF assms, of x] pos_mod_sign [OF assms, of x] div_mult_mod_eq [of x k] by linarith

lemma chunk_unique: "0 < k \<Longrightarrow> c * k \<le> (x :: int) \<Longrightarrow> x < c * k + k \<Longrightarrow> x div k = c"
  by (rule int_div_pos_eq [of _ _ _ "x - c * k"]) (simp_all add: mult.commute)

text \<open>The snapshot a block at height \<open>h\<close> commits to is the latest one that is at least
  \<open>snapshot_delay\<close> blocks old: \<open>p\<close> is the last block of a chunk, and \<open>h\<close> lies in the chunk-long window
  of heights that starts \<open>snapshot_delay\<close> blocks after \<open>p + 1\<close>; before the first window there is none.\<close>

theorem snapshot_height_iff:
  assumes "2 \<le> chunk_size N" and "0 \<le> snapshot_delay N"
  shows "(snapshot_height h N = Some p \<longleftrightarrow>
           0 \<le> p \<and> is_snapshot_point p N \<and>
           p + 1 + snapshot_delay N \<le> h \<and> h < p + 1 + snapshot_delay N + chunk_size N) \<and>
         (snapshot_height h N = None \<longleftrightarrow> h < chunk_size N + snapshot_delay N)"
proof
  let ?k = "chunk_size N" and ?x = "h - snapshot_delay N"
  have k: "0 < ?k" using assms by simp
  note q = chunk_bounds [OF k, of ?x]
  have one: "1 \<le> c \<longleftrightarrow> ?k \<le> c * ?k" for c
    using k by (metis mult.left_neutral mult_le_cancel_right_pos)
  show "snapshot_height h N = None \<longleftrightarrow> h < ?k + snapshot_delay N"
    using pos_imp_zdiv_pos_iff [OF k, of ?x] by (auto simp: snapshot_height_def Let_def)
  show "snapshot_height h N = Some p \<longleftrightarrow>
           0 \<le> p \<and> is_snapshot_point p N \<and> p + 1 + snapshot_delay N \<le> h \<and> h < p + 1 + snapshot_delay N + ?k"
  proof
    assume "snapshot_height h N = Some p"
    then have "1 \<le> ?x div ?k" "p = ?x div ?k * ?k - 1" by (auto simp: snapshot_height_def Let_def split: if_splits)
    with q one assms show "0 \<le> p \<and> is_snapshot_point p N \<and> p + 1 + snapshot_delay N \<le> h \<and> h < p + 1 + snapshot_delay N + ?k"
      by (auto simp: is_snapshot_point_def)
  next
    assume r: "0 \<le> p \<and> is_snapshot_point p N \<and> p + 1 + snapshot_delay N \<le> h \<and> h < p + 1 + snapshot_delay N + ?k"
    then obtain c where c: "p + 1 = c * ?k"
      by (auto simp: is_snapshot_point_def mult.commute elim!: dvdE simp flip: dvd_eq_mod_eq_0)
    with r k have "?x div ?k = c" by (intro chunk_unique) auto
    moreover from c r k have "0 < c * ?k" by linarith
    then have "1 \<le> c" using k by (simp add: zero_less_mult_iff)
    ultimately show "snapshot_height h N = Some p" using c by (simp add: snapshot_height_def Let_def)
  qed
qed

lemma snapshot_height_iff_witness:
  "snapshot_height 1450 MAINNET = Some 1439 \<and> is_snapshot_point 1439 MAINNET"
  using snapshot_height_iff [of MAINNET 1450 1439] by (simp add: MAINNET_def is_snapshot_point_def)

lemma state_root_binds_witness:
  "let xs = [(1 # replicate 20 0, \<lparr>balance = 5, acct_nonce = 0\<rparr>)]; ys = [(2 # replicate 20 0, \<lparr>balance = 5, acct_nonce = 0\<rparr>)]
   in \<exists>a\<in>set (hashed_for_root example_prims xs). \<exists>b\<in>set (hashed_for_root example_prims ys).
        a \<noteq> b \<and> sha256 example_prims a = sha256 example_prims b"
  unfolding Let_def
proof (rule state_root_binds [OF digest32_example])
  let ?acc = "\<lparr>balance = 5, acct_nonce = 0\<rparr>"
  let ?leaf = "replicate 20 0 @ to_be 8 5 @ to_be 8 0 :: bytes"
  have root: "state_root example_prims [(x # replicate 20 0, ?acc)] = Inr (sha256 example_prims (0 # x # ?leaf))"
    for x
    by (simp add: state_root_def account_leaf_def to_bytes_def EMPTY_ACCOUNT_def PAYLOAD_SIZE_def merkle_root_def
        merkle_loop_tree leaf_hash_def del: to_be.simps)
  have cut: "sha256 example_prims (0 # x # ?leaf) = take 32 (rev ?leaf)" for x
    by (simp add: sha256_def example_prims_def)
  show "state_root example_prims [(1 # replicate 20 0, ?acc)] = Inr (take 32 (rev ?leaf))"
    and "state_root example_prims [(2 # replicate 20 0, ?acc)] = Inr (take 32 (rev ?leaf))"
    unfolding root cut by (rule refl)+
  show "ledger_of [(1 # replicate 20 0, ?acc)] \<noteq> ledger_of [(2 # replicate 20 0, ?acc)]"
    by (auto simp: ledger_of_def patched_def fun_eq_iff EMPTY_ACCOUNT_def intro!: exI [of _ "1 # replicate 20 0"])
qed simp_all

section \<open>The genesis block is valid\<close>

text \<open>The genesis block of a launched network has the id the parameters promise and height 0, pays the
  block reward to the burn address and to nobody else, and passes the same block rules as every
  later block.\<close>

theorem genesis_block_valid:
  assumes "genesis_block P N = Inr b"
    and "length (genesis_message N) \<le> 255" and "0 \<le> block_reward N" and "block_reward N \<le> MAX_AMOUNT"
    and "456 \<le> max_block_size N" and "digest32 P"
  shows "check_block P N b = Inr () \<and> genesis_id N = Some (block_id P (header b)) \<and> height b = 0 \<and>
         (\<exists>c. transactions b = [Coinbase c] \<and> cb_address c = BURN_PAYLOAD \<and> cb_amount c = block_reward N)"
proof -
  let ?c = "\<lparr>cb_network_id = network_id N, cb_height = 0, cb_address = BURN_PAYLOAD, cb_amount = block_reward N,
      cb_memo = genesis_message N\<rparr>"
  from assms(1) obtain t n where
    b: "build_genesis P N t (genesis_message N) n = Inr b" and gid: "genesis_id N = Some (block_id P (header b))"
    by (auto simp: genesis_block_def result_simps split: option.splits if_splits)
  then have txs: "transactions b = [Coinbase ?c]"
    and root: "compute_merkle_root P [Coinbase ?c] = Inr (bh_merkle_root (header b))"
    and h: "bh_version (header b) = BLOCK_VERSION" "bh_height (header b) = 0" "bh_prev_id (header b) = zero_bytes 32"
      "bh_snapshot_root (header b) = zero_bytes 32"
    by (auto simp: build_genesis_def Let_def result_simps NO_SNAPSHOT_def)
  have "bh_merkle_root (header b) = sha256 P ([0] @ txid P (Coinbase ?c))"
    using root by (auto simp: compute_merkle_root_def merkle_root_def merkle_loop_tree leaf_hash_def)
  then have "length (bh_merkle_root (header b)) = 32" using assms(6) by (simp add: length_sha256)
  then have "block_size b \<le> max_block_size N"
    using assms(2,5)
    by (simp add: block_size_def block_bytes_def header_bytes_def h txs tx_bytes_def coinbase_bytes_def
        BURN_PAYLOAD_def PAYLOAD_SIZE_def var8_enc_def)
  then have "check_block P N b = Inr ()"
    using assms(2-4) by (simp add: check_block_def h txs root coinbase_of_def is_coinbase_def check_transaction_def
        tx_network_id_def tx_memo_def MAX_MEMO_SIZE_def is_known_payload_burn)
  with gid txs h show ?thesis by (simp add: height_def)
qed

lemma genesis_block_valid_witness:
  "\<exists>N b. genesis_block example_prims N = Inr b \<and> check_block example_prims N b = Inr ()"
proof -
  obtain b where b: "build_genesis example_prims MAINNET 5 [104] 9 = Inr b"
    by (auto simp: build_genesis_def Let_def compute_merkle_root_def merkle_root_def)
  let ?N = "MAINNET\<lparr>genesis_timestamp := Some 5, genesis_message := [104], genesis_nonce := Some 9,
      genesis_id := Some (block_id example_prims (header b))\<rparr>"
  have "build_genesis example_prims ?N 5 [104] 9 = Inr b"
    using b by (simp add: build_genesis_def)
  then have g: "genesis_block example_prims ?N = Inr b" by (simp add: genesis_block_def)
  from genesis_block_valid [OF g] g show ?thesis
    by (auto simp: MAINNET_def MAX_AMOUNT_def digest32_example)
qed

end
