(* ===== verification/Blockfiles.thy ===== *)
theory Blockfiles
  imports Snapshot "HOL-Library.Char_ord" "HOL-Library.Finite_Map"
begin

text \<open>
  \<open>node/blockfiles.py\<close>: chunk files (a day of blocks, compressed in groups of 64), the file layer and
  the cache of recent files.  zlib is a parameter; \<open>zlib_correct\<close> states its documented contract.
  Encoding and decoding a chunk, and reading one block at its recorded location, are shown to give
  the blocks back; the cache is shown to be invisible and bounded.
\<close>

definition MAGIC :: bytes where "MAGIC = ascii ''TCCHUNK1''"
definition SEGMENT_BLOCKS :: nat where "SEGMENT_BLOCKS = 64"
definition HEADER_BYTES :: nat where "HEADER_BYTES = 8 + 1 + 4 + 8 + 4 + 32 + 4"
definition MAX_SEGMENT_BYTES :: int where "MAX_SEGMENT_BYTES = int SEGMENT_BLOCKS * (1000000 + 4)"

record chunk_location =
  cl_chunk :: int
  cl_offset :: int
  cl_length :: int
  cl_position :: nat

record chunk_file =
  cf_network_id :: int
  cf_index :: int
  cf_first_height :: int
  cf_blocks :: "bytes list"
  cf_locations :: "chunk_location list"
  cf_root :: bytes

definition block_id_of :: "prims \<Rightarrow> bytes \<Rightarrow> bytes" where
  "block_id_of P data = sha256 P (take HEADER_SIZE data)"

section \<open>Segments\<close>

definition pack_segment :: "prims \<Rightarrow> bytes list \<Rightarrow> bytes result" where
  "pack_segment P blocks =
     rbind (map_each (\<lambda>b. rbind (to_bytes (int (length b)) 4) (\<lambda>n. Inr (n @ b))) blocks) (\<lambda>parts.
       Inr (zcompress P (concat parts)))"

function unpack_blocks :: "bytes \<Rightarrow> nat \<Rightarrow> bytes list \<Rightarrow> bytes list result" where
  "unpack_blocks raw offset blocks =
     (if offset < length raw
      then if length blocks \<ge> SEGMENT_BLOCKS \<or> length raw - offset < 4 then Inl ZlibError
           else let len = from_be (take 4 (drop offset raw))
                in if \<not> (1 \<le> len \<and> len \<le> 1000000) \<or> int offset + 4 + len > int (length raw) then Inl ZlibError
                   else unpack_blocks raw (offset + 4 + nat len)
                          (blocks @ [take (nat len) (drop (offset + 4) raw)])
      else Inr blocks)"
  by pat_completeness auto
termination
  by (relation "measure (\<lambda>(raw, offset, blocks). length raw - offset)") auto

declare unpack_blocks.simps [simp del]

definition unpack_segment :: "prims \<Rightarrow> bytes \<Rightarrow> int \<Rightarrow> bytes list result" where
  "unpack_segment P data max_bytes =
     rbind (zdecompress P data (min max_bytes MAX_SEGMENT_BYTES + 1)) (\<lambda>(raw, unconsumed_tail, eof, unused_data).
       if int (length raw) > MAX_SEGMENT_BYTES then Inl ZlibError
       else if int (length raw) > max_bytes then Inl ChunkTooLarge
       else if unconsumed_tail \<noteq> [] then Inl ZlibError
       else if \<not> eof \<or> unused_data \<noteq> [] then Inl ZlibError
       else unpack_blocks raw 0 [])"

section \<open>Chunk files\<close>

definition groups_of :: "'a list \<Rightarrow> 'a list list" where
  "groups_of xs = map (\<lambda>i. take SEGMENT_BLOCKS (drop (SEGMENT_BLOCKS * i) xs))
     [0..<(length xs + SEGMENT_BLOCKS - 1) div SEGMENT_BLOCKS]"

definition locations_in :: "int \<Rightarrow> int \<Rightarrow> int \<Rightarrow> nat \<Rightarrow> chunk_location list" where
  "locations_in index offset len count =
     map (\<lambda>position. \<lparr>cl_chunk = index, cl_offset = offset, cl_length = len, cl_position = position\<rparr>) [0..<count]"

text \<open>One turn of the loop over \<open>zip(groups, segments)\<close>: offset, table and locations so far.\<close>

definition add_segment ::
  "int \<Rightarrow> bytes list \<times> bytes \<Rightarrow> int \<times> writer \<times> chunk_location list \<Rightarrow> (int \<times> writer \<times> chunk_location list) result" where
  "add_segment index entry s =
     (case (entry, s) of ((grp, segment), (offset, table, locations)) \<Rightarrow>
        rbind (w_then (w_u64 offset) (w_u32 (int (length segment))) table) (\<lambda>table.
          Inr (offset + int (length segment), table,
               locations @ locations_in index offset (int (length segment)) (length grp))))"

definition chunk_head :: "int \<Rightarrow> int \<Rightarrow> int \<Rightarrow> int \<Rightarrow> bytes \<Rightarrow> int \<Rightarrow> writer \<Rightarrow> writer result" where
  "chunk_head nid index first_height count root segment_count =
     w_then (w_raw MAGIC) (w_then (w_u8 nid) (w_then (w_u32 index) (w_then (w_u64 first_height)
       (w_then (w_u32 count) (w_then (w_fixed 32 root) (w_u32 segment_count))))))"

definition encode_chunk ::
  "prims \<Rightarrow> int \<Rightarrow> int \<Rightarrow> int \<Rightarrow> bytes list \<Rightarrow> (bytes \<times> chunk_location list) result" where
  "encode_chunk P nid index first_height blocks =
     (let groups = groups_of blocks
      in rbind (map_each (pack_segment P) groups) (\<lambda>segments.
         rbind (merkle_root P (map (block_id_of P) blocks)) (\<lambda>root.
         rbind (for_each (add_segment index) (zip groups segments)
                  (int (HEADER_BYTES + 12 * length segments), new_writer, [])) (\<lambda>(_, table, locations).
         rbind (chunk_head nid index first_height (int (length blocks)) root (int (length segments)) new_writer)
           (\<lambda>head.
             let body = getvalue head @ getvalue table @ concat segments
             in Inr (body @ sha256 P body, locations))))))"

text \<open>The loop that checks the segment table; its state is the expected offset.\<close>

definition check_entry :: "nat \<Rightarrow> int \<times> int \<Rightarrow> int \<Rightarrow> int result" where
  "check_entry body_length entry expected =
     (case entry of (offset, len) \<Rightarrow>
        if offset \<noteq> expected \<or> len = 0 \<or> offset + len > int body_length then Inl ChunkError
        else Inr (expected + len))"

text \<open>The loop that unpacks the segments: blocks, locations and decoded bytes so far.\<close>

definition read_segment ::
  "prims \<Rightarrow> bytes \<Rightarrow> int \<Rightarrow> int \<Rightarrow> int option \<Rightarrow> int \<times> int \<Rightarrow> bytes list \<times> chunk_location list \<times> int
     \<Rightarrow> (bytes list \<times> chunk_location list \<times> int) result" where
  "read_segment P body index count max_decoded_bytes entry s =
     (case (entry, s) of ((offset, len), (blocks, locations, decoded_bytes)) \<Rightarrow>
        let left = (case max_decoded_bytes of None \<Rightarrow> MAX_SEGMENT_BYTES | Some m \<Rightarrow> m - decoded_bytes)
        in rbind (unpack_segment P (take (nat len) (drop (nat offset) body)) left) (\<lambda>grp.
             let decoded_bytes = decoded_bytes + sum_list (map (\<lambda>b. int (length b) + 4) grp)
             in if int (length grp) \<noteq> min (int SEGMENT_BLOCKS) (count - int (length blocks)) then Inl ChunkError
                else Inr (blocks @ grp, locations @ locations_in index offset len (length grp), decoded_bytes)))"

text \<open>\<open>for height, block in enumerate(blocks, first_height)\<close>: each header's height, and its link to the
  header before.\<close>

fun check_links :: "prims \<Rightarrow> int \<Rightarrow> bytes option \<Rightarrow> bytes list \<Rightarrow> unit result" where
  "check_links P h previous_id [] = Inr ()"
| "check_links P h previous_id (b # bs) =
     (case header_from_bytes (take HEADER_SIZE b) of
        Inl e \<Rightarrow> Inl ChunkError
      | Inr hdr \<Rightarrow>
          if bh_height hdr \<noteq> h \<or> (previous_id \<noteq> None \<and> bh_prev_id hdr \<noteq> the previous_id) then Inl ChunkError
          else check_links P (h + 1) (Some (block_id P hdr)) bs)"

text \<open>\<open>except (DecodeError, zlib.error)\<close>\<close>

definition as_chunk_error :: "'a result \<Rightarrow> 'a result" where
  "as_chunk_error m =
     (case m of Inl e \<Rightarrow> Inl (if e = DecodeError \<or> e = ZlibError then ChunkError else e) | Inr x \<Rightarrow> Inr x)"

record chunk_prefix =
  cp_network_id :: int
  cp_index :: int
  cp_first_height :: int
  cp_count :: int
  cp_root :: bytes
  cp_segment_count :: int

definition read_prefix :: "chunk_prefix parser" where
  "read_prefix =
     p_bind (r_fixed 8) (\<lambda>_. p_bind r_u8 (\<lambda>nid. p_bind r_u32 (\<lambda>index. p_bind r_u64 (\<lambda>first_height.
     p_bind r_u32 (\<lambda>count. p_bind (r_fixed 32) (\<lambda>root. p_bind r_u32 (\<lambda>segment_count.
     p_return \<lparr>cp_network_id = nid, cp_index = index, cp_first_height = first_height, cp_count = count,
       cp_root = root, cp_segment_count = segment_count\<rparr>)))))))"

definition read_entry :: "(int \<times> int) parser" where
  "read_entry = p_bind r_u64 (\<lambda>offset. p_bind r_u32 (\<lambda>len. p_return (offset, len)))"

definition decode_body ::
  "prims \<Rightarrow> bytes \<Rightarrow> int option \<Rightarrow> int option \<Rightarrow> (chunk_prefix \<times> bytes list \<times> chunk_location list) result" where
  "decode_body P body max_blocks max_decoded_bytes =
     rbind (read_prefix (new_reader body)) (\<lambda>(p, r).
       if cp_count p = 0 \<or> (case max_blocks of None \<Rightarrow> False | Some m \<Rightarrow> cp_count p > m) then Inl ChunkError
       else if cp_segment_count p \<noteq> (cp_count p + int SEGMENT_BLOCKS - 1) div int SEGMENT_BLOCKS then Inl ChunkError
       else if int HEADER_BYTES + 12 * cp_segment_count p > int (length body) then Inl ChunkError
       else rbind (read_many (nat (cp_segment_count p)) read_entry r) (\<lambda>(table, _).
            rbind (for_each (check_entry (length body)) table (int HEADER_BYTES + 12 * cp_segment_count p)) (\<lambda>expected.
              if expected \<noteq> int (length body) then Inl ChunkError
              else rbind (for_each (read_segment P body (cp_index p) (cp_count p) max_decoded_bytes) table ([], [], 0))
                     (\<lambda>(blocks, locations, _). Inr (p, blocks, locations)))))"

definition decode_chunk :: "prims \<Rightarrow> bytes \<Rightarrow> int option \<Rightarrow> int option \<Rightarrow> chunk_file result" where
  "decode_chunk P data max_blocks max_decoded_bytes =
     (if length data < HEADER_BYTES + 32 \<or> \<not> startswith data MAGIC then Inl ChunkError
      else let body = take (length data - 32) data; check = drop (length data - 32) data
           in if sha256 P body \<noteq> check then Inl ChunkError
              else rbind (as_chunk_error (decode_body P body max_blocks max_decoded_bytes)) (\<lambda>(p, blocks, locations).
                if int (length blocks) \<noteq> cp_count p \<or> blocks = [] then Inl ChunkError
                else rbind (merkle_root P (map (block_id_of P) blocks)) (\<lambda>root.
                  if root \<noteq> cp_root p then Inl ChunkError
                  else rbind (check_links P (cp_first_height p) None blocks) (\<lambda>_.
                    Inr \<lparr>cf_network_id = cp_network_id p, cf_index = cp_index p, cf_first_height = cp_first_height p,
                         cf_blocks = blocks, cf_locations = locations, cf_root = cp_root p\<rparr>))))"

text \<open>What \<open>read_from_chunk\<close> does with the bytes of the file, without its cache.\<close>

definition read_located :: "prims \<Rightarrow> bytes \<Rightarrow> chunk_location \<Rightarrow> bytes result" where
  "read_located P data loc =
     rbind (unpack_segment P (take (nat (cl_length loc)) (drop (nat (cl_offset loc)) data)) MAX_SEGMENT_BYTES) (\<lambda>blocks.
       if cl_position loc < length blocks then Inr (blocks ! cl_position loc) else Inl IndexError)"

section \<open>Segments give their blocks back\<close>

text \<open>zlib's documented contract: a stream has at least its header, and decompressing it with a
  \<open>max_length\<close> above the length of the data gives the data, reaches the end of the stream and leaves
  nothing over.\<close>

definition zlib_correct :: "prims \<Rightarrow> bool" where
  "zlib_correct P \<longleftrightarrow> (\<forall>d. zcompress P d \<noteq> [] \<and>
     (\<forall>n. int (length d) < n \<longrightarrow> zdecompress P (zcompress P d) n = Inr (d, [], True, [])))"

lemma zlib_correct_example: "zlib_correct example_prims"
  by (simp add: zlib_correct_def example_prims_def)

definition framed :: "bytes list \<Rightarrow> bytes" where
  "framed blocks = concat (map (\<lambda>b. to_be 4 (int (length b)) @ b) blocks)"

definition block_sizes_ok :: "bytes list \<Rightarrow> bool" where
  "block_sizes_ok blocks \<longleftrightarrow> (\<forall>b\<in>set blocks. 1 \<le> length b \<and> length b \<le> 1000000)"

lemma framed_simps [simp]: "framed [] = []" "framed (b # bs) = to_be 4 (int (length b)) @ b @ framed bs"
  by (simp_all add: framed_def)

lemma block_sizes_ok_simps [simp]:
  "block_sizes_ok []"
  "block_sizes_ok (b # bs) \<longleftrightarrow> 1 \<le> length b \<and> length b \<le> 1000000 \<and> block_sizes_ok bs"
  by (auto simp: block_sizes_ok_def)

lemma length_framed: "int (length (framed blocks)) = sum_list (map (\<lambda>b. int (length b) + 4) blocks)"
  by (induction blocks) auto

lemma length_framed_bound: "block_sizes_ok blocks \<Longrightarrow> int (length (framed blocks)) \<le> int (length blocks) * 1000004"
  by (induction blocks) (auto simp: algebra_simps)

lemma pack_segment_eq: "block_sizes_ok blocks \<Longrightarrow> pack_segment P blocks = Inr (zcompress P (framed blocks))"
proof -
  assume ok: "block_sizes_ok blocks"
  have "map_each (\<lambda>b. rbind (to_bytes (int (length b)) 4) (\<lambda>n. Inr (n @ b))) blocks
      = Inr (map (\<lambda>b. to_be 4 (int (length b)) @ b) blocks)"
    by (rule map_each_all_Inr) (use ok in \<open>auto simp: to_bytes_def block_sizes_ok_def\<close>)
  then show ?thesis by (simp add: pack_segment_def framed_def)
qed

lemma unpack_framed:
  assumes "block_sizes_ok blocks" "length acc + length blocks \<le> SEGMENT_BLOCKS"
  shows "unpack_blocks (pre @ framed blocks) (length pre) acc = Inr (acc @ blocks)"
  using assms
proof (induction blocks arbitrary: pre acc)
  case Nil
  then show ?case by (simp add: unpack_blocks.simps)
next
  case (Cons b blocks)
  let ?raw = "pre @ framed (b # blocks)" and ?len = "int (length b)"
  have len: "from_be (take 4 (drop (length pre) ?raw)) = ?len" using Cons.prems by simp
  have data: "take (length b) (drop (length pre + 4) ?raw) = b" by simp
  have "unpack_blocks ?raw (length pre) acc = unpack_blocks ?raw (length pre + 4 + length b) (acc @ [b])"
    using Cons.prems len data
    by (subst unpack_blocks.simps) (simp add: Let_def SEGMENT_BLOCKS_def)
  also have "\<dots> = unpack_blocks ((pre @ to_be 4 ?len @ b) @ framed blocks) (length (pre @ to_be 4 ?len @ b)) (acc @ [b])"
    by (simp add: add.assoc)
  also have "\<dots> = Inr ((acc @ [b]) @ blocks)"
    by (rule Cons.IH) (use Cons.prems in simp_all)
  finally show ?case by simp
qed

lemma unpack_pack:
  assumes "zlib_correct P" "block_sizes_ok blocks" "length blocks \<le> SEGMENT_BLOCKS"
    and "sum_list (map (\<lambda>b. int (length b) + 4) blocks) \<le> limit"
  shows "unpack_segment P (zcompress P (framed blocks)) limit = Inr blocks"
proof -
  have "int (length (framed blocks)) \<le> MAX_SEGMENT_BYTES"
    using length_framed_bound [OF assms(2)] assms(3) by (simp add: MAX_SEGMENT_BYTES_def)
  moreover have "int (length (framed blocks)) \<le> limit" using assms(4) by (simp add: length_framed)
  moreover have "unpack_blocks (framed blocks) 0 [] = Inr blocks"
    using unpack_framed [OF assms(2), of "[]" "[]"] assms(3) by simp
  ultimately show ?thesis using assms(1) by (simp add: unpack_segment_def zlib_correct_def)
qed

lemma segment_limit: "block_sizes_ok blocks \<Longrightarrow> length blocks \<le> SEGMENT_BLOCKS \<Longrightarrow>
    sum_list (map (\<lambda>b. int (length b) + 4) blocks) \<le> MAX_SEGMENT_BYTES"
  using length_framed_bound [of blocks] by (simp add: length_framed MAX_SEGMENT_BYTES_def)

section \<open>Groups\<close>

text \<open>Every group is as long as the blocks that are left allow.\<close>

fun well_grouped :: "'a list list \<Rightarrow> bool" where
  "well_grouped [] = True"
| "well_grouped (g # gs) \<longleftrightarrow>
     g \<noteq> [] \<and> length g = min SEGMENT_BLOCKS (length (concat (g # gs))) \<and> well_grouped gs"

lemma groups_of_Nil [simp]: "groups_of [] = []"
  by (simp add: groups_of_def SEGMENT_BLOCKS_def)

lemma groups_of_step:
  assumes "xs \<noteq> []"
  shows "groups_of xs = take SEGMENT_BLOCKS xs # groups_of (drop SEGMENT_BLOCKS xs)"
proof -
  let ?n = "(length (drop SEGMENT_BLOCKS xs) + SEGMENT_BLOCKS - 1) div SEGMENT_BLOCKS"
  have count: "(length xs + SEGMENT_BLOCKS - 1) div SEGMENT_BLOCKS = Suc ?n"
  proof (cases "length xs \<le> SEGMENT_BLOCKS")
    case True
    with assms show ?thesis by (cases xs) (auto simp: SEGMENT_BLOCKS_def)
  next
    case False
    then show ?thesis by (simp add: SEGMENT_BLOCKS_def)
  qed
  have "[0..<Suc ?n] = 0 # map Suc [0..<?n]" by (simp only: map_Suc_upt upt_conv_Cons zero_less_Suc)
  then show ?thesis
    unfolding groups_of_def count by (simp add: comp_def add.commute del: upt_Suc)
qed

lemma groups_of_props: "concat (groups_of xs) = xs \<and> well_grouped (groups_of xs)"
proof (induction "length xs" arbitrary: xs rule: less_induct)
  case less
  show ?case
  proof (cases "xs = []")
    case False
    have "length (drop SEGMENT_BLOCKS xs) < length xs" using False by (simp add: SEGMENT_BLOCKS_def)
    with less have IH: "concat (groups_of (drop SEGMENT_BLOCKS xs)) = drop SEGMENT_BLOCKS xs"
        "well_grouped (groups_of (drop SEGMENT_BLOCKS xs))" by auto
    have "take SEGMENT_BLOCKS xs \<noteq> []" using False by (simp add: SEGMENT_BLOCKS_def)
    with IH False show ?thesis by (simp add: groups_of_step)
  qed simp
qed

lemma length_groups_of: "length (groups_of xs) = (length xs + SEGMENT_BLOCKS - 1) div SEGMENT_BLOCKS"
  by (simp add: groups_of_def)

lemma well_grouped_short: "well_grouped gs \<Longrightarrow> g \<in> set gs \<Longrightarrow> length g \<le> SEGMENT_BLOCKS"
  by (induction gs) auto

lemma block_sizes_ok_groups: "block_sizes_ok (concat gs) \<Longrightarrow> g \<in> set gs \<Longrightarrow> block_sizes_ok g"
  by (auto simp: block_sizes_ok_def)

section \<open>The segment table\<close>

fun table_of :: "int \<Rightarrow> bytes list \<Rightarrow> (int \<times> int) list" where
  "table_of offset [] = []"
| "table_of offset (seg # segs) = (offset, int (length seg)) # table_of (offset + int (length seg)) segs"

fun locations_of :: "int \<Rightarrow> int \<Rightarrow> bytes list list \<Rightarrow> bytes list \<Rightarrow> chunk_location list" where
  "locations_of index offset (g # gs) (seg # segs) =
     locations_in index offset (int (length seg)) (length g) @ locations_of index (offset + int (length seg)) gs segs"
| "locations_of index offset _ _ = []"

definition entry_bytes :: "int \<times> int \<Rightarrow> bytes" where
  "entry_bytes e = to_be 8 (fst e) @ to_be 4 (snd e)"

definition entry_fits :: "int \<times> int \<Rightarrow> bool" where
  "entry_fits e \<longleftrightarrow> fits 8 (fst e) \<and> fits 4 (snd e)"

definition write_entry :: "int \<times> int \<Rightarrow> writer \<Rightarrow> writer result" where
  "write_entry e = w_then (w_u64 (fst e)) (w_u32 (snd e))"

interpretation entryc: codec entry_fits entry_bytes write_entry read_entry
proof
  fix e :: "int \<times> int"
  show "writes (write_entry e) (entry_bytes e)" if "entry_fits e"
    unfolding write_entry_def entry_bytes_def using that
    by (intro codec_intros primitive_writes) (simp_all add: entry_fits_def)
  show "\<exists>x. write_entry e w = Inl x" if "\<not> entry_fits e" for w
    by (rule refuses [OF _ that]) (auto simp: write_entry_def then_Inr entry_fits_def dest: primitive_written)
  show "reads read_entry (entry_bytes e) e" if "entry_fits e"
  proof -
    have "reads read_entry (to_be 8 (fst e) @ to_be 4 (snd e) @ []) e"
      unfolding read_entry_def by (intro primitive_reads) (use that in \<open>simp_all add: entry_fits_def\<close>)
    then show ?thesis by (simp add: entry_bytes_def)
  qed
  show "gives read_entry (\<lambda>e bs. entry_fits e \<and> bs = entry_bytes e)"
    unfolding read_entry_def
    by (rule gives_mono [OF gives_bind [OF u64.rd_exact gives_bind [OF u32.rd_exact gives_return]]])
       (auto simp: entry_fits_def entry_bytes_def)
  show "decode_errors_only read_entry"
    unfolding read_entry_def by (intro codec_intros primitive_errors)
qed

lemma add_segment_run:
  assumes "length gs = length segs"
    and "for_each (add_segment index) (zip gs segs) (offset, table, locs) = Inr (offset', table', locs')"
  shows "getvalue table' = getvalue table @ concat (map entry_bytes (table_of offset segs))"
    and "list_all entry_fits (table_of offset segs)"
    and "locs' = locs @ locations_of index offset gs segs"
proof -
  have "getvalue table' = getvalue table @ concat (map entry_bytes (table_of offset segs))
      \<and> list_all entry_fits (table_of offset segs) \<and> locs' = locs @ locations_of index offset gs segs"
    using assms
  proof (induction gs segs arbitrary: offset table locs rule: list_induct2)
    case (Cons g gs seg segs)
    let ?e = "(offset, int (length seg))"
    from Cons.prems obtain t1 where w: "write_entry ?e table = Inr t1"
        and rest: "for_each (add_segment index) (zip gs segs) (offset + int (length seg), t1,
          locs @ locations_in index offset (int (length seg)) (length g)) = Inr (offset', table', locs')"
      by (auto simp: add_segment_def [of index "(g, seg)"] write_entry_def result_simps)
    have fit: "entry_fits ?e" by (rule entryc.wr_Inr [OF w])
    have "getvalue t1 = getvalue table @ entry_bytes ?e"
      by (rule writes_Inr [OF entryc.wr_enc [OF fit] w])
    with Cons.IH [OF rest] fit show ?case by simp
  qed auto
  then show "getvalue table' = getvalue table @ concat (map entry_bytes (table_of offset segs))"
    and "list_all entry_fits (table_of offset segs)"
    and "locs' = locs @ locations_of index offset gs segs" by auto
qed

lemma length_table_of [simp]: "length (table_of offset segs) = length segs"
  by (induction segs arbitrary: offset) auto

lemma length_entries: "length (concat (map entry_bytes es)) = 12 * length es"
  by (induction es) (auto simp: entry_bytes_def)

lemma check_entries:
  assumes "\<forall>seg\<in>set segs. seg \<noteq> []" "offset + int (length (concat segs)) \<le> int n"
  shows "for_each (check_entry n) (table_of offset segs) offset = Inr (offset + int (length (concat segs)))"
  using assms
proof (induction segs arbitrary: offset)
  case (Cons seg segs)
  have "for_each (check_entry n) (table_of (offset + int (length seg)) segs) (offset + int (length seg))
      = Inr (offset + int (length seg) + int (length (concat segs)))"
    by (rule Cons.IH) (use Cons.prems in auto)
  moreover have "check_entry n (offset, int (length seg)) offset = Inr (offset + int (length seg))"
    using Cons.prems by (auto simp: check_entry_def)
  ultimately show ?case by simp
qed simp

text \<open>The segments of well-formed groups, each at its place in the file.\<close>

definition segments_for :: "prims \<Rightarrow> bytes list list \<Rightarrow> bytes list" where
  "segments_for P gs = map (\<lambda>g. zcompress P (framed g)) gs"

lemma read_segments:
  assumes "zlib_correct P" "well_grouped gs" "block_sizes_ok (concat gs)"
    and "int (length blocks) + int (length (concat gs)) = count"
    and "0 \<le> offset" and "drop (nat offset) body = concat (segments_for P gs)"
  shows "\<exists>d. for_each (read_segment P body index count None) (table_of offset (segments_for P gs)) (blocks, locs, d0)
     = Inr (blocks @ concat gs, locs @ locations_of index offset gs (segments_for P gs), d)"
  using assms(2-)
proof (induction gs arbitrary: offset blocks locs d0)
  case Nil
  then show ?case by (simp add: segments_for_def)
next
  case (Cons g gs)
  let ?seg = "zcompress P (framed g)"
  let ?d = "d0 + sum_list (map (\<lambda>b. int (length b) + 4) g)"
  have seg: "take (length ?seg) (drop (nat offset) body) = ?seg"
    using Cons.prems(5) by (simp add: segments_for_def)
  have g: "block_sizes_ok g" "length g \<le> SEGMENT_BLOCKS"
    using Cons.prems by (auto simp: block_sizes_ok_def)
  have "unpack_segment P ?seg MAX_SEGMENT_BYTES = Inr g"
    by (rule unpack_pack [OF assms(1) g segment_limit [OF g]])
  moreover have "int (length g) = min (int SEGMENT_BLOCKS) (count - int (length blocks))"
    using Cons.prems by (auto simp: min_def)
  ultimately have step: "read_segment P body index count None (offset, int (length ?seg)) (blocks, locs, d0)
      = Inr (blocks @ g, locs @ locations_in index offset (int (length ?seg)) (length g), ?d)"
    using seg by (simp add: read_segment_def Let_def)
  have next_body: "drop (nat (offset + int (length ?seg))) body = concat (segments_for P gs)"
  proof -
    have "drop (nat (offset + int (length ?seg))) body = drop (length ?seg) (drop (nat offset) body)"
      using Cons.prems(4) by (simp add: nat_add_distrib add.commute)
    then show ?thesis using Cons.prems(5) by (simp add: segments_for_def)
  qed
  have "block_sizes_ok (concat gs)" using Cons.prems(2) by (auto simp: block_sizes_ok_def)
  then have "\<exists>d. for_each (read_segment P body index count None)
      (table_of (offset + int (length ?seg)) (segments_for P gs))
      (blocks @ g, locs @ locations_in index offset (int (length ?seg)) (length g), ?d)
     = Inr ((blocks @ g) @ concat gs, (locs @ locations_in index offset (int (length ?seg)) (length g)) @
         locations_of index (offset + int (length ?seg)) gs (segments_for P gs), d)"
    by (intro Cons.IH) (use Cons.prems next_body in auto)
  with step show ?case by (simp add: segments_for_def)
qed

section \<open>Encoding, then decoding\<close>

definition prefix_bytes :: "chunk_prefix \<Rightarrow> bytes" where
  "prefix_bytes p =
     MAGIC @ to_be 1 (cp_network_id p) @ to_be 4 (cp_index p) @ to_be 8 (cp_first_height p) @
     to_be 4 (cp_count p) @ cp_root p @ to_be 4 (cp_segment_count p)"

definition prefix_fits :: "chunk_prefix \<Rightarrow> bool" where
  "prefix_fits p \<longleftrightarrow> fits 1 (cp_network_id p) \<and> fits 4 (cp_index p) \<and> fits 8 (cp_first_height p) \<and>
     fits 4 (cp_count p) \<and> length (cp_root p) = 32 \<and> fits 4 (cp_segment_count p)"

lemma length_MAGIC [simp]: "length MAGIC = 8"
  by (simp add: MAGIC_def ascii_def)

lemma length_prefix_bytes: "prefix_fits p \<Longrightarrow> length (prefix_bytes p) = HEADER_BYTES"
  by (simp add: prefix_bytes_def prefix_fits_def HEADER_BYTES_def)

lemma reads_prefix: "prefix_fits p \<Longrightarrow> reads read_prefix (prefix_bytes p) p"
proof -
  assume fit: "prefix_fits p"
  have "reads read_prefix (MAGIC @ to_be 1 (cp_network_id p) @ to_be 4 (cp_index p) @ to_be 8 (cp_first_height p) @
      to_be 4 (cp_count p) @ cp_root p @ to_be 4 (cp_segment_count p) @ []) p"
    unfolding read_prefix_def by (intro primitive_reads) (use fit in \<open>simp_all add: prefix_fits_def\<close>)
  then show ?thesis by (simp add: prefix_bytes_def)
qed

lemma chunk_head_written:
  assumes "chunk_head nid index fh count root n new_writer = Inr w"
  defines "p \<equiv> \<lparr>cp_network_id = nid, cp_index = index, cp_first_height = fh, cp_count = count, cp_root = root,
    cp_segment_count = n\<rparr>"
  shows "prefix_fits p \<and> getvalue w = prefix_bytes p"
proof -
  from assms(1) have fit: "prefix_fits p"
    by (auto simp: chunk_head_def then_Inr prefix_fits_def p_def dest: primitive_written)
  have "writes (chunk_head nid index fh count root n) (prefix_bytes p)"
    unfolding chunk_head_def prefix_bytes_def p_def chunk_prefix.select_convs
    by (intro codec_intros primitive_writes) (use fit in \<open>simp_all add: prefix_fits_def p_def\<close>)
  from writes_Inr [OF this assms(1)] fit show ?thesis by (simp add: getvalue_def new_writer_def)
qed

text \<open>The parts of an encoded chunk.\<close>

definition chunk_segments :: "prims \<Rightarrow> bytes list \<Rightarrow> bytes list" where
  "chunk_segments P blocks = segments_for P (groups_of blocks)"

definition chunk_offset :: "prims \<Rightarrow> bytes list \<Rightarrow> int" where
  "chunk_offset P blocks = int (HEADER_BYTES + 12 * length (chunk_segments P blocks))"

definition chunk_table :: "prims \<Rightarrow> bytes list \<Rightarrow> (int \<times> int) list" where
  "chunk_table P blocks = table_of (chunk_offset P blocks) (chunk_segments P blocks)"

definition chunk_body :: "prims \<Rightarrow> chunk_prefix \<Rightarrow> bytes list \<Rightarrow> bytes" where
  "chunk_body P p blocks =
     prefix_bytes p @ concat (map entry_bytes (chunk_table P blocks)) @ concat (chunk_segments P blocks)"

definition chunk_locs :: "prims \<Rightarrow> int \<Rightarrow> bytes list \<Rightarrow> chunk_location list" where
  "chunk_locs P index blocks =
     locations_of index (chunk_offset P blocks) (groups_of blocks) (chunk_segments P blocks)"

lemma encode_chunk_Inr:
  assumes "encode_chunk P nid index fh blocks = Inr (data, locs)" and "block_sizes_ok blocks"
  obtains root p where "merkle_root P (map (block_id_of P) blocks) = Inr root"
    and "p = \<lparr>cp_network_id = nid, cp_index = index, cp_first_height = fh, cp_count = int (length blocks),
           cp_root = root, cp_segment_count = int (length (chunk_segments P blocks))\<rparr>"
    and "prefix_fits p" and "list_all entry_fits (chunk_table P blocks)"
    and "data = chunk_body P p blocks @ sha256 P (chunk_body P p blocks)" and "locs = chunk_locs P index blocks"
proof -
  let ?gs = "groups_of blocks" and ?segs = "chunk_segments P blocks"
  have packed: "map_each (pack_segment P) ?gs = Inr ?segs"
    unfolding chunk_segments_def segments_for_def using assms(2) groups_of_props [of blocks]
    by (intro map_each_all_Inr pack_segment_eq) (metis block_sizes_ok_groups)
  have lens: "length ?gs = length ?segs" by (simp add: chunk_segments_def segments_for_def)
  from assms(1) packed obtain root offset' table' locs' head where
    root: "merkle_root P (map (block_id_of P) blocks) = Inr root"
    and run: "for_each (add_segment index) (zip ?gs ?segs) (chunk_offset P blocks, new_writer, []) = Inr (offset', table', locs')"
    and head: "chunk_head nid index fh (int (length blocks)) root (int (length ?segs)) new_writer = Inr head"
    and data: "data = (getvalue head @ getvalue table' @ concat ?segs) @ sha256 P (getvalue head @ getvalue table' @ concat ?segs)"
    and locs: "locs = locs'"
    by (auto simp: encode_chunk_def Let_def rbind_Inr_iff chunk_offset_def)
  note table = add_segment_run [OF lens run]
  have "getvalue table' = concat (map entry_bytes (chunk_table P blocks))"
    using table(1) by (simp add: getvalue_def new_writer_def chunk_table_def)
  with root table chunk_head_written [OF head] data locs show ?thesis
    by (intro that [OF root refl]) (simp_all add: chunk_body_def chunk_table_def chunk_locs_def)
qed

lemma segments_nonempty: "zlib_correct P \<Longrightarrow> seg \<in> set (segments_for P gs) \<Longrightarrow> seg \<noteq> []"
  by (auto simp: segments_for_def zlib_correct_def)

lemma chunk_start:
  "prefix_fits p \<Longrightarrow> length (prefix_bytes p @ concat (map entry_bytes (chunk_table P blocks))) = nat (chunk_offset P blocks)"
  by (simp add: length_prefix_bytes length_entries chunk_table_def chunk_offset_def)

lemma decode_body_encoded:
  assumes "zlib_correct P" "block_sizes_ok blocks" "blocks \<noteq> []" "prefix_fits p"
    and "cp_count p = int (length blocks)" "cp_segment_count p = int (length (chunk_segments P blocks))"
    and "list_all entry_fits (chunk_table P blocks)"
  shows "decode_body P (chunk_body P p blocks) None None = Inr (p, blocks, chunk_locs P (cp_index p) blocks)"
proof -
  let ?segs = "chunk_segments P blocks" and ?table = "chunk_table P blocks" and ?body = "chunk_body P p blocks"
  let ?offset = "chunk_offset P blocks"
  let ?r = "advance (length (prefix_bytes p)) (new_reader ?body)"
  have prefix: "read_prefix (new_reader ?body) = Inr (p, ?r)"
    by (rule readsD [OF reads_prefix [OF assms(4)]]) (simp_all add: chunk_body_def)
  have wp: "well_placed ?r" and rest: "rest ?r = concat (map entry_bytes ?table) @ concat ?segs"
    using well_placed_advance [of "new_reader ?body" "prefix_bytes p"] rest_advance [of "new_reader ?body" "prefix_bytes p"]
    by (simp_all add: chunk_body_def)
  have "read_many (length ?table) read_entry ?r = Inr (?table, advance (length (concat (map entry_bytes ?table))) ?r)"
    by (rule readsD [OF entryc.many_reads [OF assms(7)] wp rest])
  then have table: "read_many (length ?segs) read_entry ?r = Inr (?table, advance (length (concat (map entry_bytes ?table))) ?r)"
    by (simp add: chunk_table_def)
  have body_len: "int (length ?body) = ?offset + int (length (concat ?segs))"
    using chunk_start [OF assms(4), of P blocks] by (simp add: chunk_body_def chunk_offset_def)
  have check: "for_each (check_entry (length ?body)) ?table ?offset = Inr (?offset + int (length (concat ?segs)))"
    unfolding chunk_table_def
    by (rule check_entries) (use segments_nonempty [OF assms(1)] body_len in \<open>auto simp: chunk_segments_def\<close>)
  have seg_count: "int (length ?segs) = (int (length blocks) + int SEGMENT_BLOCKS - 1) div int SEGMENT_BLOCKS"
    using assms(3) by (simp add: chunk_segments_def segments_for_def length_groups_of zdiv_int of_nat_diff SEGMENT_BLOCKS_def)
  have "drop (nat ?offset) ?body = concat ?segs"
    using chunk_start [OF assms(4), of P blocks] unfolding chunk_body_def by (metis append.assoc append_eq_conv_conj)
  moreover have "0 \<le> ?offset" by (simp add: chunk_offset_def)
  ultimately obtain d where run: "for_each (read_segment P ?body (cp_index p) (cp_count p) None) ?table ([], [], 0)
      = Inr (blocks, chunk_locs P (cp_index p) blocks, d)"
    using read_segments [of P "groups_of blocks" "[]" "cp_count p" ?offset ?body "cp_index p" "[]" 0]
      groups_of_props [of blocks] assms(1,2,5) by (auto simp: chunk_locs_def chunk_table_def chunk_segments_def)
  have guards: "cp_count p \<noteq> 0" "\<not> int HEADER_BYTES + 12 * cp_segment_count p > int (length ?body)"
      "nat (cp_segment_count p) = length ?segs" "int HEADER_BYTES + 12 * cp_segment_count p = ?offset"
    using assms(3,5,6) body_len by (simp_all add: chunk_offset_def)
  show ?thesis
    unfolding decode_body_def prefix
    using guards seg_count table check run assms(5,6) body_len by simp
qed

lemma read_located_segments:
  assumes "zlib_correct P" "well_grouped gs" "block_sizes_ok (concat gs)" "0 \<le> offset"
    and "drop (nat offset) data = concat (segments_for P gs) @ rest_of"
  shows "list_all2 (\<lambda>loc b. read_located P data loc = Inr b) (locations_of index offset gs (segments_for P gs)) (concat gs)"
  using assms(2-)
proof (induction gs arbitrary: offset)
  case Nil
  then show ?case by (simp add: segments_for_def)
next
  case (Cons g gs)
  let ?seg = "zcompress P (framed g)"
  have g: "block_sizes_ok g" "length g \<le> SEGMENT_BLOCKS" and gs: "block_sizes_ok (concat gs)"
    using Cons.prems by (auto simp: block_sizes_ok_def)
  have seg: "take (length ?seg) (drop (nat offset) data) = ?seg"
    using Cons.prems(4) by (simp add: segments_for_def)
  have "unpack_segment P ?seg MAX_SEGMENT_BYTES = Inr g"
    by (rule unpack_pack [OF assms(1) g segment_limit [OF g]])
  then have here: "list_all2 (\<lambda>loc b. read_located P data loc = Inr b)
      (locations_in index offset (int (length ?seg)) (length g)) g"
    using seg by (simp add: list_all2_conv_all_nth locations_in_def read_located_def)
  have "drop (nat (offset + int (length ?seg))) data = drop (length ?seg) (drop (nat offset) data)"
    using Cons.prems(3) by (simp add: nat_add_distrib add.commute)
  then have "drop (nat (offset + int (length ?seg))) data = concat (segments_for P gs) @ rest_of"
    using Cons.prems(4) by (simp add: segments_for_def)
  then have "list_all2 (\<lambda>loc b. read_located P data loc = Inr b)
      (locations_of index (offset + int (length ?seg)) gs (segments_for P gs)) (concat gs)"
    using Cons.IH [of "offset + int (length ?seg)"] Cons.prems(1,3) gs by simp
  with here show ?case by (simp add: segments_for_def list_all2_appendI)
qed

lemma chunk_locations:
  assumes "zlib_correct P" "block_sizes_ok blocks" "encode_chunk P nid index fh blocks = Inr (data, locs)"
  shows "list_all2 (\<lambda>loc b. read_located P data loc = Inr b) locs blocks"
proof -
  let ?segs = "chunk_segments P blocks"
  from encode_chunk_Inr [OF assms(3,2)] obtain p where p: "prefix_fits p"
    and data: "data = chunk_body P p blocks @ sha256 P (chunk_body P p blocks)"
    and locs: "locs = chunk_locs P index blocks" by blast
  have "drop (nat (chunk_offset P blocks)) data = concat ?segs @ sha256 P (chunk_body P p blocks)"
    using chunk_start [OF p, of P blocks] unfolding data
    by (subst (1) chunk_body_def) (metis append.assoc append_eq_conv_conj)
  from read_located_segments [OF assms(1) _ _ _ this [unfolded chunk_segments_def]] groups_of_props [of blocks] assms(2)
  show ?thesis by (simp add: locs chunk_locs_def chunk_segments_def chunk_offset_def)
qed



section \<open>The file layer and its caches\<close>

definition RECENT_CACHE_BYTES :: int where "RECENT_CACHE_BYTES = 64 * 1024 * 1024"

text \<open>Files by name, on disk or in memory; the segments read last, and the recent files read or written
  last with the sum of their lengths.\<close>

record block_files =
  bf_files :: "(string, bytes) fmap"
  bf_segments :: "((int \<times> int) \<times> bytes list) list"
  bf_recent_cache :: "(string \<times> bytes) list"
  bf_recent_cache_bytes :: int

definition new_block_files :: block_files where
  "new_block_files = \<lparr>bf_files = fmempty, bf_segments = [], bf_recent_cache = [], bf_recent_cache_bytes = 0\<rparr>"

definition cache_drop :: "string \<Rightarrow> block_files \<Rightarrow> block_files" where
  "cache_drop nm bf =
     (case map_of (bf_recent_cache bf) nm of
        None \<Rightarrow> bf
      | Some data \<Rightarrow> bf\<lparr>bf_recent_cache := AList.delete nm (bf_recent_cache bf),
                        bf_recent_cache_bytes := bf_recent_cache_bytes bf - int (length data)\<rparr>)"

text \<open>\<open>while self._recent_cache_bytes > RECENT_CACHE_BYTES: self._cache_drop(next(iter(...)))\<close>: each turn
  drops the first entry.\<close>

function cache_trim :: "block_files \<Rightarrow> block_files result" where
  "cache_trim bf =
     (if bf_recent_cache_bytes bf > RECENT_CACHE_BYTES
      then (case bf_recent_cache bf of [] \<Rightarrow> Inl StopIteration
            | (nm, data) # others \<Rightarrow> cache_trim (cache_drop nm bf))
      else Inr bf)"
  by pat_completeness auto
termination
  by (relation "measure (\<lambda>bf. length (bf_recent_cache bf))")
     (auto simp: cache_drop_def less_Suc_eq_le length_delete_le)

declare cache_trim.simps [simp del]

definition cache_put :: "string \<Rightarrow> bytes \<Rightarrow> block_files \<Rightarrow> block_files result" where
  "cache_put nm data bf =
     (let bf = (if map_of (bf_recent_cache bf) nm \<noteq> None then cache_drop nm bf else bf)
      in cache_trim (bf\<lparr>bf_recent_cache := AList.update nm data (bf_recent_cache bf),
                       bf_recent_cache_bytes := bf_recent_cache_bytes bf + int (length data)\<rparr>))"

definition file_write :: "string \<Rightarrow> bytes \<Rightarrow> block_files \<Rightarrow> block_files" where
  "file_write nm data bf = bf\<lparr>bf_files := fmupd nm data (bf_files bf)\<rparr>"

definition file_read :: "string \<Rightarrow> block_files \<Rightarrow> bytes result" where
  "file_read nm bf = (case fmlookup (bf_files bf) nm of None \<Rightarrow> Inl FileNotFoundError | Some data \<Rightarrow> Inr data)"

definition file_exists :: "string \<Rightarrow> block_files \<Rightarrow> bool" where
  "file_exists nm bf \<longleftrightarrow> fmlookup (bf_files bf) nm \<noteq> None"

definition file_delete :: "string \<Rightarrow> block_files \<Rightarrow> block_files" where
  "file_delete nm bf = bf\<lparr>bf_files := fmdrop nm (bf_files bf)\<rparr>"

definition file_names :: "string \<Rightarrow> block_files \<Rightarrow> string list" where
  "file_names prefix bf = filter (\<lambda>nm. startswith nm prefix) (sorted_list_of_fset (fmdom (bf_files bf)))"

subsection \<open>Names\<close>

definition hex_digits :: string where "hex_digits = ''0123456789abcdef''"

definition hex_byte :: "byte \<Rightarrow> string" where
  "hex_byte b = [hex_digits ! nat (uint b div 16), hex_digits ! nat (uint b mod 16)]"

definition hex_of :: "bytes \<Rightarrow> string" where
  "hex_of bs = concat (map hex_byte bs)"

definition recent_name :: "int \<Rightarrow> bytes \<Rightarrow> string" where
  "recent_name h bid = ''recent/'' @ zero_padded 10 h @ ''-'' @ hex_of bid @ ''.block''"

definition chunk_name :: "int \<Rightarrow> string" where
  "chunk_name index = ''chunks/'' @ zero_padded 6 index @ ''.chunk''"

subsection \<open>Recent blocks\<close>

definition write_recent :: "prims \<Rightarrow> block \<Rightarrow> block_files \<Rightarrow> block_files result" where
  "write_recent P b bf =
     rbind (serialize_block b) (\<lambda>data.
       let nm = recent_name (height b) (block_id P (header b)) in cache_put nm data (file_write nm data bf))"

definition read_recent :: "int \<Rightarrow> bytes \<Rightarrow> block_files \<Rightarrow> (bytes \<times> block_files) result" where
  "read_recent h bid bf =
     (let nm = recent_name h bid
      in case map_of (bf_recent_cache bf) nm of
           None \<Rightarrow> rbind (file_read nm bf) (\<lambda>data. rbind (cache_put nm data bf) (\<lambda>bf. Inr (data, bf)))
         | Some data \<Rightarrow> Inr (data, bf\<lparr>bf_recent_cache := move_to_end nm (bf_recent_cache bf)\<rparr>))"

definition delete_recent :: "int \<Rightarrow> bytes \<Rightarrow> block_files \<Rightarrow> block_files" where
  "delete_recent h bid bf = (let nm = recent_name h bid in file_delete nm (cache_drop nm bf))"

subsection \<open>Chunks\<close>

definition write_chunk ::
  "prims \<Rightarrow> int \<Rightarrow> int \<Rightarrow> int \<Rightarrow> bytes list \<Rightarrow> block_files \<Rightarrow> (chunk_location list \<times> block_files) result" where
  "write_chunk P nid index first_height blocks bf =
     rbind (encode_chunk P nid index first_height blocks) (\<lambda>(data, locations).
       Inr (locations, file_write (chunk_name index) data bf))"

definition save_chunk_bytes :: "int \<Rightarrow> bytes \<Rightarrow> block_files \<Rightarrow> block_files" where
  "save_chunk_bytes index data bf = file_write (chunk_name index) data bf"

definition delete_chunk :: "int \<Rightarrow> block_files \<Rightarrow> block_files" where
  "delete_chunk index bf = file_delete (chunk_name index) bf"

definition has_chunk :: "int \<Rightarrow> block_files \<Rightarrow> bool" where
  "has_chunk index bf \<longleftrightarrow> file_exists (chunk_name index) bf"

definition chunk_bytes :: "int \<Rightarrow> block_files \<Rightarrow> bytes result" where
  "chunk_bytes index bf = file_read (chunk_name index) bf"

definition keep_64 :: "'a list \<Rightarrow> 'a list" where
  "keep_64 segments = (if length segments > 64 then tl segments else segments)"

definition read_from_chunk :: "prims \<Rightarrow> chunk_location \<Rightarrow> block_files \<Rightarrow> (bytes \<times> block_files) result" where
  "read_from_chunk P loc bf =
     (let key = (cl_chunk loc, cl_offset loc)
      in rbind (case map_of (bf_segments bf) key of
                  None \<Rightarrow>
                    rbind (file_read (chunk_name (cl_chunk loc)) bf) (\<lambda>data.
                    rbind (unpack_segment P (take (nat (cl_length loc)) (drop (nat (cl_offset loc)) data)) MAX_SEGMENT_BYTES)
                      (\<lambda>blocks.
                        Inr (blocks, bf\<lparr>bf_segments := keep_64 (AList.update key blocks (bf_segments bf))\<rparr>)))
                | Some blocks \<Rightarrow> Inr (blocks, bf\<lparr>bf_segments := move_to_end key (bf_segments bf)\<rparr>)) (\<lambda>(blocks, bf).
           if cl_position loc < length blocks then Inr (blocks ! cl_position loc, bf) else Inl IndexError))"

subsection \<open>The recent cache is invisible and bounded\<close>

definition cached_bytes :: "(string \<times> bytes) list \<Rightarrow> int" where
  "cached_bytes c = sum_list (map (\<lambda>(nm, data). int (length data)) c)"

text \<open>The cache agrees with the files and with its own count.\<close>

definition cache_coherent :: "block_files \<Rightarrow> bool" where
  "cache_coherent bf \<longleftrightarrow>
     distinct (map fst (bf_recent_cache bf)) \<and> bf_recent_cache_bytes bf = cached_bytes (bf_recent_cache bf) \<and>
     (\<forall>nm data. map_of (bf_recent_cache bf) nm = Some data \<longrightarrow>
        fmlookup (bf_files bf) nm = Some data \<and> startswith nm ''recent/'')"

definition cache_ok :: "block_files \<Rightarrow> bool" where
  "cache_ok bf \<longleftrightarrow> cache_coherent bf \<and> bf_recent_cache_bytes bf \<le> RECENT_CACHE_BYTES"

lemma cached_bytes_delete:
  "distinct (map fst c) \<Longrightarrow> map_of c nm = Some data \<Longrightarrow>
     cached_bytes (AList.delete nm c) = cached_bytes c - int (length data)"
proof (induction c)
  case (Cons x c)
  obtain n d where x: "x = (n, d)" by (cases x) auto
  show ?case
  proof (cases "n = nm")
    case True
    then have "nm \<notin> fst ` set c" using Cons.prems(1) x by auto
    then have "AList.delete nm c = c" by (rule delete_id)
    with True x Cons.prems show ?thesis by (simp add: cached_bytes_def)
  next
    case False
    with Cons x show ?thesis by (simp add: cached_bytes_def)
  qed
qed simp

lemma cached_bytes_nonneg: "0 \<le> cached_bytes c"
  unfolding cached_bytes_def by (rule sum_list_nonneg_int) auto

lemma cache_drop_fields [simp]: "bf_files (cache_drop nm bf) = bf_files bf" "bf_segments (cache_drop nm bf) = bf_segments bf"
  by (simp_all add: cache_drop_def split: option.splits)

lemma map_of_cache_drop: "map_of (bf_recent_cache (cache_drop nm bf)) = (map_of (bf_recent_cache bf))(nm := None)"
  by (auto simp: cache_drop_def delete_conv' split: option.splits)

lemma cache_drop_count:
  assumes "distinct (map fst (bf_recent_cache bf))" "bf_recent_cache_bytes bf = cached_bytes (bf_recent_cache bf)"
  shows "distinct (map fst (bf_recent_cache (cache_drop nm bf)))"
    and "bf_recent_cache_bytes (cache_drop nm bf) = cached_bytes (bf_recent_cache (cache_drop nm bf))"
    and "bf_recent_cache_bytes (cache_drop nm bf) \<le> bf_recent_cache_bytes bf"
  using assms by (auto simp: cache_drop_def distinct_delete cached_bytes_delete split: option.splits)

lemma cache_drop_coherent: "cache_coherent bf \<Longrightarrow> cache_coherent (cache_drop nm bf)"
  unfolding cache_coherent_def by (simp add: cache_drop_count map_of_cache_drop)

lemma cache_trim_ok:
  "cache_coherent bf \<Longrightarrow> \<exists>bf'. cache_trim bf = Inr bf' \<and> cache_ok bf' \<and> bf_files bf' = bf_files bf
     \<and> bf_segments bf' = bf_segments bf"
proof (induction bf rule: cache_trim.induct)
  case (1 bf)
  show ?case
  proof (cases "bf_recent_cache_bytes bf > RECENT_CACHE_BYTES")
    case True
    then obtain nm data others where c: "bf_recent_cache bf = (nm, data) # others"
      using "1.prems" by (cases "bf_recent_cache bf")
        (auto simp: cache_coherent_def cached_bytes_def RECENT_CACHE_BYTES_def)
    with True "1.IH" [of "(nm, data)" others nm data] cache_drop_coherent [OF "1.prems"] show ?thesis
      by (subst cache_trim.simps) simp
  next
    case False
    with "1.prems" show ?thesis by (subst cache_trim.simps) (simp add: cache_ok_def)
  qed
qed

lemma cache_put_ok:
  assumes "distinct (map fst (bf_recent_cache bf))" "bf_recent_cache_bytes bf = cached_bytes (bf_recent_cache bf)"
    and "\<forall>n d. n \<noteq> nm \<longrightarrow> map_of (bf_recent_cache bf) n = Some d \<longrightarrow>
           fmlookup (bf_files bf) n = Some d \<and> startswith n ''recent/''"
    and "fmlookup (bf_files bf) nm = Some data" "startswith nm ''recent/''"
  shows "\<exists>bf'. cache_put nm data bf = Inr bf' \<and> cache_ok bf' \<and> bf_files bf' = bf_files bf"
proof -
  let ?bf = "cache_drop nm bf"
  have drop: "(if map_of (bf_recent_cache bf) nm \<noteq> None then cache_drop nm bf else bf) = ?bf"
    by (simp add: cache_drop_def split: option.splits)
  have none: "map_of (bf_recent_cache ?bf) nm = None" by (simp add: map_of_cache_drop)
  note count = cache_drop_count [OF assms(1,2), of nm]
  have "cache_coherent (?bf\<lparr>bf_recent_cache := AList.update nm data (bf_recent_cache ?bf),
      bf_recent_cache_bytes := bf_recent_cache_bytes ?bf + int (length data)\<rparr>)"
  proof -
    have "nm \<notin> fst ` set (bf_recent_cache ?bf)" using none by (simp add: map_of_eq_None_iff)
    with count assms(3-5) show ?thesis
      unfolding cache_coherent_def length_update_new [OF none]
      by (auto simp: cached_bytes_def map_add_def map_of_cache_drop split: option.splits if_splits)
  qed
  from cache_trim_ok [OF this] show ?thesis unfolding cache_put_def drop Let_def by auto
qed

lemma recent_name_prefix: "startswith (recent_name h bid) ''recent/''"
  by (simp add: startswith_def recent_name_def)

lemma cache_ok_move: "cache_ok bf \<Longrightarrow> cache_ok (bf\<lparr>bf_recent_cache := move_to_end nm (bf_recent_cache bf)\<rparr>)"
proof -
  assume ok: "cache_ok bf"
  have "cached_bytes (move_to_end nm c) = cached_bytes c" if "distinct (map fst c)" for c
    using cached_bytes_delete [OF that] by (auto simp: move_to_end_def cached_bytes_def split: option.splits)
  with ok show ?thesis by (simp add: cache_ok_def cache_coherent_def distinct_move_to_end)
qed

text \<open>C24. The cache of recent block files is invisible and bounded: from any state where it agrees with the
  files, reading returns exactly what the file holds (or fails exactly when there is none) and leaves
  the files alone; writing and deleting change just the file of that block; and every operation keeps
  the cache in agreement, its byte count exact and within 64 MB.\<close>

theorem recent_cache_transparent:
  assumes "cache_ok bf"
  shows "(\<exists>bf'. cache_ok bf' \<and> bf_files bf' = bf_files bf \<and>
            read_recent h bid bf = (case fmlookup (bf_files bf) (recent_name h bid) of
               None \<Rightarrow> Inl FileNotFoundError | Some data \<Rightarrow> Inr (data, bf'))) \<and>
         (\<forall>data. serialize_block b = Inr data \<longrightarrow> (\<exists>bf'. write_recent P b bf = Inr bf' \<and> cache_ok bf' \<and>
            bf_files bf' = fmupd (recent_name (height b) (block_id P (header b))) data (bf_files bf))) \<and>
         cache_ok (delete_recent h bid bf) \<and>
         bf_files (delete_recent h bid bf) = fmdrop (recent_name h bid) (bf_files bf)"
proof (intro conjI allI impI)
  let ?nm = "recent_name h bid"
  have coh: "cache_coherent bf" using assms by (simp add: cache_ok_def)
  show "\<exists>bf'. cache_ok bf' \<and> bf_files bf' = bf_files bf \<and>
      read_recent h bid bf = (case fmlookup (bf_files bf) ?nm of
         None \<Rightarrow> Inl FileNotFoundError | Some data \<Rightarrow> Inr (data, bf'))"
  proof (cases "map_of (bf_recent_cache bf) ?nm")
    case (Some data)
    then have "fmlookup (bf_files bf) ?nm = Some data" using coh by (simp add: cache_coherent_def)
    with Some cache_ok_move [OF assms, of ?nm] show ?thesis by (force simp: read_recent_def Let_def)
  next
    case None
    show ?thesis
    proof (cases "fmlookup (bf_files bf) ?nm")
      case None
      with \<open>map_of (bf_recent_cache bf) ?nm = None\<close> assms show ?thesis
        by (auto simp: read_recent_def file_read_def Let_def)
    next
      case (Some data)
      then obtain bf' where "cache_put ?nm data bf = Inr bf'" "cache_ok bf'" "bf_files bf' = bf_files bf"
        using cache_put_ok [of bf ?nm data] coh recent_name_prefix by (auto simp: cache_coherent_def)
      with None Some show ?thesis by (auto simp: read_recent_def file_read_def Let_def)
    qed
  qed
  fix data
  let ?nb = "recent_name (height b) (block_id P (header b))"
  assume ser: "serialize_block b = Inr data"
  have "\<exists>bf'. cache_put ?nb data (file_write ?nb data bf) = Inr bf' \<and> cache_ok bf' \<and>
      bf_files bf' = bf_files (file_write ?nb data bf)"
    by (rule cache_put_ok) (use coh recent_name_prefix in \<open>auto simp: cache_coherent_def file_write_def\<close>)
  with ser show "\<exists>bf'. write_recent P b bf = Inr bf' \<and> cache_ok bf' \<and> bf_files bf' = fmupd ?nb data (bf_files bf)"
    by (auto simp: write_recent_def Let_def file_write_def)
next
  let ?nm = "recent_name h bid"
  have coh: "cache_coherent (cache_drop ?nm bf)" using assms by (simp add: cache_ok_def cache_drop_coherent)
  then have "cache_coherent (delete_recent h bid bf)"
    by (auto simp: cache_coherent_def delete_recent_def file_delete_def Let_def map_of_cache_drop split: if_splits)
  moreover have "bf_recent_cache_bytes (delete_recent h bid bf) \<le> bf_recent_cache_bytes bf"
    using cache_drop_count(3) [of bf ?nm] assms
    by (simp add: delete_recent_def file_delete_def Let_def cache_ok_def cache_coherent_def)
  ultimately show "cache_ok (delete_recent h bid bf)" using assms by (simp add: cache_ok_def)
  show "bf_files (delete_recent h bid bf) = fmdrop ?nm (bf_files bf)"
    by (simp add: delete_recent_def file_delete_def Let_def)
qed

lemma recent_cache_transparent_witness:
  "\<exists>bf'. read_recent 7 [1] (new_block_files\<lparr>bf_files := fmupd (recent_name 7 [1]) [42] fmempty\<rparr>) = Inr ([42], bf')
     \<and> cache_ok bf'"
proof -
  let ?bf = "new_block_files\<lparr>bf_files := fmupd (recent_name 7 [1]) [42] fmempty\<rparr>"
  have "cache_ok ?bf"
    by (simp add: new_block_files_def cache_ok_def cache_coherent_def cached_bytes_def RECENT_CACHE_BYTES_def)
  from conjunct1 [OF recent_cache_transparent [OF this, of 7 "[1]"]] show ?thesis by auto
qed

subsection \<open>The cache of segments outlives a deleted chunk\<close>

lemma read_from_chunk_caches:
  assumes "read_from_chunk P loc bf = Inr (b, bf')"
  shows "\<exists>blocks. map_of (bf_segments bf') (cl_chunk loc, cl_offset loc) = Some blocks
     \<and> cl_position loc < length blocks \<and> b = blocks ! cl_position loc"
proof (cases "map_of (bf_segments bf) (cl_chunk loc, cl_offset loc)")
  case (Some blocks)
  with assms show ?thesis by (auto simp: read_from_chunk_def Let_def split: if_splits)
next
  case None
  let ?key = "(cl_chunk loc, cl_offset loc)" and ?s = "bf_segments bf"
  from assms None obtain blocks where b: "cl_position loc < length blocks" "b = blocks ! cl_position loc"
    and s: "bf_segments bf' = keep_64 (AList.update ?key blocks ?s)"
    by (auto simp: read_from_chunk_def Let_def result_simps split: if_splits)
  have upd: "AList.update ?key blocks ?s = ?s @ [(?key, blocks)]" by (rule length_update_new [OF None])
  have "map_of (tl ?s) ?key = None"
    using None map_of_eq_None_iff [of ?s ?key] map_of_eq_None_iff [of "tl ?s" ?key] by (cases ?s) auto
  then have "map_of (bf_segments bf') ?key = Some blocks"
    using None unfolding s upd keep_64_def by (cases ?s) (auto simp: map_add_def split: option.splits)
  with b show ?thesis by blast
qed

text \<open>Deleting a chunk file does not forget the segments that were read from it: a block read once is
  returned again after the file was replaced by any other data.\<close>

lemma stale_segment:
  assumes "read_from_chunk P loc bf = Inr (b, bf')"
  shows "\<exists>bf''. read_from_chunk P loc (save_chunk_bytes (cl_chunk loc) data (delete_chunk (cl_chunk loc) bf')) = Inr (b, bf'')"
  using read_from_chunk_caches [OF assms]
  by (auto simp: read_from_chunk_def save_chunk_bytes_def delete_chunk_def file_write_def file_delete_def Let_def)

end
