(* ===== verification/Store.thy ===== *)
theory Store
  imports Blockfiles
begin

text \<open>
  \<open>node/store.py\<close>: the tables of the node's database and the block files beside it.  A table is a
  finite map from its primary key to its row, so that a state of the database has one
  representation; an INSERT on a key that is present raises \<open>IntegrityError\<close>.  The files are a finite
  map from names to bytes: theory \<open>Blockfiles\<close> shows that the cache of recent files in front of them
  is invisible.  SQLite's 64-bit integer columns are not modelled as a limit: every balance is at most
  \<open>MAX_AMOUNT\<close>, the largest such integer.
\<close>

definition STATUS_STORED :: int where "STATUS_STORED = 0"
definition STATUS_VALID :: int where "STATUS_VALID = 1"
definition STATUS_INVALID :: int where "STATUS_INVALID = 2"
definition WORK_BYTES :: nat where "WORK_BYTES = 48"

record header_row =
  hr_prev_id :: bytes
  hr_height :: int
  hr_header :: bytes
  hr_chain_work :: bytes
  hr_status :: int
  hr_location :: "chunk_location option"

record stored_header =
  sh_header :: block_header
  sh_chain_work :: int
  sh_status :: int

definition sh_block_id :: "prims \<Rightarrow> stored_header \<Rightarrow> bytes" where
  "sh_block_id P sh = block_id P (sh_header sh)"

definition sh_height :: "stored_header \<Rightarrow> int" where
  "sh_height sh = bh_height (sh_header sh)"

record tx_location =
  tl_block_id :: bytes
  tl_height :: int
  tl_position :: int

record store =
  st_meta :: "(string, string) fmap"
  st_headers :: "(bytes, header_row) fmap"
  st_main :: "(int, bytes) fmap"
  st_accounts :: "(bytes, account) fmap"
  st_undo :: "(bytes, bytes) fmap"
  st_snapshots :: "(int, bytes) fmap"
  st_tx_index :: "(bytes, tx_location) fmap"
  st_address_index :: "(bytes \<times> int \<times> int, bytes) fmap"
  st_files :: "(string, bytes) fmap"

definition new_store :: store where
  "new_store = \<lparr>st_meta = fmempty, st_headers = fmempty, st_main = fmempty, st_accounts = fmempty, st_undo = fmempty,
     st_snapshots = fmempty, st_tx_index = fmempty, st_address_index = fmempty, st_files = fmempty\<rparr>"

text \<open>\<open>INSERT INTO\<close> a table with a primary key.\<close>

definition insert_row :: "'k \<Rightarrow> 'v \<Rightarrow> ('k, 'v) fmap \<Rightarrow> ('k, 'v) fmap result" where
  "insert_row k v m = (if fmlookup m k \<noteq> None then Inl IntegrityError else Inr (fmupd k v m))"

lemma insert_row_Inr [result_simps]: "insert_row k v m = Inr m' \<longleftrightarrow> fmlookup m k = None \<and> m' = fmupd k v m"
  by (auto simp: insert_row_def)

section \<open>Meta\<close>

definition meta :: "string \<Rightarrow> store \<Rightarrow> string option" where
  "meta key s = fmlookup (st_meta s) key"

definition set_meta :: "string \<Rightarrow> string \<Rightarrow> store \<Rightarrow> store" where
  "set_meta key val s = s\<lparr>st_meta := fmupd key val (st_meta s)\<rparr>"

text \<open>Opening the database: a new one gets the version of its schema, another version is refused.\<close>

definition SCHEMA_VERSION :: int where "SCHEMA_VERSION = 2"

definition open_store :: "store \<Rightarrow> store result" where
  "open_store s =
     (case meta ''schema_version'' s of
        None \<Rightarrow> Inr (set_meta ''schema_version'' (str_of_int SCHEMA_VERSION) s)
      | Some version \<Rightarrow> if version \<noteq> str_of_int SCHEMA_VERSION then Inl RuntimeError else Inr s)"

section \<open>Headers and blocks\<close>

definition add_block :: "prims \<Rightarrow> block \<Rightarrow> int \<Rightarrow> int \<Rightarrow> chunk_location option \<Rightarrow> store \<Rightarrow> store result" where
  "add_block P b chain_work status location s =
     (let h = header b; bid = block_id P h
      in rbind (case location of
                  None \<Rightarrow> rbind (serialize_block b) (\<lambda>data.
                     Inr (s\<lparr>st_files := fmupd (recent_name (height b) bid) data (st_files s)\<rparr>))
                | Some _ \<Rightarrow> Inr s) (\<lambda>s.
         rbind (serialize_header h) (\<lambda>hb.
         rbind (to_bytes chain_work WORK_BYTES) (\<lambda>work.
         rbind (insert_row bid \<lparr>hr_prev_id = bh_prev_id h, hr_height = bh_height h, hr_header = hb,
                  hr_chain_work = work, hr_status = status, hr_location = location\<rparr> (st_headers s)) (\<lambda>rows.
           Inr (s\<lparr>st_headers := rows\<rparr>))))))"

definition update_row :: "bytes \<Rightarrow> (header_row \<Rightarrow> header_row) \<Rightarrow> store \<Rightarrow> store" where
  "update_row bid f s =
     (case fmlookup (st_headers s) bid of
        None \<Rightarrow> s
      | Some row \<Rightarrow> s\<lparr>st_headers := fmupd bid (f row) (st_headers s)\<rparr>)"

definition set_location :: "bytes \<Rightarrow> chunk_location \<Rightarrow> store \<Rightarrow> store" where
  "set_location bid location = update_row bid (\<lambda>row. row\<lparr>hr_location := Some location\<rparr>)"

definition set_status :: "bytes \<Rightarrow> int \<Rightarrow> store \<Rightarrow> store" where
  "set_status bid status = update_row bid (\<lambda>row. row\<lparr>hr_status := status\<rparr>)"

definition find_header :: "bytes \<Rightarrow> store \<Rightarrow> stored_header option result" where
  "find_header bid s =
     (case fmlookup (st_headers s) bid of
        None \<Rightarrow> Inr None
      | Some row \<Rightarrow> rbind (header_from_bytes (hr_header row)) (\<lambda>h.
          Inr (Some \<lparr>sh_header = h, sh_chain_work = from_be (hr_chain_work row), sh_status = hr_status row\<rparr>)))"

definition stored_file :: "string \<Rightarrow> store \<Rightarrow> bytes result" where
  "stored_file nm s = (case fmlookup (st_files s) nm of None \<Rightarrow> Inl FileNotFoundError | Some data \<Rightarrow> Inr data)"

definition find_block_bytes :: "prims \<Rightarrow> bytes \<Rightarrow> store \<Rightarrow> bytes option result" where
  "find_block_bytes P bid s =
     (case fmlookup (st_headers s) bid of
        None \<Rightarrow> Inr None
      | Some row \<Rightarrow>
          (case hr_location row of
             None \<Rightarrow> rbind (stored_file (recent_name (hr_height row) bid) s) (\<lambda>d. Inr (Some d))
           | Some loc \<Rightarrow> rbind (stored_file (chunk_name (cl_chunk loc)) s) (\<lambda>data.
                          rbind (read_located P data loc) (\<lambda>d. Inr (Some d)))))"

definition find_block :: "prims \<Rightarrow> bytes \<Rightarrow> store \<Rightarrow> block option result" where
  "find_block P bid s =
     rbind (find_block_bytes P bid s) (\<lambda>data.
       case data of None \<Rightarrow> Inr None | Some d \<Rightarrow> rbind (block_from_bytes d) (\<lambda>b. Inr (Some b)))"

definition children :: "bytes \<Rightarrow> store \<Rightarrow> bytes list" where
  "children bid s = filter (\<lambda>c. case fmlookup (st_headers s) c of Some row \<Rightarrow> hr_prev_id row = bid | None \<Rightarrow> False)
     (sorted_list_of_fset (fmdom (st_headers s)))"

section \<open>The active chain\<close>

text \<open>\<open>SELECT MAX(height)\<close> is None for an empty table, on which the callers' arithmetic raises.\<close>

definition tip_height :: "store \<Rightarrow> int result" where
  "tip_height s = (if fmdom (st_main s) = {||} then Inl TypeError else Inr (fMax (fmdom (st_main s))))"

definition main_id :: "int \<Rightarrow> store \<Rightarrow> bytes option" where
  "main_id h s = fmlookup (st_main s) h"

definition main_headers :: "int \<Rightarrow> int \<Rightarrow> store \<Rightarrow> block_header list result" where
  "main_headers first till s =
     map_each (\<lambda>row. header_from_bytes (hr_header row))
       (List.map_filter (\<lambda>h. Option.bind (fmlookup (st_main s) h) (fmlookup (st_headers s)))
          (filter (\<lambda>h. first \<le> h \<and> h \<le> till) (sorted_list_of_fset (fmdom (st_main s)))))"

definition set_main :: "int \<Rightarrow> bytes \<Rightarrow> store \<Rightarrow> store result" where
  "set_main h bid s =
     (if bid |\<in>| fmran (st_main s) then Inl IntegrityError
      else rbind (insert_row h bid (st_main s)) (\<lambda>m. Inr (s\<lparr>st_main := m\<rparr>)))"

definition delete_main :: "int \<Rightarrow> store \<Rightarrow> store" where
  "delete_main h s = s\<lparr>st_main := fmdrop h (st_main s)\<rparr>"

section \<open>Accounts\<close>

definition get_account :: "store \<Rightarrow> bytes \<Rightarrow> account" where
  "get_account s a = (case fmlookup (st_accounts s) a of None \<Rightarrow> EMPTY_ACCOUNT | Some acc \<Rightarrow> acc)"

definition write_account :: "bytes \<times> account \<Rightarrow> (bytes, account) fmap \<Rightarrow> (bytes, account) fmap" where
  "write_account entry m =
     (if snd entry = EMPTY_ACCOUNT then fmdrop (fst entry) m else fmupd (fst entry) (snd entry) m)"

definition write_accounts :: "accounts \<Rightarrow> store \<Rightarrow> store" where
  "write_accounts accs s = s\<lparr>st_accounts := fold write_account accs (st_accounts s)\<rparr>"

definition all_accounts :: "store \<Rightarrow> accounts" where
  "all_accounts s = map (\<lambda>a. (a, get_account s a)) (sorted_list_of_fset (fmdom (st_accounts s)))"

section \<open>Undo data\<close>

definition undo_entry :: "bytes \<times> account \<Rightarrow> bytes result" where
  "undo_entry entry =
     rbind (to_bytes (balance (snd entry)) 8) (\<lambda>bal.
     rbind (to_bytes (acct_nonce (snd entry)) 8) (\<lambda>non. Inr (fst entry @ bal @ non)))"

definition put_undo :: "bytes \<Rightarrow> accounts \<Rightarrow> store \<Rightarrow> store result" where
  "put_undo bid previous s =
     rbind (map_each undo_entry previous) (\<lambda>parts.
     rbind (insert_row bid (concat parts) (st_undo s)) (\<lambda>m. Inr (s\<lparr>st_undo := m\<rparr>)))"

function parse_undo :: "bytes \<Rightarrow> accounts \<Rightarrow> accounts" where
  "parse_undo data previous =
     (if data = [] then previous
      else let entry = take 37 data
           in parse_undo (drop 37 data)
                (AList.update (take 21 entry)
                   \<lparr>balance = from_be (take 8 (drop 21 entry)), acct_nonce = from_be (take 8 (drop 29 entry))\<rparr> previous))"
  by pat_completeness auto
termination
  by (relation "measure (\<lambda>(data, previous). length data)") auto

declare parse_undo.simps [simp del]

definition take_undo :: "bytes \<Rightarrow> store \<Rightarrow> (accounts \<times> store) result" where
  "take_undo bid s =
     (case fmlookup (st_undo s) bid of
        None \<Rightarrow> Inl RuntimeError
      | Some data \<Rightarrow> Inr (parse_undo data [], s\<lparr>st_undo := fmdrop bid (st_undo s)\<rparr>))"

section \<open>Snapshots\<close>

definition snapshot_root :: "int \<Rightarrow> store \<Rightarrow> bytes option" where
  "snapshot_root h s = fmlookup (st_snapshots s) h"

definition put_snapshot :: "int \<Rightarrow> bytes \<Rightarrow> store \<Rightarrow> store result" where
  "put_snapshot h root s = rbind (insert_row h root (st_snapshots s)) (\<lambda>m. Inr (s\<lparr>st_snapshots := m\<rparr>))"

definition delete_snapshot :: "int \<Rightarrow> store \<Rightarrow> store" where
  "delete_snapshot h s = s\<lparr>st_snapshots := fmdrop h (st_snapshots s)\<rparr>"

section \<open>Transaction and address indexes\<close>

definition addresses_of :: "prims \<Rightarrow> transaction \<Rightarrow> bytes list" where
  "addresses_of P tx = (case tx of
     Coinbase c \<Rightarrow> [cb_address c]
   | Transfer t \<Rightarrow> remdups (sender P t # map out_address (tf_outputs t)))"

definition index_tx :: "prims \<Rightarrow> block \<Rightarrow> int \<times> transaction \<Rightarrow> store \<Rightarrow> store result" where
  "index_tx P b entry s =
     (let position = fst entry; tx = snd entry; tid = txid P tx
      in rbind (insert_row tid \<lparr>tl_block_id = block_id P (header b), tl_height = height b, tl_position = position\<rparr>
                  (st_tx_index s)) (\<lambda>m.
         for_each (\<lambda>a s. rbind (insert_row (a, height b, position) tid (st_address_index s)) (\<lambda>m.
                            Inr (s\<lparr>st_address_index := m\<rparr>)))
           (addresses_of P tx) (s\<lparr>st_tx_index := m\<rparr>)))"

definition index_block :: "prims \<Rightarrow> block \<Rightarrow> store \<Rightarrow> store result" where
  "index_block P b s =
     for_each (index_tx P b) (zip (map int [0..<length (transactions b)]) (transactions b)) s"

definition unindex_block :: "block \<Rightarrow> store \<Rightarrow> store" where
  "unindex_block b s =
     s\<lparr>st_tx_index := fmfilter (\<lambda>k. tl_height (the (fmlookup (st_tx_index s) k)) \<noteq> height b) (st_tx_index s),
       st_address_index := fmfilter (\<lambda>(a, h, p). h \<noteq> height b) (st_address_index s)\<rparr>"

definition find_tx :: "bytes \<Rightarrow> store \<Rightarrow> tx_location option" where
  "find_tx tid s = fmlookup (st_tx_index s) tid"

definition coinbase_heights :: "bytes \<Rightarrow> int \<Rightarrow> store \<Rightarrow> int list" where
  "coinbase_heights a low s =
     map (\<lambda>(b, h, p). h) (filter (\<lambda>(b, h, p). b = a \<and> p = 0 \<and> h > low)
       (sorted_list_of_fset (fmdom (st_address_index s))))"

text \<open>\<open>ORDER BY height DESC, position DESC LIMIT\<close>; a limit of None is no limit.\<close>

definition address_history ::
  "bytes \<Rightarrow> nat \<Rightarrow> (int \<times> int) option \<Rightarrow> store \<Rightarrow> (int \<times> int \<times> bytes) list" where
  "address_history a limit before s =
     take limit (map (\<lambda>(b, h, p). (h, p, the (fmlookup (st_address_index s) (b, h, p))))
       (rev (filter (\<lambda>(b, h, p). b = a \<and>
               (case before of None \<Rightarrow> True | Some (bh, bp) \<Rightarrow> h < bh \<or> (h = bh \<and> p < bp)))
          (sorted_list_of_fset (fmdom (st_address_index s))))))"

section \<open>Sealing chunks\<close>

definition sealed_chunks :: "store \<Rightarrow> int" where
  "sealed_chunks s = (case meta ''sealed_chunks'' s of None \<Rightarrow> 0 | Some t \<Rightarrow> int_of_digits t)"

definition delete_recent_file :: "int \<times> bytes \<Rightarrow> store \<Rightarrow> store" where
  "delete_recent_file entry s = s\<lparr>st_files := fmdrop (recent_name (fst entry) (snd entry)) (st_files s)\<rparr>"

text \<open>Blocks of the heights that are not on the active chain.\<close>

definition losers_between :: "int \<Rightarrow> int \<Rightarrow> store \<Rightarrow> (int \<times> bytes) list" where
  "losers_between first till s =
     map (\<lambda>bid. (hr_height (the (fmlookup (st_headers s) bid)), bid))
       (filter (\<lambda>bid. let h = hr_height (the (fmlookup (st_headers s) bid))
                      in first \<le> h \<and> h \<le> till \<and> bid |\<notin>| fmran (st_main s))
          (sorted_list_of_fset (fmdom (st_headers s))))"

text \<open>A None among the ids or block bytes (the source would pass it on) raises.\<close>

definition present :: "'a option \<Rightarrow> 'a result" where
  "present x = (case x of None \<Rightarrow> Inl TypeError | Some y \<Rightarrow> Inr y)"

definition seal_chunk :: "prims \<Rightarrow> int \<Rightarrow> int \<Rightarrow> int \<Rightarrow> int \<Rightarrow> store \<Rightarrow> store result" where
  "seal_chunk P nid index first till s =
     rbind (map_each (\<lambda>h. present (main_id h s)) [first..till]) (\<lambda>ids.
     rbind (map_each (\<lambda>i. rbind (find_block_bytes P i s) present) ids) (\<lambda>blocks.
     rbind (encode_chunk P nid index first blocks) (\<lambda>(data, locations).
       let losers = losers_between first till s;
           s = s\<lparr>st_files := fmupd (chunk_name index) data (st_files s)\<rparr>;
           s = fold (\<lambda>(i, loc). set_location i loc) (zip ids locations) s;
           s = s\<lparr>st_headers := fold (\<lambda>(h, i). fmdrop i) losers (st_headers s)\<rparr>;
           s = set_meta ''sealed_chunks'' (str_of_int (index + 1)) s
       in Inr (fold delete_recent_file (zip [first..till] ids @ losers) s))))"

section \<open>The accounts table keeps a state\<close>

definition table_get :: "(bytes, account) fmap \<Rightarrow> bytes \<Rightarrow> account" where
  "table_get m a = (case fmlookup m a of None \<Rightarrow> EMPTY_ACCOUNT | Some acc \<Rightarrow> acc)"

definition table_write :: "accounts \<Rightarrow> (bytes, account) fmap \<Rightarrow> (bytes, account) fmap" where
  "table_write d m = fold write_account d m"

definition table_ok :: "(bytes, account) fmap \<Rightarrow> bool" where
  "table_ok m \<longleftrightarrow> (\<forall>a. fmlookup m a \<noteq> Some EMPTY_ACCOUNT)"

lemma get_account_table: "get_account s = table_get (st_accounts s)"
  by (simp add: get_account_def table_get_def fun_eq_iff)

lemma write_accounts_table: "write_accounts d s = s\<lparr>st_accounts := table_write d (st_accounts s)\<rparr>"
  by (simp add: write_accounts_def table_write_def)

lemma table_write_Cons: "table_write (x # d) m = table_write d (write_account x m)"
  by (simp add: table_write_def)

lemma table_get_write_account: "table_get (write_account (a, acc) m) = (table_get m)(a := acc)"
  by (auto simp: table_get_def write_account_def fun_eq_iff)

lemma table_get_write: "distinct (map fst d) \<Longrightarrow> table_get (table_write d m) = patched (table_get m) d"
proof (induction d arbitrary: m)
  case (Cons entry d)
  obtain a acc where e: "entry = (a, acc)" by (cases entry) auto
  from Cons e have "table_get (table_write (entry # d) m) = patched ((table_get m)(a := acc)) d"
    by (simp add: table_write_Cons table_get_write_account)
  also have "\<dots> = patched (table_get m) (entry # d)"
    using Cons.prems e map_of_eq_None_iff [of d a] by (auto simp: patched_def fun_eq_iff split: option.splits)
  finally show ?case .
qed (simp add: table_write_def patched_def fun_eq_iff)

interpretation table: state_store table_get table_write table_ok
proof
  fix d :: accounts and m :: "(bytes, account) fmap"
  assume "distinct (map fst d)"
  then show "table_get (table_write d m) = patched (table_get m) d" by (rule table_get_write)
next
  fix d :: accounts and m :: "(bytes, account) fmap"
  show "table_ok m \<Longrightarrow> table_ok (table_write d m)"
  proof (induction d arbitrary: m)
    case (Cons entry d)
    then have "table_ok (write_account entry m)" by (auto simp: table_ok_def write_account_def)
    then show ?case unfolding table_write_Cons by (rule Cons.IH)
  qed (simp add: table_write_def)
next
  fix m m' :: "(bytes, account) fmap"
  assume ok: "table_ok m" "table_ok m'" and eq: "table_get m = table_get m'"
  have "fmlookup m a = fmlookup m' a" for a
    using fun_cong [OF eq, of a] ok by (auto simp: table_get_def table_ok_def split: option.splits)
  then show "m = m'" by (rule fmap_ext)
qed

section \<open>Undo data round trip\<close>

text \<open>What \<open>put_undo\<close> can write and \<open>take_undo\<close> read back: entries of 21 + 8 + 8 bytes.\<close>

definition undo_fits :: "accounts \<Rightarrow> bool" where
  "undo_fits accs \<longleftrightarrow> distinct (map fst accs) \<and>
     (\<forall>(a, acc)\<in>set accs. length a = PAYLOAD_SIZE \<and> 0 \<le> balance acc \<and> balance acc < 2 ^ 64
        \<and> 0 \<le> acct_nonce acc \<and> acct_nonce acc < 2 ^ 64)"

lemma undo_entry_eq:
  "0 \<le> balance acc \<Longrightarrow> balance acc < 2 ^ 64 \<Longrightarrow> 0 \<le> acct_nonce acc \<Longrightarrow> acct_nonce acc < 2 ^ 64 \<Longrightarrow>
     undo_entry (a, acc) = Inr (leaf_bytes (a, acc))"
  by (simp add: undo_entry_def to_bytes_def leaf_bytes_def)

lemma parse_undo_leaves:
  assumes "undo_fits accs" "distinct (map fst (acc0 @ accs))"
  shows "parse_undo (concat (map leaf_bytes accs)) acc0 = acc0 @ accs"
  using assms
proof (induction accs arbitrary: acc0)
  case Nil
  then show ?case by (simp add: parse_undo.simps)
next
  case (Cons e accs)
  obtain a acc where e: "e = (a, acc)" by (cases e) auto
  have fit: "length a = 21" "0 \<le> balance acc" "balance acc < 2 ^ 64" "0 \<le> acct_nonce acc" "acct_nonce acc < 2 ^ 64"
    using Cons.prems(1) e by (auto simp: undo_fits_def PAYLOAD_SIZE_def)
  have new: "map_of acc0 a = None" using Cons.prems(2) e by (auto simp: map_of_eq_None_iff)
  have leaf: "leaf_bytes e = a @ to_be 8 (balance acc) @ to_be 8 (acct_nonce acc)" by (simp add: leaf_bytes_def e)
  then have ne: "leaf_bytes e \<noteq> []" by simp
  have "parse_undo (concat (map leaf_bytes (e # accs))) acc0
      = parse_undo (concat (map leaf_bytes accs)) (acc0 @ [(a, \<lparr>balance = balance acc, acct_nonce = acct_nonce acc\<rparr>)])"
    using fit ne by (subst parse_undo.simps) (simp add: leaf length_update_new [OF new] Let_def)
  also have "\<dots> = parse_undo (concat (map leaf_bytes accs)) (acc0 @ [e])" by (cases acc) (simp add: e)
  also have "\<dots> = (acc0 @ [e]) @ accs"
    by (rule Cons.IH) (use Cons.prems in \<open>auto simp: undo_fits_def\<close>)
  finally show ?case by simp
qed

lemma put_take_undo:
  assumes "undo_fits accs" "fmlookup (st_undo s) bid = None"
  shows "\<exists>s'. put_undo bid accs s = Inr s' \<and> take_undo bid s' = Inr (accs, s) \<and>
           s' = s\<lparr>st_undo := fmupd bid (concat (map leaf_bytes accs)) (st_undo s)\<rparr>"
proof -
  have parts: "map_each undo_entry accs = Inr (map leaf_bytes accs)"
    by (rule map_each_all_Inr) (use assms(1) in \<open>auto simp: undo_fits_def intro!: undo_entry_eq\<close>)
  let ?s = "s\<lparr>st_undo := fmupd bid (concat (map leaf_bytes accs)) (st_undo s)\<rparr>"
  have "put_undo bid accs s = Inr ?s" using assms(2) by (simp add: put_undo_def parts insert_row_def)
  moreover have "fmdrop bid (fmupd bid v (st_undo s)) = st_undo s" for v
    using assms(2) by (intro fmap_ext) auto
  then have "take_undo bid ?s = Inr (accs, s)"
    using parse_undo_leaves [OF assms(1), of "[]"] assms(1) by (simp add: take_undo_def undo_fits_def)
  ultimately show ?thesis by blast
qed

section \<open>Indexing is undone exactly\<close>

definition height_free :: "int \<Rightarrow> store \<Rightarrow> bool" where
  "height_free h s \<longleftrightarrow>
     (\<forall>k loc. fmlookup (st_tx_index s) k = Some loc \<longrightarrow> tl_height loc \<noteq> h) \<and>
     (\<forall>a p. fmlookup (st_address_index s) (a, h, p) = None)"

text \<open>\<open>s'\<close> is \<open>s\<close> with index entries of height \<open>h\<close> added.\<close>

definition without_indexes :: "store \<Rightarrow> store" where
  "without_indexes s = s\<lparr>st_tx_index := fmempty, st_address_index := fmempty\<rparr>"

definition indexed_at :: "int \<Rightarrow> store \<Rightarrow> store \<Rightarrow> bool" where
  "indexed_at h s s' \<longleftrightarrow>
     without_indexes s' = without_indexes s \<and>
     (\<forall>k. fmlookup (st_tx_index s') k = fmlookup (st_tx_index s) k \<or>
          (fmlookup (st_tx_index s) k = None \<and> (\<exists>loc. fmlookup (st_tx_index s') k = Some loc \<and> tl_height loc = h))) \<and>
     (\<forall>a g p. g \<noteq> h \<longrightarrow> fmlookup (st_address_index s') (a, g, p) = fmlookup (st_address_index s) (a, g, p))"

lemma without_indexes_simps [simp]:
  "without_indexes (s\<lparr>st_tx_index := t\<rparr>) = without_indexes s"
  "without_indexes (s\<lparr>st_address_index := a\<rparr>) = without_indexes s"
  by (simp_all add: without_indexes_def)

lemma store_eqI:
  "without_indexes s = without_indexes t \<Longrightarrow> st_tx_index s = st_tx_index t \<Longrightarrow> st_address_index s = st_address_index t
     \<Longrightarrow> s = t"
  by (cases s; cases t) (simp add: without_indexes_def)

lemma indexed_at_refl: "indexed_at h s s"
  by (simp add: indexed_at_def)

lemma indexed_at_trans:
  assumes "indexed_at h s t" "indexed_at h t u"
  shows "indexed_at h s u"
proof -
  have "fmlookup (st_tx_index u) k = fmlookup (st_tx_index s) k \<or>
      (fmlookup (st_tx_index s) k = None \<and> (\<exists>loc. fmlookup (st_tx_index u) k = Some loc \<and> tl_height loc = h))" for k
  proof -
    from assms(1) have "fmlookup (st_tx_index t) k = fmlookup (st_tx_index s) k \<or>
      (fmlookup (st_tx_index s) k = None \<and> (\<exists>loc. fmlookup (st_tx_index t) k = Some loc \<and> tl_height loc = h))"
      unfolding indexed_at_def by blast
    moreover from assms(2) have "fmlookup (st_tx_index u) k = fmlookup (st_tx_index t) k \<or>
      (fmlookup (st_tx_index t) k = None \<and> (\<exists>loc. fmlookup (st_tx_index u) k = Some loc \<and> tl_height loc = h))"
      unfolding indexed_at_def by blast
    ultimately show ?thesis by auto
  qed
  with assms show ?thesis by (simp add: indexed_at_def)
qed

lemma index_address_at: "indexed_at h s (s\<lparr>st_address_index := fmupd (a, h, p) tid (st_address_index s)\<rparr>)"
  by (simp add: indexed_at_def)

lemma index_tx_at: "index_tx P b entry s = Inr s' \<Longrightarrow> indexed_at (height b) s s'"
proof -
  assume run: "index_tx P b entry s = Inr s'"
  let ?loc = "\<lparr>tl_block_id = block_id P (header b), tl_height = height b, tl_position = fst entry\<rparr>"
  let ?s = "s\<lparr>st_tx_index := fmupd (txid P (snd entry)) ?loc (st_tx_index s)\<rparr>"
  from run have new: "fmlookup (st_tx_index s) (txid P (snd entry)) = None"
    and loop: "for_each (\<lambda>a s. rbind (insert_row (a, height b, fst entry) (txid P (snd entry)) (st_address_index s)) (\<lambda>m.
                            Inr (s\<lparr>st_address_index := m\<rparr>))) (addresses_of P (snd entry)) ?s = Inr s'"
    by (auto simp: index_tx_def Let_def rbind_Inr_iff insert_row_Inr)
  have "indexed_at (height b) s ?s" using new by (auto simp: indexed_at_def)
  moreover have "indexed_at (height b) ?s s'"
    using loop by (rule for_each_invariant)
      (auto simp: indexed_at_refl result_simps intro: indexed_at_trans index_address_at)
  ultimately show ?thesis by (rule indexed_at_trans)
qed

lemma index_block_at: "index_block P b s = Inr s' \<Longrightarrow> indexed_at (height b) s s'"
  unfolding index_block_def
  by (erule for_each_invariant) (auto intro: indexed_at_refl indexed_at_trans index_tx_at)

lemma unindex_index:
  assumes "indexed_at (height b) s s'" "height_free (height b) s"
  shows "unindex_block b s' = s"
proof -
  have tx: "fmfilter (\<lambda>k. tl_height (the (fmlookup (st_tx_index s') k)) \<noteq> height b) (st_tx_index s') = st_tx_index s"
  proof (rule fmap_ext)
    fix k
    from assms(1) have "fmlookup (st_tx_index s') k = fmlookup (st_tx_index s) k \<or>
        (fmlookup (st_tx_index s) k = None \<and> (\<exists>loc. fmlookup (st_tx_index s') k = Some loc \<and> tl_height loc = height b))"
      unfolding indexed_at_def by blast
    with assms(2) show "fmlookup (fmfilter (\<lambda>k. tl_height (the (fmlookup (st_tx_index s') k)) \<noteq> height b) (st_tx_index s')) k
        = fmlookup (st_tx_index s) k"
      by (cases "fmlookup (st_tx_index s) k") (auto simp: height_free_def)
  qed
  have ad: "fmfilter (\<lambda>(a, h, p). h \<noteq> height b) (st_address_index s') = st_address_index s"
    using assms by (intro fmap_ext) (auto simp: indexed_at_def height_free_def)
  have "without_indexes s' = without_indexes s" using assms(1) unfolding indexed_at_def by (rule conjunct1)
  then show ?thesis
    by - (rule store_eqI, simp_all add: unindex_block_def tx ad)
qed

end
