(* ===== verification/Chain.thy ===== *)
theory Chain
  imports Store
begin

text \<open>
  \<open>node/chain.py\<close>: \<open>ChainManager\<close>, which decides which blocks are stored, which chain is active and what
  the balances are.  A database transaction is a computation whose store is dropped when it raises.
  Loops whose end depends on what is stored are \<open>run_loop\<close>s.  The clock is read once per call and is an
  argument (\<open>now\<close>, the value of \<open>int(self.clock())\<close>).
\<close>

datatype outcome = NEW_TIP | SIDE_BRANCH | DUPLICATE | ORPHAN | INVALID

record submit_result =
  sr_outcome :: outcome
  sr_block_id :: bytes
  sr_error :: "exn option"
  sr_connected :: "block list"
  sr_disconnected :: "block list"

record checked_chunk =
  cc_data :: bytes
  cc_chunk :: chunk_file
  cc_blocks :: "block list"

record header_tip =
  ht_header :: block_header
  ht_chain_work :: int
  ht_recent_times :: "int list"

record chain =
  ch_store :: store
  ch_genesis :: block
  ch_orphans :: "(bytes \<times> block) list"
  ch_orphan_bytes :: int
  ch_pow_checked :: "bytes list"

definition MAX_ORPHANS :: nat where "MAX_ORPHANS = 256"
definition MAX_ORPHAN_BYTES :: int where "MAX_ORPHAN_BYTES = 16000000"
definition POW_CHECKED_LIMIT :: nat where "POW_CHECKED_LIMIT = 100000"

section \<open>Checking chunk files\<close>

fun all_meet_target :: "prims \<Rightarrow> block_header list \<Rightarrow> pow_params \<Rightarrow> bool result" where
  "all_meet_target P [] params = Inr True"
| "all_meet_target P (h # hs) params =
     rbind (meets_target P h params) (\<lambda>ok. if ok then all_meet_target P hs params else Inr False)"

definition check_chunk_file :: "prims \<Rightarrow> network_params \<Rightarrow> bytes \<Rightarrow> int option \<Rightarrow> checked_chunk result" where
  "check_chunk_file P N data max_decoded_bytes =
     rbind (decode_chunk P data (Some (chunk_size N)) max_decoded_bytes) (\<lambda>chunk.
       if cf_network_id chunk \<noteq> network_id N then Inl (ValidationError ''wrong-network'')
       else if cf_first_height chunk \<noteq> cf_index chunk * chunk_size N
               \<or> int (length (cf_blocks chunk)) \<noteq> chunk_size N then Inl (ValidationError ''bad-chunk'')
       else (case map_each block_from_bytes (cf_blocks chunk) of
               Inl e \<Rightarrow> Inl (if e = DecodeError then ValidationError ''bad-chunk'' else e)
             | Inr blocks \<Rightarrow>
                 rbind (all_meet_target P (map header blocks) (pow N)) (\<lambda>ok.
                   if \<not> ok then Inl (ValidationError ''bad-pow'')
                   else Inr \<lparr>cc_data = data, cc_chunk = chunk, cc_blocks = blocks\<rparr>)))"

section \<open>Reading\<close>

definition the_tip :: "store \<Rightarrow> stored_header result" where
  "the_tip s =
     rbind (tip_height s) (\<lambda>h.
       case main_id h s of
         None \<Rightarrow> Inl AssertionError
       | Some bid \<Rightarrow> rbind (find_header bid s) (\<lambda>stored.
           case stored of None \<Rightarrow> Inl AssertionError | Some sh \<Rightarrow> Inr sh))"

definition main_block :: "prims \<Rightarrow> int \<Rightarrow> store \<Rightarrow> block option result" where
  "main_block P h s = (case main_id h s of None \<Rightarrow> Inr None | Some bid \<Rightarrow> find_block P bid s)"

definition sealed_height :: "network_params \<Rightarrow> store \<Rightarrow> int" where
  "sealed_height N s = sealed_chunks s * chunk_size N - 1"

definition finalized_height :: "network_params \<Rightarrow> store \<Rightarrow> int result" where
  "finalized_height N s =
     rbind (tip_height s) (\<lambda>tip. Inr (max 0 (max (tip - finality_depth N) (sealed_height N s))))"

definition is_on_main_chain :: "bytes \<Rightarrow> store \<Rightarrow> bool result" where
  "is_on_main_chain bid s =
     rbind (find_header bid s) (\<lambda>stored.
       case stored of None \<Rightarrow> Inr False | Some sh \<Rightarrow> Inr (main_id (sh_height sh) s = Some bid))"

definition locator_step :: "store \<Rightarrow> bytes option list \<times> int \<times> int \<Rightarrow> (bytes option list \<times> int \<times> int) + bytes option list result" where
  "locator_step s t =
     (case t of (ids, h, step) \<Rightarrow>
        if h > 0
        then let ids = ids @ [main_id h s]; step = (if length ids \<ge> 10 then step * 2 else step)
             in Inl (ids, h - step, step)
        else Inr (Inr ids))"

definition locator :: "prims \<Rightarrow> block \<Rightarrow> store \<Rightarrow> bytes option list result" where
  "locator P genesis s =
     rbind (tip_height s) (\<lambda>h. rbind (run_loop (locator_step s) ([], h, 1)) (\<lambda>ids.
       Inr (ids @ [Some (block_id P (header genesis))])))"

fun after_locator :: "bytes list \<Rightarrow> store \<Rightarrow> int result" where
  "after_locator [] s = Inr 1"
| "after_locator (bid # ids) s =
     rbind (is_on_main_chain bid s) (\<lambda>on_main.
       if on_main
       then rbind (find_header bid s) (\<lambda>stored.
              case stored of None \<Rightarrow> Inl AttributeError | Some sh \<Rightarrow> Inr (sh_height sh + 1))
       else after_locator ids s)"

definition headers_after :: "bytes list \<Rightarrow> int \<Rightarrow> store \<Rightarrow> block_header list result" where
  "headers_after ids limit s =
     rbind (after_locator ids s) (\<lambda>start. rbind (tip_height s) (\<lambda>tip.
       main_headers start (min tip (start + limit - 1)) s))"

text \<open>The timestamps of a block and its ancestors, newest first, at most \<open>n\<close> of them.\<close>

fun times_back :: "nat \<Rightarrow> stored_header option \<Rightarrow> store \<Rightarrow> int list result" where
  "times_back 0 current s = Inr []"
| "times_back (Suc n) None s = Inr []"
| "times_back (Suc n) (Some sh) s =
     rbind (if sh_height sh > 0 then find_header (bh_prev_id (sh_header sh)) s else Inr None) (\<lambda>parent.
     rbind (times_back n parent s) (\<lambda>times. Inr (bh_timestamp (sh_header sh) # times)))"

definition block_median_time :: "network_params \<Rightarrow> bytes \<Rightarrow> store \<Rightarrow> int result" where
  "block_median_time N bid s =
     rbind (find_header bid s) (\<lambda>current. rbind (times_back (median_time_span N) current s) median_time_past)"

definition expected_target :: "network_params \<Rightarrow> block \<Rightarrow> block_header \<Rightarrow> int" where
  "expected_target N genesis parent = next_target N (header genesis) parent"

section \<open>Finality\<close>

definition finality_step :: "prims \<Rightarrow> store \<Rightarrow> int \<Rightarrow> stored_header \<Rightarrow> stored_header + unit result" where
  "finality_step P s finalized current =
     try_step (rbind (is_on_main_chain (sh_block_id P current) s) (\<lambda>on_main.
       if on_main
       then if sh_height current < finalized then Inl (ValidationError ''fork-below-finality'') else Inr (Inr ())
       else if sh_height current \<le> finalized then Inl (ValidationError ''fork-below-finality'')
       else rbind (find_header (bh_prev_id (sh_header current)) s) (\<lambda>parent.
              case parent of None \<Rightarrow> Inl AttributeError | Some sh \<Rightarrow> Inr (Inl sh))))"

definition check_finality :: "prims \<Rightarrow> network_params \<Rightarrow> stored_header \<Rightarrow> store \<Rightarrow> unit result" where
  "check_finality P N parent s =
     rbind (finalized_height N s) (\<lambda>finalized. run_loop (finality_step P s finalized) parent)"

section \<open>Headers before their blocks\<close>

definition header_tip_of :: "network_params \<Rightarrow> bytes \<Rightarrow> store \<Rightarrow> header_tip option result" where
  "header_tip_of N bid s =
     rbind (find_header bid s) (\<lambda>stored. case stored of
         None \<Rightarrow> Inr None
       | Some sh \<Rightarrow> rbind (times_back (median_time_span N) (Some sh) s) (\<lambda>times.
           Inr (Some \<lparr>ht_header = sh_header sh, ht_chain_work = sh_chain_work sh, ht_recent_times = times\<rparr>)))"

definition check_branch_point :: "prims \<Rightarrow> network_params \<Rightarrow> bytes \<Rightarrow> store \<Rightarrow> unit result" where
  "check_branch_point P N bid s =
     rbind (find_header bid s) (\<lambda>stored. case stored of
         None \<Rightarrow> Inl (ValidationError ''unknown-parent'')
       | Some sh \<Rightarrow> if sh_status sh = STATUS_INVALID then Inl (ValidationError ''invalid-parent'')
                    else check_finality P N sh s)"

definition advance_tip :: "network_params \<Rightarrow> block_header \<Rightarrow> header_tip \<Rightarrow> header_tip" where
  "advance_tip N h tip =
     \<lparr>ht_header = h, ht_chain_work = ht_chain_work tip + block_work (bh_target h),
      ht_recent_times = bh_timestamp h # take (median_time_span N - 1) (ht_recent_times tip)\<rparr>"

fun check_headers ::
  "prims \<Rightarrow> network_params \<Rightarrow> block \<Rightarrow> int \<Rightarrow> header_tip \<Rightarrow> block_header list \<Rightarrow> (header_tip \<times> block_header list) result" where
  "check_headers P N genesis now tip [] = Inr (tip, [])"
| "check_headers P N genesis now tip (h # hs) =
     (case check_not_in_future N h now of
        Inl e \<Rightarrow> Inr (tip, [])
      | Inr _ \<Rightarrow>
          if bh_version h \<noteq> BLOCK_VERSION then Inl (ValidationError ''bad-version'')
          else rbind (median_time_past (ht_recent_times tip)) (\<lambda>mtp.
               rbind (check_header_against_parent P N h (ht_header tip) mtp
                        (expected_target N genesis (ht_header tip)) False) (\<lambda>_.
               rbind (check_headers P N genesis now (advance_tip N h tip) hs) (\<lambda>(tip', checked).
                 Inr (tip', h # checked)))))"

definition note_pow_checked :: "bytes list \<Rightarrow> chain \<Rightarrow> chain" where
  "note_pow_checked ids c =
     (let noted = fold (\<lambda>i l. if i \<in> set l then l else l @ [i]) ids (ch_pow_checked c)
      in c\<lparr>ch_pow_checked := drop (length noted - POW_CHECKED_LIMIT) noted\<rparr>)"

section \<open>Contexts, connecting and disconnecting\<close>

definition chain_context :: "prims \<Rightarrow> network_params \<Rightarrow> block \<Rightarrow> block_header \<Rightarrow> store \<Rightarrow> block_context result" where
  "chain_context P N genesis parent s =
     (let h = bh_height parent + 1; due = h - coinbase_maturity N
      in rbind (if due \<ge> 0
                then rbind (main_block P due s) (\<lambda>b. case b of
                         None \<Rightarrow> Inl AttributeError
                       | Some b \<Rightarrow> rbind (coinbase_of b) (\<lambda>c. Inr (Some c)))
                else Inr None) (\<lambda>matured.
         rbind (case snapshot_height h N of
                  None \<Rightarrow> Inr NO_SNAPSHOT
                | Some snap \<Rightarrow> (case snapshot_root snap s of None \<Rightarrow> Inl RuntimeError | Some root \<Rightarrow> Inr root)) (\<lambda>root.
         rbind (block_median_time N (block_id P parent) s) (\<lambda>mtp.
           Inr \<lparr>cx_parent = parent, cx_median_time_past = mtp, cx_expected_target = expected_target N genesis parent,
                cx_matured_coinbase = matured, cx_snapshot_root = root\<rparr>))))"

text \<open>\<open>_connect\<close> once the context is known.\<close>

definition connect_at :: "prims \<Rightarrow> network_params \<Rightarrow> block_context \<Rightarrow> block \<Rightarrow> store \<Rightarrow> store result" where
  "connect_at P N ctx b s =
     rbind (apply_block P N b ctx (get_account s) False) (\<lambda>ch.
     rbind (put_undo (block_id P (header b)) (sc_previous ch) (write_accounts (sc_accounts ch) s)) (\<lambda>s.
     rbind (set_main (height b) (block_id P (header b)) s) (\<lambda>s.
     rbind (index_block P b s) (\<lambda>s.
     let s = set_status (block_id P (header b)) STATUS_VALID s
     in if is_snapshot_point (height b) N
        then rbind (state_root P (all_accounts s)) (\<lambda>root. put_snapshot (height b) root s)
        else Inr s))))"

definition connect :: "prims \<Rightarrow> network_params \<Rightarrow> block \<Rightarrow> block \<Rightarrow> store \<Rightarrow> store result" where
  "connect P N genesis b s =
     rbind (the_tip s) (\<lambda>tip.
       if bh_prev_id (header b) \<noteq> block_id P (sh_header tip) then Inl AssertionError
       else rbind (chain_context P N genesis (sh_header tip) s) (\<lambda>ctx. connect_at P N ctx b s))"

text \<open>\<open>_disconnect_tip\<close> once the tip block is read.\<close>

definition disconnect_at :: "prims \<Rightarrow> int \<Rightarrow> block \<Rightarrow> store \<Rightarrow> store result" where
  "disconnect_at P h b s =
     rbind (take_undo (block_id P (header b)) s) (\<lambda>(previous, s).
       Inr (delete_snapshot h (delete_main h (unindex_block b (write_accounts previous s)))))"

definition disconnect_tip :: "prims \<Rightarrow> store \<Rightarrow> (block \<times> store) result" where
  "disconnect_tip P s =
     rbind (tip_height s) (\<lambda>h.
     rbind (main_block P h s) (\<lambda>b. case b of
         None \<Rightarrow> Inl AttributeError
       | Some b \<Rightarrow> rbind (disconnect_at P h b s) (\<lambda>s. Inr (b, s))))"

definition mark_invalid :: "bytes \<Rightarrow> store \<Rightarrow> store result" where
  "mark_invalid bid s =
     run_loop (\<lambda>(pending, s).
       case rev pending of
         [] \<Rightarrow> Inr (Inr s)
       | current # before \<Rightarrow>
           let s = set_status current STATUS_INVALID s in Inl (rev before @ children current s, s)) ([bid], s)"

section \<open>Sealing\<close>

definition seal_step :: "prims \<Rightarrow> network_params \<Rightarrow> store \<Rightarrow> store + store result" where
  "seal_step P N s =
     (let size' = chunk_size N; index = sealed_chunks s; till = (index + 1) * size' - 1
      in try_step (rbind (tip_height s) (\<lambda>tip.
           if till > tip - finality_depth N then Inr (Inr s)
           else rbind (seal_chunk P (network_id N) index (index * size') till s) (\<lambda>s. Inr (Inl s)))))"

definition seal_ready_chunks :: "prims \<Rightarrow> network_params \<Rightarrow> store \<Rightarrow> store result" where
  "seal_ready_chunks P N s = run_loop (seal_step P N) s"

section \<open>Switching chains\<close>

text \<open>The blocks from a new tip back to where its branch meets the active chain, oldest first, and the
  height of that meeting point.\<close>

definition branch_step :: "prims \<Rightarrow> store \<Rightarrow> bytes list \<times> stored_header \<Rightarrow> (bytes list \<times> stored_header) + (bytes list \<times> int) result" where
  "branch_step P s t =
     (case t of (branch, current) \<Rightarrow>
        try_step (rbind (is_on_main_chain (sh_block_id P current) s) (\<lambda>on_main.
          if on_main then Inr (Inr (rev branch, sh_height current))
          else rbind (find_header (bh_prev_id (sh_header current)) s) (\<lambda>parent.
                 case parent of
                   None \<Rightarrow> Inl AttributeError
                 | Some sh \<Rightarrow> Inr (Inl (branch @ [sh_block_id P current], sh))))))"

definition find_branch :: "prims \<Rightarrow> bytes \<Rightarrow> store \<Rightarrow> (bytes list \<times> int) result" where
  "find_branch P new_tip_id s =
     rbind (find_header new_tip_id s) (\<lambda>stored. case stored of
         None \<Rightarrow> Inl AttributeError
       | Some sh \<Rightarrow> run_loop (branch_step P s) ([], sh))"

definition disconnect_step :: "prims \<Rightarrow> int \<Rightarrow> block list \<times> store \<Rightarrow> (block list \<times> store) + (block list \<times> store) result" where
  "disconnect_step P fork_height t =
     (case t of (disconnected, s) \<Rightarrow>
        try_step (rbind (tip_height s) (\<lambda>h.
          if h > fork_height
          then rbind (disconnect_tip P s) (\<lambda>(b, s). Inr (Inl (disconnected @ [b], s)))
          else Inr (Inr (disconnected, s)))))"

definition disconnect_to :: "prims \<Rightarrow> int \<Rightarrow> store \<Rightarrow> (block list \<times> store) result" where
  "disconnect_to P fork_height s = run_loop (disconnect_step P fork_height) ([], s)"

text \<open>Connecting a branch: \<open>Inr (Inl (id, error))\<close> is \<open>_ConnectFailed\<close>.\<close>

fun connect_branch ::
  "prims \<Rightarrow> network_params \<Rightarrow> block \<Rightarrow> bytes list \<Rightarrow> store \<Rightarrow> ((bytes \<times> string) + (block list \<times> store)) result" where
  "connect_branch P N genesis [] s = Inr (Inr ([], s))"
| "connect_branch P N genesis (bid # ids) s =
     rbind (find_block P bid s) (\<lambda>b. case b of
         None \<Rightarrow> Inl AttributeError
       | Some b \<Rightarrow>
           (case connect P N genesis b s of
              Inl (ValidationError code) \<Rightarrow> Inr (Inl (bid, code))
            | Inl e \<Rightarrow> Inl e
            | Inr s' \<Rightarrow>
                rbind (connect_branch P N genesis ids s') (\<lambda>r. case r of
                    Inl failure \<Rightarrow> Inr (Inl failure)
                  | Inr (bs, s'') \<Rightarrow> Inr (Inr (b # bs, s'')))))"

definition invalid_result :: "bytes \<Rightarrow> string \<Rightarrow> submit_result" where
  "invalid_result bid code =
     \<lparr>sr_outcome = INVALID, sr_block_id = bid, sr_error = Some (ValidationError code), sr_connected = [], sr_disconnected = []\<rparr>"

definition plain_result :: "outcome \<Rightarrow> bytes \<Rightarrow> submit_result" where
  "plain_result out bid =
     \<lparr>sr_outcome = out, sr_block_id = bid, sr_error = None, sr_connected = [], sr_disconnected = []\<rparr>"

definition switch_to :: "prims \<Rightarrow> network_params \<Rightarrow> block \<Rightarrow> bytes \<Rightarrow> store \<Rightarrow> (submit_result \<times> store) result" where
  "switch_to P N genesis new_tip_id s =
     rbind (find_branch P new_tip_id s) (\<lambda>(branch, fork_height).
     rbind (disconnect_to P fork_height s) (\<lambda>(disconnected, s1).
     rbind (connect_branch P N genesis branch s1) (\<lambda>r. case r of
         Inl (failed_id, code) \<Rightarrow>
           rbind (mark_invalid failed_id s) (\<lambda>s. Inr (invalid_result new_tip_id code, s))
       | Inr (connected, s2) \<Rightarrow>
           rbind (seal_ready_chunks P N s2) (\<lambda>s3.
             Inr (\<lparr>sr_outcome = NEW_TIP, sr_block_id = new_tip_id, sr_error = None,
                   sr_connected = connected, sr_disconnected = disconnected\<rparr>, s3)))))"

section \<open>Orphans\<close>

definition forget_orphan :: "bytes \<Rightarrow> chain \<Rightarrow> (block \<times> chain) result" where
  "forget_orphan bid c =
     (case map_of (ch_orphans c) bid of
        None \<Rightarrow> Inl KeyError
      | Some b \<Rightarrow> Inr (b, c\<lparr>ch_orphans := AList.delete bid (ch_orphans c),
                            ch_orphan_bytes := ch_orphan_bytes c - block_size b\<rparr>))"

function make_room :: "block \<Rightarrow> chain \<Rightarrow> chain" where
  "make_room b c =
     (case ch_orphans c of
        [] \<Rightarrow> c
      | (oldest, b') # _ \<Rightarrow>
          if length (ch_orphans c) \<ge> MAX_ORPHANS \<or> ch_orphan_bytes c + block_size b > MAX_ORPHAN_BYTES
          then make_room b (c\<lparr>ch_orphans := AList.delete oldest (ch_orphans c),
                             ch_orphan_bytes := ch_orphan_bytes c - block_size b'\<rparr>)
          else c)"
  by pat_completeness auto
termination
  by (relation "measure (\<lambda>(b, c). length (ch_orphans c))") (auto simp: less_Suc_eq_le length_delete_le)

declare make_room.simps [simp del]

definition hold_orphan :: "prims \<Rightarrow> block \<Rightarrow> chain \<Rightarrow> chain" where
  "hold_orphan P b c =
     (let c = make_room b c
      in c\<lparr>ch_orphans := AList.update (block_id P (header b)) b (ch_orphans c),
           ch_orphan_bytes := ch_orphan_bytes c + block_size b\<rparr>)"

definition orphans_of :: "bytes \<Rightarrow> chain \<Rightarrow> (bytes \<times> block) list" where
  "orphans_of parent_id c = filter (\<lambda>(i, b). bh_prev_id (header b) = parent_id) (ch_orphans c)"

definition drop_orphans_step :: "bytes list \<times> chain \<Rightarrow> (bytes list \<times> chain) + chain result" where
  "drop_orphans_step t =
     (case t of (doomed, c) \<Rightarrow>
        case rev doomed of
          [] \<Rightarrow> Inr (Inr c)
        | parent_id # before \<Rightarrow>
            let ids = map fst (orphans_of parent_id c)
            in try_step (rbind (for_each (\<lambda>i c. rbind (forget_orphan i c) (\<lambda>(_, c). Inr c)) ids c) (\<lambda>c.
                 Inr (Inl (rev before @ ids, c)))))"

definition drop_orphans_of :: "bytes \<Rightarrow> chain \<Rightarrow> chain result" where
  "drop_orphans_of bid c = run_loop drop_orphans_step ([bid], c)"

section \<open>Receiving blocks\<close>

definition on_store :: "(submit_result \<times> store) result \<Rightarrow> chain \<Rightarrow> (submit_result \<times> chain) result" where
  "on_store m c = rbind m (\<lambda>(r, s). Inr (r, c\<lparr>ch_store := s\<rparr>))"

text \<open>\<open>try: checks except ValidationError as error: return self._invalid(...)\<close>, then the rest.\<close>

definition checked_or_invalid ::
  "unit result \<Rightarrow> bytes \<Rightarrow> chain \<Rightarrow> (submit_result \<times> chain) result \<Rightarrow> (submit_result \<times> chain) result" where
  "checked_or_invalid checks bid c proceed =
     (case checks of
        Inl (ValidationError code) \<Rightarrow> Inr (invalid_result bid code, c)
      | Inl e \<Rightarrow> Inl e
      | Inr _ \<Rightarrow> proceed)"

definition submit_unknown_parent :: "prims \<Rightarrow> network_params \<Rightarrow> int \<Rightarrow> block \<Rightarrow> chain \<Rightarrow> (submit_result \<times> chain) result" where
  "submit_unknown_parent P N now b c =
     (let bid = block_id P (header b)
      in rbind (if bh_target (header b) > pow_limit N then Inr False else meets_target P (header b) (pow N)) (\<lambda>ok.
           if \<not> ok then Inr (invalid_result bid ''bad-pow'', c)
           else checked_or_invalid (rbind (check_not_in_future N (header b) now) (\<lambda>_. check_block P N b)) bid c
                  (Inr (plain_result ORPHAN bid, hold_orphan P b c))))"

definition submit_checks :: "prims \<Rightarrow> network_params \<Rightarrow> int \<Rightarrow> block \<Rightarrow> stored_header \<Rightarrow> chain \<Rightarrow> unit result" where
  "submit_checks P N now b parent c =
     rbind (check_not_in_future N (header b) now) (\<lambda>_.
     rbind (check_finality P N parent (ch_store c)) (\<lambda>_.
     rbind (block_median_time N (sh_block_id P parent) (ch_store c)) (\<lambda>mtp.
     rbind (check_header_against_parent P N (header b) (sh_header parent) mtp
              (expected_target N (ch_genesis c) (sh_header parent))
              (block_id P (header b) \<notin> set (ch_pow_checked c))) (\<lambda>_.
       check_block P N b))))"

definition submit_one :: "prims \<Rightarrow> network_params \<Rightarrow> int \<Rightarrow> block \<Rightarrow> chain \<Rightarrow> (submit_result \<times> chain) result" where
  "submit_one P N now b c =
     (let bid = block_id P (header b); s = ch_store c
      in rbind (find_header bid s) (\<lambda>known. case known of
           Some sh \<Rightarrow> Inr (if sh_status sh = STATUS_INVALID then invalid_result bid ''known-invalid''
                           else plain_result DUPLICATE bid, c)
         | None \<Rightarrow>
             if map_of (ch_orphans c) bid \<noteq> None then Inr (plain_result DUPLICATE bid, c)
             else if height b = 0 then Inr (invalid_result bid ''bad-genesis'', c)
             else rbind (find_header (bh_prev_id (header b)) s) (\<lambda>parent. case parent of
                    None \<Rightarrow> submit_unknown_parent P N now b c
                  | Some parent \<Rightarrow>
                      if sh_status parent = STATUS_INVALID then Inr (invalid_result bid ''invalid-parent'', c)
                      else checked_or_invalid (submit_checks P N now b parent c) bid c
                        (let chain_work = sh_chain_work parent + block_work (bh_target (header b))
                         in rbind (add_block P b chain_work STATUS_STORED None s) (\<lambda>s.
                            rbind (the_tip s) (\<lambda>tip.
                              if chain_work > sh_chain_work tip
                              then on_store (switch_to P N (ch_genesis c) bid s) c
                              else Inr (plain_result SIDE_BRANCH bid, c\<lparr>ch_store := s\<rparr>)))))))"

text \<open>One child of a block that was just accepted; the state is the blocks still waiting, the result so
  far and the chain.\<close>

definition adopt_child ::
  "prims \<Rightarrow> network_params \<Rightarrow> int \<Rightarrow> block \<Rightarrow> bytes list \<times> submit_result \<times> chain
     \<Rightarrow> (bytes list \<times> submit_result \<times> chain) result" where
  "adopt_child P N now child t =
     (case t of (waiting, res, c) \<Rightarrow>
        rbind (forget_orphan (block_id P (header child)) c) (\<lambda>(_, c).
        rbind (submit_one P N now child c) (\<lambda>(r, c).
          let res = res\<lparr>sr_connected := sr_connected res @ sr_connected r,
                        sr_disconnected := sr_disconnected res @ sr_disconnected r\<rparr>
          in if sr_outcome r = NEW_TIP \<or> sr_outcome r = SIDE_BRANCH
             then Inr (waiting @ [block_id P (header child)], res, c)
             else if sr_outcome r = INVALID
             then rbind (drop_orphans_of (block_id P (header child)) c) (\<lambda>c. Inr (waiting, res, c))
             else Inr (waiting, res, c))))"

definition adopt_step ::
  "prims \<Rightarrow> network_params \<Rightarrow> int \<Rightarrow> bytes list \<times> submit_result \<times> chain
     \<Rightarrow> (bytes list \<times> submit_result \<times> chain) + (submit_result \<times> chain) result" where
  "adopt_step P N now t =
     (case t of (waiting, res, c) \<Rightarrow>
        case rev waiting of
          [] \<Rightarrow> Inr (Inr (res, c))
        | current # before \<Rightarrow>
            try_step (rbind (for_each (adopt_child P N now) (map snd (orphans_of current c)) (rev before, res, c)) (\<lambda>t.
              Inr (Inl t))))"

definition adopt_orphans ::
  "prims \<Rightarrow> network_params \<Rightarrow> int \<Rightarrow> bytes \<Rightarrow> submit_result \<Rightarrow> chain \<Rightarrow> (submit_result \<times> chain) result" where
  "adopt_orphans P N now parent_id res c = run_loop (adopt_step P N now) ([parent_id], res, c)"

definition submit_block :: "prims \<Rightarrow> network_params \<Rightarrow> int \<Rightarrow> block \<Rightarrow> chain \<Rightarrow> (submit_result \<times> chain) result" where
  "submit_block P N now b c =
     rbind (submit_one P N now b c) (\<lambda>(r, c).
       let bid = block_id P (header b)
       in if sr_outcome r = NEW_TIP \<or> sr_outcome r = SIDE_BRANCH then adopt_orphans P N now bid r c
          else if sr_outcome r = INVALID then rbind (drop_orphans_of bid c) (\<lambda>c. Inr (r, c))
          else Inr (r, c))"

section \<open>Adding whole chunks\<close>

text \<open>One block of a chunk; the state is the blocks added so far and the store.\<close>

definition apply_chunk_block ::
  "prims \<Rightarrow> network_params \<Rightarrow> block \<Rightarrow> block \<times> chunk_location \<Rightarrow> block list \<times> store \<Rightarrow> (block list \<times> store) result" where
  "apply_chunk_block P N genesis entry t =
     (case (entry, t) of ((b, loc), (added, s)) \<Rightarrow>
        let bid = block_id P (header b)
        in rbind (find_header bid s) (\<lambda>known.
             if (case known of Some sh \<Rightarrow> main_id (sh_height sh) s = Some bid | None \<Rightarrow> False)
             then Inr (added, set_location bid loc s)
             else rbind (the_tip s) (\<lambda>tip.
               if bh_prev_id (header b) \<noteq> sh_block_id P tip then Inl (ValidationError ''chunk-not-next'')
               else rbind (case known of
                         None \<Rightarrow> add_block P b (sh_chain_work tip + block_work (bh_target (header b))) STATUS_STORED (Some loc) s
                       | Some _ \<Rightarrow> Inr (set_location bid loc s)) (\<lambda>s.
                    rbind (connect P N genesis b s) (\<lambda>s. Inr (added @ [b], s))))))"

text \<open>A \<open>ValidationError\<close> is raised to the caller with the database as it was; the chunk file, when this
  call wrote it, is deleted again.\<close>

definition apply_chunk :: "prims \<Rightarrow> network_params \<Rightarrow> checked_chunk \<Rightarrow> chain \<Rightarrow> (block list result \<times> chain) result" where
  "apply_chunk P N checked c =
     (let chunk = cc_chunk checked; s = ch_store c; index = cf_index chunk
      in if index \<noteq> sealed_chunks s then Inr (Inl (ValidationError ''chunk-not-next''), c)
         else let wrote_file = (fmlookup (st_files s) (chunk_name index) = None);
                  s1 = (if wrote_file then s\<lparr>st_files := fmupd (chunk_name index) (cc_data checked) (st_files s)\<rparr> else s)
              in case for_each (apply_chunk_block P N (ch_genesis c)) (zip (cc_blocks checked) (cf_locations chunk)) ([], s1) of
                   Inl (ValidationError code) \<Rightarrow>
                     Inr (Inl (ValidationError code),
                          c\<lparr>ch_store := (if wrote_file then s1\<lparr>st_files := fmdrop (chunk_name index) (st_files s1)\<rparr> else s1)\<rparr>)
                 | Inl e \<Rightarrow> Inl e
                 | Inr (added, s2) \<Rightarrow>
                     Inr (Inr added, c\<lparr>ch_store := fold delete_recent_file
                       (map (\<lambda>b. (height b, block_id P (header b))) (cc_blocks checked))
                       (set_meta ''sealed_chunks'' (str_of_int (index + 1)) s2)\<rparr>))"

definition import_chunk :: "prims \<Rightarrow> network_params \<Rightarrow> bytes \<Rightarrow> chain \<Rightarrow> (int result \<times> chain) result" where
  "import_chunk P N data c =
     rbind (check_chunk_file P N data None) (\<lambda>checked.
     rbind (apply_chunk P N checked c) (\<lambda>(r, c). Inr (rmap (\<lambda>bs. int (length bs)) r, c)))"

section \<open>Opening a chain\<close>

definition init_genesis :: "prims \<Rightarrow> network_params \<Rightarrow> block \<Rightarrow> store \<Rightarrow> store result" where
  "init_genesis P N genesis s =
     (let gid = block_id P (header genesis)
      in case main_id 0 s of
           None \<Rightarrow>
             (let s = set_meta ''genesis_id'' (hex_of gid) (set_meta ''network'' (name N) s)
              in rbind (add_block P genesis (block_work (bh_target (header genesis))) STATUS_VALID None s) (\<lambda>s.
                 rbind (set_main 0 gid s) (\<lambda>s. index_block P genesis s)))
         | Some stored \<Rightarrow> if stored \<noteq> gid \<or> meta ''network'' s \<noteq> Some (name N) then Inl RuntimeError else Inr s)"

end
