(* ===== verification/Chain_Spec.thy ===== *)
theory Chain_Spec
  imports Chain
begin

text \<open>
  What the chain manager promises, stated over a list of blocks: the tables that describe the active
  chain (main chain, accounts, undo data, snapshots, indexes) are those that connecting the blocks of
  that list one after the other, from the genesis block, builds.  The context of a block is read off
  the list.  Disconnecting a block is shown to be the exact inverse of connecting it, so that the
  tables depend on the active chain only and not on the way the node came to it.
\<close>

section \<open>The tables of the active chain\<close>

definition core :: "store \<Rightarrow> store" where
  "core s = s\<lparr>st_headers := fmempty, st_files := fmempty, st_meta := fmempty\<rparr>"

lemma core_simps [simp]:
  "st_main (core s) = st_main s" "st_accounts (core s) = st_accounts s" "st_undo (core s) = st_undo s"
  "st_snapshots (core s) = st_snapshots s" "st_tx_index (core s) = st_tx_index s"
  "st_address_index (core s) = st_address_index s" "core (core s) = core s"
  "core (s\<lparr>st_headers := h\<rparr>) = core s" "core (s\<lparr>st_files := f\<rparr>) = core s" "core (s\<lparr>st_meta := m\<rparr>) = core s"
  by (simp_all add: core_def)

lemma core_update [simp]:
  "core (s\<lparr>st_main := m\<rparr>) = (core s)\<lparr>st_main := m\<rparr>"
  "core (s\<lparr>st_accounts := a\<rparr>) = (core s)\<lparr>st_accounts := a\<rparr>"
  "core (s\<lparr>st_undo := u\<rparr>) = (core s)\<lparr>st_undo := u\<rparr>"
  "core (s\<lparr>st_snapshots := n\<rparr>) = (core s)\<lparr>st_snapshots := n\<rparr>"
  "core (s\<lparr>st_tx_index := t\<rparr>) = (core s)\<lparr>st_tx_index := t\<rparr>"
  "core (s\<lparr>st_address_index := x\<rparr>) = (core s)\<lparr>st_address_index := x\<rparr>"
  by (simp_all add: core_def)

lemma core_update_row [simp]: "core (update_row bid f s) = core s"
  by (simp add: update_row_def split: option.splits)

lemma core_set_status [simp]: "core (set_status bid st s) = core s" "core (set_location bid loc s) = core s"
  by (simp_all add: set_status_def set_location_def)

lemma get_account_core [simp]: "get_account (core s) = get_account s"
  by (simp add: get_account_def fun_eq_iff)

lemma get_account_set_status [simp]: "get_account (set_status bid st s) = get_account s"
  by (simp add: set_status_def update_row_def get_account_def fun_eq_iff split: option.splits)

lemma all_accounts_core [simp]: "all_accounts (core s) = all_accounts s"
  by (simp add: all_accounts_def)

text \<open>Every step of connecting commutes with leaving the other tables out.\<close>

lemma core_put_undo: "rmap core (put_undo i p s) = put_undo i p (core s)"
  by (simp add: put_undo_def rmap_rbind)

lemma core_set_main: "rmap core (set_main h i s) = set_main h i (core s)"
  by (simp add: set_main_def rmap_rbind)

lemma core_write_accounts: "core (write_accounts d s) = write_accounts d (core s)"
  by (simp add: write_accounts_def)

lemma core_put_snapshot: "rmap core (put_snapshot h r s) = put_snapshot h r (core s)"
  by (simp add: put_snapshot_def rmap_rbind)

lemma core_index_tx: "rmap core (index_tx P b e s) = index_tx P b e (core s)"
proof -
  have "rmap core (for_each (\<lambda>a s. rbind (insert_row (a, h, p) tid (st_address_index s)) (\<lambda>m.
          Inr (s\<lparr>st_address_index := m\<rparr>))) as t)
      = for_each (\<lambda>a s. rbind (insert_row (a, h, p) tid (st_address_index s)) (\<lambda>m.
          Inr (s\<lparr>st_address_index := m\<rparr>))) as (core t)" for h p tid as t
    by (rule for_each_refine [where I = "\<lambda>_. True"]) (simp_all add: rmap_rbind)
  then show ?thesis by (simp add: index_tx_def Let_def rmap_rbind)
qed

lemma core_index_block: "rmap core (index_block P b s) = index_block P b (core s)"
  unfolding index_block_def by (rule for_each_refine [where I = "\<lambda>_. True"]) (simp_all add: core_index_tx)

lemma rbind_rmap: "rbind (rmap f m) g = rbind m (\<lambda>x. g (f x))"
  by (cases m) auto

lemma set_status_core [simp]: "set_status i st (core s) = core s"
  by (simp add: set_status_def update_row_def core_def)

lemma core_connect_at: "rmap core (connect_at P N ctx b s) = connect_at P N ctx b (core s)"
proof -
  have core_set_status': "set_status i st t = t" if "core t = t" for i st t
    using that set_status_core [of i st t] by simp
  have final: "rmap core (let s = set_status i STATUS_VALID s in if q then rbind (state_root P (all_accounts s)) (\<lambda>root. put_snapshot h root s)
        else Inr s)
      = (let s = set_status i STATUS_VALID (core s) in if q then rbind (state_root P (all_accounts s)) (\<lambda>root. put_snapshot h root s)
        else Inr s)" for i q h s
  proof -
    have "all_accounts (set_status i STATUS_VALID s) = all_accounts s"
      by (metis all_accounts_core core_set_status(1))
    then show ?thesis by (simp add: Let_def rmap_rbind core_put_snapshot)
  qed
  show ?thesis
    unfolding connect_at_def rmap_rbind final get_account_core core_write_accounts [symmetric]
      core_put_undo [symmetric] core_set_main [symmetric] core_index_block [symmetric] rbind_rmap ..
qed

section \<open>The context of a block, from the list of blocks below it\<close>

definition bid :: "prims \<Rightarrow> block \<Rightarrow> bytes" where
  "bid P b = block_id P (header b)"

definition list_context :: "prims \<Rightarrow> network_params \<Rightarrow> block \<Rightarrow> block list \<Rightarrow> store \<Rightarrow> block_context result" where
  "list_context P N genesis bs c =
     (let parent = header (last bs); h = bh_height parent + 1; due = h - coinbase_maturity N
      in rbind (if due \<ge> 0
                then if due < int (length bs) then rbind (coinbase_of (bs ! nat due)) (\<lambda>cb. Inr (Some cb))
                     else Inl AttributeError
                else Inr None) (\<lambda>matured.
         rbind (case snapshot_height h N of
                  None \<Rightarrow> Inr NO_SNAPSHOT
                | Some snap \<Rightarrow> (case snapshot_root snap c of None \<Rightarrow> Inl RuntimeError | Some root \<Rightarrow> Inr root)) (\<lambda>root.
         rbind (median_time_past (take (median_time_span N) (map (\<lambda>b. bh_timestamp (header b)) (rev bs)))) (\<lambda>mtp.
           Inr \<lparr>cx_parent = parent, cx_median_time_past = mtp, cx_expected_target = expected_target N genesis parent,
                cx_matured_coinbase = matured, cx_snapshot_root = root\<rparr>))))"

text \<open>\<open>built P N g bs c\<close>: connecting the blocks \<open>bs\<close>, the genesis block \<open>g\<close> first, gives the tables \<open>c\<close>.\<close>

inductive built :: "prims \<Rightarrow> network_params \<Rightarrow> block \<Rightarrow> block list \<Rightarrow> store \<Rightarrow> bool" for P N g where
  genesis: "index_block P g (new_store\<lparr>st_main := fmupd 0 (bid P g) fmempty\<rparr>) = Inr c \<Longrightarrow> built P N g [g] c"
| extend: "built P N g bs c \<Longrightarrow> bh_prev_id (header b) = bid P (last bs) \<Longrightarrow> list_context P N g bs c = Inr ctx
     \<Longrightarrow> connect_at P N ctx b c = Inr c' \<Longrightarrow> built P N g (bs @ [b]) c'"

inductive_cases built_snocE: "built P N g (bs @ [b]) c"

lemma built_nonempty: "built P N g bs c \<Longrightarrow> bs \<noteq> []"
  by (induction rule: built.induct) auto

lemma built_hd: "built P N g bs c \<Longrightarrow> hd bs = g"
  by (induction rule: built.induct) (auto simp: built_nonempty)

text \<open>The tables are a function of the list.\<close>

lemma built_unique: "built P N g bs c \<Longrightarrow> built P N g bs c' \<Longrightarrow> c = c'"
proof (induction arbitrary: c' rule: built.induct)
  case (genesis c)
  from genesis(2) show ?case
  proof (cases rule: built.cases)
    case genesis
    with \<open>index_block P g _ = Inr c\<close> show ?thesis by simp
  next
    case (extend bs c b ctx)
    then show ?thesis using built_nonempty by fastforce
  qed
next
  case (extend bs c b ctx c1)
  from extend.prems show ?case
  proof (cases rule: built.cases)
    case genesis
    with built_nonempty [OF extend.hyps(1)] show ?thesis by auto
  next
    case (extend bs2 c2 b2 ctx2)
    with extend.IH [of c2] extend.hyps show ?thesis by auto
  qed
qed

lemma core_undoing:
  "core (unindex_block b s) = unindex_block b (core s)" "core (delete_main h s) = delete_main h (core s)"
  "core (delete_snapshot h s) = delete_snapshot h (core s)"
  unfolding unindex_block_def delete_main_def delete_snapshot_def core_simps core_update by (rule refl)+

lemma core_disconnect_at: "rmap core (disconnect_at P h b s) = disconnect_at P h b (core s)"
  by (simp add: disconnect_at_def rmap_rbind take_undo_def core_write_accounts core_undoing split: option.splits)

section \<open>What connecting a block does\<close>

lemma connect_at_Inr:
  assumes "connect_at P N ctx b s = Inr s'"
  obtains ch parts s1 s2 where "apply_block P N b ctx (get_account s) False = Inr ch"
    and "map_each undo_entry (sc_previous ch) = Inr parts" and "fmlookup (st_undo s) (bid P b) = None"
    and "bid P b |\<notin>| fmran (st_main s)" and "fmlookup (st_main s) (height b) = None"
    and "s1 = s\<lparr>st_accounts := table_write (sc_accounts ch) (st_accounts s),
                st_undo := fmupd (bid P b) (concat parts) (st_undo s),
                st_main := fmupd (height b) (bid P b) (st_main s)\<rparr>"
    and "index_block P b s1 = Inr s2"
    and "if is_snapshot_point (height b) N
         then \<exists>root. fmlookup (st_snapshots s) (height b) = None \<and> state_root P (all_accounts s2) = Inr root
                \<and> s' = (set_status (bid P b) STATUS_VALID s2)\<lparr>st_snapshots := fmupd (height b) root (st_snapshots s)\<rparr>
         else s' = set_status (bid P b) STATUS_VALID s2"
proof -
  from assms obtain ch t1 t2 s2 where ch: "apply_block P N b ctx (get_account s) False = Inr ch"
    and t1: "put_undo (bid P b) (sc_previous ch) (write_accounts (sc_accounts ch) s) = Inr t1"
    and t2: "set_main (height b) (bid P b) t1 = Inr t2" and s2: "index_block P b t2 = Inr s2"
    and fin: "(let s = set_status (bid P b) STATUS_VALID s2
       in if is_snapshot_point (height b) N
          then rbind (state_root P (all_accounts s)) (\<lambda>root. put_snapshot (height b) root s) else Inr s) = Inr s'"
    unfolding connect_at_def bid_def by (auto simp only: rbind_Inr_iff)
  from t1 obtain parts where parts: "map_each undo_entry (sc_previous ch) = Inr parts"
    and u: "fmlookup (st_undo s) (bid P b) = None"
      "t1 = (write_accounts (sc_accounts ch) s)\<lparr>st_undo := fmupd (bid P b) (concat parts) (st_undo s)\<rparr>"
    by (auto simp: put_undo_def rbind_Inr_iff insert_row_Inr write_accounts_def)
  from t2 u have m: "bid P b |\<notin>| fmran (st_main s)" "fmlookup (st_main s) (height b) = None"
      "t2 = s\<lparr>st_accounts := table_write (sc_accounts ch) (st_accounts s),
              st_undo := fmupd (bid P b) (concat parts) (st_undo s),
              st_main := fmupd (height b) (bid P b) (st_main s)\<rparr>"
    by (auto simp: set_main_def rbind_Inr_iff insert_row_Inr write_accounts_table split: if_splits)
  have snaps: "st_snapshots s2 = st_snapshots s"
  proof -
    have "without_indexes s2 = without_indexes t2" using index_block_at [OF s2] unfolding indexed_at_def by blast
    then have "st_snapshots (without_indexes s2) = st_snapshots (without_indexes t2)" by simp
    then show ?thesis by (simp add: without_indexes_def m)
  qed
  have acc: "all_accounts (set_status (bid P b) STATUS_VALID s2) = all_accounts s2"
    by (metis all_accounts_core core_set_status(1))
  have st: "st_snapshots (set_status i x s2) = st_snapshots s2" for i x
    by (simp add: set_status_def update_row_def split: option.splits)
  from fin have "if is_snapshot_point (height b) N
         then \<exists>root. fmlookup (st_snapshots s) (height b) = None \<and> state_root P (all_accounts s2) = Inr root
                \<and> s' = (set_status (bid P b) STATUS_VALID s2)\<lparr>st_snapshots := fmupd (height b) root (st_snapshots s)\<rparr>
         else s' = set_status (bid P b) STATUS_VALID s2"
    by (auto simp: Let_def acc rbind_Inr_iff put_snapshot_def insert_row_Inr st snaps split: if_splits)
  from that [OF ch parts u(1) m(1,2,3) s2 this] show ?thesis .
qed

section \<open>What the tables of a chain satisfy\<close>

definition genesis_ok :: "prims \<Rightarrow> network_params \<Rightarrow> block \<Rightarrow> bool" where
  "genesis_ok P N g \<longleftrightarrow> height g = 0 \<and> check_block P N g = Inr () \<and>
     (\<exists>cb. transactions g = [Coinbase cb] \<and> cb_amount cb = block_reward N)"

definition chain_links :: "prims \<Rightarrow> network_params \<Rightarrow> block list \<Rightarrow> bool" where
  "chain_links P N bs \<longleftrightarrow>
     (\<forall>i<length bs. height (bs ! i) = int i) \<and>
     (\<forall>i. Suc i < length bs \<longrightarrow> bh_prev_id (header (bs ! Suc i)) = bid P (bs ! i)) \<and>
     (\<forall>b\<in>set bs. check_block P N b = Inr ())"

definition core_ok :: "prims \<Rightarrow> block list \<Rightarrow> store \<Rightarrow> bool" where
  "core_ok P bs c \<longleftrightarrow> core c = c \<and>
     (\<forall>h. fmlookup (st_main c) h = (if 0 \<le> h \<and> h < int (length bs) then Some (bid P (bs ! nat h)) else None)) \<and>
     table_ok (st_accounts c) \<and> ledger_ok (table_get (st_accounts c)) \<and>
     (\<forall>h. fmlookup (st_snapshots c) h \<noteq> None \<longrightarrow> h < int (length bs)) \<and>
     (\<forall>h \<ge> int (length bs). height_free h c)"

lemma check_block_coinbase:
  assumes "check_block P N b = Inr u" "coinbase_of b = Inr c"
  shows "length (cb_address c) = PAYLOAD_SIZE \<and> 0 \<le> cb_amount c \<and> cb_amount c \<le> MAX_AMOUNT"
proof -
  from assms(1) obtain c' ts where t: "transactions b = Coinbase c' # map Transfer ts"
      "\<forall>tx\<in>set (transactions b). check_transaction P N tx = Inr ()" by (rule check_block_Inr)
  then have "check_transaction P N (Coinbase c) = Inr ()" using assms(2) by auto
  then show ?thesis by (auto simp: check_transaction_def is_known_payload_def split: if_splits)
qed

lemma indexed_at_height_free:
  assumes "indexed_at h s s'" "g \<noteq> h"
  shows "height_free g s' \<longleftrightarrow> height_free g s"
  using assms unfolding indexed_at_def height_free_def by (metis option.distinct(1) option.inject)

lemma indexed_at_fields:
  assumes "indexed_at h s s'"
  shows "st_main s' = st_main s" "st_accounts s' = st_accounts s" "st_undo s' = st_undo s"
    "st_snapshots s' = st_snapshots s" "st_headers s' = st_headers s" "st_files s' = st_files s" "st_meta s' = st_meta s"
proof -
  have eq: "without_indexes s' = without_indexes s" using assms unfolding indexed_at_def by blast
  show "st_main s' = st_main s" using arg_cong [OF eq, of st_main] by (simp add: without_indexes_def)
  show "st_accounts s' = st_accounts s" using arg_cong [OF eq, of st_accounts] by (simp add: without_indexes_def)
  show "st_undo s' = st_undo s" using arg_cong [OF eq, of st_undo] by (simp add: without_indexes_def)
  show "st_snapshots s' = st_snapshots s" using arg_cong [OF eq, of st_snapshots] by (simp add: without_indexes_def)
  show "st_headers s' = st_headers s" using arg_cong [OF eq, of st_headers] by (simp add: without_indexes_def)
  show "st_files s' = st_files s" using arg_cong [OF eq, of st_files] by (simp add: without_indexes_def)
  show "st_meta s' = st_meta s" using arg_cong [OF eq, of st_meta] by (simp add: without_indexes_def)
qed

lemma core_eq_iff: "core s = s \<longleftrightarrow> st_headers s = fmempty \<and> st_files s = fmempty \<and> st_meta s = fmempty"
  by (cases s) (auto simp: core_def)

lemma height_free_cong:
  "st_tx_index s = st_tx_index t \<Longrightarrow> st_address_index s = st_address_index t \<Longrightarrow> height_free h s = height_free h t"
  by (simp add: height_free_def)

lemma core_status: "core s = s \<Longrightarrow> set_status i x s = s"
  by (metis set_status_core)

lemma nonneg_matured:
  assumes "list_context P N g bs c = Inr ctx" "chain_links P N bs"
  shows "0 \<le> matured_amount (cx_matured_coinbase ctx) \<and>
         (\<forall>cb. cx_matured_coinbase ctx = Some cb \<longrightarrow> length (cb_address cb) = PAYLOAD_SIZE)"
proof (cases "cx_matured_coinbase ctx")
  case (Some cb)
  let ?due = "bh_height (header (last bs)) + 1 - coinbase_maturity N"
  from assms(1) Some have "0 \<le> ?due" "?due < int (length bs)" "coinbase_of (bs ! nat ?due) = Inr cb"
    by (auto simp: list_context_def Let_def rbind_Inr_iff split: if_splits)
  moreover from this have "check_block P N (bs ! nat ?due) = Inr ()"
    using assms(2) by (auto simp: chain_links_def)
  ultimately show ?thesis using check_block_coinbase Some by (fastforce simp: matured_amount_def)
qed (simp add: matured_amount_def)

lemma list_context_parent: "list_context P N g bs c = Inr ctx \<Longrightarrow> cx_parent ctx = header (last bs)"
  by (auto simp: list_context_def Let_def rbind_Inr_iff)

lemma apply_block_height: "apply_block P N b ctx st w = Inr ch \<Longrightarrow> height b = bh_height (cx_parent ctx) + 1"
  by (auto simp: apply_block_def rbind_Inr_iff check_header_def check_header_against_parent_def height_def split: if_splits)

lemma extend_links:
  assumes "chain_links P N bs" "bs \<noteq> []" "bh_prev_id (header b) = bid P (last bs)"
    and "list_context P N g bs c = Inr ctx" "apply_block P N b ctx st w = Inr ch"
  shows "chain_links P N (bs @ [b]) \<and> height b = int (length bs)"
proof -
  have last: "last bs = bs ! (length bs - 1)" using assms(2) by (rule last_conv_nth)
  have "height (last bs) = int (length bs) - 1"
    using assms(1,2) unfolding last chain_links_def by (cases bs) auto
  then have h: "height b = int (length bs)"
    using apply_block_height [OF assms(5)] list_context_parent [OF assms(4)] by (simp add: height_def)
  have chk: "check_block P N b = Inr ()" using assms(5) by (rule apply_block_Inr)
  show ?thesis
    using assms(1,2,3) h chk last
    by (auto simp: chain_links_def nth_append less_Suc_eq) (metis One_nat_def diff_Suc_1 less_antisym)
qed

text \<open>The step that \<open>built\<close> takes, seen from tables that satisfy the invariant: every table after it in
  terms of the tables before.\<close>

lemma connect_core:
  assumes "core_ok P bs c" "chain_links P N bs" "bs \<noteq> []" "bh_prev_id (header b) = bid P (last bs)"
    and "list_context P N g bs c = Inr ctx" "connect_at P N ctx b c = Inr c'"
  obtains ch parts where "apply_block P N b ctx (table_get (st_accounts c)) False = Inr ch"
    and "map_each undo_entry (sc_previous ch) = Inr parts" and "fmlookup (st_undo c) (bid P b) = None"
    and "height b = int (length bs)" and "chain_links P N (bs @ [b])" and "core c' = c'"
    and "st_main c' = fmupd (height b) (bid P b) (st_main c)"
    and "st_accounts c' = table_write (sc_accounts ch) (st_accounts c)"
    and "st_undo c' = fmupd (bid P b) (concat parts) (st_undo c)"
    and "indexed_at (height b) c (c'\<lparr>st_main := st_main c, st_accounts := st_accounts c, st_undo := st_undo c,
           st_snapshots := st_snapshots c\<rparr>)"
    and "\<forall>h. h \<noteq> height b \<longrightarrow> fmlookup (st_snapshots c') h = fmlookup (st_snapshots c) h"
    and "fmdrop (height b) (st_snapshots c') = st_snapshots c"
    and "is_snapshot_point (height b) N \<longrightarrow> (\<exists>root. state_root P (all_accounts c') = Inr root \<and>
           fmlookup (st_snapshots c') (height b) = Some root)"
proof -
  from assms(6) obtain ch parts s1 s2 where ch: "apply_block P N b ctx (get_account c) False = Inr ch"
    and parts: "map_each undo_entry (sc_previous ch) = Inr parts" and new: "fmlookup (st_undo c) (bid P b) = None"
    and "bid P b |\<notin>| fmran (st_main c)" and "fmlookup (st_main c) (height b) = None"
    and s1: "s1 = c\<lparr>st_accounts := table_write (sc_accounts ch) (st_accounts c),
                st_undo := fmupd (bid P b) (concat parts) (st_undo c),
                st_main := fmupd (height b) (bid P b) (st_main c)\<rparr>"
    and s2: "index_block P b s1 = Inr s2"
    and fin: "if is_snapshot_point (height b) N
         then \<exists>root. fmlookup (st_snapshots c) (height b) = None \<and> state_root P (all_accounts s2) = Inr root
                \<and> c' = (set_status (bid P b) STATUS_VALID s2)\<lparr>st_snapshots := fmupd (height b) root (st_snapshots c)\<rparr>
         else c' = set_status (bid P b) STATUS_VALID s2" by (rule connect_at_Inr)
  have cc: "core c = c" using assms(1) by (simp add: core_ok_def)
  note at = index_block_at [OF s2]
  note f = indexed_at_fields [OF at]
  have "core s2 = s2" using cc f by (simp add: core_eq_iff s1)
  then have st: "set_status i x s2 = s2" for i x by (rule core_status)
  have links: "chain_links P N (bs @ [b])" and h: "height b = int (length bs)"
    using extend_links [OF assms(2-5) ch] by auto
  have fresh: "fmlookup (st_snapshots c) (height b) = None"
    using assms(1) h by (auto simp: core_ok_def)
  from fin obtain x where c': "c' = s2\<lparr>st_snapshots := x\<rparr>"
    and sn: "\<forall>h. h \<noteq> height b \<longrightarrow> fmlookup x h = fmlookup (st_snapshots c) h"
      "is_snapshot_point (height b) N \<longrightarrow> (\<exists>root. state_root P (all_accounts s2) = Inr root \<and> fmlookup x (height b) = Some root)"
  proof (cases "is_snapshot_point (height b) N")
    case True
    with fin that show ?thesis by (auto simp: st)
  next
    case False
    with fin f(4) that [of "st_snapshots s2"] show ?thesis by (simp add: st s1)
  qed
  have acc: "all_accounts c' = all_accounts s2" by (simp add: c' all_accounts_def get_account_def)
  have fields: "st_main c' = st_main s2" "st_accounts c' = st_accounts s2" "st_undo c' = st_undo s2"
      "st_tx_index c' = st_tx_index s2" "st_address_index c' = st_address_index s2" "core c' = c'"
    using \<open>core s2 = s2\<close> by (simp_all add: c')
  have idx: "indexed_at (height b) c (c'\<lparr>st_main := st_main c, st_accounts := st_accounts c, st_undo := st_undo c,
           st_snapshots := st_snapshots c\<rparr>)"
  proof -
    let ?d = "c'\<lparr>st_main := st_main c, st_accounts := st_accounts c, st_undo := st_undo c, st_snapshots := st_snapshots c\<rparr>"
    have "without_indexes ?d = without_indexes c"
      using fields(6) cc by (simp add: without_indexes_def core_eq_iff)
    then show ?thesis using at fields unfolding indexed_at_def by (simp add: s1)
  qed
  have "fmdrop (height b) (st_snapshots c') = st_snapshots c"
    using sn(1) fresh by (intro fmap_ext) (auto simp: c')
  with ch parts new h links fields f idx sn acc show ?thesis
    by (intro that [of ch parts]) (simp_all add: s1 get_account_table c')
qed

lemma connect_keeps_ok:
  assumes "core_ok P bs c" "chain_links P N bs" "bs \<noteq> []" "bh_prev_id (header b) = bid P (last bs)"
    and "list_context P N g bs c = Inr ctx" "connect_at P N ctx b c = Inr c'"
  shows "core_ok P (bs @ [b]) c'"
proof -
  from assms obtain ch parts where ch: "apply_block P N b ctx (table_get (st_accounts c)) False = Inr ch"
    and parts: "map_each undo_entry (sc_previous ch) = Inr parts" and new: "fmlookup (st_undo c) (bid P b) = None"
    and h: "height b = int (length bs)" and "chain_links P N (bs @ [b])" and cc: "core c' = c'"
    and main: "st_main c' = fmupd (height b) (bid P b) (st_main c)"
    and acc: "st_accounts c' = table_write (sc_accounts ch) (st_accounts c)"
    and undo: "st_undo c' = fmupd (bid P b) (concat parts) (st_undo c)"
    and idx: "indexed_at (height b) c (c'\<lparr>st_main := st_main c, st_accounts := st_accounts c, st_undo := st_undo c,
           st_snapshots := st_snapshots c\<rparr>)"
    and snaps: "\<forall>h. h \<noteq> height b \<longrightarrow> fmlookup (st_snapshots c') h = fmlookup (st_snapshots c) h"
    and dropped: "fmdrop (height b) (st_snapshots c') = st_snapshots c"
    and "is_snapshot_point (height b) N \<longrightarrow> (\<exists>root. state_root P (all_accounts c') = Inr root \<and>
           fmlookup (st_snapshots c') (height b) = Some root)" by (rule connect_core)
  have ok: "table_ok (st_accounts c)" "ledger_ok (table_get (st_accounts c))"
      "\<forall>h. fmlookup (st_main c) h = (if 0 \<le> h \<and> h < int (length bs) then Some (bid P (bs ! nat h)) else None)"
      "\<forall>h. fmlookup (st_snapshots c) h \<noteq> None \<longrightarrow> h < int (length bs)" "\<forall>h \<ge> int (length bs). height_free h c"
    using assms(1) by (simp_all add: core_ok_def)
  have m: "\<forall>k. fmlookup (st_main c') k = (if 0 \<le> k \<and> k < int (length (bs @ [b])) then Some (bid P ((bs @ [b]) ! nat k)) else None)"
    using ok(3) by (auto simp: main h nth_append nat_less_iff)
  have t: "table_ok (st_accounts c')"
    unfolding acc using ok(1) table.changes_distinct [OF ch] by (intro table.good_write) auto
  have l: "ledger_ok (table_get (st_accounts c'))"
  proof -
    from ch obtain cb ts where run: "ledger_block P (cx_matured_coinbase ctx) ts (table_get (st_accounts c))
        = Inr (patched (table_get (st_accounts c)) (sc_accounts ch))"
      and ts: "\<forall>t\<in>set ts. check_transaction P N (Transfer t) = Inr ()" by (rule apply_block_Inr) auto
    from ts have "\<forall>t\<in>set ts. tx_amounts_ok (Transfer t)" using check_transaction_amounts by blast
    from ledger_block_ok [OF run this _ ok(2)] nonneg_matured [OF assms(5,2)]
    show ?thesis unfolding acc table.get_apply [OF ch] by simp
  qed
  have sn: "\<forall>k. fmlookup (st_snapshots c') k \<noteq> None \<longrightarrow> k < int (length (bs @ [b]))"
    using snaps ok(4) h by (metis add.commute int_ops(4) length_append_singleton less_add_one order.strict_trans plus_nat.simps)
  have hf: "height_free k c'" if "k \<ge> int (length (bs @ [b]))" for k
  proof -
    have "height_free k c" using ok(5) that by simp
    then have "height_free k (c'\<lparr>st_main := st_main c, st_accounts := st_accounts c, st_undo := st_undo c,
           st_snapshots := st_snapshots c\<rparr>)"
      using indexed_at_height_free [OF idx, of k] that h by simp
    then show ?thesis by (simp add: height_free_def)
  qed
  from cc m t l sn hf show ?thesis by (simp add: core_ok_def)
qed

lemma undo_entries_fit: "map_each undo_entry accs = Inr parts \<Longrightarrow> \<forall>(a, acc)\<in>set accs. 0 \<le> balance acc
    \<and> balance acc < 2 ^ 64 \<and> 0 \<le> acct_nonce acc \<and> acct_nonce acc < 2 ^ 64"
  unfolding map_each_Inr
  by (induction accs parts rule: list_all2_induct) (auto simp: undo_entry_def to_bytes_def rbind_Inr_iff split: if_splits)

lemma undo_entries_bytes: "map_each undo_entry accs = Inr parts \<Longrightarrow> parts = map leaf_bytes accs"
  unfolding map_each_Inr
  by (induction accs parts rule: list_all2_induct) (auto simp: undo_entry_def to_bytes_def rbind_Inr_iff leaf_bytes_def split: if_splits)

text \<open>Disconnecting is the exact inverse of connecting.\<close>

lemma disconnect_inverts:
  assumes "digest32 P" "core_ok P bs c" "chain_links P N bs" "bs \<noteq> []" "bh_prev_id (header b) = bid P (last bs)"
    and "list_context P N g bs c = Inr ctx" "connect_at P N ctx b c = Inr c'"
  shows "disconnect_at P (height b) b c' = Inr c"
proof -
  from assms(2-) obtain ch parts where ch: "apply_block P N b ctx (table_get (st_accounts c)) False = Inr ch"
    and parts: "map_each undo_entry (sc_previous ch) = Inr parts" and new: "fmlookup (st_undo c) (bid P b) = None"
    and h: "height b = int (length bs)" and "chain_links P N (bs @ [b])" and cc: "core c' = c'"
    and main: "st_main c' = fmupd (height b) (bid P b) (st_main c)"
    and acc: "st_accounts c' = table_write (sc_accounts ch) (st_accounts c)"
    and undo: "st_undo c' = fmupd (bid P b) (concat parts) (st_undo c)"
    and idx: "indexed_at (height b) c (c'\<lparr>st_main := st_main c, st_accounts := st_accounts c, st_undo := st_undo c,
           st_snapshots := st_snapshots c\<rparr>)"
    and snaps: "\<forall>h. h \<noteq> height b \<longrightarrow> fmlookup (st_snapshots c') h = fmlookup (st_snapshots c) h"
    and dropped: "fmdrop (height b) (st_snapshots c') = st_snapshots c"
    and "is_snapshot_point (height b) N \<longrightarrow> (\<exists>root. state_root P (all_accounts c') = Inr root \<and>
           fmlookup (st_snapshots c') (height b) = Some root)" by (rule connect_core)
  let ?d = "c'\<lparr>st_main := st_main c, st_accounts := st_accounts c, st_undo := st_undo c, st_snapshots := st_snapshots c\<rparr>"
  have ok: "table_ok (st_accounts c)" "core c = c" "height_free (height b) c"
      "fmlookup (st_main c) (height b) = None"
    using assms(2) h by (simp_all add: core_ok_def)
  from ch obtain cb ts ov where ov: "overlay_ok (table_get (st_accounts c)) ov" "sc_accounts ch = ov_accounts ov"
      "sc_previous ch = ov_previous ov" "keys_in (touched P (cx_matured_coinbase ctx) ts) ov"
    and ts: "\<forall>t\<in>set ts. check_transaction P N (Transfer t) = Inr ()" by (rule apply_block_Inr) blast
  have "length a = PAYLOAD_SIZE" if "a \<in> touched P (cx_matured_coinbase ctx) ts" for a
    using that nonneg_matured [OF assms(6,3)] ts check_transaction_Transfer [of P N] length_payload_from_public_key [OF assms(1)]
    by (fastforce simp: touched_def sender_def is_known_payload_def split: option.splits)
  then have "length a = PAYLOAD_SIZE" if "a \<in> fst ` set (sc_previous ch)" for a
    using that ov by (auto simp: keys_in_def overlay_ok_def)
  then have fits: "undo_fits (sc_previous ch)"
    using undo_entries_fit [OF parts] table.changes_distinct [OF ch] by (fastforce simp: undo_fits_def)
  then have parsed: "parse_undo (concat parts) [] = sc_previous ch"
    using parse_undo_leaves [of "sc_previous ch" "[]"] undo_entries_bytes [OF parts] by (simp add: undo_fits_def)
  have restored: "table_write (sc_previous ch) (st_accounts c') = st_accounts c"
    unfolding acc using ok(1) ch by (rule table.revert_apply)
  have u: "fmdrop (bid P b) (st_undo c') = st_undo c" unfolding undo by (intro fmap_ext) (simp add: new)
  have m: "fmdrop (height b) (st_main c') = st_main c" unfolding main by (intro fmap_ext) (simp add: ok(4))
  have ux: "unindex_block b ?d = c" by (rule unindex_index [OF idx ok(3)])
  have "disconnect_at P (height b) b c' = Inr (delete_snapshot (height b) (delete_main (height b)
      (unindex_block b (write_accounts (sc_previous ch) (c'\<lparr>st_undo := st_undo c\<rparr>)))))"
    using u by (simp add: disconnect_at_def take_undo_def undo parsed flip: bid_def)
  also have "delete_snapshot (height b) (delete_main (height b)
      (unindex_block b (write_accounts (sc_previous ch) (c'\<lparr>st_undo := st_undo c\<rparr>)))) = unindex_block b ?d"
    by (simp add: delete_snapshot_def delete_main_def unindex_block_def write_accounts_table restored m dropped
        cong del: fmfilter_cong)
  finally show ?thesis unfolding ux .
qed

lemma built_ok:
  assumes "built P N g bs c" "genesis_ok P N g"
  shows "core_ok P bs c \<and> chain_links P N bs"
  using assms(1)
proof (induction rule: built.induct)
  case (genesis c)
  let ?s = "new_store\<lparr>st_main := fmupd 0 (bid P g) fmempty\<rparr>"
  note at = index_block_at [OF genesis]
  note f = indexed_at_fields [OF at]
  have "height_free h ?s" for h by (simp add: height_free_def new_store_def)
  then have "height_free h c" if "1 \<le> h" for h
    using indexed_at_height_free [OF at, of h] that assms(2) by (simp add: genesis_ok_def)
  moreover have "ledger_ok (table_get fmempty)"
    by (simp add: ledger_ok_def account_ok_def table_get_def EMPTY_ACCOUNT_def MAX_AMOUNT_def)
  ultimately have "core_ok P [g] c"
    using f by (auto simp: core_ok_def core_eq_iff new_store_def table_ok_def)
  then show ?case using assms(2) by (simp add: chain_links_def genesis_ok_def)
next
  case (extend bs c b ctx c')
  note hyps = conjunct1 [OF extend.IH] conjunct2 [OF extend.IH] built_nonempty [OF extend.hyps(1)] extend.hyps(2-4)
  have "chain_links P N (bs @ [b])" using hyps by (rule connect_core)
  with connect_keeps_ok [OF hyps] show ?case by blast
qed

section \<open>The money supply\<close>

definition money :: "store \<Rightarrow> int" where
  "money c = (\<Sum>a\<in>fset (fmdom (st_accounts c)). balance (get_account c a))"

definition reward_of :: "block \<Rightarrow> int" where
  "reward_of b = (case coinbase_of b of Inr cb \<Rightarrow> cb_amount cb | Inl e \<Rightarrow> 0)"

text \<open>The coinbases that are not spendable yet: those of the last \<open>coinbase_maturity\<close> blocks.\<close>

definition immature :: "network_params \<Rightarrow> block list \<Rightarrow> int" where
  "immature N bs = sum_list (map reward_of (drop (length bs - nat (coinbase_maturity N)) bs))"

lemma money_over:
  assumes "finite A" "fset (fmdom (st_accounts c)) \<subseteq> A"
  shows "money c = total_balance A (table_get (st_accounts c))"
  unfolding money_def total_balance_def get_account_table
  by (rule sum.mono_neutral_left) (use assms in \<open>auto simp: table_get_def fmdom_notD EMPTY_ACCOUNT_def\<close>)

lemma connect_money:
  assumes "core_ok P bs c" "chain_links P N bs" "bs \<noteq> []" "bh_prev_id (header b) = bid P (last bs)"
    and "list_context P N g bs c = Inr ctx" "connect_at P N ctx b c = Inr c'"
  shows "money c' + reward_of b = money c + matured_amount (cx_matured_coinbase ctx) + block_reward N"
proof -
  have "\<exists>ch. apply_block P N b ctx (table_get (st_accounts c)) False = Inr ch
      \<and> st_accounts c' = table_write (sc_accounts ch) (st_accounts c)"
    using assms by (rule connect_core) blast
  then obtain ch where ch: "apply_block P N b ctx (table_get (st_accounts c)) False = Inr ch"
    and acc: "st_accounts c' = table_write (sc_accounts ch) (st_accounts c)" by blast
  from ch obtain cb ts where t: "transactions b = Coinbase cb # map Transfer ts"
      and run: "ledger_block P (cx_matured_coinbase ctx) ts (table_get (st_accounts c))
        = Inr (patched (table_get (st_accounts c)) (sc_accounts ch))"
      and c: "sc_fees ch = sum_list (map tf_fee ts)" "cb_amount cb = block_reward N + sc_fees ch"
    by (rule apply_block_Inr) auto
  let ?A = "fset (fmdom (st_accounts c)) \<union> fset (fmdom (st_accounts c')) \<union> touched P (cx_matured_coinbase ctx) ts"
  have "money c = total_balance ?A (table_get (st_accounts c))"
    and "money c' = total_balance ?A (table_get (st_accounts c'))"
    by (rule money_over; auto)+
  moreover have "table_get (st_accounts c') = patched (table_get (st_accounts c)) (sc_accounts ch)"
    unfolding acc using ch by (rule table.get_apply)
  ultimately have "money c' = money c + matured_amount (cx_matured_coinbase ctx) - sum_list (map tf_fee ts)"
    using ledger_block_total [OF run, of ?A] by simp
  then show ?thesis using c by (simp add: reward_of_def t)
qed

lemma immature_extend:
  assumes "1 \<le> coinbase_maturity N" "chain_links P N bs" "bs \<noteq> []" "list_context P N g bs c = Inr ctx"
    and "height b = int (length bs)"
  shows "immature N (bs @ [b]) = immature N bs + reward_of b - matured_amount (cx_matured_coinbase ctx)"
proof -
  let ?m = "nat (coinbase_maturity N)" and ?n = "length bs"
  have "height (last bs) = int ?n - 1"
    using assms(2,3) unfolding last_conv_nth [OF assms(3)] chain_links_def by (cases bs) auto
  then have due: "bh_height (header (last bs)) + 1 - coinbase_maturity N = int ?n - coinbase_maturity N"
    by (simp add: height_def)
  show ?thesis
  proof (cases "?m \<le> ?n")
    case True
    with assms(1,4) due obtain cb where cb: "coinbase_of (bs ! (?n - ?m)) = Inr cb" "cx_matured_coinbase ctx = Some cb"
      by (auto simp: list_context_def Let_def rbind_Inr_iff nat_diff_distrib split: if_splits)
    have "drop (?n - ?m) bs = bs ! (?n - ?m) # drop (Suc (?n - ?m)) bs"
      using True assms(1,3) by (intro Cons_nth_drop_Suc [symmetric]) auto
    moreover have "drop (length (bs @ [b]) - ?m) (bs @ [b]) = drop (Suc (?n - ?m)) bs @ [b]"
      using True assms(1) by (simp add: Suc_diff_le)
    ultimately show ?thesis using cb by (simp add: immature_def reward_of_def matured_amount_def)
  next
    case False
    with assms(1,4) due have "cx_matured_coinbase ctx = None"
      by (auto simp: list_context_def Let_def rbind_Inr_iff split: if_splits)
    with False show ?thesis by (simp add: immature_def matured_amount_def)
  qed
qed

lemma built_money:
  assumes "built P N g bs c" and "genesis_ok P N g" and "1 \<le> coinbase_maturity N"
  shows "money c + immature N bs = int (length bs) * block_reward N"
  using assms(1)
proof (induction rule: built.induct)
  case (genesis c)
  have "st_accounts c = fmempty" using indexed_at_fields(2) [OF index_block_at [OF genesis]] by (simp add: new_store_def)
  then show ?case using assms(2,3) by (auto simp: money_def immature_def genesis_ok_def reward_of_def)
next
  case (extend bs c b ctx c')
  note ok = built_ok [OF extend.hyps(1) assms(2)]
  note hyps = conjunct1 [OF ok] conjunct2 [OF ok] built_nonempty [OF extend.hyps(1)] extend.hyps(2-4)
  have hb: "height b = int (length bs)" using hyps by (rule connect_core)
  note grown = immature_extend [OF assms(3) hyps(2,3,5) hb]
  show ?case using connect_money [OF hyps] grown extend.IH by (simp add: algebra_simps)
qed

text \<open>C25. The money supply is exactly the schedule: after any chain of blocks the balances of all accounts
  and the coinbases that still mature add up to the block reward times the number of blocks.
  Transfers, fees, burning and the order of payments never create or destroy a unit.\<close>

theorem supply_is_scheduled:
  assumes "built P N g bs c" and "genesis_ok P N g" and "1 \<le> coinbase_maturity N"
  shows "money c + immature N bs = int (length bs) * block_reward N"
  using assms by (rule built_money)

section \<open>The tables depend on the active chain only\<close>

text \<open>C26. A reorganisation leaves no trace: disconnecting the block that was connected last gives back
  every table of the active chain (accounts, main chain, undo data, snapshots, transaction and address
  index) exactly as connecting the blocks below it built them.\<close>

theorem disconnect_restores:
  assumes "digest32 P" and "genesis_ok P N g" and "built P N g (bs @ [b]) c'" and "bs \<noteq> []"
  shows "\<exists>c. built P N g bs c \<and> disconnect_at P (height b) b c' = Inr c"
  using assms(3)
proof (cases rule: built.cases)
  case (extend bs2 c b2 ctx)
  then have chain: "built P N g bs c" by simp
  note ok = built_ok [OF this assms(2)]
  have "disconnect_at P (height b) b c' = Inr c"
    using extend disconnect_inverts [OF assms(1) conjunct1 [OF ok] conjunct2 [OF ok] assms(4)] by auto
  with chain show ?thesis by blast
qed (use assms(4) in simp)


section \<open>An example\<close>

text \<open>Two blocks of a test network that pay their reward to the burn address.\<close>

definition example_coinbase :: "nat \<Rightarrow> coinbase" where
  "example_coinbase h = \<lparr>cb_network_id = 3, cb_height = int h, cb_address = BURN_PAYLOAD, cb_amount = 10000000,
     cb_memo = [word_of_nat h]\<rparr>"

definition example_link :: "bytes \<Rightarrow> nat \<Rightarrow> block" where
  "example_link prev h =
     \<lparr>header = \<lparr>bh_version = 1, bh_height = int h, bh_prev_id = prev,
        bh_merkle_root = rfc6962_root example_prims [txid example_prims (Coinbase (example_coinbase h))],
        bh_snapshot_root = zero_bytes 32, bh_timestamp = 1000 + int h, bh_target = genesis_target REGTEST, bh_nonce = int h\<rparr>,
      transactions = [Coinbase (example_coinbase h)]\<rparr>"

definition example_genesis :: block where
  "example_genesis = example_link (zero_bytes 32) 0"

definition example_next :: block where
  "example_next = example_link (bid example_prims example_genesis) 1"

lemma example_link_ok:
  assumes "length prev = 32"
  shows "check_block example_prims REGTEST (example_link prev h) = Inr ()"
proof -
  let ?b = "example_link prev h"
  have txs: "transactions ?b = [Coinbase (example_coinbase h)]" and cb: "coinbase_of ?b = Inr (example_coinbase h)"
    and hd: "bh_version (header ?b) = BLOCK_VERSION" "bh_height (header ?b) = int h"
    by (simp_all add: example_link_def coinbase_of_def BLOCK_VERSION_def)
  have root: "compute_merkle_root example_prims (transactions ?b) = Inr (bh_merkle_root (header ?b))"
    by (simp add: compute_merkle_root_def merkle_root_def merkle_loop_tree rfc6962_root_def example_link_def)
  have "block_size ?b \<le> max_block_size REGTEST"
    using digest32_example assms
    by (simp add: block_size_def block_bytes_def example_link_def header_bytes_def tx_bytes_def coinbase_bytes_def
        example_coinbase_def var8_enc_def REGTEST_def MAINNET_def length_rfc6962_root BURN_PAYLOAD_def PAYLOAD_SIZE_def)
  moreover have "check_transaction example_prims REGTEST (Coinbase (example_coinbase h)) = Inr ()"
    by (simp add: check_transaction_def tx_network_id_def tx_memo_def MAX_MEMO_SIZE_def REGTEST_def example_coinbase_def
        is_known_payload_burn MAX_AMOUNT_def)
  ultimately show ?thesis
    using root by (simp add: check_block_def txs cb hd is_coinbase_def example_coinbase_def)
qed

lemma example_txid_neq: "txid example_prims (Coinbase (example_coinbase 1)) \<noteq> txid example_prims (Coinbase (example_coinbase 0))"
proof -
  have "last (tx_bytes (Coinbase (example_coinbase h))) = word_of_nat h \<and> tx_bytes (Coinbase (example_coinbase h)) \<noteq> []" for h
    by (simp add: tx_bytes_def coinbase_bytes_def var8_enc_def example_coinbase_def)
  then have "hd (txid example_prims (Coinbase (example_coinbase h))) = word_of_nat h" for h
    by (simp add: txid_def example_digest_hd)
  from this [of 0] this [of 1] show ?thesis by force
qed

lemma example_id_neq: "bid example_prims example_next \<noteq> bid example_prims example_genesis"
proof -
  have "hd (bid example_prims (example_link p 0)) = 0" "hd (bid example_prims (example_link p 1)) = 1" for p
    by (simp_all add: bid_def block_id_def example_digest_hd header_bytes_def last_append last_to_be example_link_def to_be_Nil_iff)
  from this(1) [of "zero_bytes 32"] this(2) [of "bid example_prims example_genesis"] show ?thesis
    unfolding example_genesis_def example_next_def by force
qed


lemma example_genesis_ok: "genesis_ok example_prims REGTEST example_genesis"
  using example_link_ok [of "zero_bytes 32" 0]
  by (simp add: genesis_ok_def example_genesis_def example_link_def height_def example_coinbase_def REGTEST_def MAINNET_def COIN_def)

lemma index_coinbase:
  assumes "transactions b = [Coinbase cb]" "fmlookup (st_tx_index s) (txid P (Coinbase cb)) = None"
    and "fmlookup (st_address_index s) (cb_address cb, height b, 0) = None"
  shows "index_block P b s = Inr (s\<lparr>st_tx_index := fmupd (txid P (Coinbase cb))
           \<lparr>tl_block_id = bid P b, tl_height = height b, tl_position = 0\<rparr> (st_tx_index s),
         st_address_index := fmupd (cb_address cb, height b, 0) (txid P (Coinbase cb)) (st_address_index s)\<rparr>)"
  using assms by (simp add: index_block_def index_tx_def addresses_of_def insert_row_def Let_def bid_def)

lemma example_built_genesis: "\<exists>c. built example_prims REGTEST example_genesis [example_genesis] c
    \<and> c = new_store\<lparr>st_main := fmupd 0 (bid example_prims example_genesis) fmempty,
        st_tx_index := fmupd (txid example_prims (Coinbase (example_coinbase 0)))
           \<lparr>tl_block_id = bid example_prims example_genesis, tl_height = 0, tl_position = 0\<rparr> fmempty,
        st_address_index := fmupd (BURN_PAYLOAD, 0, 0) (txid example_prims (Coinbase (example_coinbase 0))) fmempty\<rparr>"
proof -
  have "transactions example_genesis = [Coinbase (example_coinbase 0)]" "height example_genesis = 0"
    by (simp_all add: example_genesis_def example_link_def height_def)
  from built.genesis [OF index_coinbase [OF this(1)]] show ?thesis
    by (simp add: new_store_def \<open>height example_genesis = 0\<close> example_coinbase_def)
qed

lemma example_next_applies:
  assumes "cx_parent ctx = header example_genesis" "cx_median_time_past ctx = 1000"
    and "cx_expected_target ctx = genesis_target REGTEST" "cx_matured_coinbase ctx = None" "cx_snapshot_root ctx = zero_bytes 32"
  shows "apply_block example_prims REGTEST example_next ctx st False = Inr \<lparr>sc_accounts = [], sc_previous = [], sc_fees = 0\<rparr>"
proof -
  have "length (bid example_prims example_genesis) = 32"
    using digest32_example by (simp add: bid_def block_id_def length_sha256)
  then have chk: "check_block example_prims REGTEST example_next = Inr ()"
    unfolding example_next_def by (rule example_link_ok)
  have hdr: "check_header example_prims REGTEST (header example_next) ctx False = Inr ()"
    using assms by (simp add: check_header_def check_header_against_parent_def example_next_def example_link_def bid_def)
       (simp add: example_genesis_def example_link_def)
  have "bh_height (header example_next) = 1" "transactions example_next = [Coinbase (example_coinbase 1)]"
    by (simp_all add: example_next_def example_link_def)
  then show ?thesis
    using chk hdr assms(4)
    by (simp add: apply_block_def credit_matured_def REGTEST_def MAINNET_def coinbase_of_def example_coinbase_def
        COIN_def new_overlay_def)
qed

lemma example_built: "\<exists>c. built example_prims REGTEST example_genesis [example_genesis, example_next] c"
proof -
  obtain c where c: "built example_prims REGTEST example_genesis [example_genesis] c"
    and eq: "c = new_store\<lparr>st_main := fmupd 0 (bid example_prims example_genesis) fmempty,
        st_tx_index := fmupd (txid example_prims (Coinbase (example_coinbase 0)))
           \<lparr>tl_block_id = bid example_prims example_genesis, tl_height = 0, tl_position = 0\<rparr> fmempty,
        st_address_index := fmupd (BURN_PAYLOAD, 0, 0) (txid example_prims (Coinbase (example_coinbase 0))) fmempty\<rparr>"
    using example_built_genesis by blast
  let ?ctx = "\<lparr>cx_parent = header example_genesis, cx_median_time_past = 1000,
      cx_expected_target = genesis_target REGTEST, cx_matured_coinbase = None, cx_snapshot_root = zero_bytes 32\<rparr>"
  have ctx: "list_context example_prims REGTEST example_genesis [example_genesis] c = Inr ?ctx"
    by (simp add: list_context_def expected_target_def next_target_def Let_def median_time_past_def snapshot_height_def
        REGTEST_def MAINNET_def NO_SNAPSHOT_def example_genesis_def example_link_def)
  have txs: "transactions example_next = [Coinbase (example_coinbase 1)]" and h: "height example_next = 1"
    by (simp_all add: example_next_def example_link_def height_def)
  have ap: "apply_block example_prims REGTEST example_next ?ctx (get_account c) False
      = Inr \<lparr>sc_accounts = [], sc_previous = [], sc_fees = 0\<rparr>"
    by (rule example_next_applies) simp_all
  have "fmran (fmupd (0 :: int) x fmempty) = {|x|}" for x :: bytes
    by (rule fset_eqI) (auto simp: fmlookup_ran_iff)
  then have "\<exists>c'. connect_at example_prims REGTEST ?ctx example_next c = Inr c'"
    using example_id_neq example_txid_neq
    by (simp add: connect_at_def ap flip: bid_def)
       (simp add: put_undo_def insert_row_def set_main_def write_accounts_def eq new_store_def h index_coinbase [OF txs]
         is_snapshot_point_def REGTEST_def MAINNET_def Let_def example_coinbase_def)
  then obtain c' where step: "connect_at example_prims REGTEST ?ctx example_next c = Inr c'" by blast
  have "bh_prev_id (header example_next) = bid example_prims (last [example_genesis])"
    by (simp add: example_next_def example_link_def)
  from built.extend [OF c this ctx step] show ?thesis by auto
qed

lemma supply_is_scheduled_witness:
  "\<exists>c. built example_prims REGTEST example_genesis [example_genesis, example_next] c \<and>
     money c + immature REGTEST [example_genesis, example_next] = 20000000"
proof -
  obtain c where c: "built example_prims REGTEST example_genesis [example_genesis, example_next] c"
    using example_built by blast
  from c supply_is_scheduled [OF c example_genesis_ok] show ?thesis
    by (auto simp: REGTEST_def MAINNET_def COIN_def)
qed

lemma disconnect_restores_witness:
  "\<exists>c c'. built example_prims REGTEST example_genesis [example_genesis] c \<and>
     disconnect_at example_prims 1 example_next c' = Inr c"
proof -
  obtain c' where "built example_prims REGTEST example_genesis ([example_genesis] @ [example_next]) c'"
    using example_built by auto
  moreover have "height example_next = 1" by (simp add: example_next_def example_link_def height_def)
  ultimately show ?thesis using disconnect_restores [OF digest32_example example_genesis_ok] by fastforce
qed


text \<open>Sealing a chunk deletes the headers of losing branches up to its last height, but not those of their
  children above it.  A block on top of such a child has a branch that leads to no stored header: the check of
  finality runs into \<open>AttributeError\<close>, which \<open>submit_block\<close> does not catch.\<close>

lemma check_finality_dangling:
  assumes "finalized_height N s = Inr f" and "is_on_main_chain (sh_block_id P parent) s = Inr False"
    and "f < sh_height parent" and "find_header (bh_prev_id (sh_header parent)) s = Inr None"
  shows "check_finality P N parent s = Inl AttributeError"
  using assms by (simp add: check_finality_def run_loop_unfold [of _ parent] finality_step_def)

end
