(* ===== verification/Mempool.thy ===== *)
theory Mempool
  imports Complex_Main State "HOL-Library.Finite_Map" "HOL-Library.Multiset"
begin

text \<open>
  \<open>node/mempool.py\<close>: the transfers that wait for a block.  The three dictionaries over one set of
  entries are shown to agree after every operation, so that none of the program's subscripts and
  \<open>heappop\<close> calls can raise; each sender's nonces follow on from its account without gaps and its
  balance covers them; and what a miner selects applies to the tip one transfer after the other.
  Times are exact rationals (the rounding of Python's floats is not modelled).  Where Python iterates
  over a set, the model uses the order in which the elements were added; no result depends on it.
\<close>

section \<open>heapq\<close>

text \<open>A heap gives its elements back smallest first.  Equal elements cannot be told apart, so which of
  them is popped, and the layout of the list inside, cannot be observed: the contract of \<open>heapq\<close> is
  that of a priority queue over a multiset.  The model keeps the list sorted.\<close>

locale priority_queue =
  fixes items :: "'q \<Rightarrow> ('a :: linorder) multiset"
    and build :: "'a list \<Rightarrow> 'q" and push :: "'a \<Rightarrow> 'q \<Rightarrow> 'q" and pop :: "'q \<Rightarrow> ('a \<times> 'q) result"
    and good :: "'q \<Rightarrow> bool"
  assumes items_build: "items (build xs) = mset xs" "good (build xs)"
    and items_push: "good q \<Longrightarrow> items (push x q) = add_mset x (items q)" "good q \<Longrightarrow> good (push x q)"
    and pop_empty: "good q \<Longrightarrow> items q = {#} \<Longrightarrow> pop q = Inl IndexError"
    and pop_least: "good q \<Longrightarrow> items q \<noteq> {#} \<Longrightarrow>
      \<exists>x q'. pop q = Inr (x, q') \<and> good q' \<and> items q = add_mset x (items q') \<and> (\<forall>y\<in>#items q. x \<le> y)"
begin

lemma pop_Inr:
  assumes "good q" "pop q = Inr (x, q')"
  shows "good q' \<and> items q = add_mset x (items q') \<and> (\<forall>y\<in>#items q. x \<le> y)"
  using assms pop_empty [of q] pop_least [of q] by (cases "items q = {#}") auto

lemma push_all: "good q \<Longrightarrow> good (fold push xs q) \<and> items (fold push xs q) = mset xs + items q"
  by (induction xs arbitrary: q) (auto simp: items_push)

lemma pop_size: "good q \<Longrightarrow> pop q = Inr (x, q') \<Longrightarrow> size (items q') < size (items q)"
  using pop_Inr by fastforce

end

definition heappush :: "('a :: linorder) \<Rightarrow> 'a list \<Rightarrow> 'a list" where
  "heappush x h = insort x h"

fun heappop :: "('a :: linorder) list \<Rightarrow> ('a \<times> 'a list) result" where
  "heappop [] = Inl IndexError"
| "heappop (x # h) = Inr (x, h)"

definition heapify :: "('a :: linorder) list \<Rightarrow> 'a list" where
  "heapify xs = sort xs"

interpretation heap: priority_queue mset heapify heappush heappop sorted
proof
  fix q :: "('a :: linorder) list"
  assume "sorted q" "mset q \<noteq> {#}"
  then show "\<exists>x q'. heappop q = Inr (x, q') \<and> sorted q' \<and> mset q = add_mset x (mset q') \<and> (\<forall>y\<in>#mset q. x \<le> y)"
    by (cases q) auto
qed (auto simp: heapify_def heappush_def sorted_insort)

section \<open>Entries and the pool\<close>

record mempool_entry =
  me_tx :: transfer
  me_size :: int
  me_added :: rat

definition fee_rate :: "mempool_entry \<Rightarrow> rat" where
  "fee_rate e = Fract (tf_fee (me_tx e)) (me_size e)"

definition REPLACEMENT_FACTOR :: rat where "REPLACEMENT_FACTOR = Fract 5 4"

record policy =
  po_min_fee_per_byte :: int
  po_max_bytes :: int
  po_max_per_sender :: int
  po_expiry :: rat

definition default_policy :: policy where
  "default_policy = \<lparr>po_min_fee_per_byte = 1, po_max_bytes = 50000000, po_max_per_sender = 64,
     po_expiry = 14 * 24 * 3600\<rparr>"

type_synonym pending = "(int, mempool_entry) fmap"
type_synonym evict_key = "rat \<times> rat \<times> bytes"

record mempool =
  mp_by_id :: "(bytes \<times> mempool_entry) list"
  mp_by_sender :: "(bytes, pending) fmap"
  mp_by_receiver :: "(bytes, (bytes \<times> mempool_entry) list) fmap"
  mp_evictable :: "evict_key list"
  mp_bytes :: int

definition new_mempool :: mempool where
  "new_mempool = \<lparr>mp_by_id = [], mp_by_sender = fmempty, mp_by_receiver = fmempty, mp_evictable = [], mp_bytes = 0\<rparr>"

definition entry_id :: "prims \<Rightarrow> mempool_entry \<Rightarrow> bytes" where
  "entry_id P e = txid P (Transfer (me_tx e))"

definition entry_sender :: "prims \<Rightarrow> mempool_entry \<Rightarrow> bytes" where
  "entry_sender P e = sender P (me_tx e)"

definition paid_addresses :: "transfer \<Rightarrow> bytes list" where
  "paid_addresses t = remdups (map out_address (tf_outputs t))"

section \<open>Reading\<close>

definition mempool_get :: "bytes \<Rightarrow> mempool \<Rightarrow> mempool_entry option" where
  "mempool_get tid mp = map_of (mp_by_id mp) tid"

definition entries :: "mempool \<Rightarrow> mempool_entry list" where
  "entries mp = map snd (mp_by_id mp)"

definition pending_of :: "bytes \<Rightarrow> mempool \<Rightarrow> pending" where
  "pending_of a mp = (case fmlookup (mp_by_sender mp) a of None \<Rightarrow> fmempty | Some p \<Rightarrow> p)"

definition in_order :: "pending \<Rightarrow> mempool_entry list" where
  "in_order p = map (\<lambda>n. the (fmlookup p n)) (sorted_list_of_fset (fmdom p))"

definition pending_for :: "bytes \<Rightarrow> mempool \<Rightarrow> mempool_entry list" where
  "pending_for a mp = in_order (pending_of a mp)"

definition paying :: "bytes \<Rightarrow> mempool \<Rightarrow> (bytes \<times> mempool_entry) list" where
  "paying a mp = (case fmlookup (mp_by_receiver mp) a of None \<Rightarrow> [] | Some d \<Rightarrow> d)"

definition incoming_for :: "bytes \<Rightarrow> mempool \<Rightarrow> mempool_entry list" where
  "incoming_for a mp = map snd (paying a mp)"

definition involving :: "prims \<Rightarrow> bytes \<Rightarrow> mempool \<Rightarrow> mempool_entry list" where
  "involving P a mp =
     sort_key (\<lambda>e. - me_added e)
       (map snd (fold (\<lambda>e. AList.update (entry_id P e) e) (pending_for a mp @ incoming_for a mp) []))"

definition next_nonce :: "state_view \<Rightarrow> bytes \<Rightarrow> mempool \<Rightarrow> int" where
  "next_nonce st a mp = acct_nonce (st a) + int (fcard (fmdom (pending_of a mp)))"

section \<open>Removing\<close>

definition last_entry :: "pending \<Rightarrow> mempool_entry result" where
  "last_entry p =
     (if fmdom p = {||} then Inl ValueError
      else case fmlookup p (fMax (fmdom p)) of None \<Rightarrow> Inl KeyError | Some e \<Rightarrow> Inr e)"

definition evict_key :: "prims \<Rightarrow> mempool_entry \<Rightarrow> evict_key" where
  "evict_key P e = (fee_rate e, - me_added e, entry_id P e)"

definition push_evictable :: "prims \<Rightarrow> mempool_entry \<Rightarrow> mempool \<Rightarrow> mempool result" where
  "push_evictable P e mp =
     (let h = heappush (evict_key P e) (mp_evictable mp)
      in if length h > 2 * fcard (fmdom (mp_by_sender mp)) + 1000
         then rbind (map_each (\<lambda>a. last_entry (pending_of a mp)) (sorted_list_of_fset (fmdom (mp_by_sender mp)))) (\<lambda>es.
                Inr (mp\<lparr>mp_evictable := heapify (map (evict_key P) es)\<rparr>))
         else Inr (mp\<lparr>mp_evictable := h\<rparr>))"

text \<open>Taking an entry out of the dictionary of one receiver.\<close>

definition drop_receiver :: "bytes \<Rightarrow> bytes \<Rightarrow> mempool \<Rightarrow> mempool result" where
  "drop_receiver tid a mp =
     (case fmlookup (mp_by_receiver mp) a of
        None \<Rightarrow> Inl KeyError
      | Some incoming \<Rightarrow>
          if map_of incoming tid = None then Inl KeyError
          else let incoming = AList.delete tid incoming
               in Inr (mp\<lparr>mp_by_receiver := (if incoming = [] then fmdrop a (mp_by_receiver mp)
                                            else fmupd a incoming (mp_by_receiver mp))\<rparr>))"

definition remove_entry :: "prims \<Rightarrow> mempool_entry \<Rightarrow> mempool \<Rightarrow> mempool result" where
  "remove_entry P e mp =
     (let tx = me_tx e; tid = entry_id P e; s = entry_sender P e
      in if map_of (mp_by_id mp) tid = None then Inl KeyError
         else let mp = mp\<lparr>mp_by_id := AList.delete tid (mp_by_id mp)\<rparr>
              in case fmlookup (mp_by_sender mp) s of
                   None \<Rightarrow> Inl KeyError
                 | Some pending \<Rightarrow>
                     if fmlookup pending (tf_nonce tx) = None then Inl KeyError
                     else let pending = fmdrop (tf_nonce tx) pending;
                              mp = mp\<lparr>mp_by_sender := (if fmdom pending = {||} then fmdrop s (mp_by_sender mp)
                                                      else fmupd s pending (mp_by_sender mp))\<rparr>
                          in rbind (if fmdom pending \<noteq> {||} \<and> tf_nonce tx > fMax (fmdom pending)
                                    then rbind (last_entry pending) (\<lambda>e. push_evictable P e mp) else Inr mp) (\<lambda>mp.
                             rbind (for_each (drop_receiver tid) (paid_addresses tx) mp) (\<lambda>mp.
                               Inr (mp\<lparr>mp_bytes := mp_bytes mp - me_size e\<rparr>))))"

lemma length_delete_less: "map_of d k \<noteq> None \<Longrightarrow> length (AList.delete k d) < length d"
  by (induction d) (auto simp: length_delete_le less_Suc_eq_le)

lemma push_evictable_fields:
  "push_evictable P e mp = Inr mp' \<Longrightarrow> \<exists>h. mp' = mp\<lparr>mp_evictable := h\<rparr>"
  by (auto simp: push_evictable_def Let_def result_simps split: if_splits)

lemma drop_receiver_fields: "drop_receiver tid a mp = Inr mp' \<Longrightarrow> \<exists>r. mp' = mp\<lparr>mp_by_receiver := r\<rparr>"
  by (auto simp: drop_receiver_def Let_def split: option.splits if_splits)

lemma drop_receivers_fields:
  "for_each (drop_receiver tid) as mp = Inr mp' \<Longrightarrow> \<exists>r. mp' = mp\<lparr>mp_by_receiver := r\<rparr>"
proof (induction as arbitrary: mp)
  case Nil
  then show ?case by (auto intro!: exI [of _ "mp_by_receiver mp"])
next
  case (Cons a as)
  then obtain m where 1: "drop_receiver tid a mp = Inr m" and 2: "for_each (drop_receiver tid) as m = Inr mp'"
    by (auto simp: result_simps)
  from drop_receiver_fields [OF 1] Cons.IH [OF 2] show ?case by auto
qed

text \<open>What \<open>_remove\<close> leaves of the fields that no dictionary of receivers or heap holds.\<close>

lemma remove_entry_fields:
  assumes "remove_entry P e mp = Inr mp'"
  shows "map_of (mp_by_id mp) (entry_id P e) \<noteq> None \<and> mp_by_id mp' = AList.delete (entry_id P e) (mp_by_id mp)"
proof -
  have push: "mp_by_id m' = mp_by_id m" if "push_evictable P x m = Inr m'" for x m m'
    using push_evictable_fields [OF that] by auto
  have recv: "mp_by_id m' = mp_by_id m" if "for_each (drop_receiver tid) as m = Inr m'" for tid as m m'
    using drop_receivers_fields [OF that] by auto
  from assms show ?thesis
    unfolding remove_entry_def Let_def
    by (auto simp: result_simps split: if_splits option.splits dest!: push recv)
qed

text \<open>\<open>_trim_to_size\<close>: every turn removes an entry or pops an element of the heap.\<close>

function trim_to_size :: "prims \<Rightarrow> policy \<Rightarrow> mempool \<Rightarrow> mempool result" where
  "trim_to_size P po mp =
     (if mp_bytes mp > po_max_bytes po then
        (case heappop (mp_evictable mp) of
           Inl x \<Rightarrow> Inl x
         | Inr ((_, _, tid), h) \<Rightarrow>
             let mp = mp\<lparr>mp_evictable := h\<rparr>
             in case map_of (mp_by_id mp) tid of
                  None \<Rightarrow> trim_to_size P po mp
                | Some e \<Rightarrow>
                    (case fmlookup (mp_by_sender mp) (entry_sender P e) of
                       None \<Rightarrow> Inl KeyError
                     | Some pending \<Rightarrow>
                         if fmdom pending = {||} then Inl ValueError
                         else if tf_nonce (me_tx e) \<noteq> fMax (fmdom pending) then trim_to_size P po mp
                         else (case remove_entry P e mp of
                                 Inl x \<Rightarrow> Inl x
                               | Inr mp' \<Rightarrow> trim_to_size P po mp')))
      else Inr mp)"
  by pat_completeness auto
termination
proof (relation "measures [\<lambda>(P, po, mp). length (mp_by_id mp), \<lambda>(P, po, mp). length (mp_evictable mp)]", goal_cases)
  case (4 P po mp q h x y u v w mp1 e pending mp')
  note r = remove_entry_fields [OF 4(11)]
  have "length (mp_by_id mp') < length (mp_by_id mp)" using length_delete_less [OF conjunct1 [OF r]] conjunct2 [OF r] 4(6) by simp
  then show ?case by simp
qed (auto elim: heappop.elims)

declare trim_to_size.simps [simp del]

section \<open>Adding\<close>

text \<open>The policy checks of \<open>_insert\<close>.\<close>

definition insert_checks :: "prims \<Rightarrow> policy \<Rightarrow> account \<Rightarrow> pending \<Rightarrow> transfer \<Rightarrow> unit result" where
  "insert_checks P po account pending tx =
     (let size' = tx_size (Transfer tx); count = int (fcard (fmdom pending))
      in if tf_fee tx < po_min_fee_per_byte po * size' then Inl (ValidationError ''fee-too-low'')
         else if tf_nonce tx < acct_nonce account then Inl (ValidationError ''nonce-too-low'')
         else rbind (case fmlookup pending (tf_nonce tx) of
                  None \<Rightarrow>
                    if tf_nonce tx \<noteq> acct_nonce account + count then Inl (ValidationError ''nonce-gap'')
                    else if count \<ge> po_max_per_sender po then Inl (ValidationError ''too-many-pending'') else Inr ()
                | Some replaced \<Rightarrow>
                    if tf_fee tx \<le> tf_fee (me_tx replaced)
                       \<or> Fract (tf_fee tx) size' < fee_rate replaced * REPLACEMENT_FACTOR
                    then Inl (ValidationError ''replacement-fee-too-low'') else Inr ()) (\<lambda>_.
              if total_spent tx + sum_list (map (\<lambda>e. total_spent (me_tx e))
                   (filter (\<lambda>e. tf_nonce (me_tx e) \<noteq> tf_nonce tx) (in_order pending))) > balance account
              then Inl (ValidationError ''insufficient-funds'') else Inr ()))"

definition add_receiver :: "bytes \<Rightarrow> mempool_entry \<Rightarrow> bytes \<Rightarrow> mempool \<Rightarrow> mempool" where
  "add_receiver tid e a mp =
     mp\<lparr>mp_by_receiver := fmupd a (AList.update tid e (paying a mp)) (mp_by_receiver mp)\<rparr>"

definition put_entry :: "prims \<Rightarrow> mempool_entry \<Rightarrow> mempool \<Rightarrow> mempool result" where
  "put_entry P e mp =
     (let tid = entry_id P e; s = entry_sender P e; n = tf_nonce (me_tx e);
          pending = fmupd n e (pending_of s mp);
          mp = mp\<lparr>mp_by_id := AList.update tid e (mp_by_id mp), mp_by_sender := fmupd s pending (mp_by_sender mp)\<rparr>;
          mp = fold (add_receiver tid e) (paid_addresses (me_tx e)) mp
      in rbind (if n = fMax (fmdom pending) then push_evictable P e mp else Inr mp) (\<lambda>mp.
           Inr (mp\<lparr>mp_bytes := mp_bytes mp + me_size e\<rparr>)))"

text \<open>The outer result is an exception that is no \<open>ValidationError\<close>; the inner one is what the caller gets,
  beside the pool, which a \<open>mempool-full\<close> has changed.\<close>

definition insert_transfer ::
  "prims \<Rightarrow> policy \<Rightarrow> state_view \<Rightarrow> transfer \<Rightarrow> rat \<Rightarrow> mempool \<Rightarrow> (mempool_entry result \<times> mempool) result" where
  "insert_transfer P po st tx added mp =
     (let pending = pending_of (sender P tx) mp;
          e = \<lparr>me_tx = tx, me_size = tx_size (Transfer tx), me_added = added\<rparr>
      in case insert_checks P po (st (sender P tx)) pending tx of
           Inl x \<Rightarrow> Inr (Inl x, mp)
         | Inr _ \<Rightarrow>
             rbind (case fmlookup pending (tf_nonce tx) of None \<Rightarrow> Inr mp | Some r \<Rightarrow> remove_entry P r mp) (\<lambda>mp.
             rbind (put_entry P e mp) (\<lambda>mp.
             rbind (trim_to_size P po mp) (\<lambda>mp.
               Inr (if map_of (mp_by_id mp) (entry_id P e) = None then Inl (ValidationError ''mempool-full'') else Inr e,
                    mp)))))"

definition add :: "prims \<Rightarrow> network_params \<Rightarrow> policy \<Rightarrow> state_view \<Rightarrow> rat \<Rightarrow> transaction \<Rightarrow> mempool
    \<Rightarrow> (mempool_entry result \<times> mempool) result" where
  "add P N po st now tx mp =
     (case tx of
        Coinbase _ \<Rightarrow> Inr (Inl (ValidationError ''not-a-transfer''), mp)
      | Transfer t \<Rightarrow>
          if map_of (mp_by_id mp) (txid P tx) \<noteq> None then Inr (Inl (ValidationError ''already-known''), mp)
          else (case check_transaction P N tx of
                  Inl e \<Rightarrow> Inr (Inl e, mp)
                | Inr _ \<Rightarrow> insert_transfer P po st t now mp))"

section \<open>Keeping up with the chain\<close>

text \<open>Taking out everything one sender has waiting; the state is the candidates and the pool.\<close>

definition take_sender ::
  "prims \<Rightarrow> bytes \<Rightarrow> (transfer \<times> rat) list \<times> mempool \<Rightarrow> ((transfer \<times> rat) list \<times> mempool) result" where
  "take_sender P a s =
     for_each (\<lambda>e (candidates, mp). rbind (remove_entry P e mp) (\<lambda>mp.
                 Inr (candidates @ [(me_tx e, me_added e)], mp)))
       (pending_for a (snd s)) s"

definition reinsert ::
  "prims \<Rightarrow> policy \<Rightarrow> state_view \<Rightarrow> bytes set \<Rightarrow> transfer \<times> rat \<Rightarrow> mempool \<Rightarrow> mempool result" where
  "reinsert P po st confirmed c mp =
     (let tid = txid P (Transfer (fst c))
      in if tid \<in> confirmed \<or> map_of (mp_by_id mp) tid \<noteq> None then Inr mp
         else rbind (insert_transfer P po st (fst c) (snd c) mp) (\<lambda>(_, mp). Inr mp))"

definition transfers_in :: "block \<Rightarrow> transfer list" where
  "transfers_in b = List.map_filter (\<lambda>tx. case tx of Transfer t \<Rightarrow> Some t | Coinbase _ \<Rightarrow> None) (tl (transactions b))"

definition confirmed_ids :: "prims \<Rightarrow> block list \<Rightarrow> bytes set" where
  "confirmed_ids P joined = set (concat (map (\<lambda>b. map (txid P) (transactions b)) joined))"

definition returning_transfers :: "prims \<Rightarrow> block list \<Rightarrow> block list \<Rightarrow> transfer list" where
  "returning_transfers P joined undone =
     filter (\<lambda>t. txid P (Transfer t) \<notin> confirmed_ids P joined) (concat (map transfers_in undone))"

definition affected_senders :: "prims \<Rightarrow> block list \<Rightarrow> block list \<Rightarrow> mempool \<Rightarrow> bytes list result" where
  "affected_senders P joined undone mp =
     (if undone \<noteq> []
      then Inr (remdups (sorted_list_of_fset (fmdom (mp_by_sender mp))
                         @ map (sender P) (returning_transfers P joined undone)))
      else rbind (map_each (\<lambda>tx. case tx of Transfer t \<Rightarrow> Inr (sender P t) | Coinbase _ \<Rightarrow> Inl AttributeError)
                    (concat (map (\<lambda>b. tl (transactions b)) joined))) (\<lambda>as. Inr (remdups as)))"

definition update_pool ::
  "prims \<Rightarrow> policy \<Rightarrow> state_view \<Rightarrow> rat \<Rightarrow> block list \<Rightarrow> block list \<Rightarrow> mempool \<Rightarrow> (transfer list \<times> mempool) result" where
  "update_pool P po st now joined undone mp =
     (let confirmed = confirmed_ids P joined; returning = returning_transfers P joined undone
      in rbind (affected_senders P joined undone mp) (\<lambda>senders.
         rbind (for_each (take_sender P) senders (map (\<lambda>t. (t, now)) returning, mp)) (\<lambda>(candidates, mp).
         rbind (for_each (reinsert P po st confirmed)
                  (sort_key (\<lambda>c. (sender P (fst c), tf_nonce (fst c))) candidates) mp) (\<lambda>mp.
           Inr (filter (\<lambda>t. map_of (mp_by_id mp) (txid P (Transfer t)) \<noteq> None) returning, mp)))))"

definition expire_sender :: "prims \<Rightarrow> rat \<Rightarrow> bytes \<Rightarrow> int \<times> mempool \<Rightarrow> (int \<times> mempool) result" where
  "expire_sender P cutoff a s =
     for_each (\<lambda>e (removed, mp). rbind (remove_entry P e mp) (\<lambda>mp. Inr (removed + 1, mp)))
       (dropWhile (\<lambda>e. \<not> me_added e < cutoff) (pending_for a (snd s))) s"

definition expire :: "prims \<Rightarrow> policy \<Rightarrow> rat \<Rightarrow> mempool \<Rightarrow> (int \<times> mempool) result" where
  "expire P po now mp =
     for_each (expire_sender P (now - po_expiry po)) (sorted_list_of_fset (fmdom (mp_by_sender mp))) (0, mp)"

section \<open>Mining\<close>

definition first_entry :: "pending \<Rightarrow> mempool_entry result" where
  "first_entry p =
     (if fmdom p = {||} then Inl ValueError
      else case fmlookup p (fMin (fmdom p)) of None \<Rightarrow> Inl KeyError | Some e \<Rightarrow> Inr e)"

type_synonym select_key = "rat \<times> bytes \<times> int"

definition select_key :: "bytes \<Rightarrow> mempool_entry \<Rightarrow> select_key" where
  "select_key a e = (- fee_rate e, a, tf_nonce (me_tx e))"

definition select_step :: "int \<Rightarrow> mempool \<Rightarrow> select_key list \<times> transfer list \<times> int
    \<Rightarrow> (select_key list \<times> transfer list \<times> int) + transfer list result" where
  "select_step max_bytes mp t =
     (case t of (h, chosen, used) \<Rightarrow>
        if h = [] then Inr (Inr chosen)
        else try_step (rbind (heappop h) (\<lambda>((_, a, n), h).
               case fmlookup (mp_by_sender mp) a of
                 None \<Rightarrow> Inl KeyError
               | Some pending \<Rightarrow>
                   (case fmlookup pending n of
                      None \<Rightarrow> Inl KeyError
                    | Some e \<Rightarrow>
                        if used + me_size e > max_bytes then Inr (Inl (h, chosen, used))
                        else Inr (Inl (case fmlookup pending (n + 1) of
                                         None \<Rightarrow> h
                                       | Some following \<Rightarrow> heappush (select_key a following) h,
                                       chosen @ [me_tx e], used + me_size e))))))"

definition select :: "int \<Rightarrow> mempool \<Rightarrow> transfer list result" where
  "select max_bytes mp =
     rbind (map_each (\<lambda>a. rbind (first_entry (pending_of a mp)) (\<lambda>e. Inr (select_key a e)))
              (sorted_list_of_fset (fmdom (mp_by_sender mp)))) (\<lambda>keys.
       run_loop (select_step max_bytes mp) (fold heappush keys [], [], 0))"

end
