(* ===== verification/Mempool_Inv.thy ===== *)
theory Mempool_Inv
  imports Mempool
begin

text \<open>
  The dictionaries of the mempool agree.  \<open>pool_ok\<close> says how \<open>_by_sender\<close>, \<open>_by_receiver\<close>, the byte count
  and the heap of eviction candidates relate to the entries of \<open>_by_id\<close>; every operation keeps it and
  none of the subscripts, \<open>max\<close> and \<open>heappop\<close> calls in them raises.
\<close>

named_theorems pool_simps \<open>how the fields of a pool are read\<close>

definition pool :: "mempool \<Rightarrow> mempool_entry set" where
  "pool mp = snd ` set (mp_by_id mp)"

definition ids_ok :: "prims \<Rightarrow> mempool \<Rightarrow> bool" where
  "ids_ok P mp \<longleftrightarrow> distinct (map fst (mp_by_id mp)) \<and>
     (\<forall>(i, e)\<in>set (mp_by_id mp). i = entry_id P e \<and> me_size e = tx_size (Transfer (me_tx e)))"

definition senders_ok :: "prims \<Rightarrow> mempool \<Rightarrow> bool" where
  "senders_ok P mp \<longleftrightarrow>
     (\<forall>a n e. fmlookup (pending_of a mp) n = Some e \<longleftrightarrow> e \<in> pool mp \<and> entry_sender P e = a \<and> tf_nonce (me_tx e) = n) \<and>
     (\<forall>a. fmlookup (mp_by_sender mp) a \<noteq> Some fmempty)"

definition receivers_ok :: "prims \<Rightarrow> mempool \<Rightarrow> bool" where
  "receivers_ok P mp \<longleftrightarrow> (\<forall>a. distinct (map fst (paying a mp))) \<and>
     (\<forall>a i e. (i, e) \<in> set (paying a mp) \<longleftrightarrow> (i, e) \<in> set (mp_by_id mp) \<and> a \<in> set (paid_addresses (me_tx e))) \<and>
     (\<forall>a. fmlookup (mp_by_receiver mp) a \<noteq> Some [])"

definition bytes_ok :: "mempool \<Rightarrow> bool" where
  "bytes_ok mp \<longleftrightarrow> mp_bytes mp = sum_list (map (\<lambda>(i, e). me_size e) (mp_by_id mp))"

definition heap_ok :: "prims \<Rightarrow> mempool \<Rightarrow> bool" where
  "heap_ok P mp \<longleftrightarrow> sorted (mp_evictable mp) \<and>
     (\<forall>a e. last_entry (pending_of a mp) = Inr e \<longrightarrow> evict_key P e \<in># mset (mp_evictable mp))"

definition pool_ok :: "prims \<Rightarrow> mempool \<Rightarrow> bool" where
  "pool_ok P mp \<longleftrightarrow> ids_ok P mp \<and> senders_ok P mp \<and> receivers_ok P mp \<and> bytes_ok mp \<and> heap_ok P mp"

lemmas pool_defs = pool_ok_def ids_ok_def senders_ok_def receivers_ok_def bytes_ok_def heap_ok_def

section \<open>Reading the fields\<close>

lemma pending_of_simps [simp, pool_simps]:
  "pending_of a (mp\<lparr>mp_by_id := x\<rparr>) = pending_of a mp" "pending_of a (mp\<lparr>mp_by_receiver := r\<rparr>) = pending_of a mp"
  "pending_of a (mp\<lparr>mp_evictable := h\<rparr>) = pending_of a mp" "pending_of a (mp\<lparr>mp_bytes := n\<rparr>) = pending_of a mp"
  by (simp_all add: pending_of_def)

lemma paying_simps [simp, pool_simps]:
  "paying a (mp\<lparr>mp_by_id := x\<rparr>) = paying a mp" "paying a (mp\<lparr>mp_by_sender := r\<rparr>) = paying a mp"
  "paying a (mp\<lparr>mp_evictable := h\<rparr>) = paying a mp" "paying a (mp\<lparr>mp_bytes := n\<rparr>) = paying a mp"
  by (simp_all add: paying_def)

lemma pool_field_simps [simp, pool_simps]:
  "pool (mp\<lparr>mp_by_sender := x\<rparr>) = pool mp" "pool (mp\<lparr>mp_by_receiver := r\<rparr>) = pool mp"
  "pool (mp\<lparr>mp_evictable := h\<rparr>) = pool mp" "pool (mp\<lparr>mp_bytes := n\<rparr>) = pool mp"
  by (simp_all add: pool_def)

lemma last_entry_Inr:
  "last_entry p = Inr e \<longleftrightarrow> fmdom p \<noteq> {||} \<and> fmlookup p (fMax (fmdom p)) = Some e"
  by (auto simp: last_entry_def split: option.splits)

lemma last_entry_exists: "fmdom p \<noteq> {||} \<Longrightarrow> \<exists>e. last_entry p = Inr e"
  using fMax_in [of "fmdom p"] by (auto simp: last_entry_Inr fmlookup_dom_iff)

lemma fmdom_empty_iff: "fmdom p = {||} \<longleftrightarrow> p = fmempty"
  by (metis fmdom_empty fmrestrict_fset_dom fmrestrict_fset_null)

lemma fMax_drop:
  assumes "fmdom (fmdrop n p) \<noteq> {||}" "n |\<in>| fmdom p" "\<not> n > fMax (fmdom (fmdrop n p))"
  shows "fMax (fmdom (fmdrop n p)) = fMax (fmdom p)"
proof -
  let ?d = "fmdom (fmdrop n p)"
  have "fmdom p = finsert n ?d" using assms(2) by auto
  then have "fMax (fmdom p) = max n (fMax ?d)" using assms(1) by (metis fMax_finsert)
  then show ?thesis using assms(3) by simp
qed

lemma id_in_pool:
  assumes "ids_ok P mp" "e \<in> pool mp"
  shows "map_of (mp_by_id mp) (entry_id P e) = Some e" "(entry_id P e, e) \<in> set (mp_by_id mp)"
proof -
  show "(entry_id P e, e) \<in> set (mp_by_id mp)" using assms by (fastforce simp: ids_ok_def pool_def)
  then show "map_of (mp_by_id mp) (entry_id P e) = Some e" using assms(1) by (simp add: ids_ok_def)
qed

lemma pool_by_id: "ids_ok P mp \<Longrightarrow> map_of (mp_by_id mp) tid = Some e \<Longrightarrow> e \<in> pool mp \<and> tid = entry_id P e"
  by (force simp: ids_ok_def pool_def dest: map_of_SomeD)

lemma set_AList_delete: "set (AList.delete k d) = {(i, e) \<in> set d. i \<noteq> k}"
  by (auto simp: AList.delete_eq)

lemma snd_AList_delete: "x \<in> snd ` set (AList.delete k d) \<longleftrightarrow> (\<exists>i. (i, x) \<in> set d \<and> i \<noteq> k)"
  by (force simp: set_AList_delete)

lemma same_id: "ids_ok P mp \<Longrightarrow> x \<in> pool mp \<Longrightarrow> e \<in> pool mp \<Longrightarrow> entry_id P x = entry_id P e \<Longrightarrow> x = e"
  by (metis id_in_pool(1) option.inject)

lemma pool_delete:
  assumes "ids_ok P mp" "e \<in> pool mp"
  shows "snd ` set (AList.delete (entry_id P e) (mp_by_id mp)) = pool mp - {e}"
proof -
  note same = same_id [OF assms(1) _ assms(2)]
  have mem: "x \<in> pool mp - {e} \<longleftrightarrow> (\<exists>i. (i, x) \<in> set (mp_by_id mp) \<and> i \<noteq> entry_id P e)" for x
    using id_in_pool(2) [OF assms(1)] same pool_by_id [OF assms(1)] assms(1)
    by (metis DiffD1 DiffD2 DiffI ids_ok_def map_of_eq_Some_iff singletonD singletonI)
  show ?thesis by (rule set_eqI) (simp only: snd_AList_delete mem)
qed

section \<open>Pushing eviction candidates\<close>

lemma push_evictable_ok:
  assumes "\<forall>a. fmlookup (mp_by_sender mp) a \<noteq> Some fmempty" "sorted (mp_evictable mp)"
    and "\<And>a x. last_entry (pending_of a mp) = Inr x \<Longrightarrow> x = e \<or> evict_key P x \<in># mset (mp_evictable mp)"
  shows "\<exists>h. push_evictable P e mp = Inr (mp\<lparr>mp_evictable := h\<rparr>) \<and> heap_ok P (mp\<lparr>mp_evictable := h\<rparr>)"
proof -
  let ?as = "sorted_list_of_fset (fmdom (mp_by_sender mp))"
  let ?h = "heappush (evict_key P e) (mp_evictable mp)"
  define last where "last a = (case last_entry (pending_of a mp) of Inr x \<Rightarrow> x | Inl _ \<Rightarrow> undefined)" for a
  have ex: "last_entry (pending_of a mp) = Inr (last a)" if "a |\<in>| fmdom (mp_by_sender mp)" for a
  proof -
    from that obtain p where "fmlookup (mp_by_sender mp) a = Some p" by (auto simp: fmlookup_dom_iff)
    with assms(1) have "fmdom (pending_of a mp) \<noteq> {||}" by (auto simp: pending_of_def fmdom_empty_iff)
    then show ?thesis using last_entry_exists by (fastforce simp: last_def)
  qed
  then have rebuilt: "map_each (\<lambda>a. last_entry (pending_of a mp)) ?as = Inr (map last ?as)"
    by (intro map_each_all_Inr) simp
  have dom: "a |\<in>| fmdom (mp_by_sender mp)" if "last_entry (pending_of a mp) = Inr x" for a x
    using that by (cases "fmlookup (mp_by_sender mp) a") (auto simp: pending_of_def last_entry_Inr fmlookup_dom_iff)
  have "heap_ok P (mp\<lparr>mp_evictable := heapify (map (evict_key P) (map last ?as))\<rparr>)"
    using ex dom by (force simp: heap_ok_def heap.items_build(2) heapify_def)
  moreover have "heap_ok P (mp\<lparr>mp_evictable := ?h\<rparr>)"
    using assms(2,3) heap.items_push [OF assms(2), of "evict_key P e"] by (auto simp: heap_ok_def)
  ultimately show ?thesis by (auto simp: push_evictable_def Let_def rebuilt)
qed

section \<open>Taking an entry out of the receivers\<close>

lemma drop_receiver_ok:
  assumes "tid \<in> fst ` set (paying a mp)" "\<forall>b. fmlookup (mp_by_receiver mp) b \<noteq> Some []"
  shows "\<exists>r. drop_receiver tid a mp = Inr (mp\<lparr>mp_by_receiver := r\<rparr>) \<and>
     (\<forall>b. paying b (mp\<lparr>mp_by_receiver := r\<rparr>) = (if b = a then AList.delete tid (paying a mp) else paying b mp)) \<and>
     (\<forall>b. fmlookup r b \<noteq> Some [])"
proof -
  from assms(1) obtain d where d: "fmlookup (mp_by_receiver mp) a = Some d" "paying a mp = d"
    by (cases "fmlookup (mp_by_receiver mp) a") (auto simp: paying_def)
  let ?d = "AList.delete tid d"
  let ?r = "if ?d = [] then fmdrop a (mp_by_receiver mp) else fmupd a ?d (mp_by_receiver mp)"
  have "map_of d tid \<noteq> None" using assms(1) d(2) by (simp add: map_of_eq_None_iff)
  then have "drop_receiver tid a mp = Inr (mp\<lparr>mp_by_receiver := ?r\<rparr>)" using d by (simp add: drop_receiver_def Let_def)
  moreover have "\<forall>b. paying b (mp\<lparr>mp_by_receiver := ?r\<rparr>) = (if b = a then ?d else paying b mp)"
    by (simp add: paying_def)
  moreover have "\<forall>b. fmlookup ?r b \<noteq> Some []" using assms(2) by simp
  ultimately show ?thesis unfolding d(2) by blast
qed

lemma drop_receivers_ok:
  assumes "\<forall>a\<in>set as. tid \<in> fst ` set (paying a mp)" "distinct as" "\<forall>b. fmlookup (mp_by_receiver mp) b \<noteq> Some []"
  shows "\<exists>r. for_each (drop_receiver tid) as mp = Inr (mp\<lparr>mp_by_receiver := r\<rparr>) \<and>
     (\<forall>b. paying b (mp\<lparr>mp_by_receiver := r\<rparr>) = (if b \<in> set as then AList.delete tid (paying b mp) else paying b mp)) \<and>
     (\<forall>b. fmlookup r b \<noteq> Some [])"
  using assms
proof (induction as arbitrary: mp)
  case Nil
  then show ?case by (auto intro!: exI [of _ "mp_by_receiver mp"])
next
  case (Cons a as)
  from Cons.prems obtain r where r: "drop_receiver tid a mp = Inr (mp\<lparr>mp_by_receiver := r\<rparr>)"
    "\<forall>b. paying b (mp\<lparr>mp_by_receiver := r\<rparr>) = (if b = a then AList.delete tid (paying a mp) else paying b mp)"
    "\<forall>b. fmlookup r b \<noteq> Some []" using drop_receiver_ok [of tid a mp] by auto
  have "\<forall>b\<in>set as. tid \<in> fst ` set (paying b (mp\<lparr>mp_by_receiver := r\<rparr>))" using Cons.prems r(2) by auto
  with Cons.IH [of "mp\<lparr>mp_by_receiver := r\<rparr>"] Cons.prems(2) r(3) obtain r' where
    "for_each (drop_receiver tid) as (mp\<lparr>mp_by_receiver := r\<rparr>) = Inr (mp\<lparr>mp_by_receiver := r'\<rparr>)"
    "\<forall>b. paying b (mp\<lparr>mp_by_receiver := r'\<rparr>) = (if b \<in> set as then AList.delete tid (paying b (mp\<lparr>mp_by_receiver := r\<rparr>))
       else paying b (mp\<lparr>mp_by_receiver := r\<rparr>))" "\<forall>b. fmlookup r' b \<noteq> Some []" by auto
  with r Cons.prems(2) show ?case by (intro exI [of _ r']) auto
qed

section \<open>Removing an entry\<close>

lemma sum_list_delete:
  fixes f :: "'b \<Rightarrow> int"
  assumes "distinct (map fst d)" "map_of d k = Some v"
  shows "sum_list (map (\<lambda>(i, e). f e) (AList.delete k d)) = sum_list (map (\<lambda>(i, e). f e) d) - f v"
  using assms by (induction d) (auto simp: map_of_eq_None_iff)

text \<open>The dictionary of senders after one nonce is gone.\<close>

lemma pending_after_drop:
  assumes "senders_ok P mp" "e \<in> pool mp"
    and "p = pending_of (entry_sender P e) mp" "p' = fmdrop (tf_nonce (me_tx e)) p"
    and "m = mp\<lparr>mp_by_id := ids, mp_by_sender := (if fmdom p' = {||} then fmdrop (entry_sender P e) (mp_by_sender mp)
               else fmupd (entry_sender P e) p' (mp_by_sender mp))\<rparr>"
  shows "fmlookup (mp_by_sender mp) (entry_sender P e) = Some p" "fmlookup p (tf_nonce (me_tx e)) = Some e"
    "\<And>a. pending_of a m = (if a = entry_sender P e then p' else pending_of a mp)"
    "\<forall>a. fmlookup (mp_by_sender m) a \<noteq> Some fmempty"
    "\<And>a n x. fmlookup (pending_of a m) n = Some x \<longleftrightarrow> x \<in> pool mp - {e} \<and> entry_sender P x = a \<and> tf_nonce (me_tx x) = n"
proof -
  show l: "fmlookup p (tf_nonce (me_tx e)) = Some e" using assms(1-3) by (simp add: senders_ok_def)
  then show "fmlookup (mp_by_sender mp) (entry_sender P e) = Some p"
    using assms(3) by (cases "fmlookup (mp_by_sender mp) (entry_sender P e)") (auto simp: pending_of_def)
  show pend: "pending_of a m = (if a = entry_sender P e then p' else pending_of a mp)" for a
    unfolding assms(5) by (simp add: pending_of_def fmdom_empty_iff)
  show "\<forall>a. fmlookup (mp_by_sender m) a \<noteq> Some fmempty"
    using assms(1) unfolding assms(5) by (auto simp: senders_ok_def fmdom_empty_iff)
  show "fmlookup (pending_of a m) n = Some x \<longleftrightarrow> x \<in> pool mp - {e} \<and> entry_sender P x = a \<and> tf_nonce (me_tx x) = n" for a n x
    using assms(1,2) l unfolding pend assms(3,4) by (auto simp: senders_ok_def) (metis option.inject)
qed

text \<open>The entry that leaves needs no eviction candidate: \<open>_trim_to_size\<close> has popped it.\<close>

lemma remove_entry_ok_but:
  assumes ok: "ids_ok P mp" "senders_ok P mp" "receivers_ok P mp" "bytes_ok mp" and here: "e \<in> pool mp"
    and heap: "sorted (mp_evictable mp)"
      "\<And>a x. last_entry (pending_of a mp) = Inr x \<Longrightarrow> x = e \<or> evict_key P x \<in># mset (mp_evictable mp)"
  shows "\<exists>mp'. remove_entry P e mp = Inr mp' \<and> pool_ok P mp' \<and> pool mp' = pool mp - {e} \<and>
     mp_by_id mp' = AList.delete (entry_id P e) (mp_by_id mp)"
proof -
  let ?tid = "entry_id P e" and ?s = "entry_sender P e" and ?n = "tf_nonce (me_tx e)"
  note id = id_in_pool [OF ok(1) here]
  define p where "p = pending_of ?s mp"
  define p' where "p' = fmdrop ?n p"
  define m where "m = mp\<lparr>mp_by_id := AList.delete ?tid (mp_by_id mp),
    mp_by_sender := (if fmdom p' = {||} then fmdrop ?s (mp_by_sender mp) else fmupd ?s p' (mp_by_sender mp))\<rparr>"
  note pend = pending_after_drop [OF ok(2) here p_def p'_def m_def]
  have sorted: "sorted (mp_evictable m)" using heap(1) by (simp add: m_def)
  have "\<exists>h. (if fmdom p' \<noteq> {||} \<and> ?n > fMax (fmdom p') then rbind (last_entry p') (\<lambda>e. push_evictable P e m) else Inr m)
      = Inr (m\<lparr>mp_evictable := h\<rparr>) \<and> heap_ok P (m\<lparr>mp_evictable := h\<rparr>)"
  proof (cases "fmdom p' \<noteq> {||} \<and> ?n > fMax (fmdom p')")
    case True
    then obtain x where x: "last_entry p' = Inr x" using last_entry_exists by blast
    have "y = x \<or> evict_key P y \<in># mset (mp_evictable m)" if l: "last_entry (pending_of a m) = Inr y" for a y
    proof -
      have "y \<in> pool mp - {e}" using pend(5) [of a _ y] l by (auto simp: last_entry_Inr)
      then show ?thesis using l x heap(2) [of a y] unfolding pend(3) by (auto simp: m_def split: if_splits)
    qed
    from push_evictable_ok [OF pend(4) sorted this] x True show ?thesis by simp
  next
    case False
    have "evict_key P y \<in># mset (mp_evictable m)" if l: "last_entry (pending_of a m) = Inr y" for a y
    proof (cases "a = ?s")
      case True
      with l have y: "fmdom p' \<noteq> {||}" "fmlookup p' (fMax (fmdom p')) = Some y" unfolding pend(3) by (simp_all add: last_entry_Inr)
      have "?n |\<in>| fmdom p" using pend(2) by (simp add: fmlookup_dom_iff)
      then have "fMax (fmdom p') = fMax (fmdom p)" using fMax_drop [of ?n p] y False by (simp add: p'_def)
      then have "fmlookup p (fMax (fmdom p)) = Some y" using y by (auto simp: p'_def split: if_splits)
      then have "last_entry p = Inr y" using \<open>?n |\<in>| fmdom p\<close> by (auto simp: last_entry_Inr)
      moreover have "y \<noteq> e" using y(2) pend(5) [of ?s "fMax (fmdom p')" y] unfolding pend(3) by auto
      ultimately show ?thesis using heap(2) [of ?s y] unfolding p_def by (auto simp: m_def)
    next
      case False
      with l have "y \<in> pool mp - {e}" using pend(5) [of a _ y] unfolding pend(3) by (auto simp: last_entry_Inr)
      with l False heap(2) [of a y] show ?thesis unfolding pend(3) by (auto simp: m_def)
    qed
    then have "heap_ok P m" using sorted by (simp add: heap_ok_def)
    then show ?thesis using False by (intro exI [of _ "mp_evictable m"]) auto
  qed
  then obtain h where h: "(if fmdom p' \<noteq> {||} \<and> ?n > fMax (fmdom p') then rbind (last_entry p') (\<lambda>e. push_evictable P e m) else Inr m)
      = Inr (m\<lparr>mp_evictable := h\<rparr>)" "heap_ok P (m\<lparr>mp_evictable := h\<rparr>)" by blast
  let ?m = "m\<lparr>mp_evictable := h\<rparr>"
  have pay: "paying a ?m = paying a mp" "mp_by_receiver ?m = mp_by_receiver mp" for a by (simp_all add: m_def paying_def)
  have "\<forall>a\<in>set (paid_addresses (me_tx e)). ?tid \<in> fst ` set (paying a ?m)"
    using ok(3) id(2) unfolding pay receivers_ok_def by force
  moreover have "distinct (paid_addresses (me_tx e))" by (simp add: paid_addresses_def)
  moreover have "\<forall>b. fmlookup (mp_by_receiver ?m) b \<noteq> Some []" using ok(3) unfolding pay by (simp add: receivers_ok_def)
  ultimately obtain r where r: "for_each (drop_receiver ?tid) (paid_addresses (me_tx e)) ?m = Inr (?m\<lparr>mp_by_receiver := r\<rparr>)"
    "\<forall>b. paying b (?m\<lparr>mp_by_receiver := r\<rparr>) = (if b \<in> set (paid_addresses (me_tx e)) then AList.delete ?tid (paying b mp)
       else paying b mp)" "\<forall>b. fmlookup r b \<noteq> Some []"
    using drop_receivers_ok [of "paid_addresses (me_tx e)" ?tid ?m] unfolding pay by blast
  let ?f = "?m\<lparr>mp_by_receiver := r, mp_bytes := mp_bytes mp - me_size e\<rparr>"
  have unf: "remove_entry P e mp = rbind (if fmdom p' \<noteq> {||} \<and> ?n > fMax (fmdom p')
        then rbind (last_entry p') (\<lambda>e. push_evictable P e m) else Inr m) (\<lambda>mp.
      rbind (for_each (drop_receiver ?tid) (paid_addresses (me_tx e)) mp) (\<lambda>mp.
        Inr (mp\<lparr>mp_bytes := mp_bytes mp - me_size e\<rparr>)))"
    using id(1) pend(1,2) by (simp only: remove_entry_def Let_def p'_def m_def option.simps if_False) simp
  have run: "remove_entry P e mp = Inr ?f"
    unfolding unf h(1) rbind.simps r(1) by (simp add: m_def)
  have poolf: "pool ?f = pool mp - {e}" using pool_delete [OF ok(1) here] by (simp add: m_def pool_def)
  have "ids_ok P ?f"
    using ok(1) by (auto simp: ids_ok_def m_def set_AList_delete distinct_delete)
  moreover have "senders_ok P ?f"
    using pend(4,5) poolf by (simp add: senders_ok_def)
  moreover have "receivers_ok P ?f"
  proof -
    have "(i, x) \<in> set (paying a ?f) \<longleftrightarrow> (i, x) \<in> set (mp_by_id ?f) \<and> a \<in> set (paid_addresses (me_tx x))" for a i x
    proof -
      have "x = e" if "(?tid, x) \<in> set (mp_by_id mp)"
        using that id(1) ok(1) by (simp add: ids_ok_def)
      then show ?thesis using ok(3) r(2) by (auto simp: receivers_ok_def m_def set_AList_delete)
    qed
    then show ?thesis using ok(3) r(2,3) by (simp add: receivers_ok_def distinct_delete)
  qed
  moreover have "bytes_ok ?f"
    using ok(1,4) id(1) by (simp add: bytes_ok_def m_def sum_list_delete ids_ok_def)
  moreover have "heap_ok P ?f" using h(2) by (simp add: heap_ok_def)
  ultimately show ?thesis using run poolf by (auto simp: pool_ok_def m_def)
qed

lemma remove_entry_ok:
  assumes "pool_ok P mp" "e \<in> pool mp"
  shows "\<exists>mp'. remove_entry P e mp = Inr mp' \<and> pool_ok P mp' \<and> pool mp' = pool mp - {e} \<and>
     mp_by_id mp' = AList.delete (entry_id P e) (mp_by_id mp)"
  using assms by (intro remove_entry_ok_but) (simp_all add: pool_ok_def heap_ok_def)

section \<open>Adding an entry\<close>

lemma add_receiver_fields: "\<exists>r. fold (add_receiver tid e) as mp = mp\<lparr>mp_by_receiver := r\<rparr>"
proof (induction as arbitrary: mp)
  case Nil
  show ?case by (auto intro!: exI [of _ "mp_by_receiver mp"])
next
  case (Cons a as)
  from Cons [of "add_receiver tid e a mp"] show ?case by (auto simp: add_receiver_def)
qed

lemma paying_add: "paying b (add_receiver tid e a mp) = (if b = a then AList.update tid e (paying a mp) else paying b mp)"
  by (simp add: add_receiver_def paying_def)

lemma paying_adds:
  "distinct as \<Longrightarrow> paying b (fold (add_receiver tid e) as mp) = (if b \<in> set as then AList.update tid e (paying b mp) else paying b mp)"
  by (induction as arbitrary: mp) (auto simp: paying_add)

lemma adds_nonempty: "\<forall>b. fmlookup (mp_by_receiver mp) b \<noteq> Some [] \<Longrightarrow>
    \<forall>b. fmlookup (mp_by_receiver (fold (add_receiver tid e) as mp)) b \<noteq> Some []"
proof (induction as arbitrary: mp)
  case (Cons a as)
  have "AList.update tid e d \<noteq> []" for d by (cases d) auto
  then have "\<forall>b. fmlookup (mp_by_receiver (add_receiver tid e a mp)) b \<noteq> Some []"
    using Cons.prems by (simp add: add_receiver_def)
  from Cons.IH [OF this] show ?case by simp
qed simp

lemma put_entry_ok:
  assumes "pool_ok P mp" "map_of (mp_by_id mp) (entry_id P e) = None"
    and "fmlookup (pending_of (entry_sender P e) mp) (tf_nonce (me_tx e)) = None" "me_size e = tx_size (Transfer (me_tx e))"
  shows "\<exists>mp'. put_entry P e mp = Inr mp' \<and> pool_ok P mp' \<and> pool mp' = insert e (pool mp) \<and>
     mp_by_id mp' = mp_by_id mp @ [(entry_id P e, e)]"
proof -
  let ?tid = "entry_id P e" and ?s = "entry_sender P e" and ?n = "tf_nonce (me_tx e)"
  have ok: "ids_ok P mp" "senders_ok P mp" "receivers_ok P mp" "bytes_ok mp" "heap_ok P mp"
    using assms(1) by (simp_all add: pool_ok_def)
  define p where "p = fmupd ?n e (pending_of ?s mp)"
  define m where "m = mp\<lparr>mp_by_id := mp_by_id mp @ [(?tid, e)], mp_by_sender := fmupd ?s p (mp_by_sender mp)\<rparr>"
  define g where "g = fold (add_receiver ?tid e) (paid_addresses (me_tx e)) m"
  obtain r where r: "g = m\<lparr>mp_by_receiver := r\<rparr>" using add_receiver_fields unfolding g_def by blast
  have dist: "distinct (paid_addresses (me_tx e))" by (simp add: paid_addresses_def)
  have pay: "paying b g = (if b \<in> set (paid_addresses (me_tx e)) then AList.update ?tid e (paying b mp) else paying b mp)" for b
    unfolding g_def paying_adds [OF dist] by (simp add: m_def)
  have pend: "pending_of a g = (if a = ?s then p else pending_of a mp)" for a
    unfolding r by (simp add: m_def pending_of_def)
  have fresh: "e \<notin> pool mp" using id_in_pool(1) [OF ok(1), of e] assms(2) by auto
  have notid: "?tid \<notin> fst ` set (mp_by_id mp)" using assms(2) by (simp add: map_of_eq_None_iff)
  have nonempty: "\<forall>a. fmlookup (mp_by_sender g) a \<noteq> Some fmempty"
    using ok(2) unfolding r by (auto simp: senders_ok_def m_def p_def dest: arg_cong [of _ _ fmdom])
  have "\<exists>h. (if ?n = fMax (fmdom p) then push_evictable P e g else Inr g) = Inr (g\<lparr>mp_evictable := h\<rparr>)
      \<and> heap_ok P (g\<lparr>mp_evictable := h\<rparr>)"
  proof -
    have old: "x = e \<or> evict_key P x \<in># mset (mp_evictable g)"
      if "last_entry (pending_of a g) = Inr x" "\<not> (a = ?s \<and> ?n \<noteq> fMax (fmdom p) \<and> x = e)" for a x
    proof (cases "a = ?s")
      case True
      with that(1) have x: "fmlookup p (fMax (fmdom p)) = Some x" unfolding pend by (simp add: last_entry_Inr)
      show ?thesis
      proof (cases "?n = fMax (fmdom p)")
        case False
        let ?q = "pending_of ?s mp"
        from x False have l: "fmlookup ?q (fMax (fmdom p)) = Some x" by (simp add: p_def)
        then have "fMax (fmdom p) = fMax (fmdom ?q)"
        proof -
          from fmdomI [OF l] have "fmdom ?q \<noteq> {||}" by auto
          then have "fMax (fmdom p) = max ?n (fMax (fmdom ?q))" by (simp add: p_def)
          with False show ?thesis by (simp add: max_def split: if_splits)
        qed
        with l fmdomI [OF l] have "last_entry ?q = Inr x" by (auto simp: last_entry_Inr)
        then show ?thesis using ok(5) unfolding r by (auto simp: heap_ok_def m_def)
      qed (use x in \<open>simp add: p_def\<close>)
    next
      case False
      with that(1) show ?thesis using ok(5) unfolding pend unfolding r by (auto simp: heap_ok_def m_def)
    qed
    have sorted: "sorted (mp_evictable g)" using ok(5) unfolding r by (simp add: heap_ok_def m_def)
    show ?thesis
    proof (cases "?n = fMax (fmdom p)")
      case True
      with push_evictable_ok [OF nonempty sorted, where P = P and e = e] old show ?thesis by fastforce
    next
      case False
      have "evict_key P x \<in># mset (mp_evictable g)" if "last_entry (pending_of a g) = Inr x" for a x
      proof -
        have "x \<noteq> e"
        proof
          assume "x = e"
          with that have "a = ?s" using ok(2) fresh unfolding pend
            by (auto simp: last_entry_Inr senders_ok_def split: if_splits)
          with that \<open>x = e\<close> False have "fmlookup (pending_of ?s mp) (fMax (fmdom p)) = Some e"
            unfolding pend by (auto simp: last_entry_Inr p_def)
          with ok(2) fresh show False by (simp add: senders_ok_def)
        qed
        with old [OF that] show ?thesis by blast
      qed
      with sorted False show ?thesis by (intro exI [of _ "mp_evictable g"]) (simp add: heap_ok_def)
    qed
  qed
  then obtain h where h: "(if ?n = fMax (fmdom p) then push_evictable P e g else Inr g) = Inr (g\<lparr>mp_evictable := h\<rparr>)"
      "heap_ok P (g\<lparr>mp_evictable := h\<rparr>)" by blast
  let ?f = "g\<lparr>mp_evictable := h, mp_bytes := mp_bytes mp + me_size e\<rparr>"
  have unf: "put_entry P e mp = rbind (if ?n = fMax (fmdom p) then push_evictable P e g else Inr g) (\<lambda>mp.
      Inr (mp\<lparr>mp_bytes := mp_bytes mp + me_size e\<rparr>))"
    unfolding put_entry_def Let_def g_def m_def p_def length_update_new [OF assms(2)] by (rule refl)
  have run: "put_entry P e mp = Inr ?f" unfolding unf h(1) by (simp add: r m_def)
  have idf: "mp_by_id ?f = mp_by_id mp @ [(?tid, e)]" unfolding r by (simp add: m_def)
  have poolf: "pool ?f = insert e (pool mp)" by (simp add: pool_def idf)
  have "ids_ok P ?f" using ok(1) notid assms(4) unfolding ids_ok_def idf by auto
  moreover have "senders_ok P ?f"
  proof -
    have look: "fmlookup (pending_of a mp) n = Some x \<longleftrightarrow> x \<in> pool mp \<and> entry_sender P x = a \<and> tf_nonce (me_tx x) = n" for a n x
      using ok(2) by (simp add: senders_ok_def)
    have "x \<notin> pool mp" if "entry_sender P x = ?s" "tf_nonce (me_tx x) = ?n" for x
      using look [of ?s ?n x] assms(3) that by simp
    then have "fmlookup (pending_of a ?f) n = Some x \<longleftrightarrow> x \<in> pool ?f \<and> entry_sender P x = a \<and> tf_nonce (me_tx x) = n" for a n x
      unfolding poolf using look by (auto simp: pend p_def)
    with nonempty show ?thesis by (simp add: senders_ok_def)
  qed
  moreover have "receivers_ok P ?f"
  proof -
    have sub: "fst ` set (paying a mp) \<subseteq> fst ` set (mp_by_id mp)" for a using ok(3) by (force simp: receivers_ok_def)
    then have "map_of (paying a mp) ?tid = None" for a using notid by (auto simp: map_of_eq_None_iff)
    then have upd: "AList.update ?tid e (paying a mp) = paying a mp @ [(?tid, e)]" for a by (rule length_update_new)
    have "distinct (map fst (paying a ?f))" for a
      using ok(3) sub [of a] notid by (auto simp: pay upd receivers_ok_def)
    moreover have "(i, x) \<in> set (paying a ?f) \<longleftrightarrow> (i, x) \<in> set (mp_by_id ?f) \<and> a \<in> set (paid_addresses (me_tx x))" for a i x
      using ok(3) unfolding idf by (auto simp: pay upd receivers_ok_def)
    moreover have "\<forall>b. fmlookup (mp_by_receiver ?f) b \<noteq> Some []"
      using adds_nonempty [of m] ok(3) unfolding g_def by (simp add: receivers_ok_def m_def)
    ultimately show ?thesis unfolding receivers_ok_def by blast
  qed
  moreover have "bytes_ok ?f" using ok(4) using idf by (simp add: bytes_ok_def)
  moreover have "heap_ok P ?f" using h(2) by (simp add: heap_ok_def)
  ultimately show ?thesis using run poolf idf by (auto simp: pool_ok_def)
qed

section \<open>Making room\<close>

text \<open>Whatever leaves, no sender keeps a transfer above one that left.\<close>

definition keeps_prefixes :: "prims \<Rightarrow> mempool \<Rightarrow> mempool \<Rightarrow> bool" where
  "keeps_prefixes P mp mp' \<longleftrightarrow> pool mp' \<subseteq> pool mp \<and>
     (\<forall>e\<in>pool mp'. \<forall>x\<in>pool mp. entry_sender P x = entry_sender P e \<and> tf_nonce (me_tx x) < tf_nonce (me_tx e)
        \<longrightarrow> x \<in> pool mp')"

lemma keeps_prefixes_refl [simp]: "keeps_prefixes P mp mp"
  by (simp add: keeps_prefixes_def)

lemma keeps_prefixes_trans: "keeps_prefixes P a b \<Longrightarrow> keeps_prefixes P b c \<Longrightarrow> keeps_prefixes P a c"
  unfolding keeps_prefixes_def by (meson subset_iff)

lemma keeps_prefixes_pool: "pool mp1 = pool mp2 \<Longrightarrow> keeps_prefixes P mp1 mp = keeps_prefixes P mp2 mp"
  by (simp add: keeps_prefixes_def)

lemma tx_size_nonneg: "0 \<le> tx_size tx"
  by (simp add: tx_size_def)

lemma empty_pool_bytes: "bytes_ok mp \<Longrightarrow> pool mp = {} \<Longrightarrow> mp_bytes mp = 0"
  by (simp add: bytes_ok_def pool_def)

text \<open>A pool that is not empty has a sender with a last transfer.\<close>

lemma some_last:
  assumes "senders_ok P mp" "e \<in> pool mp"
  shows "\<exists>x. last_entry (pending_of (entry_sender P e) mp) = Inr x"
proof -
  have "fmlookup (pending_of (entry_sender P e) mp) (tf_nonce (me_tx e)) = Some e" using assms by (simp add: senders_ok_def)
  from fmdomI [OF this] show ?thesis by (intro last_entry_exists) auto
qed

lemma last_in_pool:
  assumes "senders_ok P mp" "last_entry (pending_of a mp) = Inr x"
  shows "x \<in> pool mp \<and> entry_sender P x = a"
  using assms by (auto simp: last_entry_Inr senders_ok_def)

lemma last_is_greatest:
  assumes "senders_ok P mp" "fMax (fmdom (pending_of (entry_sender P e) mp)) = tf_nonce (me_tx e)"
    and "x \<in> pool mp" "entry_sender P x = entry_sender P e"
  shows "tf_nonce (me_tx x) \<le> tf_nonce (me_tx e)"
proof -
  have "fmlookup (pending_of (entry_sender P e) mp) (tf_nonce (me_tx x)) = Some x"
    using assms(1,3,4) by (simp add: senders_ok_def)
  from fMax_ge [OF fmdomI [OF this]] show ?thesis using assms(2) by simp
qed

lemma trim_to_size_ok:
  assumes "pool_ok P mp" "0 \<le> po_max_bytes po"
  shows "\<exists>mp'. trim_to_size P po mp = Inr mp' \<and> pool_ok P mp' \<and> mp_bytes mp' \<le> po_max_bytes po \<and> keeps_prefixes P mp mp'"
  using assms
proof (induction P po mp rule: trim_to_size.induct)
  case (1 P po mp)
  have ok: "ids_ok P mp" "senders_ok P mp" "receivers_ok P mp" "bytes_ok mp" "heap_ok P mp"
    using "1.prems"(1) by (simp_all add: pool_ok_def)
  show ?case
  proof (cases "mp_bytes mp > po_max_bytes po")
    case False
    then show ?thesis using "1.prems"(1) by (subst trim_to_size.simps) auto
  next
    case big: True
    have "mp_evictable mp \<noteq> []"
    proof -
      from big "1.prems"(2) have "pool mp \<noteq> {}" using empty_pool_bytes [OF ok(4)] by force
      then obtain e where "e \<in> pool mp" by blast
      from some_last [OF ok(2) this] show ?thesis using ok(5) by (auto simp: heap_ok_def)
    qed
    then obtain k h where kh: "mp_evictable mp = k # h" by (cases "mp_evictable mp") auto
    obtain r t tid where k: "k = (r, t, tid)" by (rule prod_cases3)
    have pop: "heappop (mp_evictable mp) = Inr ((r, t, tid), h)" by (simp add: kh k)
    have mset: "mset (mp_evictable mp) = add_mset (r, t, tid) (mset h)" "sorted h"
      using heap.pop_Inr [OF _ pop] ok(5) by (auto simp: heap_ok_def)
    define m where "m = mp\<lparr>mp_evictable := h\<rparr>"
    have okm: "ids_ok P m" "senders_ok P m" "receivers_ok P m" "bytes_ok m" "pool m = pool mp" "mp_by_id m = mp_by_id mp"
      using ok by (simp_all add: m_def ids_ok_def senders_ok_def receivers_ok_def bytes_ok_def)
    have others: "evict_key P x \<in># mset h" if "last_entry (pending_of a mp) = Inr x" "entry_id P x \<noteq> tid" for a x
      using ok(5) that mset(1) by (auto simp: heap_ok_def evict_key_def)
    note step = "1.IH" [OF big pop refl refl refl refl, folded m_def]
    have unf: "trim_to_size P po mp = (case map_of (mp_by_id m) tid of None \<Rightarrow> trim_to_size P po m
       | Some e \<Rightarrow> (case fmlookup (mp_by_sender m) (entry_sender P e) of None \<Rightarrow> Inl KeyError
           | Some pending \<Rightarrow> if fmdom pending = {||} then Inl ValueError
               else if tf_nonce (me_tx e) \<noteq> fMax (fmdom pending) then trim_to_size P po m
               else (case remove_entry P e m of Inl x \<Rightarrow> Inl x | Inr mp' \<Rightarrow> trim_to_size P po mp')))"
      using big unfolding m_def by (subst trim_to_size.simps) (simp add: pop Let_def)
    have stale: ?thesis if "trim_to_size P po mp = trim_to_size P po m" "heap_ok P m"
      "pool_ok P m \<Longrightarrow> \<exists>mp'. trim_to_size P po m = Inr mp' \<and> pool_ok P mp' \<and> mp_bytes mp' \<le> po_max_bytes po \<and> keeps_prefixes P m mp'"
      using that okm by (auto simp: pool_ok_def keeps_prefixes_pool [OF okm(5)])
    have heapm: "heap_ok P m" if "\<And>a x. last_entry (pending_of a mp) = Inr x \<Longrightarrow> entry_id P x \<noteq> tid"
      using that others mset(2) by (auto simp: heap_ok_def m_def)
    show ?thesis
    proof (cases "map_of (mp_by_id m) tid")
      case None
      have "entry_id P x \<noteq> tid" if "last_entry (pending_of a mp) = Inr x" for a x
        using last_in_pool [OF ok(2) that] id_in_pool(1) [OF ok(1), of x] None okm(6) by auto
      from stale [OF _ heapm [OF this]] None step(1) "1.prems"(2) unf show ?thesis by simp
    next
      case (Some e)
      have e: "e \<in> pool mp" "tid = entry_id P e" using pool_by_id [OF ok(1)] Some okm(6) by auto
      let ?p = "pending_of (entry_sender P e) m"
      have look: "fmlookup ?p (tf_nonce (me_tx e)) = Some e" using okm(2,5) e(1) by (simp add: senders_ok_def)
      have p: "fmlookup (mp_by_sender m) (entry_sender P e) = Some ?p" "fmdom ?p \<noteq> {||}"
        using look fmdomI [OF look] by (auto simp: pending_of_def split: option.splits)
      show ?thesis
      proof (cases "tf_nonce (me_tx e) = fMax (fmdom ?p)")
        case False
        have "entry_id P x \<noteq> tid" if l: "last_entry (pending_of a mp) = Inr x" for a x
        proof
          assume "entry_id P x = tid"
          then have "x = e" using same_id [OF ok(1) _ e(1)] last_in_pool [OF ok(2) l] e(2) by blast
          with l last_in_pool [OF ok(2) l] False show False
            using ok(2) by (auto simp: last_entry_Inr m_def senders_ok_def)
        qed
        from stale [OF _ heapm [OF this]] Some p False step(2) "1.prems"(2) unf show ?thesis by simp
      next
        case True
        have "x = e \<or> evict_key P x \<in># mset (mp_evictable m)" if l: "last_entry (pending_of a m) = Inr x" for a x
        proof (cases "entry_id P x = tid")
          case True
          have "x \<in> pool mp" using last_in_pool [OF okm(2) l] okm(5) by simp
          from same_id [OF ok(1) this e(1)] e(2) True show ?thesis by blast
        qed (use others l in \<open>simp add: m_def\<close>)
        then obtain m' where m': "remove_entry P e m = Inr m'" "pool_ok P m'" "pool m' = pool mp - {e}"
          using remove_entry_ok_but [OF okm(1-4), of e] e(1) okm(5) mset(2) by (auto simp: m_def)
        have kept: "keeps_prefixes P mp m'"
          using last_is_greatest [OF okm(2) True [symmetric]] unfolding keeps_prefixes_def m'(3) okm(5) by fastforce
        have "\<not> tf_nonce (me_tx e) \<noteq> fMax (fmdom ?p)" using True by simp
        from step(3) [OF Some p this m'(1,2) "1.prems"(2)] obtain mp' where
          mp': "trim_to_size P po m' = Inr mp'" "pool_ok P mp'" "mp_bytes mp' \<le> po_max_bytes po" "keeps_prefixes P m' mp'"
          by blast
        have "trim_to_size P po mp = trim_to_size P po m'" unfolding unf using Some p True m'(1) by simp
        with mp' keeps_prefixes_trans [OF kept mp'(4)] show ?thesis by simp
      qed
    qed
  qed
qed

end
