(* ===== verification/Mempool_Queues.thy ===== *)
theory Mempool_Queues
  imports Mempool_Inv
begin

text \<open>
  The rules of the mempool: each sender's waiting transfers follow on from its account, the confirmed
  balance covers them, every transfer was checked and pays its way, and the pool stays within its
  size.  \<open>add\<close>, \<open>expire\<close> and \<open>update\<close> keep them, and \<open>select\<close> ends and gives transfers that apply to the
  tip in the order it gives them.
\<close>

section \<open>The queue of one sender\<close>

definition spent_by :: "pending \<Rightarrow> int" where
  "spent_by p = sum_list (map (\<lambda>e. total_spent (me_tx e)) (in_order p))"

definition queue_ok :: "policy \<Rightarrow> account \<Rightarrow> pending \<Rightarrow> bool" where
  "queue_ok po acc p \<longleftrightarrow>
     fset (fmdom p) = {acct_nonce acc ..< acct_nonce acc + int (fcard (fmdom p))} \<and>
     (fmdom p \<noteq> {||} \<longrightarrow> spent_by p \<le> balance acc \<and> int (fcard (fmdom p)) \<le> po_max_per_sender po)"

definition keyed :: "pending \<Rightarrow> bool" where
  "keyed p \<longleftrightarrow> (\<forall>n e. fmlookup p n = Some e \<longrightarrow> tf_nonce (me_tx e) = n)"

definition spends :: "pending \<Rightarrow> bool" where
  "spends p \<longleftrightarrow> (\<forall>n e. fmlookup p n = Some e \<longrightarrow> 0 \<le> total_spent (me_tx e))"

lemma queue_ok_empty [simp]: "queue_ok po acc fmempty"
  by (simp add: queue_ok_def)

lemma in_order_set: "set (in_order p) = {e. \<exists>n. fmlookup p n = Some e}"
proof -
  have "e \<in> set (in_order p) \<longleftrightarrow> (\<exists>n. fmlookup p n = Some e)" for e
    unfolding in_order_def by (force simp: fmlookup_dom_iff)
  then show ?thesis by blast
qed

lemma spent_by_sum: "spent_by p = (\<Sum>n\<in>fset (fmdom p). total_spent (me_tx (the (fmlookup p n))))"
  by (simp add: spent_by_def in_order_def comp_def sum_list_distinct_conv_sum_set sorted_list_of_fset.rep_eq)

lemma spent_by_update:
  assumes "keyed p"
  shows "spent_by (fmupd n e p) = total_spent (me_tx e) + sum_list (map (\<lambda>e. total_spent (me_tx e))
     (filter (\<lambda>x. tf_nonce (me_tx x) \<noteq> n) (in_order p)))"
proof -
  let ?f = "\<lambda>k. total_spent (me_tx (the (fmlookup p k)))"
  have key: "tf_nonce (me_tx (the (fmlookup p k))) = k" if "k |\<in>| fmdom p" for k
    using that assms by (auto simp: keyed_def fmlookup_dom_iff)
  have "filter (\<lambda>x. tf_nonce (me_tx x) \<noteq> n) (in_order p)
      = map (\<lambda>k. the (fmlookup p k)) (filter (\<lambda>k. k \<noteq> n) (sorted_list_of_fset (fmdom p)))"
    unfolding in_order_def filter_map comp_def by (rule arg_cong [of _ _ "map _"], rule filter_cong) (auto simp: key)
  then have "sum_list (map (\<lambda>e. total_spent (me_tx e)) (filter (\<lambda>x. tf_nonce (me_tx x) \<noteq> n) (in_order p)))
      = (\<Sum>k\<in>fset (fmdom p) - {n}. ?f k)"
    by (simp add: comp_def sum_list_distinct_conv_sum_set sorted_list_of_fset.rep_eq set_diff_eq)
  moreover have "spent_by (fmupd n e p) = total_spent (me_tx e) + (\<Sum>k\<in>fset (fmdom p) - {n}. ?f k)"
  proof -
    have "spent_by (fmupd n e p) = (\<Sum>k\<in>insert n (fset (fmdom p)). total_spent (me_tx (the (fmlookup (fmupd n e p) k))))"
      by (simp add: spent_by_sum)
    also have "\<dots> = total_spent (me_tx e) + (\<Sum>k\<in>fset (fmdom p) - {n}. total_spent (me_tx (the (fmlookup (fmupd n e p) k))))"
      by (simp add: sum.insert_remove)
    also have "(\<Sum>k\<in>fset (fmdom p) - {n}. total_spent (me_tx (the (fmlookup (fmupd n e p) k)))) = (\<Sum>k\<in>fset (fmdom p) - {n}. ?f k)"
      by (rule sum.cong) auto
    finally show ?thesis .
  qed
  ultimately show ?thesis by simp
qed

lemma down_closed_interval:
  fixes D :: "int set"
  assumes "finite D" "D \<subseteq> {a..<b}" "\<And>x y. x \<in> D \<Longrightarrow> y \<in> {a..<b} \<Longrightarrow> y < x \<Longrightarrow> y \<in> D"
  shows "D = {a..<a + int (card D)}"
proof (cases "D = {}")
  case False
  have M: "Max D \<in> D" and le: "\<And>x. x \<in> D \<Longrightarrow> x \<le> Max D" using assms(1) False by auto
  have "x \<in> D" if "a \<le> x" "x \<le> Max D" for x
    using assms(3) [OF M, of x] that M assms(2) by (cases "x = Max D") auto
  with le assms(2) have D: "D = {a..Max D}" by auto
  have "a \<le> Max D" using M assms(2) by auto
  then have "int (card {a..Max D}) = Max D + 1 - a" by simp
  with D have c: "int (card D) = Max D + 1 - a" by metis
  have "{a..<a + int (card D)} = {a..Max D}" unfolding c by auto
  with D show ?thesis by metis
qed simp

lemma queue_ok_prefix:
  assumes "queue_ok po acc p" "spends p"
    and sub: "\<And>n e. fmlookup q n = Some e \<Longrightarrow> fmlookup p n = Some e"
    and down: "\<And>n m. n |\<in>| fmdom q \<Longrightarrow> m |\<in>| fmdom p \<Longrightarrow> m < n \<Longrightarrow> m |\<in>| fmdom q"
  shows "queue_ok po acc q"
proof -
  have dom: "fset (fmdom q) \<subseteq> fset (fmdom p)" using sub by (auto simp: fmlookup_dom_iff)
  let ?a = "acct_nonce acc"
  have p: "fset (fmdom p) = {?a ..< ?a + int (fcard (fmdom p))}" using assms(1) by (simp add: queue_ok_def)
  have "fset (fmdom q) = {?a ..< ?a + int (card (fset (fmdom q)))}"
    by (rule down_closed_interval [of _ _ "?a + int (fcard (fmdom p))"]) (use dom p down in auto)
  moreover have "spent_by q \<le> spent_by p"
  proof -
    have "spent_by q = (\<Sum>n\<in>fset (fmdom q). total_spent (me_tx (the (fmlookup p n))))"
      unfolding spent_by_sum using sub by (intro sum.cong) (auto simp: fmlookup_dom_iff)
    also have "\<dots> \<le> spent_by p"
      unfolding spent_by_sum using dom assms(2) by (intro sum_mono2) (auto simp: spends_def fmlookup_dom_iff)
    finally show ?thesis .
  qed
  moreover have "fcard (fmdom q) \<le> fcard (fmdom p)" using dom by (simp add: fcard.rep_eq card_mono)
  moreover have "fmdom q \<noteq> {||} \<Longrightarrow> fmdom p \<noteq> {||}" using dom by auto
  ultimately show ?thesis using assms(1) by (auto simp: queue_ok_def fcard.rep_eq)
qed

section \<open>The rules of the pool\<close>

definition entry_ok :: "prims \<Rightarrow> network_params \<Rightarrow> policy \<Rightarrow> mempool_entry \<Rightarrow> bool" where
  "entry_ok P N po e \<longleftrightarrow> check_transaction P N (Transfer (me_tx e)) = Inr () \<and>
     po_min_fee_per_byte po * me_size e \<le> tf_fee (me_tx e)"

definition mempool_ok :: "prims \<Rightarrow> network_params \<Rightarrow> policy \<Rightarrow> state_view \<Rightarrow> mempool \<Rightarrow> bool" where
  "mempool_ok P N po st mp \<longleftrightarrow> pool_ok P mp \<and> (\<forall>e\<in>pool mp. entry_ok P N po e) \<and>
     (\<forall>a. queue_ok po (st a) (pending_of a mp)) \<and> mp_bytes mp \<le> po_max_bytes po"

lemma entry_spends:
  assumes "entry_ok P N po e"
  shows "0 \<le> total_spent (me_tx e)"
proof -
  have "tx_amounts_ok (Transfer (me_tx e))" using assms by (auto simp: entry_ok_def intro: check_transaction_amounts)
  then have "0 \<le> tf_fee (me_tx e)" "\<forall>p\<in>set (tf_outputs (me_tx e)). 1 \<le> out_amount p" by (auto simp: tx_amounts_ok_def)
  then show ?thesis by (force simp: total_spent_def intro!: add_nonneg_nonneg sum_list_nonneg_int)
qed

lemma pending_lookup:
  "senders_ok P mp \<Longrightarrow> fmlookup (pending_of a mp) n = Some e \<longleftrightarrow> e \<in> pool mp \<and> entry_sender P e = a \<and> tf_nonce (me_tx e) = n"
  by (simp add: senders_ok_def)

lemma pending_keyed: "senders_ok P mp \<Longrightarrow> keyed (pending_of a mp)"
  by (simp add: keyed_def senders_ok_def)

lemma pending_spends: "senders_ok P mp \<Longrightarrow> \<forall>e\<in>pool mp. entry_ok P N po e \<Longrightarrow> spends (pending_of a mp)"
  using entry_spends by (fastforce simp: spends_def senders_ok_def)

lemma mempool_ok_new: "0 \<le> po_max_bytes po \<Longrightarrow> mempool_ok P N po st new_mempool"
  by (auto simp: mempool_ok_def pool_defs new_mempool_def pool_def pending_of_def paying_def last_entry_Inr)

text \<open>A pool that keeps prefixes of another one's queues keeps the rules.\<close>

lemma queues_keep:
  assumes "senders_ok P mp" "senders_ok P mp'" "keeps_prefixes P mp mp'" "\<forall>e\<in>pool mp. entry_ok P N po e"
    and "queue_ok po acc (pending_of a mp)"
  shows "queue_ok po acc (pending_of a mp')"
proof (rule queue_ok_prefix [OF assms(5) pending_spends [OF assms(1,4)]])
  show "fmlookup (pending_of a mp) n = Some e" if "fmlookup (pending_of a mp') n = Some e" for n e
    using that assms(1-3) by (auto simp: senders_ok_def keeps_prefixes_def)
  show "m |\<in>| fmdom (pending_of a mp')" if "n |\<in>| fmdom (pending_of a mp')" "m |\<in>| fmdom (pending_of a mp)" "m < n" for n m
  proof -
    from that obtain e x where e: "fmlookup (pending_of a mp') n = Some e" "fmlookup (pending_of a mp) m = Some x"
      by (auto simp: fmlookup_dom_iff)
    with assms(1-3) that(3) have "x \<in> pool mp'"
      by (auto simp: senders_ok_def keeps_prefixes_def)
    with e assms(1,2) have "fmlookup (pending_of a mp') m = Some x" by (simp add: senders_ok_def)
    then show ?thesis by (rule fmdomI)
  qed
qed

section \<open>Inserting\<close>

lemma insert_checks_queue:
  assumes "insert_checks P po acc p t = Inr ()" "queue_ok po acc p" "keyed p" "me_tx e = t"
  shows "queue_ok po acc (fmupd (tf_nonce t) e p) \<and> po_min_fee_per_byte po * tx_size (Transfer t) \<le> tf_fee t"
proof -
  let ?n = "tf_nonce t"
  have covered: "spent_by (fmupd ?n e p) \<le> balance acc" and fee: "po_min_fee_per_byte po * tx_size (Transfer t) \<le> tf_fee t"
    using assms(1) unfolding spent_by_update [OF assms(3)] assms(4)
    by (auto simp: insert_checks_def Let_def result_simps split: if_splits)
  have p: "fset (fmdom p) = {acct_nonce acc ..< acct_nonce acc + int (fcard (fmdom p))}"
    using assms(2) by (simp add: queue_ok_def)
  show ?thesis
  proof (cases "fmlookup p ?n")
    case None
    then have n: "?n = acct_nonce acc + int (fcard (fmdom p))" "int (fcard (fmdom p)) < po_max_per_sender po"
      using assms(1) by (auto simp: insert_checks_def Let_def result_simps split: if_splits)
    have "?n |\<notin>| fmdom p" using None by (simp add: fmdom_notI)
    then have card: "fcard (fmdom (fmupd ?n e p)) = Suc (fcard (fmdom p))" by (simp add: fcard_finsert_disjoint)
    define c where "c = fcard (fmdom p)"
    have "fset (fmdom (fmupd ?n e p)) = insert ?n (fset (fmdom p))" by simp
    also have "\<dots> = insert (acct_nonce acc + int c) {acct_nonce acc ..< acct_nonce acc + int c}"
      unfolding p n(1) c_def ..
    also have "\<dots> = {acct_nonce acc ..< acct_nonce acc + int (Suc c)}" by auto
    finally have "fset (fmdom (fmupd ?n e p)) = {acct_nonce acc ..< acct_nonce acc + int (Suc (fcard (fmdom p)))}"
      unfolding c_def .
    then show ?thesis using covered fee n(2) unfolding queue_ok_def card by simp
  next
    case (Some r)
    then have "fmdom (fmupd ?n e p) = fmdom p" by (auto simp: finsert_absorb fmdomI)
    moreover have "fmdom p \<noteq> {||}" using fmdomI [OF Some] by auto
    ultimately show ?thesis using covered fee assms(2) by (simp add: queue_ok_def)
  qed
qed

lemma insert_checks_Inl: "insert_checks P po acc p t = Inl x \<Longrightarrow> \<exists>code. x = ValidationError code"
  by (auto simp: insert_checks_def Let_def result_simps split: if_splits option.splits)

text \<open>The pool after the entry is put in, before room is made.\<close>

lemma put_after_replace:
  assumes "pool_ok P mp" "map_of (mp_by_id mp) (entry_id P e) = None" "me_size e = tx_size (Transfer (me_tx e))"
  shows "\<exists>mp'. rbind (case fmlookup (pending_of (entry_sender P e) mp) (tf_nonce (me_tx e)) of
       None \<Rightarrow> Inr mp | Some r \<Rightarrow> remove_entry P r mp) (put_entry P e) = Inr mp' \<and> pool_ok P mp' \<and>
     pool mp' = insert e {x \<in> pool mp. \<not> (entry_sender P x = entry_sender P e \<and> tf_nonce (me_tx x) = tf_nonce (me_tx e))} \<and>
     (\<forall>a. pending_of a mp' = (if a = entry_sender P e then fmupd (tf_nonce (me_tx e)) e (pending_of a mp) else pending_of a mp))"
proof -
  let ?s = "entry_sender P e" and ?n = "tf_nonce (me_tx e)"
  have s: "senders_ok P mp" using assms(1) by (simp add: pool_ok_def)
  have look: "fmlookup (pending_of a mp) n = Some x \<longleftrightarrow> x \<in> pool mp \<and> entry_sender P x = a \<and> tf_nonce (me_tx x) = n" for a n x
    using s by (simp add: senders_ok_def)
  have "\<exists>m. (case fmlookup (pending_of ?s mp) ?n of None \<Rightarrow> Inr mp | Some r \<Rightarrow> remove_entry P r mp) = Inr m \<and> pool_ok P m \<and>
      pool m = {x \<in> pool mp. \<not> (entry_sender P x = ?s \<and> tf_nonce (me_tx x) = ?n)} \<and> map_of (mp_by_id m) (entry_id P e) = None"
  proof (cases "fmlookup (pending_of ?s mp) ?n")
    case None
    then have "\<not> (entry_sender P x = ?s \<and> tf_nonce (me_tx x) = ?n)" if "x \<in> pool mp" for x
      using look [of ?s ?n x] that by auto
    with None assms(1,2) show ?thesis by auto
  next
    case (Some r)
    then have r: "r \<in> pool mp" "entry_sender P r = ?s" "tf_nonce (me_tx r) = ?n" using look by auto
    have "x = r \<longleftrightarrow> entry_sender P x = ?s \<and> tf_nonce (me_tx x) = ?n" if "x \<in> pool mp" for x
    proof
      assume "entry_sender P x = ?s \<and> tf_nonce (me_tx x) = ?n"
      with that have "fmlookup (pending_of ?s mp) ?n = Some x" by (simp only: look)
      with Some show "x = r" by simp
    qed (simp add: r(2,3))
    then have "pool mp - {r} = {x \<in> pool mp. \<not> (entry_sender P x = ?s \<and> tf_nonce (me_tx x) = ?n)}" by blast
    with Some remove_entry_ok [OF assms(1) r(1)] assms(2) show ?thesis
      by (auto simp: delete_conv')
  qed
  then obtain m where m: "(case fmlookup (pending_of ?s mp) ?n of None \<Rightarrow> Inr mp | Some r \<Rightarrow> remove_entry P r mp) = Inr m"
    "pool_ok P m" "pool m = {x \<in> pool mp. \<not> (entry_sender P x = ?s \<and> tf_nonce (me_tx x) = ?n)}"
    "map_of (mp_by_id m) (entry_id P e) = None" by blast
  have "fmlookup (pending_of ?s m) ?n = None"
    using m(2,3) by (cases "fmlookup (pending_of ?s m) ?n") (auto simp: pool_ok_def senders_ok_def)
  from put_entry_ok [OF m(2,4) this assms(3)] obtain mp' where mp': "put_entry P e m = Inr mp'" "pool_ok P mp'"
    "pool mp' = insert e (pool m)" by blast
  have "fmlookup (pending_of a mp') n = fmlookup (if a = ?s then fmupd ?n e (pending_of a mp) else pending_of a mp) n" for a n
  proof -
    have l: "fmlookup (pending_of a mp') n = Some x \<longleftrightarrow> x \<in> pool mp' \<and> entry_sender P x = a \<and> tf_nonce (me_tx x) = n" for x
      using mp'(2) by (simp add: pool_ok_def senders_ok_def)
    have "fmlookup (pending_of a mp') n = Some x \<longleftrightarrow>
        fmlookup (if a = ?s then fmupd ?n e (pending_of a mp) else pending_of a mp) n = Some x" for x
      unfolding l mp'(3) m(3) using look by auto
    then show ?thesis by (metis not_Some_eq)
  qed
  then have "\<forall>a. pending_of a mp' = (if a = ?s then fmupd ?n e (pending_of a mp) else pending_of a mp)"
    by (auto intro!: fmap_ext)
  with m(1,3) mp' show ?thesis by auto
qed

text \<open>What \<open>_insert\<close> gives its caller: the entry, which is in the pool, or a \<open>ValidationError\<close>.\<close>

definition insert_outcome :: "transfer \<Rightarrow> mempool_entry result \<Rightarrow> mempool \<Rightarrow> bool" where
  "insert_outcome t r mp = (case r of Inl x \<Rightarrow> \<exists>code. x = ValidationError code | Inr e \<Rightarrow> me_tx e = t \<and> e \<in> pool mp)"

lemma insert_transfer_ok:
  assumes "mempool_ok P N po st mp" "0 \<le> po_max_bytes po"
    and "map_of (mp_by_id mp) (txid P (Transfer t)) = None" "check_transaction P N (Transfer t) = Inr ()"
  shows "\<exists>r mp'. insert_transfer P po st t added mp = Inr (r, mp') \<and> mempool_ok P N po st mp' \<and> insert_outcome t r mp' \<and>
     (\<forall>e\<in>pool mp'. e \<in> pool mp \<or> me_tx e = t)"
proof (cases "insert_checks P po (st (sender P t)) (pending_of (sender P t) mp) t")
  case (Inl x)
  with insert_checks_Inl [OF Inl] assms(1) show ?thesis
    by (auto simp: insert_transfer_def Let_def insert_outcome_def)
next
  case (Inr u)
  define e where "e = \<lparr>me_tx = t, me_size = tx_size (Transfer t), me_added = added\<rparr>"
  have e: "me_tx e = t" "me_size e = tx_size (Transfer t)" "entry_sender P e = sender P t" "entry_id P e = txid P (Transfer t)"
    by (simp_all add: e_def entry_sender_def entry_id_def)
  have ok: "pool_ok P mp" "\<forall>e\<in>pool mp. entry_ok P N po e" "\<forall>a. queue_ok po (st a) (pending_of a mp)"
    using assms(1) by (simp_all add: mempool_ok_def)
  have s: "senders_ok P mp" using ok(1) by (simp add: pool_ok_def)
  have "map_of (mp_by_id mp) (entry_id P e) = None" "me_size e = tx_size (Transfer (me_tx e))" using assms(3) e by simp_all
  from put_after_replace [OF ok(1) this] obtain m where
    m: "rbind (case fmlookup (pending_of (sender P t) mp) (tf_nonce t) of None \<Rightarrow> Inr mp | Some r \<Rightarrow> remove_entry P r mp)
          (put_entry P e) = Inr m" "pool_ok P m" "pool m \<subseteq> insert e (pool mp)" "e \<in> pool m"
      "\<forall>a. pending_of a m = (if a = sender P t then fmupd (tf_nonce t) e (pending_of a mp) else pending_of a mp)"
    unfolding e by blast
  have queue: "queue_ok po (st (sender P t)) (fmupd (tf_nonce t) e (pending_of (sender P t) mp))"
      and fee: "po_min_fee_per_byte po * tx_size (Transfer t) \<le> tf_fee t"
    using insert_checks_queue [OF _ _ pending_keyed [OF s] e(1)] Inr ok(3) by auto
  have em: "\<forall>x\<in>pool m. entry_ok P N po x" using ok(2) m(3) fee assms(4) by (auto simp: entry_ok_def e)
  have qm: "\<forall>a. queue_ok po (st a) (pending_of a m)" using ok(3) queue m(5) by simp
  from trim_to_size_ok [OF m(2) assms(2)] obtain mp' where
    mp': "trim_to_size P po m = Inr mp'" "pool_ok P mp'" "mp_bytes mp' \<le> po_max_bytes po" "keeps_prefixes P m mp'" by blast
  have sm: "senders_ok P m" "senders_ok P mp'" "ids_ok P mp'" using m(2) mp'(2) by (simp_all add: pool_ok_def)
  have sub: "pool mp' \<subseteq> pool m" using mp'(4) by (simp add: keeps_prefixes_def)
  have good: "mempool_ok P N po st mp'"
    using mp'(2,3) em sub qm queues_keep [OF sm(1,2) mp'(4) em] by (auto simp: mempool_ok_def)
  let ?r = "if map_of (mp_by_id mp') (entry_id P e) = None then Inl (ValidationError ''mempool-full'') else Inr e"
  have "insert_transfer P po st t added mp
      = rbind (rbind (case fmlookup (pending_of (sender P t) mp) (tf_nonce t) of None \<Rightarrow> Inr mp | Some r \<Rightarrow> remove_entry P r mp)
          (put_entry P e)) (\<lambda>mp. rbind (trim_to_size P po mp) (\<lambda>mp.
            Inr (if map_of (mp_by_id mp) (entry_id P e) = None then Inl (ValidationError ''mempool-full'') else Inr e, mp)))"
    using Inr unfolding insert_transfer_def Let_def e_def [symmetric] rbind_assoc by simp
  then have run: "insert_transfer P po st t added mp = Inr (?r, mp')" unfolding m(1) by (simp add: mp'(1))
  have "insert_outcome t ?r mp'"
  proof (cases "map_of (mp_by_id mp') (entry_id P e)")
    case (Some x)
    have "x \<in> pool m" using pool_by_id [OF sm(3) Some] sub by auto
    moreover have "ids_ok P m" using m(2) by (simp add: pool_ok_def)
    moreover have "entry_id P x = entry_id P e" using pool_by_id [OF sm(3) Some] by simp
    ultimately have "x = e" using m(4) by (intro same_id)
    then have "e \<in> pool mp'" using pool_by_id [OF sm(3) Some] by blast
    with Some e(1) show ?thesis by (simp add: insert_outcome_def)
  qed (simp add: insert_outcome_def)
  moreover have "\<forall>x\<in>pool mp'. x \<in> pool mp \<or> me_tx x = t" using sub m(3) e(1) by auto
  ultimately show ?thesis using run good by blast
qed

lemma add_keeps_all:
  assumes "mempool_ok P N po st mp" and "0 \<le> po_max_bytes po" and "tx_fits tx"
  shows "\<exists>r mp'. add P N po st now tx mp = Inr (r, mp') \<and> mempool_ok P N po st mp' \<and>
     (case r of Inl x \<Rightarrow> \<exists>code. x = ValidationError code | Inr e \<Rightarrow> tx = Transfer (me_tx e) \<and> e \<in> pool mp') \<and>
     (\<forall>e\<in>pool mp'. e \<in> pool mp \<or> Transfer (me_tx e) = tx)"
proof (cases tx)
  case (Transfer t)
  show ?thesis
  proof (cases "map_of (mp_by_id mp) (txid P tx)")
    case None
    show ?thesis
    proof (cases "check_transaction P N tx")
      case (Inl x)
      with None Transfer assms(1) check_transaction_Inl [OF Inl assms(3)] show ?thesis by (auto simp: add_def)
    next
      case (Inr u)
      with insert_transfer_ok [OF assms(1,2), of t now] None Transfer show ?thesis
        by (fastforce simp: add_def insert_outcome_def split: sum.splits)
    qed
  qed (use assms(1) Transfer in \<open>auto simp: add_def\<close>)
qed (use assms(1) in \<open>auto simp: add_def\<close>)

text \<open>C28. Accepting transfers keeps the mempool's rules: whatever decoded transaction
  is offered, \<open>add\<close> returns the entry, which is
  then in the pool, or raises a ValidationError and nothing else, and afterwards the indexes agree, every
  sender's waiting nonces still follow on from its account without a gap, its balance covers them all, every
  waiting transfer is checked and pays its way, and the pool is within its size.\<close>

theorem add_keeps_rules:
  assumes "mempool_ok P N po st mp" and "0 \<le> po_max_bytes po" and "tx_fits tx"
  shows "\<exists>r mp'. add P N po st now tx mp = Inr (r, mp') \<and> mempool_ok P N po st mp' \<and>
     (case r of Inl x \<Rightarrow> \<exists>code. x = ValidationError code | Inr e \<Rightarrow> tx = Transfer (me_tx e) \<and> e \<in> pool mp')"
  using add_keeps_all [OF assms, of now] by blast

section \<open>Removing many\<close>

lemma pool_bytes:
  assumes "pool_ok P mp"
  shows "mp_bytes mp = (\<Sum>e\<in>pool mp. me_size e)"
proof -
  have ok: "ids_ok P mp" "bytes_ok mp" using assms by (simp_all add: pool_ok_def)
  have key: "fst x = entry_id P (snd x)" if "x \<in> set (mp_by_id mp)" for x
    using that ok(1) unfolding ids_ok_def by (auto simp: case_prod_beta)
  have "inj_on snd (set (mp_by_id mp))"
    by (rule inj_onI) (simp add: prod_eq_iff key)
  then have "(\<Sum>e\<in>pool mp. me_size e) = (\<Sum>x\<in>set (mp_by_id mp). me_size (snd x))"
    unfolding pool_def by (simp add: sum.reindex)
  also have "\<dots> = sum_list (map (\<lambda>x. me_size (snd x)) (mp_by_id mp))"
    using ok(1) by (simp add: sum_list_distinct_conv_sum_set ids_ok_def distinct_map)
  finally show ?thesis using ok(2) by (simp add: bytes_ok_def case_prod_unfold)
qed

lemma finite_pool [simp]: "finite (pool mp)"
  by (simp add: pool_def)

lemma smaller_pool_bytes:
  assumes "pool_ok P mp" "pool_ok P mp'" "pool mp' \<subseteq> pool mp"
  shows "mp_bytes mp' \<le> mp_bytes mp"
proof -
  have "0 \<le> me_size e" if "e \<in> pool mp" for e
    using that assms(1) by (auto simp: pool_ok_def ids_ok_def pool_def tx_size_nonneg)
  then show ?thesis unfolding pool_bytes [OF assms(1)] pool_bytes [OF assms(2)]
    by (intro sum_mono2) (use assms(3) in auto)
qed

lemma pending_for_set: "senders_ok P mp \<Longrightarrow> set (pending_for a mp) = {e \<in> pool mp. entry_sender P e = a}"
  by (auto simp: pending_for_def in_order_set senders_ok_def)

lemma pending_for_sorted:
  assumes "senders_ok P mp"
  shows "sorted_wrt (\<lambda>x y. tf_nonce (me_tx x) < tf_nonce (me_tx y)) (pending_for a mp)"
proof -
  let ?p = "pending_of a mp"
  have key: "tf_nonce (me_tx (the (fmlookup ?p k))) = k" if "k |\<in>| fmdom ?p" for k
    using that pending_keyed [OF assms] by (auto simp: keyed_def fmlookup_dom_iff)
  have "sorted_wrt (<) (sorted_list_of_fset (fmdom ?p))" by (simp add: sorted_list_of_fset.rep_eq)
  then have "sorted_wrt (\<lambda>x y. tf_nonce (me_tx (the (fmlookup ?p x))) < tf_nonce (me_tx (the (fmlookup ?p y))))
      (sorted_list_of_fset (fmdom ?p))"
    by (rule sorted_wrt_mono_rel [rotated]) (simp add: key)
  then show ?thesis unfolding pending_for_def in_order_def by (simp add: sorted_wrt_map)
qed

lemma pending_for_distinct:
  assumes "senders_ok P mp"
  shows "distinct (pending_for a mp)"
proof -
  have "sorted_wrt (\<lambda>x y. x \<noteq> y) (pending_for a mp)"
    by (rule sorted_wrt_mono_rel [OF _ pending_for_sorted [OF assms]]) auto
  then show ?thesis by (simp add: distinct_conv_nth sorted_wrt_iff_nth_less) (metis linorder_neqE_nat)
qed

text \<open>Removing a list of entries beside another piece of state.\<close>

lemma remove_all:
  assumes "pool_ok P mp" "distinct es" "set es \<subseteq> pool mp"
  shows "\<exists>mp'. for_each (\<lambda>e (c, mp). rbind (remove_entry P e mp) (\<lambda>mp. Inr (f e c, mp))) es (c, mp)
       = Inr (fold f es c, mp') \<and> pool_ok P mp' \<and> pool mp' = pool mp - set es"
  using assms
proof (induction es arbitrary: c mp)
  case (Cons e es)
  from remove_entry_ok [OF Cons.prems(1), of e] Cons.prems(3) obtain m where
    m: "remove_entry P e mp = Inr m" "pool_ok P m" "pool m = pool mp - {e}" by auto
  have "set es \<subseteq> pool m" using Cons.prems(2,3) m(3) by auto
  from Cons.IH [OF m(2) _ this, of "f e c"] Cons.prems(2) obtain mp' where
    "for_each (\<lambda>e (c, mp). rbind (remove_entry P e mp) (\<lambda>mp. Inr (f e c, mp))) es (f e c, m) = Inr (fold f es (f e c), mp')"
    "pool_ok P mp'" "pool mp' = pool m - set es" by auto
  with m show ?case by auto
qed auto

lemma take_sender_ok:
  assumes "pool_ok P mp"
  shows "\<exists>c' mp'. take_sender P a (c, mp) = Inr (c', mp') \<and> pool_ok P mp' \<and>
     pool mp' = {e \<in> pool mp. entry_sender P e \<noteq> a} \<and> set c' = set c \<union> {(me_tx e, me_added e) | e. e \<in> pool mp \<and> entry_sender P e = a}"
proof -
  have s: "senders_ok P mp" using assms by (simp add: pool_ok_def)
  let ?f = "\<lambda>(e :: mempool_entry) c. c @ [(me_tx e, me_added e)]"
  have set: "set (pending_for a mp) = {e \<in> pool mp. entry_sender P e = a}" by (rule pending_for_set [OF s])
  have "fold ?f es c = c @ map (\<lambda>e. (me_tx e, me_added e)) es" for es c by (induction es arbitrary: c) auto
  then have "set (fold ?f (pending_for a mp) c) = set c \<union> {(me_tx e, me_added e) | e. e \<in> pool mp \<and> entry_sender P e = a}"
    by (auto simp: set)
  moreover have "pool mp - set (pending_for a mp) = {e \<in> pool mp. entry_sender P e \<noteq> a}" by (auto simp: set)
  moreover have "set (pending_for a mp) \<subseteq> pool mp" by (auto simp: set)
  ultimately show ?thesis
    using remove_all [OF assms pending_for_distinct [OF s, of a], where f = ?f and c = c] unfolding take_sender_def snd_conv by auto
qed

lemma take_senders_ok:
  assumes "pool_ok P mp"
  shows "\<exists>c' mp'. for_each (take_sender P) as (c, mp) = Inr (c', mp') \<and> pool_ok P mp' \<and>
     pool mp' = {e \<in> pool mp. entry_sender P e \<notin> set as} \<and>
     set c' = set c \<union> {(me_tx e, me_added e) | e. e \<in> pool mp \<and> entry_sender P e \<in> set as}"
  using assms
proof (induction as arbitrary: c mp)
  case (Cons a as)
  from take_sender_ok [OF Cons.prems, of a c] obtain c1 m where
    m: "take_sender P a (c, mp) = Inr (c1, m)" "pool_ok P m" "pool m = {e \<in> pool mp. entry_sender P e \<noteq> a}"
      "set c1 = set c \<union> {(me_tx e, me_added e) | e. e \<in> pool mp \<and> entry_sender P e = a}" by blast
  from Cons.IH [OF m(2), of c1] obtain c' mp' where
    r: "for_each (take_sender P) as (c1, m) = Inr (c', mp')" "pool_ok P mp'"
      "pool mp' = {e \<in> pool m. entry_sender P e \<notin> set as}"
      "set c' = set c1 \<union> {(me_tx e, me_added e) | e. e \<in> pool m \<and> entry_sender P e \<in> set as}" by blast
  have "for_each (take_sender P) (a # as) (c, mp) = Inr (c', mp')" using m(1) r(1) by simp
  moreover have "pool mp' = {e \<in> pool mp. entry_sender P e \<notin> set (a # as)}" unfolding r(3) m(3) by auto
  moreover have "set c' = set c \<union> {(me_tx e, me_added e) | e. e \<in> pool mp \<and> entry_sender P e \<in> set (a # as)}"
    unfolding r(4) m(3,4) by auto
  ultimately show ?case using r(2) by blast
qed auto

section \<open>Following the chain\<close>

lemma queue_ok_quiet:
  assumes "queue_ok po acc p" "acct_nonce acc' = acct_nonce acc" "balance acc \<le> balance acc'"
  shows "queue_ok po acc' p"
  using assms by (auto simp: queue_ok_def)

lemma reinserts_ok:
  assumes "mempool_ok P N po st mp" "0 \<le> po_max_bytes po" "\<forall>(t, added)\<in>set cs. check_transaction P N (Transfer t) = Inr ()"
  shows "\<exists>mp'. for_each (reinsert P po st confirmed) cs mp = Inr mp' \<and> mempool_ok P N po st mp' \<and>
     (\<forall>e\<in>pool mp'. e \<in> pool mp \<or> entry_id P e \<notin> confirmed)"
  using assms(1,3)
proof (induction cs arbitrary: mp)
  case (Cons c cs)
  obtain t added where c: "c = (t, added)" by (cases c)
  have "\<exists>m. reinsert P po st confirmed c mp = Inr m \<and> mempool_ok P N po st m \<and>
      (\<forall>e\<in>pool m. e \<in> pool mp \<or> entry_id P e \<notin> confirmed)"
  proof (cases "txid P (Transfer t) \<in> confirmed \<or> map_of (mp_by_id mp) (txid P (Transfer t)) \<noteq> None")
    case False
    with Cons.prems c obtain r m where "insert_transfer P po st t added mp = Inr (r, m)" "mempool_ok P N po st m"
        "\<forall>e\<in>pool m. e \<in> pool mp \<or> me_tx e = t"
      using insert_transfer_ok [OF Cons.prems(1) assms(2), of t added] by auto
    with False c show ?thesis by (fastforce simp: reinsert_def entry_id_def)
  qed (use Cons.prems(1) c in \<open>auto simp: reinsert_def\<close>)
  then obtain m where m: "reinsert P po st confirmed c mp = Inr m" "mempool_ok P N po st m"
      "\<forall>e\<in>pool m. e \<in> pool mp \<or> entry_id P e \<notin> confirmed" by blast
  from Cons.IH [OF m(2)] Cons.prems(2) m show ?case by fastforce
qed auto

text \<open>An account that sends nothing in a block keeps its nonce, and its balance does not fall.\<close>

definition quiet :: "ledger \<Rightarrow> ledger \<Rightarrow> bytes \<Rightarrow> bool" where
  "quiet L L' a \<longleftrightarrow> acct_nonce (L' a) = acct_nonce (L a) \<and> balance (L a) \<le> balance (L' a)"

lemma quiet_refl [simp]: "quiet L L a"
  by (simp add: quiet_def)

lemma quiet_trans: "quiet L M a \<Longrightarrow> quiet M K a \<Longrightarrow> quiet L K a"
  by (simp add: quiet_def)

lemma quiet_credit: "ledger_credit b x L = Inr L' \<Longrightarrow> 0 \<le> x \<Longrightarrow> quiet L L' a"
  by (auto simp: ledger_credit_def quiet_def split: if_splits)

lemma quiet_pays: "for_each ledger_pay ps L = Inr L' \<Longrightarrow> \<forall>p\<in>set ps. 0 \<le> out_amount p \<Longrightarrow> quiet L L' a"
  by (erule for_each_invariant [where I = "\<lambda>M. quiet L M a"])
     (auto simp: ledger_pay_def intro: quiet_trans quiet_credit)

lemma quiet_transfer:
  assumes "ledger_transfer P t L = Inr L'" "\<forall>p\<in>set (tf_outputs t). 0 \<le> out_amount p" "a \<noteq> sender P t"
  shows "quiet L L' a"
proof -
  let ?M = "L(sender P t := \<lparr>balance = balance (L (sender P t)) - total_spent t, acct_nonce = acct_nonce (L (sender P t)) + 1\<rparr>)"
  have "for_each ledger_pay (tf_outputs t) ?M = Inr L'"
    using assms(1) by (auto simp: ledger_transfer_def Let_def split: if_splits)
  from quiet_pays [OF this assms(2), of a] show ?thesis using assms(3) by (simp add: quiet_def)
qed

definition pays_nothing_negative :: "transfer list \<Rightarrow> bool" where
  "pays_nothing_negative ts \<longleftrightarrow> (\<forall>t\<in>set ts. \<forall>p\<in>set (tf_outputs t). 0 \<le> out_amount p)"

lemma quiet_block:
  assumes "ledger_block P m ts L = Inr L'" "0 \<le> matured_amount m" "pays_nothing_negative ts" "a \<notin> sender P ` set ts"
  shows "quiet L L' a"
proof -
  from assms(1) obtain M where M: "ledger_mature m L = Inr M" "for_each (ledger_transfer P) ts M = Inr L'"
    by (auto simp: ledger_block_def result_simps)
  have "quiet L M a" using M(1) assms(2) by (auto simp: ledger_mature_def matured_amount_def quiet_credit split: option.splits)
  moreover have "quiet M L' a"
  proof (rule for_each_invariant [OF M(2), where I = "\<lambda>K. quiet M K a"])
    fix t K K'
    assume t: "t \<in> set ts" and run: "ledger_transfer P t K = Inr K'" and q: "quiet M K a"
    have "quiet K K' a" by (rule quiet_transfer [OF run]) (use t assms(3,4) in \<open>auto simp: pays_nothing_negative_def\<close>)
    with q show "quiet M K' a" by (rule quiet_trans)
  qed simp
  ultimately show ?thesis by (rule quiet_trans)
qed

text \<open>A ledger that a list of blocks, each with the coinbase that matures with it, leads to.\<close>

definition ledger_step :: "prims \<Rightarrow> coinbase option \<times> block \<Rightarrow> ledger \<Rightarrow> ledger result" where
  "ledger_step P mb L = ledger_block P (fst mb) (transfers_in (snd mb)) L"

lemma quiet_blocks:
  assumes "for_each (ledger_step P) mbs L = Inr L'" "\<forall>(m, b)\<in>set mbs. 0 \<le> matured_amount m \<and> pays_nothing_negative (transfers_in b)"
    and "\<forall>(m, b)\<in>set mbs. a \<notin> sender P ` set (transfers_in b)"
  shows "quiet L L' a"
proof (rule for_each_invariant [OF assms(1), where I = "\<lambda>K. quiet L K a"])
  fix mb K K'
  assume mb: "mb \<in> set mbs" and run: "ledger_step P mb K = Inr K'" and q: "quiet L K a"
  obtain m b where e: "mb = (m, b)" by (cases mb)
  have "quiet K K' a"
    by (rule quiet_block [OF run [unfolded ledger_step_def e fst_conv snd_conv]]) (use mb e assms(2,3) in auto)
  with q show "quiet L K' a" by (rule quiet_trans)
qed simp

definition valid_body :: "prims \<Rightarrow> network_params \<Rightarrow> block \<Rightarrow> bool" where
  "valid_body P N b \<longleftrightarrow> (\<exists>cb ts. transactions b = Coinbase cb # map Transfer ts) \<and>
     (\<forall>t\<in>set (transfers_in b). check_transaction P N (Transfer t) = Inr ())"

lemma transfers_in_body: "transactions b = Coinbase cb # map Transfer ts \<Longrightarrow> transfers_in b = ts"
proof -
  have "List.map_filter (\<lambda>tx. case tx of Transfer t \<Rightarrow> Some t | Coinbase _ \<Rightarrow> None) (map Transfer ts) = ts"
    by (induction ts) (simp_all add: List.map_filter_simps)
  then show "transactions b = Coinbase cb # map Transfer ts \<Longrightarrow> transfers_in b = ts" by (simp add: transfers_in_def)
qed

lemma valid_body_nonneg: "valid_body P N b \<Longrightarrow> pays_nothing_negative (transfers_in b)"
  using check_transaction_amounts [of P N "Transfer _"]
  by (fastforce simp: valid_body_def pays_nothing_negative_def tx_amounts_ok_def)

lemma affected_senders_ok:
  assumes "\<forall>b\<in>set joined. valid_body P N b"
  shows "\<exists>as. affected_senders P joined [] mp = Inr as \<and> set as = (\<Union>b\<in>set joined. sender P ` set (transfers_in b))"
proof -
  have tl: "tl (transactions b) = map Transfer (transfers_in b)" if "b \<in> set joined" for b
    using that assms transfers_in_body by (auto simp: valid_body_def)
  let ?txs = "concat (map (\<lambda>b. tl (transactions b)) joined)"
  have txs: "?txs = map Transfer (concat (map transfers_in joined))"
    using tl by (simp add: map_concat comp_def cong: map_cong)
  have "map_each (\<lambda>tx. case tx of Transfer t \<Rightarrow> Inr (sender P t) | Coinbase _ \<Rightarrow> Inl AttributeError) ?txs
      = Inr (map (\<lambda>tx. case tx of Transfer t \<Rightarrow> sender P t | Coinbase _ \<Rightarrow> []) ?txs)"
    unfolding txs by (rule map_each_all_Inr) auto
  then show ?thesis by (auto simp: affected_senders_def txs)
qed

lemma affected_senders_cover:
  assumes "pool_ok P mp" "\<forall>b\<in>set joined. valid_body P N b"
  shows "\<exists>as. affected_senders P joined undone mp = Inr as \<and>
     (undone \<noteq> [] \<longrightarrow> (\<forall>e\<in>pool mp. entry_sender P e \<in> set as)) \<and>
     (undone = [] \<longrightarrow> set as = (\<Union>b\<in>set joined. sender P ` set (transfers_in b)))"
proof (cases "undone = []")
  case True
  with affected_senders_ok [of joined P N mp] assms(2) show ?thesis by auto
next
  case False
  have s: "senders_ok P mp" using assms(1) by (simp add: pool_ok_def)
  have "entry_sender P e |\<in>| fmdom (mp_by_sender mp)" if "e \<in> pool mp" for e
    using some_last [OF s that] by (cases "fmlookup (mp_by_sender mp) (entry_sender P e)")
       (auto simp: pending_of_def last_entry_Inr fmdomI)
  with False show ?thesis by (auto simp: affected_senders_def)
qed

text \<open>Without the senders taken out, every queue is empty or what it was.\<close>

lemma pending_without:
  assumes "senders_ok P mp" "senders_ok P m" "pool m = {e \<in> pool mp. entry_sender P e \<notin> A}"
  shows "pending_of a m = (if a \<in> A \<or> (\<forall>e\<in>pool mp. entry_sender P e \<noteq> a) then fmempty else pending_of a mp)"
proof (rule fmap_ext)
  fix n
  have eq: "fmlookup (pending_of a m) n = Some e \<longleftrightarrow> a \<notin> A \<and> fmlookup (pending_of a mp) n = Some e" for e
    unfolding pending_lookup [OF assms(1)] pending_lookup [OF assms(2)] assms(3) by blast
  have "fmlookup (pending_of a m) n = (if a \<in> A then None else fmlookup (pending_of a mp) n)"
    using eq [of "the (fmlookup (pending_of a m) n)"] eq [of "the (fmlookup (pending_of a mp) n)"]
    by (cases "fmlookup (pending_of a m) n"; cases "fmlookup (pending_of a mp) n") auto
  moreover have "fmlookup (pending_of a mp) n = None" if "\<forall>e\<in>pool mp. entry_sender P e \<noteq> a"
    using that pending_lookup [OF assms(1), of a n] by (cases "fmlookup (pending_of a mp) n") auto
  ultimately show "fmlookup (pending_of a m) n =
      fmlookup (if a \<in> A \<or> (\<forall>e\<in>pool mp. entry_sender P e \<noteq> a) then fmempty else pending_of a mp) n"
    by simp
qed

text \<open>After blocks that only extend the chain, the accounts of all other senders are quiet.\<close>

lemma quiet_after_blocks:
  assumes "\<forall>b\<in>set joined. valid_body P N b" "\<forall>m\<in>set ms. 0 \<le> matured_amount m"
    and "for_each (ledger_step P) (zip ms joined) st = Inr st'" "a \<notin> (\<Union>b\<in>set joined. sender P ` set (transfers_in b))"
  shows "quiet st st' a"
proof (rule quiet_blocks [OF assms(3)])
  show "\<forall>(m, b)\<in>set (zip ms joined). 0 \<le> matured_amount m \<and> pays_nothing_negative (transfers_in b)"
    using assms(1,2) by (auto dest: set_zip_leftD set_zip_rightD intro: valid_body_nonneg [of P N])
  show "\<forall>(m, b)\<in>set (zip ms joined). a \<notin> sender P ` set (transfers_in b)"
    using assms(4) by (fastforce dest: set_zip_rightD)
qed

lemma confirmed_body: "valid_body P N b \<Longrightarrow> b \<in> set joined \<Longrightarrow> me_tx e \<in> set (transfers_in b) \<Longrightarrow>
    entry_id P e \<in> confirmed_ids P joined"
  using transfers_in_body [of b] by (force simp: valid_body_def confirmed_ids_def entry_id_def)

text \<open>C29. The mempool follows the chain.  When blocks are connected or undone, \<open>update\<close> returns without
  raising and the rules hold again against the new tip: after blocks that only extend the chain it is
  enough to look at the senders in them, because every other account keeps its nonce and never loses
  money; after a reorganisation everything is checked again.  No transfer of a connected block waits
  any longer.\<close>

theorem update_follows_chain:
  assumes "mempool_ok P N po st mp" and "0 \<le> po_max_bytes po"
    and "\<forall>b\<in>set joined \<union> set undone. valid_body P N b"
    and "undone = [] \<Longrightarrow> length ms = length joined \<and> (\<forall>m\<in>set ms. 0 \<le> matured_amount m) \<and>
           for_each (ledger_step P) (zip ms joined) st = Inr st'"
  shows "\<exists>waiting mp'. update_pool P po st' now joined undone mp = Inr (waiting, mp') \<and> mempool_ok P N po st' mp' \<and>
     (\<forall>e\<in>pool mp'. \<forall>b\<in>set joined. me_tx e \<notin> set (transfers_in b))"
proof -
  let ?confirmed = "confirmed_ids P joined" and ?returned = "returning_transfers P joined undone"
  have ok: "pool_ok P mp" "\<forall>e\<in>pool mp. entry_ok P N po e" "\<forall>a. queue_ok po (st a) (pending_of a mp)"
      "mp_bytes mp \<le> po_max_bytes po" using assms(1) by (simp_all add: mempool_ok_def)
  from affected_senders_cover [OF ok(1)] assms(3) obtain as where
    as: "affected_senders P joined undone mp = Inr as" "undone \<noteq> [] \<Longrightarrow> \<forall>e\<in>pool mp. entry_sender P e \<in> set as"
      "undone = [] \<Longrightarrow> set as = (\<Union>b\<in>set joined. sender P ` set (transfers_in b))" by (metis UnI1)
  from take_senders_ok [OF ok(1), of as "map (\<lambda>t. (t, now)) ?returned"] obtain c m where
    m: "for_each (take_sender P) as (map (\<lambda>t. (t, now)) ?returned, mp) = Inr (c, m)" "pool_ok P m"
      "pool m = {e \<in> pool mp. entry_sender P e \<notin> set as}"
      "set c = set (map (\<lambda>t. (t, now)) ?returned) \<union> {(me_tx e, me_added e) | e. e \<in> pool mp \<and> entry_sender P e \<in> set as}" by blast
  have s: "senders_ok P mp" and sm: "senders_ok P m" using ok(1) m(2) by (simp_all add: pool_ok_def)
  have "queue_ok po (st' a) (pending_of a m)" for a
  proof (cases "a \<in> set as \<or> (\<forall>e\<in>pool mp. entry_sender P e \<noteq> a)")
    case False
    then have u: "undone = []" using as(2) by blast
    have "quiet st st' a" by (rule quiet_after_blocks) (use assms(3,4) u as(3) False in auto)
    then show ?thesis using queue_ok_quiet [of po "st a" "pending_of a mp" "st' a"] ok(3) False
      by (simp add: quiet_def pending_without [OF s sm m(3)])
  qed (simp add: pending_without [OF s sm m(3)])
  then have good: "mempool_ok P N po st' m"
    using m(2,3) ok(2,4) smaller_pool_bytes [OF ok(1) m(2)] by (auto simp: mempool_ok_def)
  let ?cs = "sort_key (\<lambda>c. (sender P (fst c), tf_nonce (fst c))) c"
  have "\<forall>t\<in>set ?returned. check_transaction P N (Transfer t) = Inr ()"
    using assms(3) by (auto simp: returning_transfers_def valid_body_def)
  then have "\<forall>(t, added)\<in>set ?cs. check_transaction P N (Transfer t) = Inr ()"
    using ok(2) by (auto simp: m(4) entry_ok_def)
  from reinserts_ok [OF good assms(2) this, of ?confirmed] obtain mp' where
    mp': "for_each (reinsert P po st' ?confirmed) ?cs m = Inr mp'" "mempool_ok P N po st' mp'"
      "\<forall>e\<in>pool mp'. e \<in> pool m \<or> entry_id P e \<notin> ?confirmed" by blast
  have "me_tx e \<notin> set (transfers_in b)" if "e \<in> pool mp'" "b \<in> set joined" for e b
    using confirmed_body [of P N b joined e] assms(3) mp'(3) that m(3) as(2,3)
    by (cases "undone = []") (auto simp: entry_sender_def)
  moreover have "\<exists>r. update_pool P po st' now joined undone mp = Inr (r, mp')"
    unfolding update_pool_def Let_def as(1) rbind.simps m(1) split_conv mp'(1) by blast
  ultimately show ?thesis using mp'(2) by blast
qed

end
