(* ===== verification/Mempool_Select.thy ===== *)
theory Mempool_Select
  imports Mempool_Queues
begin

text \<open>
  Expiry, and what miners get: \<open>select\<close> ends, stays within the room it is given, and its transfers apply to
  the tip one after the other, so that a block of them is valid.
\<close>

section \<open>When a list of transfers applies\<close>

text \<open>The money there is bounds every balance, so that no credit of a transfer overflows.\<close>

lemma balance_le_total:
  assumes "finite A" "a \<in> A" "\<forall>b\<in>A. 0 \<le> balance (L b)"
  shows "balance (L a) \<le> total_balance A L"
  unfolding total_balance_def using assms by (intro member_le_sum) auto

lemma pays_run:
  assumes "finite A" "out_address ` set ps \<subseteq> A" "\<forall>p\<in>set ps. 0 \<le> out_amount p" "\<forall>b\<in>A. 0 \<le> balance (L b)"
    and "total_balance A L + sum_list (map out_amount ps) \<le> MAX_AMOUNT"
  shows "\<exists>L'. for_each ledger_pay ps L = Inr L' \<and> (\<forall>b\<in>A. 0 \<le> balance (L' b))"
  using assms(2-)
proof (induction ps arbitrary: L)
  case (Cons p ps)
  let ?a = "out_address p" and ?x = "out_amount p"
  let ?M = "L(?a := \<lparr>balance = balance (L ?a) + ?x, acct_nonce = acct_nonce (L ?a)\<rparr>)"
  have rest: "0 \<le> sum_list (map out_amount ps)" using Cons.prems(2) by (intro sum_list_nonneg_int) auto
  have a: "?a \<in> A" using Cons.prems(1) by simp
  then have "balance (L ?a) + ?x \<le> MAX_AMOUNT"
    using balance_le_total [OF assms(1) a Cons.prems(3)] Cons.prems(4) rest by simp
  then have step: "ledger_pay p L = Inr ?M" by (simp add: ledger_pay_def ledger_credit_def)
  have "\<forall>b\<in>A. 0 \<le> balance (?M b)" using Cons.prems(2,3) a by auto
  moreover have "total_balance A ?M + sum_list (map out_amount ps) \<le> MAX_AMOUNT"
    using Cons.prems(4) by (simp add: total_balance_update [OF assms(1) a])
  moreover have "out_address ` set ps \<subseteq> A" "\<forall>p\<in>set ps. 0 \<le> out_amount p" using Cons.prems(1,2) by auto
  ultimately obtain L' where "for_each ledger_pay ps ?M = Inr L'" "\<forall>b\<in>A. 0 \<le> balance (L' b)" using Cons.IH by blast
  then show ?case by (simp add: step del: fun_upd_apply)
qed simp

definition sent_by :: "prims \<Rightarrow> bytes \<Rightarrow> transfer list \<Rightarrow> transfer list" where
  "sent_by P a ts = filter (\<lambda>t. sender P t = a) ts"

lemma sent_by_simps [simp]:
  "sent_by P a [] = []" "sent_by P a (t # ts) = (if sender P t = a then t # sent_by P a ts else sent_by P a ts)"
  "sent_by P a (ts @ us) = sent_by P a ts @ sent_by P a us"
  by (simp_all add: sent_by_def)

lemma nonces_sent_by: "nonces_of P a ts = map tf_nonce (sent_by P a ts)"
  by (simp add: nonces_of_def sent_by_def)

definition runs_on :: "prims \<Rightarrow> ledger \<Rightarrow> transfer list \<Rightarrow> bool" where
  "runs_on P L ts \<longleftrightarrow> (\<forall>a. map tf_nonce (sent_by P a ts)
       = [acct_nonce (L a) .. acct_nonce (L a) + int (length (sent_by P a ts)) - 1] \<and>
     (sent_by P a ts \<noteq> [] \<longrightarrow> sum_list (map total_spent (sent_by P a ts)) \<le> balance (L a)))"

lemma transfer_run:
  assumes "tf_nonce t = acct_nonce (L (sender P t))" "total_spent t \<le> balance (L (sender P t))"
    and "tx_amounts_ok (Transfer t)" "finite A" "sender P t \<in> A" "out_address ` set (tf_outputs t) \<subseteq> A"
    and "\<forall>b\<in>A. 0 \<le> balance (L b)" "total_balance A L \<le> MAX_AMOUNT"
  shows "\<exists>L'. ledger_transfer P t L = Inr L' \<and> (\<forall>b\<in>A. 0 \<le> balance (L' b)) \<and> total_balance A L' \<le> MAX_AMOUNT \<and>
     (\<forall>a. a \<noteq> sender P t \<longrightarrow> quiet L L' a) \<and> acct_nonce (L' (sender P t)) = acct_nonce (L (sender P t)) + 1 \<and>
     balance (L (sender P t)) - total_spent t \<le> balance (L' (sender P t))"
proof -
  let ?s = "sender P t"
  let ?M = "L(?s := \<lparr>balance = balance (L ?s) - total_spent t, acct_nonce = acct_nonce (L ?s) + 1\<rparr>)"
  have amounts: "\<forall>p\<in>set (tf_outputs t). 0 \<le> out_amount p" "0 \<le> tf_fee t" using assms(3) by (force simp: tx_amounts_ok_def)+
  have "total_balance A ?M + sum_list (map out_amount (tf_outputs t)) \<le> MAX_AMOUNT"
    using assms(4,5,8) amounts(2) by (simp add: total_balance_update total_spent_def)
  moreover have "\<forall>b\<in>A. 0 \<le> balance (?M b)" using assms(2,7) by simp
  ultimately obtain L' where L': "for_each ledger_pay (tf_outputs t) ?M = Inr L'" "\<forall>b\<in>A. 0 \<le> balance (L' b)"
    using pays_run [OF assms(4,6) amounts(1)] by blast
  then have run: "ledger_transfer P t L = Inr L'" using assms(1,2) by (simp add: ledger_transfer_def Let_def)
  have q: "quiet ?M L' a" for a by (rule quiet_pays [OF L'(1) amounts(1)])
  have "quiet L L' a" if "a \<noteq> ?s" for a using q [of a] that by (simp add: quiet_def)
  with run L'(2) q [of ?s] ledger_transfer_total [OF run assms(4-6)] amounts(2) assms(8) show ?thesis
    by (auto simp: quiet_def)
qed

lemma transfers_run:
  assumes "runs_on P L ts" "\<forall>t\<in>set ts. tx_amounts_ok (Transfer t)"
    and "finite A" "\<forall>t\<in>set ts. sender P t \<in> A \<and> out_address ` set (tf_outputs t) \<subseteq> A"
    and "\<forall>b\<in>A. 0 \<le> balance (L b)" "total_balance A L \<le> MAX_AMOUNT"
  shows "\<exists>L'. for_each (ledger_transfer P) ts L = Inr L' \<and> (\<forall>b\<in>A. 0 \<le> balance (L' b))"
  using assms(1,2,4-)
proof (induction ts arbitrary: L)
  case (Cons t ts)
  let ?s = "sender P t"
  have s: "tf_nonce t # map tf_nonce (sent_by P ?s ts) = [acct_nonce (L ?s) .. acct_nonce (L ?s) + int (length (sent_by P ?s ts))]"
    "total_spent t + sum_list (map total_spent (sent_by P ?s ts)) \<le> balance (L ?s)"
    using spec [OF Cons.prems(1) [unfolded runs_on_def], of ?s] by (simp_all add: add.commute)
  have spent: "0 \<le> sum_list (map total_spent (sent_by P a ts))" for a
    using Cons.prems(2) by (intro sum_list_nonneg_int)
      (force simp: sent_by_def tx_amounts_ok_def total_spent_def intro!: add_nonneg_nonneg sum_list_nonneg_int)
  have n: "tf_nonce t = acct_nonce (L ?s)"
      "map tf_nonce (sent_by P ?s ts) = [acct_nonce (L ?s) + 1 .. acct_nonce (L ?s) + int (length (sent_by P ?s ts))]"
    using s(1) by (simp_all add: upto_rec1)
  from transfer_run [where P = P and t = t and L = L and A = A] n(1) s(2) spent [of ?s] Cons.prems(2-) assms(3) obtain L' where
    L': "ledger_transfer P t L = Inr L'" "\<forall>b\<in>A. 0 \<le> balance (L' b)" "total_balance A L' \<le> MAX_AMOUNT"
      "\<forall>a. a \<noteq> ?s \<longrightarrow> quiet L L' a" "acct_nonce (L' ?s) = acct_nonce (L ?s) + 1"
      "balance (L ?s) - total_spent t \<le> balance (L' ?s)" by auto
  have "runs_on P L' ts"
    unfolding runs_on_def
  proof
    fix a
    show "map tf_nonce (sent_by P a ts) = [acct_nonce (L' a) .. acct_nonce (L' a) + int (length (sent_by P a ts)) - 1] \<and>
       (sent_by P a ts \<noteq> [] \<longrightarrow> sum_list (map total_spent (sent_by P a ts)) \<le> balance (L' a))"
    proof (cases "a = ?s")
      case True
      with n(2) L'(5,6) s(2) show ?thesis by simp
    next
      case False
      with Cons.prems(1) have "map tf_nonce (sent_by P a ts) = [acct_nonce (L a) .. acct_nonce (L a) + int (length (sent_by P a ts)) - 1] \<and>
         (sent_by P a ts \<noteq> [] \<longrightarrow> sum_list (map total_spent (sent_by P a ts)) \<le> balance (L a))"
        unfolding runs_on_def by (auto dest!: spec [of _ a])
      with L'(4) False show ?thesis by (auto simp: quiet_def)
    qed
  qed
  with Cons.IH [of L'] Cons.prems(2,3) L'(1-3) show ?case by simp
qed simp

section \<open>Selecting\<close>

definition sel_ok :: "prims \<Rightarrow> state_view \<Rightarrow> mempool \<Rightarrow> int \<Rightarrow> select_key list \<times> transfer list \<times> int \<Rightarrow> bool" where
  "sel_ok P st mp room s \<longleftrightarrow> (case s of (h, chosen, used) \<Rightarrow>
     sorted h \<and> distinct (map (fst \<circ> snd) h) \<and>
     (\<forall>(r, a, n)\<in>set h. n = acct_nonce (st a) + int (length (sent_by P a chosen)) \<and> n |\<in>| fmdom (pending_of a mp)) \<and>
     set chosen \<subseteq> me_tx ` pool mp \<and>
     (\<forall>a. map tf_nonce (sent_by P a chosen) = [acct_nonce (st a) .. acct_nonce (st a) + int (length (sent_by P a chosen)) - 1]) \<and>
     used = sum_list (map (\<lambda>t. tx_size (Transfer t)) chosen) \<and> used \<le> room)"

text \<open>What is still to come: for each sender in the heap, its transfers from the next nonce on.\<close>

definition ahead :: "mempool \<Rightarrow> select_key \<Rightarrow> nat" where
  "ahead mp k = card {m \<in> fset (fmdom (pending_of (fst (snd k)) mp)). snd (snd k) \<le> m}"

definition to_come :: "mempool \<Rightarrow> select_key list \<Rightarrow> nat" where
  "to_come mp h = sum_list (map (ahead mp) h)"

lemma to_come_push: "to_come mp (heappush k h) = ahead mp k + to_come mp h"
  unfolding heappush_def to_come_def by (induction h) auto

lemma set_heappush [simp]: "set (heappush k h) = insert k (set h)"
  by (simp add: heappush_def set_insort_key)

lemma distinct_push: "distinct (map f (heappush k h)) \<longleftrightarrow> distinct (map f (k # h))"
proof -
  have "mset (map f (heappush k h)) = mset (map f (k # h))" by (simp add: heappush_def)
  then show ?thesis by (rule mset_eq_imp_distinct_iff)
qed

lemma ahead_next:
  assumes "n |\<in>| fmdom (pending_of a mp)"
  shows "ahead mp (r', a, n + 1) < ahead mp (r, a, n)" "0 < ahead mp (r, a, n)"
proof -
  let ?L = "{m \<in> fset (fmdom (pending_of a mp)). n + 1 \<le> m}" and ?R = "{m \<in> fset (fmdom (pending_of a mp)). n \<le> m}"
  have "n \<in> ?R" "n \<notin> ?L" "?L \<subseteq> ?R" using assms by auto
  then have "?L \<subset> ?R" by blast
  then show "ahead mp (r', a, n + 1) < ahead mp (r, a, n)" by (simp add: ahead_def psubset_card_mono)
  then show "0 < ahead mp (r, a, n)" by simp
qed

lemma select_step_ok:
  assumes "senders_ok P mp" "ids_ok P mp" "sel_ok P st mp room ((r, a, n) # h, chosen, used)"
  shows "\<exists>h' chosen' used'. select_step room mp ((r, a, n) # h, chosen, used) = Inl (h', chosen', used') \<and>
     sel_ok P st mp room (h', chosen', used') \<and> to_come mp h' < to_come mp ((r, a, n) # h)"
proof -
  let ?p = "pending_of a mp"
  have inv: "sorted ((r, a, n) # h)" "a \<notin> (fst \<circ> snd) ` set h" "distinct (map (fst \<circ> snd) h)"
    "n = acct_nonce (st a) + int (length (sent_by P a chosen))" "n |\<in>| fmdom ?p"
    "\<forall>(r, b, m)\<in>set h. m = acct_nonce (st b) + int (length (sent_by P b chosen)) \<and> m |\<in>| fmdom (pending_of b mp)"
    "set chosen \<subseteq> me_tx ` pool mp"
    "\<forall>a. map tf_nonce (sent_by P a chosen) = [acct_nonce (st a) .. acct_nonce (st a) + int (length (sent_by P a chosen)) - 1]"
    "used = sum_list (map (\<lambda>t. tx_size (Transfer t)) chosen)" "used \<le> room"
    using assms(3) unfolding sel_ok_def by auto
  have sh: "sorted h" using inv(1) by simp
  from inv(5) obtain e where e: "fmlookup ?p n = Some e" by (auto simp: fmlookup_dom_iff)
  have here: "e \<in> pool mp" "entry_sender P e = a" "tf_nonce (me_tx e) = n" using e pending_lookup [OF assms(1)] by auto
  have p: "fmlookup (mp_by_sender mp) a = Some ?p" using e by (auto simp: pending_of_def split: option.splits)
  have size: "me_size e = tx_size (Transfer (me_tx e))" using assms(2) here(1) by (auto simp: ids_ok_def pool_def)
  note less = ahead_next [OF inv(5)]
  show ?thesis
  proof (cases "used + me_size e > room")
    case True
    then have "select_step room mp ((r, a, n) # h, chosen, used) = Inl (h, chosen, used)"
      by (simp add: select_step_def p e)
    moreover have "sel_ok P st mp room (h, chosen, used)" using assms(3) by (simp add: sel_ok_def)
    ultimately show ?thesis using less(2) [of r] by (simp add: to_come_def)
  next
    case False
    define h' where "h' = (case fmlookup ?p (n + 1) of None \<Rightarrow> h | Some f \<Rightarrow> heappush (select_key a f) h)"
    let ?chosen = "chosen @ [me_tx e]"
    have step: "select_step room mp ((r, a, n) # h, chosen, used) = Inl (h', ?chosen, used + me_size e)"
      using False by (simp add: select_step_def p e h'_def)
    have sent: "sent_by P b ?chosen = (if b = a then sent_by P a chosen @ [me_tx e] else sent_by P b chosen)" for b
      using here(2) by (auto simp: entry_sender_def)
    have nonces: "map tf_nonce (sent_by P b ?chosen)
        = [acct_nonce (st b) .. acct_nonce (st b) + int (length (sent_by P b ?chosen)) - 1]" for b
      using inv(4,8) here(3) unfolding sent by (simp add: upto_rec2)
    have old: "m = acct_nonce (st b) + int (length (sent_by P b ?chosen)) \<and> m |\<in>| fmdom (pending_of b mp)"
      if "(q, b, m) \<in> set h" for q b m
      using that inv(2,6) unfolding sent by force
    have more: "sorted h' \<and> distinct (map (fst \<circ> snd) h') \<and> to_come mp h' < to_come mp ((r, a, n) # h) \<and>
      (\<forall>(r, b, m)\<in>set h'. m = acct_nonce (st b) + int (length (sent_by P b ?chosen)) \<and> m |\<in>| fmdom (pending_of b mp))"
    proof (cases "fmlookup ?p (n + 1)")
      case None
      then have "h' = h" by (simp add: h'_def)
      then show ?thesis using sh inv(3) less(2) [of r] old by (auto simp: to_come_def)
    next
      case (Some f)
      have f: "tf_nonce (me_tx f) = n + 1" using Some pending_lookup [OF assms(1)] by auto
      have h': "h' = heappush (- fee_rate f, a, n + 1) h" by (simp add: h'_def Some select_key_def f)
      have "sorted h'" unfolding h' using heap.items_push(2) [OF sh] .
      moreover have "distinct (map (fst \<circ> snd) h')" unfolding h' distinct_push using inv(2,3) by simp
      moreover have "to_come mp h' < to_come mp ((r, a, n) # h)"
        unfolding h' to_come_push using less(1) by (simp add: to_come_def)
      moreover have "n + 1 = acct_nonce (st a) + int (length (sent_by P a ?chosen)) \<and> n + 1 |\<in>| fmdom ?p"
        using inv(4) fmdomI [OF Some] unfolding sent by simp
      ultimately show ?thesis using old unfolding h' by (auto simp del: sent_by_simps)
    qed
    have "sel_ok P st mp room (h', ?chosen, used + me_size e)"
      unfolding sel_ok_def split_conv
      using more nonces inv(7,9) here(1) size False by (auto simp del: sent_by_simps)
    with step more show ?thesis by blast
  qed
qed

lemma select_loop:
  assumes "senders_ok P mp" "ids_ok P mp" "sel_ok P st mp room (h, chosen, used)"
  shows "\<exists>ts u. run_loop (select_step room mp) (h, chosen, used) = Inr ts \<and> sel_ok P st mp room ([], ts, u)"
  using assms(3)
proof (induction "to_come mp h" arbitrary: h chosen used rule: less_induct)
  case less
  show ?case
  proof (cases h)
    case Nil
    with less.prems show ?thesis by (subst run_loop_unfold) (auto simp: select_step_def)
  next
    case (Cons k h0)
    obtain r a n where k: "k = (r, a, n)" by (rule prod_cases3)
    from select_step_ok [OF assms(1,2) less.prems [unfolded Cons k]] obtain h' chosen' used' where
      s: "select_step room mp (h, chosen, used) = Inl (h', chosen', used')" "sel_ok P st mp room (h', chosen', used')"
        "to_come mp h' < to_come mp h" unfolding Cons k by blast
    from less.hyps [OF s(3,2)] s(1) show ?thesis by (subst run_loop_unfold) simp
  qed
qed

lemma select_starts:
  assumes "mempool_ok P N po st mp" "0 \<le> room"
  shows "\<exists>keys. map_each (\<lambda>a. rbind (first_entry (pending_of a mp)) (\<lambda>e. Inr (select_key a e)))
       (sorted_list_of_fset (fmdom (mp_by_sender mp))) = Inr keys \<and> sel_ok P st mp room (fold heappush keys [], [], 0)"
proof -
  let ?as = "sorted_list_of_fset (fmdom (mp_by_sender mp))"
  have s: "senders_ok P mp" and q: "\<forall>a. queue_ok po (st a) (pending_of a mp)"
    using assms(1) by (simp_all add: mempool_ok_def pool_ok_def)
  have first: "\<exists>e. first_entry (pending_of a mp) = Inr e \<and> tf_nonce (me_tx e) = acct_nonce (st a) \<and>
      acct_nonce (st a) |\<in>| fmdom (pending_of a mp)" if "a |\<in>| fmdom (mp_by_sender mp)" for a
  proof -
    let ?p = "pending_of a mp"
    from that obtain p where "fmlookup (mp_by_sender mp) a = Some p" by (auto simp: fmlookup_dom_iff)
    with s have ne: "fmdom ?p \<noteq> {||}" by (auto simp: pending_of_def fmdom_empty_iff senders_ok_def)
    define c where "c = fcard (fmdom ?p)"
    have dom: "fset (fmdom ?p) = {acct_nonce (st a) ..< acct_nonce (st a) + int c}" using q by (simp add: queue_ok_def c_def)
    have here: "acct_nonce (st a) |\<in>| fmdom ?p"
      using dom ne fMax_in [OF ne] by (metis atLeastLessThan_iff order.strict_trans1 order_refl)
    have "fMin (fmdom ?p) = acct_nonce (st a)"
      by (rule fMin_eqI [OF _ here]) (use dom in auto)
    moreover from here obtain e where "fmlookup ?p (acct_nonce (st a)) = Some e" by (auto simp: fmlookup_dom_iff)
    ultimately show ?thesis using ne here pending_lookup [OF s, of a] by (auto simp: first_entry_def)
  qed
  define key where "key a = (case first_entry (pending_of a mp) of Inr e \<Rightarrow> select_key a e | Inl _ \<Rightarrow> undefined)" for a
  have run: "map_each (\<lambda>a. rbind (first_entry (pending_of a mp)) (\<lambda>e. Inr (select_key a e))) ?as = Inr (map key ?as)"
    by (rule map_each_all_Inr) (use first in \<open>fastforce simp: key_def\<close>)
  have key: "fst (snd (key a)) = a \<and> snd (snd (key a)) = acct_nonce (st a) \<and> acct_nonce (st a) |\<in>| fmdom (pending_of a mp)"
    if "a |\<in>| fmdom (mp_by_sender mp)" for a
    using first [OF that] by (auto simp: key_def select_key_def)
  have built: "sorted (fold heappush (map key ?as) [])" "mset (fold heappush (map key ?as) []) = mset (map key ?as)"
    using heap.push_all [of "[]" "map key ?as"] by simp_all
  then have set: "set (fold heappush (map key ?as) []) = key ` fset (fmdom (mp_by_sender mp))"
    by (metis list.set_map set_mset_mset sorted_list_of_fset_simps(1))
  have "mset (map (fst \<circ> snd) (fold heappush (map key ?as) [])) = mset (map (fst \<circ> snd) (map key ?as))"
    using built(2) by (simp add: multiset.map_comp comp_assoc)
  moreover have "map (fst \<circ> snd) (map key ?as) = ?as"
    unfolding map_map by (rule map_idI) (use key in simp)
  ultimately have "distinct (map (fst \<circ> snd) (fold heappush (map key ?as) []))"
    by (metis distinct_sorted_list_of_set mset_eq_imp_distinct_iff sorted_list_of_fset.rep_eq)
  then have "sel_ok P st mp room (fold heappush (map key ?as) [], [], 0)"
    using built(1) key assms(2) unfolding sel_ok_def split_conv set by force
  with run show ?thesis by blast
qed

lemma distinct_by_sender: "(\<And>a. distinct (sent_by P a ts)) \<Longrightarrow> distinct ts"
proof (induction ts)
  case (Cons t ts)
  have "distinct (sent_by P a ts)" for a using Cons.prems [of a] by (auto split: if_splits)
  moreover have "t \<notin> set ts" using Cons.prems [of "sender P t"] by (auto simp: sent_by_def)
  ultimately show ?case using Cons.IH by simp
qed simp

text \<open>What a selection is: checked transfers of the pool, no two the same, that run on the tip.\<close>

lemma selection_runs:
  assumes "mempool_ok P N po st mp" "sel_ok P st mp room ([], ts, used)"
  shows "runs_on P st ts \<and> set ts \<subseteq> me_tx ` pool mp \<and> distinct (map (\<lambda>t. txid P (Transfer t)) ts) \<and>
     sum_list (map (\<lambda>t. tx_size (Transfer t)) ts) \<le> room"
proof -
  have ok: "ids_ok P mp" "senders_ok P mp" "\<forall>e\<in>pool mp. entry_ok P N po e" "\<forall>a. queue_ok po (st a) (pending_of a mp)"
    using assms(1) by (simp_all add: mempool_ok_def pool_ok_def)
  have sel: "set ts \<subseteq> me_tx ` pool mp" "sum_list (map (\<lambda>t. tx_size (Transfer t)) ts) \<le> room"
      "\<And>a. map tf_nonce (sent_by P a ts) = [acct_nonce (st a) .. acct_nonce (st a) + int (length (sent_by P a ts)) - 1]"
    using assms(2) by (auto simp: sel_ok_def)
  have here: "fmlookup (pending_of a mp) (tf_nonce t) = Some e" if "e \<in> pool mp" "t = me_tx e" "sender P t = a" for a t e
    using that pending_lookup [OF ok(2)] by (simp add: entry_sender_def)
  have covered: "sum_list (map total_spent (sent_by P a ts)) \<le> balance (st a)" if some: "sent_by P a ts \<noteq> []" for a
  proof -
    let ?p = "pending_of a mp" and ?f = "\<lambda>n. total_spent (me_tx (the (fmlookup (pending_of a mp) n)))"
    have mem: "\<exists>e\<in>pool mp. t = me_tx e \<and> fmlookup ?p (tf_nonce t) = Some e" if "t \<in> set (sent_by P a ts)" for t
      using that sel(1) here by (auto simp: sent_by_def)
    have "map total_spent (sent_by P a ts) = map (?f \<circ> tf_nonce) (sent_by P a ts)"
      by (rule map_cong) (use mem in force)+
    then have "sum_list (map total_spent (sent_by P a ts)) = sum_list (map ?f (map tf_nonce (sent_by P a ts)))"
      by (metis map_map)
    also have "\<dots> = (\<Sum>n\<in>set (map tf_nonce (sent_by P a ts)). ?f n)"
      by (rule sum_list_distinct_conv_sum_set) (simp add: sel(3))
    also have "\<dots> \<le> (\<Sum>n\<in>fset (fmdom ?p). ?f n)"
    proof (rule sum_mono2)
      show "set (map tf_nonce (sent_by P a ts)) \<subseteq> fset (fmdom ?p)" using mem by (auto intro: fmdomI)
      show "0 \<le> ?f n" if "n \<in> fset (fmdom ?p) - set (map tf_nonce (sent_by P a ts))" for n
        using that pending_spends [OF ok(2,3)] by (auto simp: spends_def fmlookup_dom_iff)
    qed simp
    also have "\<dots> \<le> balance (st a)"
    proof -
      obtain t where "t \<in> set (sent_by P a ts)" using some by (meson hd_in_set)
      with mem have "fmdom ?p \<noteq> {||}" by (force dest: fmdomI)
      then have "spent_by ?p \<le> balance (st a)" using ok(4) unfolding queue_ok_def by blast
      then show ?thesis unfolding spent_by_sum .
    qed
    finally show ?thesis .
  qed
  have "distinct (sent_by P a ts)" for a
    using sel(3) [of a] by (metis distinct_map distinct_upto)
  then have "distinct ts" by (rule distinct_by_sender)
  moreover have "inj_on (\<lambda>t. txid P (Transfer t)) (set ts)"
  proof (rule inj_onI)
    fix t u
    assume "t \<in> set ts" "u \<in> set ts" and eq: "txid P (Transfer t) = txid P (Transfer u)"
    then obtain e f where "e \<in> pool mp" "f \<in> pool mp" "t = me_tx e" "u = me_tx f" using sel(1) by blast
    with eq same_id [OF ok(1), of e f] show "t = u" by (simp add: entry_id_def)
  qed
  ultimately show ?thesis using sel covered by (simp add: runs_on_def distinct_map)
qed

text \<open>The addresses the pool's transfers mention.\<close>

definition pool_addresses :: "prims \<Rightarrow> mempool \<Rightarrow> bytes set" where
  "pool_addresses P mp = (\<Union>e\<in>pool mp. insert (entry_sender P e) (out_address ` set (tf_outputs (me_tx e))))"

text \<open>What \<open>select\<close> returns.\<close>

lemma select_returns:
  assumes "mempool_ok P N po st mp" and "0 \<le> room"
  obtains ts where "select room mp = Inr ts" and "runs_on P st ts" and "set ts \<subseteq> me_tx ` pool mp"
    and "distinct (map (\<lambda>t. txid P (Transfer t)) ts)" and "sum_list (map (\<lambda>t. tx_size (Transfer t)) ts) \<le> room"
    and "\<forall>t\<in>set ts. check_transaction P N (Transfer t) = Inr ()"
    and "\<forall>t\<in>set ts. sender P t \<in> pool_addresses P mp \<and> out_address ` set (tf_outputs t) \<subseteq> pool_addresses P mp"
proof -
  have ok: "ids_ok P mp" "senders_ok P mp" "\<forall>e\<in>pool mp. entry_ok P N po e"
    using assms(1) by (simp_all add: mempool_ok_def pool_ok_def)
  from select_starts [OF assms(1,2)] obtain keys where
    k: "map_each (\<lambda>a. rbind (first_entry (pending_of a mp)) (\<lambda>e. Inr (select_key a e)))
       (sorted_list_of_fset (fmdom (mp_by_sender mp))) = Inr keys" "sel_ok P st mp room (fold heappush keys [], [], 0)" by blast
  from select_loop [OF ok(2,1) k(2)] obtain ts used where
    run: "run_loop (select_step room mp) (fold heappush keys [], [], 0) = Inr ts" "sel_ok P st mp room ([], ts, used)" by blast
  have sel: "select room mp = Inr ts" by (simp add: select_def k(1) run(1))
  note r = selection_runs [OF assms(1) run(2)]
  show thesis
  proof (rule that [OF sel])
    show "\<forall>t\<in>set ts. check_transaction P N (Transfer t) = Inr ()" using r ok(3) by (force simp: entry_ok_def)
    show "\<forall>t\<in>set ts. sender P t \<in> pool_addresses P mp \<and> out_address ` set (tf_outputs t) \<subseteq> pool_addresses P mp"
      using r by (force simp: pool_addresses_def entry_sender_def)
  qed (use r in simp_all)
qed

lemma finite_pool_addresses [simp]: "finite (pool_addresses P mp)"
  by (simp add: pool_addresses_def)

text \<open>C30. What the mempool offers a miner is valid: \<open>select\<close> ends without raising, and the transfers it
  chooses are distinct transfers of the pool that fit into the room and that apply to the tip one after
  the other in that order, as long as there is no more money than \<open>MAX_AMOUNT\<close> in the accounts they
  mention.\<close>

theorem select_applies:
  assumes "mempool_ok P N po st mp" and "0 \<le> room"
    and "\<forall>a\<in>pool_addresses P mp. 0 \<le> balance (st a)" and "total_balance (pool_addresses P mp) st \<le> MAX_AMOUNT"
  shows "\<exists>ts ov. select room mp = Inr ts \<and> set ts \<subseteq> me_tx ` pool mp \<and> distinct (map (\<lambda>t. txid P (Transfer t)) ts) \<and>
     sum_list (map (\<lambda>t. tx_size (Transfer t)) ts) \<le> room \<and>
     for_each (apply_transfer P) (map Transfer ts) (new_overlay st, 0) = Inr (ov, sum_list (map tf_fee ts))"
  using assms(1,2)
proof (rule select_returns)
  fix ts
  assume r: "select room mp = Inr ts" "runs_on P st ts" "set ts \<subseteq> me_tx ` pool mp"
    "distinct (map (\<lambda>t. txid P (Transfer t)) ts)" "sum_list (map (\<lambda>t. tx_size (Transfer t)) ts) \<le> room"
    and checked: "\<forall>t\<in>set ts. check_transaction P N (Transfer t) = Inr ()"
    and here: "\<forall>t\<in>set ts. sender P t \<in> pool_addresses P mp \<and> out_address ` set (tf_outputs t) \<subseteq> pool_addresses P mp"
  have "\<forall>t\<in>set ts. tx_amounts_ok (Transfer t)" using checked check_transaction_amounts by blast
  then obtain L where "for_each (ledger_transfer P) ts st = Inr L"
    using transfers_run [OF r(2) _ finite_pool_addresses here assms(3,4)] by blast
  then have "rmap (\<lambda>s. ov_get (fst s)) (for_each (apply_transfer P) (map Transfer ts) (new_overlay st, 0)) = Inr L"
    by (simp add: apply_transfers_refine)
  then obtain s where s: "for_each (apply_transfer P) (map Transfer ts) (new_overlay st, 0) = Inr s"
    by (auto simp: result_simps)
  with apply_transfers_fees [OF s] have "snd s = sum_list (map tf_fee ts)" by simp
  with s r show ?thesis by (metis prod.collapse)
qed

section \<open>Expiry\<close>

lemma dropWhile_sorted:
  fixes f :: "'a \<Rightarrow> int"
  assumes "sorted_wrt (\<lambda>x y. f x < f y) es"
  shows "set (dropWhile (\<lambda>e. \<not> p e) es) = {e \<in> set es. \<exists>x\<in>set es. f x \<le> f e \<and> p x}"
  using assms
proof (induction es)
  case (Cons a es)
  show ?case
  proof (cases "p a")
    case True
    with Cons.prems show ?thesis by fastforce
  next
    case False
    then have "set (dropWhile (\<lambda>e. \<not> p e) (a # es)) = {e \<in> set es. \<exists>x\<in>set es. f x \<le> f e \<and> p x}"
      using Cons by simp
    with False Cons.prems show ?thesis by fastforce
  qed
qed simp

lemma expire_sender_ok:
  assumes "pool_ok P mp"
  shows "\<exists>c' mp'. expire_sender P cutoff a (c, mp) = Inr (c', mp') \<and> pool_ok P mp' \<and> keeps_prefixes P mp mp' \<and>
     c' = c + int (card (pool mp)) - int (card (pool mp')) \<and>
     pool mp' = pool mp - {e \<in> pool mp. entry_sender P e = a \<and>
       (\<exists>x\<in>pool mp. entry_sender P x = a \<and> tf_nonce (me_tx x) \<le> tf_nonce (me_tx e) \<and> me_added x < cutoff)}"
proof -
  have s: "senders_ok P mp" using assms by (simp add: pool_ok_def)
  let ?es = "dropWhile (\<lambda>e. \<not> me_added e < cutoff) (pending_for a mp)"
  let ?gone = "{e \<in> pool mp. entry_sender P e = a \<and>
       (\<exists>x\<in>pool mp. entry_sender P x = a \<and> tf_nonce (me_tx x) \<le> tf_nonce (me_tx e) \<and> me_added x < cutoff)}"
  note set = pending_for_set [OF s, of a] and sorted = pending_for_sorted [OF s, of a]
  have gone: "set ?es = ?gone" unfolding dropWhile_sorted [OF sorted] set by blast
  have sub: "set ?es \<subseteq> pool mp" unfolding gone by blast
  have dist: "distinct ?es" using pending_for_distinct [OF s] by (rule distinct_dropWhile)
  from remove_all [OF assms dist sub, where f = "\<lambda>_ c. c + 1" and c = c] obtain mp' where
    run: "expire_sender P cutoff a (c, mp) = Inr (fold (\<lambda>_ c. c + 1) ?es c, mp')" "pool_ok P mp'" "pool mp' = pool mp - set ?es"
    unfolding expire_sender_def snd_conv by blast
  have "fold (\<lambda>_ c. c + 1) xs c = c + int (length xs)" for xs :: "mempool_entry list" and c :: int
    by (induction xs arbitrary: c) auto
  moreover have "int (length ?es) = int (card (pool mp)) - int (card (pool mp'))"
    using dist sub card_mono [OF finite_pool sub] unfolding run(3)
    by (simp add: card_Diff_subset distinct_card of_nat_diff)
  moreover have "keeps_prefixes P mp mp'"
    unfolding keeps_prefixes_def run(3) gone by fastforce
  ultimately show ?thesis using run gone by auto
qed

lemma expire_senders_ok:
  assumes "pool_ok P mp"
  shows "\<exists>c' mp'. for_each (expire_sender P cutoff) as (c, mp) = Inr (c', mp') \<and> pool_ok P mp' \<and> keeps_prefixes P mp mp' \<and>
     c' = c + int (card (pool mp)) - int (card (pool mp')) \<and>
     pool mp' = pool mp - {e \<in> pool mp. entry_sender P e \<in> set as \<and>
       (\<exists>x\<in>pool mp. entry_sender P x = entry_sender P e \<and> tf_nonce (me_tx x) \<le> tf_nonce (me_tx e) \<and> me_added x < cutoff)}"
  using assms
proof (induction as arbitrary: c mp)
  case (Cons a as)
  from expire_sender_ok [OF Cons.prems, of cutoff a c] obtain c1 m where
    m: "expire_sender P cutoff a (c, mp) = Inr (c1, m)" "pool_ok P m" "keeps_prefixes P mp m"
      "c1 = c + int (card (pool mp)) - int (card (pool m))"
      "pool m = pool mp - {e \<in> pool mp. entry_sender P e = a \<and>
       (\<exists>x\<in>pool mp. entry_sender P x = a \<and> tf_nonce (me_tx x) \<le> tf_nonce (me_tx e) \<and> me_added x < cutoff)}" by blast
  from Cons.IH [OF m(2), of c1] obtain c' mp' where
    r: "for_each (expire_sender P cutoff) as (c1, m) = Inr (c', mp')" "pool_ok P mp'" "keeps_prefixes P m mp'"
      "c' = c1 + int (card (pool m)) - int (card (pool mp'))"
      "pool mp' = pool m - {e \<in> pool m. entry_sender P e \<in> set as \<and>
       (\<exists>x\<in>pool m. entry_sender P x = entry_sender P e \<and> tf_nonce (me_tx x) \<le> tf_nonce (me_tx e) \<and> me_added x < cutoff)}" by blast
  have "x \<in> pool m" if "x \<in> pool mp" "e \<in> pool m" "entry_sender P x = entry_sender P e" "tf_nonce (me_tx x) \<le> tf_nonce (me_tx e)" for x e
    using that unfolding m(5) by (auto intro: order_trans)
  then have "pool mp' = pool mp - {e \<in> pool mp. entry_sender P e \<in> set (a # as) \<and>
       (\<exists>x\<in>pool mp. entry_sender P x = entry_sender P e \<and> tf_nonce (me_tx x) \<le> tf_nonce (me_tx e) \<and> me_added x < cutoff)}"
    unfolding r(5) by (auto simp: m(5))
  moreover have "for_each (expire_sender P cutoff) (a # as) (c, mp) = Inr (c', mp')" using m(1) r(1) by simp
  ultimately show ?case using r(2,4) m(4) keeps_prefixes_trans [OF m(3) r(3)] by auto
qed auto

text \<open>C31. Expiry drops exactly the transfers that are too old and those of the same sender that need them:
  it never raises, keeps the rules, and reports how many went.\<close>

theorem expire_drops_old:
  assumes "mempool_ok P N po st mp"
  shows "\<exists>n mp'. expire P po now mp = Inr (n, mp') \<and> mempool_ok P N po st mp' \<and>
     n = int (card (pool mp)) - int (card (pool mp')) \<and>
     pool mp' = {e \<in> pool mp. \<forall>x\<in>pool mp. entry_sender P x = entry_sender P e \<longrightarrow>
       tf_nonce (me_tx x) \<le> tf_nonce (me_tx e) \<longrightarrow> now - po_expiry po \<le> me_added x}"
proof -
  have ok: "pool_ok P mp" "\<forall>e\<in>pool mp. entry_ok P N po e" "\<forall>a. queue_ok po (st a) (pending_of a mp)"
      "mp_bytes mp \<le> po_max_bytes po" using assms by (simp_all add: mempool_ok_def)
  have s: "senders_ok P mp" using ok(1) by (simp add: pool_ok_def)
  have all: "entry_sender P e |\<in>| fmdom (mp_by_sender mp)" if "e \<in> pool mp" for e
    using some_last [OF s that] by (cases "fmlookup (mp_by_sender mp) (entry_sender P e)")
       (auto simp: pending_of_def last_entry_Inr fmdomI)
  from expire_senders_ok [OF ok(1), of "now - po_expiry po" "sorted_list_of_fset (fmdom (mp_by_sender mp))" 0]
  obtain n mp' where
    r: "expire P po now mp = Inr (n, mp')" "pool_ok P mp'" "keeps_prefixes P mp mp'"
      "n = int (card (pool mp)) - int (card (pool mp'))"
      "pool mp' = pool mp - {e \<in> pool mp. entry_sender P e |\<in>| fmdom (mp_by_sender mp) \<and>
       (\<exists>x\<in>pool mp. entry_sender P x = entry_sender P e \<and> tf_nonce (me_tx x) \<le> tf_nonce (me_tx e) \<and>
          me_added x < now - po_expiry po)}"
    unfolding expire_def by auto
  have s': "senders_ok P mp'" and sub: "pool mp' \<subseteq> pool mp" using r(2,3) by (simp_all add: pool_ok_def keeps_prefixes_def)
  have "mempool_ok P N po st mp'"
    using r(2) ok(2,4) sub smaller_pool_bytes [OF ok(1) r(2) sub] queues_keep [OF s s' r(3) ok(2)] ok(3)
    by (auto simp: mempool_ok_def)
  moreover have "pool mp' = {e \<in> pool mp. \<forall>x\<in>pool mp. entry_sender P x = entry_sender P e \<longrightarrow>
       tf_nonce (me_tx x) \<le> tf_nonce (me_tx e) \<longrightarrow> now - po_expiry po \<le> me_added x}"
    unfolding r(5) using all by (auto simp: not_less)
  ultimately show ?thesis using r(1,4) by blast
qed

section \<open>An example\<close>

definition example_signed :: transfer where
  "example_signed = example_transfer\<lparr>tf_signature := replicate 64 1\<rparr>"

definition example_entry :: mempool_entry where
  "example_entry = \<lparr>me_tx = example_signed, me_size = tx_size (Transfer example_signed), me_added = 0\<rparr>"

definition example_pool :: mempool where
  "example_pool = \<lparr>mp_by_id = [(entry_id example_prims example_entry, example_entry)],
     mp_by_sender = fmupd example_sender (fmupd 3 example_entry fmempty) fmempty,
     mp_by_receiver = fmupd BURN_PAYLOAD [(entry_id example_prims example_entry, example_entry)] fmempty,
     mp_evictable = [evict_key example_prims example_entry], mp_bytes = tx_size (Transfer example_signed)\<rparr>"

lemma example_signed_fields:
  "tf_nonce example_signed = 3" "tf_fee example_signed = 1000" "total_spent example_signed = 251000"
  "sender example_prims example_signed = example_sender" "paid_addresses example_signed = [BURN_PAYLOAD]"
  "tx_size (Transfer example_signed) = 148"
  by (simp_all add: example_signed_def example_sender paid_addresses_def)
     (simp_all add: example_transfer_def total_spent_def tx_size_def tx_bytes_def transfer_bytes_def unsigned_layout_def
       output_bytes_def var8_enc_def BURN_PAYLOAD_def PAYLOAD_SIZE_def)

lemma example_signed_ok: "check_transaction example_prims N (Transfer example_signed) = Inr ()" if "N = MAINNET"
  using example_block_ok that
  by (auto simp: check_block_def example_block_def example_txs_def example_signed_def result_simps split: if_splits)

lemma example_added: "add example_prims MAINNET default_policy (memory_get example_state) 0 (Transfer example_signed) new_mempool
    = Inr (Inr example_entry, example_pool)"
proof -
  have acc: "memory_get example_state example_sender = \<lparr>balance = 1000000, acct_nonce = 3\<rparr>"
    by (simp add: memory_get_def example_state_def)
  have "insert_checks example_prims default_policy \<lparr>balance = 1000000, acct_nonce = 3\<rparr> fmempty example_signed = Inr ()"
    by (simp add: insert_checks_def Let_def example_signed_fields default_policy_def in_order_def sorted_list_of_fset.rep_eq
        fcard.rep_eq)
  then show ?thesis
    by (simp add: add_def new_mempool_def example_signed_ok insert_transfer_def Let_def pending_of_def example_signed_fields
        acc put_entry_def entry_sender_def add_receiver_def paying_def push_evictable_def heappush_def
        trim_to_size.simps default_policy_def example_pool_def fcard.rep_eq example_entry_def)
qed

lemma example_pool_ok: "mempool_ok example_prims MAINNET default_policy (memory_get example_state) example_pool"
proof -
  have "mempool_ok example_prims MAINNET default_policy (memory_get example_state) new_mempool"
    by (rule mempool_ok_new) (simp add: default_policy_def)
  then show ?thesis
    using insert_transfer_ok [of example_prims MAINNET default_policy "memory_get example_state" new_mempool example_signed 0]
      example_added example_signed_ok
    by (auto simp: add_def new_mempool_def default_policy_def)
qed

lemma example_pool_entries: "pool example_pool = {example_entry}"
  by (simp add: pool_def example_pool_def)

lemma add_keeps_rules_witness:
  "\<exists>mp'. add example_prims MAINNET default_policy (memory_get example_state) 0 (Transfer example_signed) new_mempool
      = Inr (Inr example_entry, mp') \<and>
     mempool_ok example_prims MAINNET default_policy (memory_get example_state) mp' \<and> example_entry \<in> pool mp'"
proof -
  have "mempool_ok example_prims MAINNET default_policy (memory_get example_state) new_mempool"
    by (rule mempool_ok_new) (simp add: default_policy_def)
  moreover have "tx_fits (Transfer example_signed)"
    using example_transfer_fits
    by (simp add: tx_fits_def transfer_fits_def example_signed_def unsigned_fits_def SIGNATURE_SIZE_def)
  ultimately show ?thesis
    using add_keeps_rules [of example_prims MAINNET default_policy "memory_get example_state" new_mempool "Transfer example_signed" 0]
      example_added by (auto simp: default_policy_def)
qed

lemma update_follows_chain_witness:
  "\<exists>ts mp'. transfers_in example_block = [example_signed] \<and>
     update_pool example_prims default_policy ((memory_get example_state)(BURN_PAYLOAD := \<lparr>balance = 7, acct_nonce = 0\<rparr>))
       9 [] [example_block] new_mempool = Inr (ts, mp') \<and>
     mempool_ok example_prims MAINNET default_policy
       ((memory_get example_state)(BURN_PAYLOAD := \<lparr>balance = 7, acct_nonce = 0\<rparr>)) mp'"
proof -
  have body: "transactions example_block = Coinbase \<lparr>cb_network_id = 1, cb_height = 1, cb_address = BURN_PAYLOAD,
      cb_amount = 10001000, cb_memo = []\<rparr> # map Transfer [example_signed]"
    by (simp add: example_block_def example_txs_def example_signed_def)
  have t: "transfers_in example_block = [example_signed]" using body by (rule transfers_in_body)
  have "valid_body example_prims MAINNET example_block"
    using body example_signed_ok by (auto simp: valid_body_def t intro: exI [of _ "[example_signed]"])
  moreover have "mempool_ok example_prims MAINNET default_policy (memory_get example_state) new_mempool"
    by (rule mempool_ok_new) (simp add: default_policy_def)
  ultimately show ?thesis
    using update_follows_chain [of example_prims MAINNET default_policy "memory_get example_state" new_mempool "[]" "[example_block]"] t
    by (fastforce simp: default_policy_def)
qed

lemma example_pool_money: "\<forall>a\<in>pool_addresses example_prims example_pool. 0 \<le> balance (memory_get example_state a)"
  "total_balance (pool_addresses example_prims example_pool) (memory_get example_state) \<le> MAX_AMOUNT"
proof -
  have "out_address ` set (tf_outputs example_signed) = {BURN_PAYLOAD}" by (simp add: example_signed_def example_transfer_def)
  then have as: "pool_addresses example_prims example_pool = {example_sender, BURN_PAYLOAD}"
    by (auto simp: pool_addresses_def example_pool_entries entry_sender_def example_entry_def example_signed_fields)
  have "memory_get example_state a = (if a = example_sender then \<lparr>balance = 1000000, acct_nonce = 3\<rparr> else EMPTY_ACCOUNT)" for a
    by (simp add: memory_get_def example_state_def)
  then show "\<forall>a\<in>pool_addresses example_prims example_pool. 0 \<le> balance (memory_get example_state a)"
    "total_balance (pool_addresses example_prims example_pool) (memory_get example_state) \<le> MAX_AMOUNT"
    by (auto simp: as total_balance_def EMPTY_ACCOUNT_def MAX_AMOUNT_def sum.insert_if)
qed

lemma select_applies_witness:
  "\<exists>ts ov. select 1000 example_pool = Inr ts \<and> set ts \<subseteq> {example_signed} \<and>
     for_each (apply_transfer example_prims) (map Transfer ts) (new_overlay (memory_get example_state), 0)
       = Inr (ov, sum_list (map tf_fee ts))"
proof -
  have "me_tx ` pool example_pool = {example_signed}" by (simp add: example_pool_entries example_entry_def)
  with select_applies [OF example_pool_ok _ example_pool_money, of 1000] show ?thesis by auto
qed

lemma expire_drops_old_witness:
  "\<exists>mp'. expire example_prims default_policy 2000000 example_pool = Inr (1, mp') \<and> pool mp' = {}"
proof -
  from expire_drops_old [OF example_pool_ok, of 2000000] obtain n mp' where
    r: "expire example_prims default_policy 2000000 example_pool = Inr (n, mp')"
      "n = int (card (pool example_pool)) - int (card (pool mp'))"
      "pool mp' = {e \<in> pool example_pool. \<forall>x\<in>pool example_pool. entry_sender example_prims x = entry_sender example_prims e \<longrightarrow>
       tf_nonce (me_tx x) \<le> tf_nonce (me_tx e) \<longrightarrow> 2000000 - po_expiry default_policy \<le> me_added x}" by blast
  then have "pool mp' = {}" by (auto simp: example_pool_entries example_entry_def default_policy_def)
  with r show ?thesis by (simp add: example_pool_entries)
qed

end
