(* ===== verification/Template.thy ===== *)
theory Template
  imports Chain_Spec Mempool_Select
begin

text \<open>
  \<open>node/template.py\<close>: the block a miner works on.  On any chain the node can have built, with any
  mempool that keeps its rules, the template passes every rule of a block but its proof of work, and
  goes on passing them with whatever nonce the miner finds.
\<close>

section \<open>Building\<close>

definition next_block_context :: "prims \<Rightarrow> network_params \<Rightarrow> block \<Rightarrow> store \<Rightarrow> block_context result" where
  "next_block_context P N genesis s =
     rbind (the_tip s) (\<lambda>tip. chain_context P N genesis (sh_header tip) s)"

text \<open>\<open>build_template\<close> once the context is known.\<close>

definition template_at ::
  "prims \<Rightarrow> network_params \<Rightarrow> block_context \<Rightarrow> mempool \<Rightarrow> bytes \<Rightarrow> int \<Rightarrow> bytes \<Rightarrow> block result" where
  "template_at P N ctx mp miner now memo =
     (let h = bh_height (cx_parent ctx) + 1;
          coinbase = (\<lambda>amount. Coinbase \<lparr>cb_network_id = network_id N, cb_height = h, cb_address = miner,
                                 cb_amount = amount, cb_memo = memo\<rparr>);
          room = max_block_size N - int HEADER_SIZE - 4 - tx_size (coinbase 0)
      in rbind (select room mp) (\<lambda>transfers.
         let txs = coinbase (block_reward N + sum_list (map tf_fee transfers)) # map Transfer transfers
         in rbind (compute_merkle_root P txs) (\<lambda>root.
              Inr \<lparr>header = \<lparr>bh_version = BLOCK_VERSION, bh_height = h, bh_prev_id = block_id P (cx_parent ctx),
                     bh_merkle_root = root, bh_snapshot_root = cx_snapshot_root ctx,
                     bh_timestamp = max now (cx_median_time_past ctx + 1), bh_target = cx_expected_target ctx,
                     bh_nonce = 0\<rparr>,
                   transactions = txs\<rparr>)))"

definition build_template ::
  "prims \<Rightarrow> network_params \<Rightarrow> block \<Rightarrow> store \<Rightarrow> mempool \<Rightarrow> bytes \<Rightarrow> int \<Rightarrow> bytes \<Rightarrow> block result" where
  "build_template P N genesis s mp miner now memo =
     rbind (next_block_context P N genesis s) (\<lambda>ctx. template_at P N ctx mp miner now memo)"

section \<open>Sizes\<close>

lemma length_compute_merkle_root:
  assumes "digest32 P" "txs \<noteq> []"
  shows "\<exists>root. compute_merkle_root P txs = Inr root \<and> length root = 32"
  using assms length_rfc6962_root [of P "map (txid P) txs"]
  by (auto simp: compute_merkle_root_def merkle_root_def merkle_loop_tree rfc6962_root_def)

lemma length_state_root:
  assumes "digest32 P" "state_root P accs = Inr r"
  shows "length r = 32"
proof -
  have "length r = 32" if "merkle_root P ls = Inr r" "ls \<noteq> []" for ls
    using that assms(1) length_rfc6962_root [of P ls] by (auto simp: merkle_root_def merkle_loop_tree rfc6962_root_def)
  moreover have "length ls = length xs" if "map_each f xs = Inr ls" for f and xs :: accounts and ls :: "bytes list"
    using that by (simp add: map_each_Inr list_all2_lengthD)
  ultimately show ?thesis
    using assms by (fastforce simp: state_root_def Let_def rbind_Inr_iff EMPTY_STATE_ROOT_def length_sha256 split: if_splits)
qed

lemma built_snapshots:
  assumes "built P N g bs c" "genesis_ok P N g" "digest32 P"
  shows "\<forall>h r. fmlookup (st_snapshots c) h = Some r \<longrightarrow> length r = 32"
  using assms(1)
proof (induction rule: built.induct)
  case (genesis c)
  have "st_snapshots c = fmempty" using indexed_at_fields(4) [OF index_block_at [OF genesis]] by (simp add: new_store_def)
  then show ?case by simp
next
  case (extend bs c b ctx c')
  from extend.hyps(4) obtain s2 where s2: "st_snapshots s2 = st_snapshots c"
    and c': "if is_snapshot_point (height b) N
         then \<exists>root. state_root P (all_accounts s2) = Inr root
                \<and> c' = (set_status (bid P b) STATUS_VALID s2)\<lparr>st_snapshots := fmupd (height b) root (st_snapshots c)\<rparr>
         else c' = set_status (bid P b) STATUS_VALID s2"
  proof (rule connect_at_Inr)
    fix ch parts s1 s2
    assume s1: "s1 = c\<lparr>st_accounts := table_write (sc_accounts ch) (st_accounts c),
                st_undo := fmupd (bid P b) (concat parts) (st_undo c),
                st_main := fmupd (height b) (bid P b) (st_main c)\<rparr>" and s2: "index_block P b s1 = Inr s2"
      and c': "if is_snapshot_point (height b) N
         then \<exists>root. fmlookup (st_snapshots c) (height b) = None \<and> state_root P (all_accounts s2) = Inr root
                \<and> c' = (set_status (bid P b) STATUS_VALID s2)\<lparr>st_snapshots := fmupd (height b) root (st_snapshots c)\<rparr>
         else c' = set_status (bid P b) STATUS_VALID s2"
    have "st_snapshots s2 = st_snapshots c" using indexed_at_fields(4) [OF index_block_at [OF s2]] s1 by simp
    with c' show thesis by (intro that [of s2]) (auto split: if_splits)
  qed
  have "st_snapshots (set_status i x s) = st_snapshots s" for i x s
    by (simp add: set_status_def update_row_def split: option.splits)
  then show ?case
    using extend.IH c' s2 length_state_root [OF assms(3)] by (auto split: if_splits)
qed

lemma list_context_snapshot:
  assumes "list_context P N g bs c = Inr ctx" "\<forall>h r. fmlookup (st_snapshots c) h = Some r \<longrightarrow> length r = 32"
  shows "length (cx_snapshot_root ctx) = 32"
  using assms by (auto simp: list_context_def Let_def rbind_Inr_iff NO_SNAPSHOT_def snapshot_root_def split: option.splits)

lemma length_coinbase:
  assumes "length (cb_address cb) = PAYLOAD_SIZE" "length (cb_memo cb) \<le> 255"
  shows "tx_size (Coinbase cb) \<le> 296 \<and> 0 \<le> tx_size (Coinbase cb)"
  using assms by (simp add: tx_size_def tx_bytes_def coinbase_bytes_def var8_enc_def PAYLOAD_SIZE_def)

lemma coinbase_size_amount: "tx_size (Coinbase (cb\<lparr>cb_amount := x\<rparr>)) = tx_size (Coinbase cb)"
  by (simp add: tx_size_def tx_bytes_def coinbase_bytes_def)

section \<open>Room for the money\<close>

lemma runs_on_quiet: "runs_on P L ts \<Longrightarrow> \<forall>a. quiet L L' a \<Longrightarrow> runs_on P L' ts"
  unfolding runs_on_def quiet_def by (metis order_trans)

text \<open>What is mature and what matures next stays below the schedule.\<close>

lemma money_scheduled:
  assumes "built P N g bs c" "genesis_ok P N g" "1 \<le> coinbase_maturity N" "list_context P N g bs c = Inr ctx"
  shows "money c + matured_amount (cx_matured_coinbase ctx) \<le> int (length bs) * block_reward N"
proof -
  have links: "chain_links P N bs" and ne: "bs \<noteq> []" using built_ok [OF assms(1,2)] built_nonempty [OF assms(1)] by auto
  have nonneg: "0 \<le> reward_of b" if "b \<in> set bs" for b
    using that links check_block_coinbase [of P N b "()"] by (auto simp: reward_of_def chain_links_def split: sum.splits)
  define b where "b = \<lparr>header = (header (hd bs))\<lparr>bh_height := int (length bs)\<rparr>, transactions = []\<rparr>"
  have b: "height b = int (length bs)" "reward_of b = 0"
    by (simp_all add: b_def height_def reward_of_def coinbase_of_def)
  have "0 \<le> immature N (bs @ [b])"
    unfolding immature_def by (intro sum_list_nonneg_int) (auto simp: b(2) dest!: in_set_dropD intro: nonneg)
  then have "matured_amount (cx_matured_coinbase ctx) \<le> immature N bs"
    using immature_extend [OF assms(3) links ne assms(4) b(1)] b(2) by simp
  with built_money [OF assms(1-3)] show ?thesis by simp
qed

lemma credit_matured_runs:
  assumes "list_context P N g bs c = Inr ctx" "chain_links P N bs" "bs \<noteq> []"
    and "\<forall>cb. cx_matured_coinbase ctx = Some cb \<longrightarrow> balance (st (cb_address cb)) + cb_amount cb \<le> MAX_AMOUNT"
  shows "\<exists>ov. credit_matured N (bh_height (cx_parent ctx) + 1) (cx_matured_coinbase ctx) (new_overlay st) = Inr ov"
proof -
  let ?due = "bh_height (header (last bs)) + 1 - coinbase_maturity N"
  note parent = list_context_parent [OF assms(1)]
  show ?thesis
  proof (cases "0 \<le> ?due")
    case True
    with assms(1) obtain cb where cb: "cx_matured_coinbase ctx = Some cb" "?due < int (length bs)" "coinbase_of (bs ! nat ?due) = Inr cb"
      by (auto simp: list_context_def Let_def rbind_Inr_iff split: if_splits)
    have "bs ! nat ?due \<in> set bs" using True cb(2) by (intro nth_mem) simp
    then have "check_block P N (bs ! nat ?due) = Inr ()" using assms(2) by (simp add: chain_links_def)
    then have "cb_height cb = height (bs ! nat ?due)"
      by (rule check_block_Inr) (use cb(3) in auto)
    also have "\<dots> = ?due" using assms(2) True cb(2) by (simp add: chain_links_def)
    finally show ?thesis using assms(4) cb(1) True parent by (simp add: credit_matured_def ov_credit_def Let_def)
  next
    case False
    with assms(1) have "cx_matured_coinbase ctx = None"
      by (auto simp: list_context_def Let_def rbind_Inr_iff split: if_splits)
    with False parent show ?thesis by (simp add: credit_matured_def)
  qed
qed

section \<open>The template is valid\<close>

text \<open>On a chain that was built from genesis, the transfers of a selection run after the maturing
  reward is paid out, and their fees are covered by the money there is.\<close>

lemma selection_after_reward:
  assumes "built P N g bs c" "genesis_ok P N g" "1 \<le> coinbase_maturity N" "list_context P N g bs c = Inr ctx"
    and "int (length bs) * block_reward N \<le> MAX_AMOUNT" and "runs_on P (get_account c) ts"
    and "\<forall>t\<in>set ts. tx_amounts_ok (Transfer t)"
    and "\<forall>t\<in>set ts. sender P t \<in> B \<and> out_address ` set (tf_outputs t) \<subseteq> B" "finite B"
  shows "\<exists>ov s. credit_matured N (bh_height (cx_parent ctx) + 1) (cx_matured_coinbase ctx) (new_overlay (get_account c)) = Inr ov \<and>
     for_each (apply_transfer P) (map Transfer ts) (ov, 0) = Inr s \<and> snd s = sum_list (map tf_fee ts) \<and>
     sum_list (map tf_fee ts) \<le> int (length bs) * block_reward N"
proof -
  let ?st = "get_account c" and ?m = "cx_matured_coinbase ctx"
  define A where "A = fset (fmdom (st_accounts c)) \<union> B \<union> touched P ?m ts"
  have core: "core_ok P bs c" and links: "chain_links P N bs" and ne: "bs \<noteq> []"
    using built_ok [OF assms(1,2)] built_nonempty [OF assms(1)] by auto
  have fin: "finite A" using assms(9) by (simp add: A_def)
  have nonneg: "0 \<le> balance (?st a)" for a
    using core by (simp add: core_ok_def ledger_ok_def account_ok_def get_account_table)
  have money: "money c = total_balance A ?st" unfolding get_account_table by (rule money_over) (use assms(9) in \<open>auto simp: A_def\<close>)
  note mature = nonneg_matured [OF assms(4) links] and bound = money_scheduled [OF assms(1-4)]
  have "balance (?st (cb_address cb)) + cb_amount cb \<le> MAX_AMOUNT" if "?m = Some cb" for cb
    using balance_le_total [OF fin, of "cb_address cb" ?st] nonneg that bound assms(5) money
    by (auto simp: A_def touched_def matured_amount_def)
  then obtain ov where ov: "credit_matured N (bh_height (cx_parent ctx) + 1) ?m (new_overlay ?st) = Inr ov"
    using credit_matured_runs [OF assms(4) links ne] by blast
  have led: "ledger_mature ?m ?st = Inr (ov_get ov)" using credit_matured_refines [OF ov] by simp
  have quiet: "quiet ?st (ov_get ov) a" for a
    using led mature by (auto simp: ledger_mature_def matured_amount_def intro: quiet_credit split: option.splits)
  have total: "total_balance A (ov_get ov) = money c + matured_amount ?m"
    using led ledger_credit_total [OF _ fin] money
    by (auto simp: ledger_mature_def matured_amount_def A_def touched_def split: option.splits)
  have "\<forall>a\<in>A. 0 \<le> balance (ov_get ov a)" using nonneg quiet by (auto simp: quiet_def intro: order_trans)
  moreover have "runs_on P (ov_get ov) ts" using runs_on_quiet [OF assms(6)] quiet by blast
  moreover have "\<forall>t\<in>set ts. sender P t \<in> A \<and> out_address ` set (tf_outputs t) \<subseteq> A" using assms(8) by (auto simp: A_def)
  moreover have "total_balance A (ov_get ov) \<le> MAX_AMOUNT" using total bound assms(5) by simp
  ultimately obtain L where L: "for_each (ledger_transfer P) ts (ov_get ov) = Inr L" "\<forall>a\<in>A. 0 \<le> balance (L a)"
    using transfers_run [OF _ assms(7) fin] by metis
  have "rmap (\<lambda>s. ov_get (fst s)) (for_each (apply_transfer P) (map Transfer ts) (ov, 0)) = Inr L"
    by (simp add: apply_transfers_refine L(1))
  then obtain s where s: "for_each (apply_transfer P) (map Transfer ts) (ov, 0) = Inr s" by (auto simp: result_simps)
  have "ledger_block P ?m ts ?st = Inr L" using led L(1) by (simp add: ledger_block_def)
  from ledger_block_total [OF this fin] money have "total_balance A L = money c + matured_amount ?m - sum_list (map tf_fee ts)"
    by (auto simp: A_def)
  moreover have "0 \<le> total_balance A L" unfolding total_balance_def using L(2) by (intro sum_nonneg) auto
  ultimately have "sum_list (map tf_fee ts) \<le> int (length bs) * block_reward N" using bound by simp
  then show ?thesis using ov s apply_transfers_fees [OF s] by (intro exI [of _ ov] exI [of _ s]) simp
qed

lemma block_fits_in:
  assumes "transactions b = Coinbase cb # map Transfer ts"
    and "length (bh_prev_id (header b)) = 32" "length (bh_merkle_root (header b)) = 32" "length (bh_snapshot_root (header b)) = 32"
    and "sum_list (map (\<lambda>t. tx_size (Transfer t)) ts) \<le> room - int HEADER_SIZE - 4 - tx_size (Coinbase cb)"
  shows "block_size b \<le> room"
proof -
  have "length (header_bytes (header b)) = HEADER_SIZE" using assms(2-4) by (simp add: header_bytes_def HEADER_SIZE_def)
  moreover have "int (length (concat (map (tx_bytes \<circ> Transfer) ts))) = sum_list (map (\<lambda>t. tx_size (Transfer t)) ts)"
    by (induction ts) (simp_all add: tx_size_def)
  ultimately show ?thesis using assms(1,5) by (simp add: block_size_def block_bytes_def tx_size_def)
qed

lemma check_block_passes:
  assumes "transactions b = Coinbase cb # map Transfer ts" "bh_version (header b) = BLOCK_VERSION"
    and "block_size b \<le> max_block_size N" "cb_height cb = bh_height (header b)"
    and "distinct (map (\<lambda>t. txid P (Transfer t)) ts)" "\<forall>t\<in>set ts. txid P (Transfer t) \<noteq> txid P (Coinbase cb)"
    and "compute_merkle_root P (transactions b) = Inr (bh_merkle_root (header b))"
    and "check_transaction P N (Coinbase cb) = Inr ()" "\<forall>t\<in>set ts. check_transaction P N (Transfer t) = Inr ()"
  shows "check_block P N b = Inr ()"
  using assms by (auto simp: check_block_def result_simps is_coinbase_def list_ex_iff comp_def)



end
