(* ===== verification/Rate_Limits.thy ===== *)
theory Rate_Limits
  imports Complex_Main Params
begin

text \<open>
  \<open>node/limits.py\<close>: what keeps one client from taking more than its share.  Token buckets never grant
  more than a burst and the steady rate since, a table of them keeps clients apart, and a request body
  is never buffered beyond its limit.  Times, rates and amounts of tokens are exact rationals (the
  rounding of Python's floats is not modelled); the clock is an argument.
\<close>

section \<open>TokenBucket\<close>

record token_bucket =
  tb_rate :: rat
  tb_burst :: rat
  tb_tokens :: rat
  tb_updated :: rat

definition new_bucket :: "rat \<Rightarrow> rat \<Rightarrow> rat \<Rightarrow> token_bucket" where
  "new_bucket rate burst now = \<lparr>tb_rate = rate, tb_burst = burst, tb_tokens = burst, tb_updated = now\<rparr>"

definition refill :: "rat \<Rightarrow> token_bucket \<Rightarrow> token_bucket" where
  "refill now b =
     b\<lparr>tb_tokens := min (tb_burst b) (tb_tokens b + (now - tb_updated b) * tb_rate b), tb_updated := now\<rparr>"

text \<open>\<open>take\<close>: how long to wait, beside the bucket in debt.\<close>

definition take_tokens :: "rat \<Rightarrow> rat \<Rightarrow> token_bucket \<Rightarrow> (rat \<times> token_bucket) result" where
  "take_tokens now cost b =
     (let b = refill now b; tokens = tb_tokens b - cost; b = b\<lparr>tb_tokens := tokens\<rparr>
      in if tokens \<ge> 0 then Inr (0, b)
         else if tb_rate b = 0 then Inl ZeroDivisionError else Inr (- tokens / tb_rate b, b))"

definition try_take :: "rat \<Rightarrow> rat \<Rightarrow> token_bucket \<Rightarrow> bool \<times> token_bucket" where
  "try_take now cost b =
     (let b = refill now b
      in if tb_tokens b < cost then (False, b) else (True, b\<lparr>tb_tokens := tb_tokens b - cost\<rparr>))"

text \<open>A client's requests, each with its time and cost, and the answers it gets.\<close>

fun try_takes :: "(rat \<times> rat) list \<Rightarrow> token_bucket \<Rightarrow> bool list \<times> token_bucket" where
  "try_takes [] b = ([], b)"
| "try_takes ((now, cost) # rs) b =
     (let (ok, b) = try_take now cost b; (oks, b) = try_takes rs b in (ok # oks, b))"

text \<open>What the requests granted cost.\<close>

definition granted :: "(rat \<times> rat) list \<Rightarrow> bool list \<Rightarrow> rat" where
  "granted rs oks = sum_list (map (\<lambda>((_, cost), ok). if ok then cost else 0) (zip rs oks))"

definition bucket_ok :: "token_bucket \<Rightarrow> bool" where
  "bucket_ok b \<longleftrightarrow> 0 \<le> tb_rate b \<and> 0 \<le> tb_tokens b \<and> tb_tokens b \<le> tb_burst b"

definition in_time :: "rat \<Rightarrow> (rat \<times> rat) list \<Rightarrow> bool" where
  "in_time t rs \<longleftrightarrow> sorted (t # map fst rs) \<and> (\<forall>r\<in>set rs. 0 \<le> snd r)"

lemma bucket_ok_new [simp]: "0 \<le> rate \<Longrightarrow> 0 \<le> burst \<Longrightarrow> bucket_ok (new_bucket rate burst now)"
  by (simp add: bucket_ok_def new_bucket_def)

lemma refill_fields [simp]:
  "tb_rate (refill now b) = tb_rate b" "tb_burst (refill now b) = tb_burst b" "tb_updated (refill now b) = now"
  "tb_tokens (refill now b) = min (tb_burst b) (tb_tokens b + (now - tb_updated b) * tb_rate b)"
  by (simp_all add: refill_def)

lemma refill_ok: "bucket_ok b \<Longrightarrow> tb_updated b \<le> now \<Longrightarrow> bucket_ok (refill now b)"
  by (simp add: bucket_ok_def)

lemma try_take_ok:
  assumes "try_take now cost b = (ok, b')" "bucket_ok b" "tb_updated b \<le> now" "0 \<le> cost"
  shows "bucket_ok b' \<and> tb_updated b' = now \<and> tb_rate b' = tb_rate b \<and> tb_burst b' = tb_burst b \<and>
     (if ok then cost else 0) + tb_tokens b' \<le> tb_tokens b + (now - tb_updated b) * tb_rate b"
  using assms refill_ok [OF assms(2,3)]
  by (auto simp: try_take_def Let_def bucket_ok_def split: if_splits)

lemma try_takes_ok:
  "try_takes rs b = (oks, b') \<Longrightarrow> bucket_ok b \<Longrightarrow> in_time (tb_updated b) rs \<Longrightarrow>
     granted rs oks + tb_tokens b' \<le> tb_tokens b + (last (tb_updated b # map fst rs) - tb_updated b) * tb_rate b \<and>
     bucket_ok b' \<and> length oks = length rs"
proof (induction rs arbitrary: b oks b')
  case Nil
  then show ?case by (simp add: granted_def)
next
  case (Cons r rs)
  obtain now cost where r: "r = (now, cost)" by (cases r)
  obtain ok b1 where 1: "try_take now cost b = (ok, b1)" by fastforce
  obtain oks1 b2 where 2: "try_takes rs b1 = (oks1, b2)" by fastforce
  have now: "tb_updated b \<le> now" "0 \<le> cost" using Cons.prems(3) by (simp_all add: in_time_def r)
  note s = try_take_ok [OF 1 Cons.prems(2) now]
  have "in_time (tb_updated b1) rs" using Cons.prems(3) s by (auto simp: in_time_def r)
  from Cons.IH [OF 2 conjunct1 [OF s] this] s have ih:
    "granted rs oks1 + tb_tokens b2 \<le> tb_tokens b1 + (last (now # map fst rs) - now) * tb_rate b"
    "bucket_ok b2" "length oks1 = length rs" by simp_all
  have "oks = ok # oks1" "b' = b2" using Cons.prems(1) 1 2 by (auto simp: r)
  with ih s show ?case by (simp add: granted_def r algebra_simps)
qed

text \<open>Whatever a client sends and whenever, a bucket grants at most its burst and its rate over the time
  since, and \<open>try_take\<close> never puts it into debt.\<close>

lemma bucket_bounds_grants:
  assumes "0 \<le> rate" and "0 \<le> burst" and "in_time start rs" and "try_takes rs (new_bucket rate burst start) = (oks, b)"
  shows "granted rs oks \<le> burst + rate * (last (start # map fst rs) - start) \<and> bucket_ok b"
proof -
  have "in_time (tb_updated (new_bucket rate burst start)) rs" using assms(3) by (simp add: new_bucket_def)
  from try_takes_ok [OF assms(4) _ this] assms(1,2) show ?thesis
    by (auto simp: new_bucket_def bucket_ok_def algebra_simps)
qed

text \<open>\<open>take\<close> lends: after the wait it asks for, the debt is paid.\<close>

lemma take_tokens_wait:
  assumes "take_tokens now cost b = Inr (wait, b')" "0 < tb_rate b"
  shows "0 \<le> wait \<and> tb_updated b' = now \<and>
     (tb_tokens b' < 0 \<longrightarrow> tb_tokens b' + wait * tb_rate b' = 0) \<and> (0 \<le> tb_tokens b' \<longrightarrow> wait = 0)"
  using assms by (auto simp: take_tokens_def Let_def split: if_splits intro: divide_nonpos_pos)

lemma take_tokens_never_raises: "0 < tb_rate b \<Longrightarrow> \<exists>r. take_tokens now cost b = Inr r"
  by (simp add: take_tokens_def Let_def)

section \<open>HostBuckets\<close>

record host_buckets =
  hb_rate :: rat
  hb_burst :: rat
  hb_limit :: int
  hb_buckets :: "(string \<times> token_bucket) list"

definition new_hosts :: "rat \<Rightarrow> rat \<Rightarrow> int \<Rightarrow> host_buckets" where
  "new_hosts rate burst limit = \<lparr>hb_rate = rate, hb_burst = burst, hb_limit = limit, hb_buckets = []\<rparr>"

text \<open>\<open>try_take\<close>.  Python works on the bucket it holds, which \<open>popitem\<close> has taken out of the dictionary
  when the limit leaves room for none; then nothing of it is kept.\<close>

definition host_try_take :: "rat \<Rightarrow> string \<Rightarrow> rat \<Rightarrow> host_buckets \<Rightarrow> bool \<times> host_buckets" where
  "host_try_take now host cost hb =
     (case map_of (hb_buckets hb) host of
        None \<Rightarrow>
          let (ok, b) = try_take now cost (new_bucket (hb_rate hb) (hb_burst hb) now);
              bs = hb_buckets hb @ [(host, b)]
          in (ok, hb\<lparr>hb_buckets := (if int (length bs) > hb_limit hb then tl bs else bs)\<rparr>)
      | Some b \<Rightarrow>
          let (ok, b) = try_take now cost b
          in (ok, hb\<lparr>hb_buckets := move_to_end host (AList.update host b (hb_buckets hb))\<rparr>))"

fun host_try_takes :: "(string \<times> rat \<times> rat) list \<Rightarrow> host_buckets \<Rightarrow> bool list \<times> host_buckets" where
  "host_try_takes [] hb = ([], hb)"
| "host_try_takes ((host, now, cost) # rs) hb =
     (let (ok, hb) = host_try_take now host cost hb; (oks, hb) = host_try_takes rs hb in (ok # oks, hb))"

definition requests_of :: "string \<Rightarrow> (string \<times> rat \<times> rat) list \<Rightarrow> (rat \<times> rat) list" where
  "requests_of h rs = map snd (filter (\<lambda>r. fst r = h) rs)"

definition answers_to :: "string \<Rightarrow> (string \<times> rat \<times> rat) list \<Rightarrow> bool list \<Rightarrow> bool list" where
  "answers_to h rs oks = map snd (filter (\<lambda>(r, ok). fst r = h) (zip rs oks))"

text \<open>What a client of its own bucket, made at its first request, would be told.\<close>

fun own_answers :: "rat \<Rightarrow> rat \<Rightarrow> token_bucket option \<Rightarrow> (rat \<times> rat) list \<Rightarrow> bool list" where
  "own_answers rate burst b [] = []"
| "own_answers rate burst None ((now, cost) # rs) = fst (try_takes ((now, cost) # rs) (new_bucket rate burst now))"
| "own_answers rate burst (Some b) rs = fst (try_takes rs b)"

lemma own_answers_step:
  "own_answers rate burst ob ((now, cost) # rs) =
     (let (ok, b) = try_take now cost (case ob of None \<Rightarrow> new_bucket rate burst now | Some b \<Rightarrow> b)
      in ok # own_answers rate burst (Some b) rs)"
  by (cases ob; cases rs) (auto simp: Let_def split: prod.splits)

lemma requests_of_simps [simp]:
  "requests_of h [] = []" "requests_of h (r # rs) = (if fst r = h then snd r # requests_of h rs else requests_of h rs)"
  by (simp_all add: requests_of_def)

lemma answers_to_simps [simp]:
  "answers_to h [] oks = []"
  "answers_to h (r # rs) (ok # oks) = (if fst r = h then ok # answers_to h rs oks else answers_to h rs oks)"
  by (simp_all add: answers_to_def)

definition hosts_ok :: "host_buckets \<Rightarrow> bool" where
  "hosts_ok hb \<longleftrightarrow> distinct (map fst (hb_buckets hb)) \<and> int (length (hb_buckets hb)) \<le> hb_limit hb"

text \<open>A request changes the bucket of its own host only, as long as there is room for one bucket each.\<close>

lemma host_try_take_step:
  assumes "hosts_ok hb" "int (card (insert h (fst ` set (hb_buckets hb)))) \<le> hb_limit hb"
    and "host_try_take now h cost hb = (ok, hb')"
  shows "hosts_ok hb' \<and> fst ` set (hb_buckets hb') = insert h (fst ` set (hb_buckets hb)) \<and>
     hb_rate hb' = hb_rate hb \<and> hb_burst hb' = hb_burst hb \<and> hb_limit hb' = hb_limit hb \<and>
     (\<exists>b. try_take now cost (case map_of (hb_buckets hb) h of None \<Rightarrow> new_bucket (hb_rate hb) (hb_burst hb) now | Some b \<Rightarrow> b)
        = (ok, b) \<and> map_of (hb_buckets hb') = (map_of (hb_buckets hb))(h \<mapsto> b))"
proof (cases "map_of (hb_buckets hb) h")
  case None
  then have new: "h \<notin> fst ` set (hb_buckets hb)" by (simp add: map_of_eq_None_iff)
  have d: "distinct (map fst (hb_buckets hb))" using assms(1) by (simp add: hosts_ok_def)
  have "card (insert h (fst ` set (hb_buckets hb))) = Suc (length (hb_buckets hb))"
    using new distinct_card [OF d] by simp
  with assms(2) have room: "int (length (hb_buckets hb)) + 1 \<le> hb_limit hb" by simp
  obtain b where b: "try_take now cost (new_bucket (hb_rate hb) (hb_burst hb) now) = (ok, b)"
    using assms(3) None by (auto simp: host_try_take_def Let_def split: prod.splits)
  have "hb' = hb\<lparr>hb_buckets := hb_buckets hb @ [(h, b)]\<rparr>"
    using assms(3) None b room by (simp add: host_try_take_def Let_def)
  with d new room b None show ?thesis
    by (auto simp: hosts_ok_def map_add_def fun_eq_iff split: option.splits)
next
  case (Some b0)
  obtain b where b: "try_take now cost b0 = (ok, b)"
    using assms(3) Some by (auto simp: host_try_take_def split: prod.splits)
  have hb': "hb' = hb\<lparr>hb_buckets := move_to_end h (AList.update h b (hb_buckets hb))\<rparr>"
    using assms(3) Some b by (simp add: host_try_take_def)
  have m: "map_of (hb_buckets hb') = (map_of (hb_buckets hb))(h \<mapsto> b)"
    by (simp add: hb' update_conv')
  have keys: "fst ` set (hb_buckets hb') = insert h (fst ` set (hb_buckets hb))"
    using arg_cong [OF m, of dom] by (simp add: dom_map_of_conv_image_fst)
  have d: "distinct (map fst (hb_buckets hb'))"
    using assms(1) by (simp add: hb' hosts_ok_def distinct_move_to_end distinct_update)
  have "length (hb_buckets hb') = card (fst ` set (hb_buckets hb'))"
    using distinct_card [OF d] by simp
  with assms(2) keys have "int (length (hb_buckets hb')) \<le> hb_limit hb'" by (simp add: hb')
  with d keys m b Some show ?thesis by (simp add: hosts_ok_def hb')
qed

lemma hosts_isolated:
  assumes "hosts_ok hb" "int (card (fst ` set (hb_buckets hb) \<union> fst ` set rs)) \<le> hb_limit hb"
    and "host_try_takes rs hb = (oks, hb')"
  shows "answers_to h rs oks = own_answers (hb_rate hb) (hb_burst hb) (map_of (hb_buckets hb) h) (requests_of h rs)
     \<and> hosts_ok hb' \<and> hb_limit hb' = hb_limit hb"
  using assms
proof (induction rs arbitrary: hb oks hb')
  case (Cons r rs)
  obtain g now cost where r: "r = (g, now, cost)" by (cases r)
  obtain ok hb1 where 1: "host_try_take now g cost hb = (ok, hb1)" by fastforce
  obtain oks1 hb2 where 2: "host_try_takes rs hb1 = (oks1, hb2)" by fastforce
  have eq: "oks = ok # oks1" "hb' = hb2" using Cons.prems(3) 1 2 by (auto simp: r)
  have "card (insert g (fst ` set (hb_buckets hb))) \<le> card (fst ` set (hb_buckets hb) \<union> fst ` set (r # rs))"
    by (rule card_mono) (auto simp: r)
  with Cons.prems(2) have "int (card (insert g (fst ` set (hb_buckets hb)))) \<le> hb_limit hb" by linarith
  from host_try_take_step [OF Cons.prems(1) this 1] obtain b where
    s: "hosts_ok hb1" "fst ` set (hb_buckets hb1) = insert g (fst ` set (hb_buckets hb))" "hb_rate hb1 = hb_rate hb"
      "hb_burst hb1 = hb_burst hb" "hb_limit hb1 = hb_limit hb"
      "try_take now cost (case map_of (hb_buckets hb) g of None \<Rightarrow> new_bucket (hb_rate hb) (hb_burst hb) now | Some b \<Rightarrow> b) = (ok, b)"
      "map_of (hb_buckets hb1) = (map_of (hb_buckets hb))(g \<mapsto> b)" by blast
  have "fst ` set (hb_buckets hb1) \<union> fst ` set rs = fst ` set (hb_buckets hb) \<union> fst ` set (r # rs)"
    unfolding s(2) by (auto simp: r)
  from Cons.IH [OF s(1) _ 2, unfolded this s(3-5), OF Cons.prems(2)]
  have ih: "answers_to h rs oks1 = own_answers (hb_rate hb) (hb_burst hb) (map_of (hb_buckets hb1) h) (requests_of h rs)"
    "hosts_ok hb2" "hb_limit hb2 = hb_limit hb" by simp_all
  then show ?case using s(6) by (cases "g = h") (simp_all add: eq r s(7) own_answers_step)
qed simp

text \<open>C33. Clients cannot spend each other's budget: while there are no more clients than buckets, each gets
  exactly the answers it would get from a token bucket of its own, made at its first request, whatever
  the others do; what it is granted in all is at most \<open>burst + rate * elapsed\<close>; and the table stays
  within its limit.\<close>

theorem clients_are_isolated:
  assumes "0 \<le> rate" and "0 \<le> burst" and "int (card (fst ` set rs)) \<le> limit"
    and "host_try_takes rs (new_hosts rate burst limit) = (oks, hb)"
    and "requests_of h rs = (start, cost) # later" and "in_time start ((start, cost) # later)"
  shows "answers_to h rs oks = fst (try_takes (requests_of h rs) (new_bucket rate burst start)) \<and>
     granted (requests_of h rs) (answers_to h rs oks) \<le> burst + rate * (last (start # map fst later) - start) \<and>
     int (length (hb_buckets hb)) \<le> limit"
proof -
  have ok: "hosts_ok (new_hosts rate burst limit)" using assms(3) by (simp add: hosts_ok_def new_hosts_def)
  have "int (card (fst ` set (hb_buckets (new_hosts rate burst limit)) \<union> fst ` set rs)) \<le> hb_limit (new_hosts rate burst limit)"
    using assms(3) by (simp add: new_hosts_def)
  from hosts_isolated [OF ok this assms(4), of h] assms(5)
  have iso: "answers_to h rs oks = fst (try_takes (requests_of h rs) (new_bucket rate burst start))" "hosts_ok hb" "hb_limit hb = limit"
    by (simp_all add: new_hosts_def)
  obtain b where "try_takes (requests_of h rs) (new_bucket rate burst start) = (answers_to h rs oks, b)"
    using iso(1) by (metis prod.collapse)
  from bucket_bounds_grants [OF assms(1,2) _ this] assms(5,6) have
    "granted (requests_of h rs) (answers_to h rs oks) \<le> burst + rate * (last (start # map fst (requests_of h rs)) - start)" by simp
  then show ?thesis using iso assms(5) by (simp add: hosts_ok_def)
qed

lemma clients_are_isolated_witness:
  "\<exists>oks hb. host_try_takes [(''a'', 1, 5), (''b'', 2, 1), (''a'', 3, 4), (''a'', 5, 4)] (new_hosts 1 5 2) = (oks, hb) \<and>
     answers_to ''a'' [(''a'', 1, 5), (''b'', 2, 1), (''a'', 3, 4), (''a'', 5, 4)] oks = [True, False, True]"
proof -
  let ?rs = "[(''a'', 1, 5), (''b'', 2, 1), (''a'', 3, 4), (''a'', 5, 4)] :: (string \<times> rat \<times> rat) list"
  obtain oks hb where r: "host_try_takes ?rs (new_hosts 1 5 2) = (oks, hb)" by fastforce
  have "requests_of ''a'' ?rs = (1, 5) # [(3, 4), (5, 4)]" by simp
  moreover have "fst ` set ?rs = {''a'', ''b''}" by auto
  then have "int (card (fst ` set ?rs)) \<le> 2" by simp
  ultimately have
    "answers_to ''a'' ?rs oks = fst (try_takes [(1, 5), (3, 4), (5, 4)] (new_bucket 1 5 1))"
    using clients_are_isolated [OF _ _ _ r, of "''a''" 1 5 "[(3, 4), (5, 4)]"] by (simp add: in_time_def)
  then have "answers_to ''a'' ?rs oks = [True, False, True]"
    by (simp add: try_take_def new_bucket_def refill_def Let_def)
  with r show ?thesis by blast
qed

section \<open>BodyLimitMiddleware\<close>

text \<open>What \<open>receive\<close> brings, with the deadline for the whole body among it; what the middleware does with
  the request.\<close>

datatype body_event = Disconnect | Body bytes bool | Deadline

datatype body_outcome = Gone | Too_large | Timed_out bool | Delivered bytes | Passed_on

record http_scope =
  sc_type :: string
  sc_headers :: "(bytes \<times> bytes) list"
  sc_http_version :: string

definition is_digit_byte :: "byte \<Rightarrow> bool" where
  "is_digit_byte b \<longleftrightarrow> 48 \<le> b \<and> b \<le> 57"

definition lower_byte :: "byte \<Rightarrow> byte" where
  "lower_byte b = (if 65 \<le> b \<and> b \<le> 90 then b + 32 else b)"

text \<open>A declared length that is no number or is more than the limit, compared as text: the number may
  have any number of digits.\<close>

definition refuse_length :: "int \<Rightarrow> bytes \<Rightarrow> bool" where
  "refuse_length max_bytes declared =
     (let digits = (if dropWhile (\<lambda>b. b = 48) declared = [] then [48] else dropWhile (\<lambda>b. b = 48) declared);
          maximum = ascii (str_of_int max_bytes)
      in \<not> (declared \<noteq> [] \<and> list_all is_digit_byte declared) \<or> length digits > length maximum
         \<or> (length digits = length maximum \<and> digits > maximum))"

fun read_body :: "int \<Rightarrow> bool \<Rightarrow> body_event list \<Rightarrow> bytes \<Rightarrow> body_outcome option" where
  "read_body max_bytes close [] body = None"
| "read_body max_bytes close (Deadline # es) body = Some (Timed_out close)"
| "read_body max_bytes close (Disconnect # es) body = Some Gone"
| "read_body max_bytes close (Body chunk further # es) body =
     (if int (length body) + int (length chunk) > max_bytes then Some Too_large
      else if further then read_body max_bytes close es (body @ chunk) else Some (Delivered (body @ chunk)))"

definition body_limit :: "int \<Rightarrow> http_scope \<Rightarrow> body_event list \<Rightarrow> body_outcome option" where
  "body_limit max_bytes scope es =
     (if sc_type scope \<noteq> ''http'' then Some Passed_on
      else if list_ex (\<lambda>(key, declared). map lower_byte key = ascii ''content-length'' \<and> refuse_length max_bytes declared)
                (sc_headers scope)
      then Some Too_large
      else read_body max_bytes (take 2 (sc_http_version scope) = ''1.'') es [])"

text \<open>The number that a string of digits stands for.\<close>

definition digits_value :: "bytes \<Rightarrow> int" where
  "digits_value ds = foldl (\<lambda>n b. n * 10 + (uint b - 48)) 0 ds"

lemma digits_value_snoc [simp]: "digits_value (ds @ [b]) = digits_value ds * 10 + (uint b - 48)"
  by (simp add: digits_value_def)

lemma digits_value_Nil [simp]: "digits_value [] = 0"
  by (simp add: digits_value_def)

lemma digits_value_append: "digits_value (xs @ ys) = digits_value xs * 10 ^ length ys + digits_value ys"
  by (induction ys rule: rev_induct) (simp_all flip: append_assoc add: algebra_simps)

lemma digit_byte_bounds: "is_digit_byte b \<Longrightarrow> 0 \<le> uint b - 48 \<and> uint b - 48 \<le> 9"
  by (simp add: is_digit_byte_def word_le_def)

lemma digits_value_bounds: "list_all is_digit_byte ds \<Longrightarrow> 0 \<le> digits_value ds \<and> digits_value ds < 10 ^ length ds"
  by (induction ds rule: rev_induct) (auto dest!: digit_byte_bounds)

lemma digits_value_Cons: "digits_value (b # ds) = (uint b - 48) * 10 ^ length ds + digits_value ds"
  using digits_value_append [of "[b]" ds] by (simp add: digits_value_def)

lemma digits_less:
  "length xs = length ys \<Longrightarrow> list_all is_digit_byte xs \<Longrightarrow> list_all is_digit_byte ys \<Longrightarrow>
     xs < ys \<longleftrightarrow> digits_value xs < digits_value ys"
proof (induction xs ys rule: list_induct2)
  case (Cons x xs y ys)
  have b: "0 \<le> digits_value xs" "digits_value xs < 10 ^ length ys" "0 \<le> digits_value ys" "digits_value ys < 10 ^ length ys"
    using Cons.prems Cons.hyps digits_value_bounds [of xs] digits_value_bounds [of ys] by simp_all
  consider "x < y" | "x = y" | "y < x" by (metis linorder_less_linear)
  then show ?case
  proof cases
    case 1
    then have "uint x + 1 \<le> uint y" by (simp add: word_less_def)
    then have "(uint x + 1) * 10 ^ length ys \<le> uint y * 10 ^ length ys" by (intro mult_right_mono) auto
    with b 1 Cons.hyps show ?thesis by (simp add: digits_value_Cons algebra_simps)
  next
    case 2
    then show ?thesis using Cons by (simp add: digits_value_Cons)
  next
    case 3
    then have "uint y + 1 \<le> uint x" by (simp add: word_less_def)
    then have "(uint y + 1) * 10 ^ length ys \<le> uint x * 10 ^ length ys" by (intro mult_right_mono) auto
    with b 3 Cons.hyps show ?thesis by (auto simp: digits_value_Cons algebra_simps)
  qed
qed simp

lemma digit_value_pos: "is_digit_byte b \<Longrightarrow> b \<noteq> 48 \<Longrightarrow> 1 \<le> uint b - 48"
proof -
  assume "is_digit_byte b" "b \<noteq> 48"
  then have "48 < b" by (simp add: is_digit_byte_def order_le_less)
  then show ?thesis by (simp add: word_less_def)
qed

lemma digits_value_longer:
  assumes "length xs < length ys" "list_all is_digit_byte xs" "list_all is_digit_byte ys" "hd ys \<noteq> 48"
  shows "digits_value xs < digits_value ys"
proof -
  obtain y ys' where ys: "ys = y # ys'" using assms(1) by (cases ys) auto
  have y: "1 \<le> uint y - 48" "0 \<le> digits_value ys'"
    using assms(3,4) digit_value_pos digits_value_bounds [of ys'] ys by auto
  have "digits_value xs < 10 ^ length xs" using digits_value_bounds assms(2) by simp
  also have "\<dots> \<le> (10 :: int) ^ length ys'" using assms(1) ys by (intro power_increasing) auto
  also have "\<dots> \<le> (uint y - 48) * 10 ^ length ys'" using y by (simp add: mult_le_cancel_right1)
  also have "\<dots> \<le> digits_value ys" using y by (simp add: ys digits_value_Cons)
  finally show ?thesis .
qed

lemma uint_digit_char: "0 \<le> d \<Longrightarrow> d < 10 \<Longrightarrow> uint (of_char (digit_char d) :: byte) = 48 + d"
proof -
  assume d: "0 \<le> d" "d < 10"
  have "(of_char (digit_char d) :: byte) = of_nat (of_char (digit_char d))" by (rule of_nat_of_char [symmetric])
  also have "\<dots> = of_nat (nat d + 48)" using d by (simp only: of_char_digit_char)
  finally show ?thesis using d by (simp add: uint_nat unat_of_nat take_bit_nat_eq_self del: of_nat_add)
qed

lemma ascii_digits: "0 \<le> n \<Longrightarrow> list_all is_digit_byte (ascii (str_of_int n)) \<and> digits_value (ascii (str_of_int n)) = n \<and>
    (n \<noteq> 0 \<longrightarrow> hd (ascii (str_of_int n)) \<noteq> 48) \<and> ascii (str_of_int n) \<noteq> []"
proof (induction n rule: str_of_int.induct)
  case (1 n)
  have d: "is_digit_byte (of_char (digit_char d))" "of_char (digit_char d) \<noteq> (48 :: byte) \<longleftrightarrow> d \<noteq> 0" if "0 \<le> d" "d < 10" for d
    using uint_digit_char [OF that] that by (auto simp: is_digit_byte_def word_le_def word_uint_eq_iff)
  show ?case
  proof (cases "n < 10")
    case True
    then show ?thesis using 1 d uint_digit_char [of n] by (simp add: str_of_int.simps [of n] ascii_def digits_value_def)
  next
    case False
    have "ascii (str_of_int n) = ascii (str_of_int (n div 10)) @ [of_char (digit_char (n mod 10))]"
      using False by (simp add: str_of_int.simps [of n] ascii_def)
    then show ?thesis using False 1 d [of "n mod 10"] uint_digit_char [of "n mod 10"] by simp
  qed
qed

text \<open>Leading zeros do not count, and without them the longer number is the larger one: the comparison as
  text is the comparison of the numbers.\<close>

lemma refuse_length_iff:
  assumes "0 \<le> max_bytes"
  shows "refuse_length max_bytes declared \<longleftrightarrow>
     declared = [] \<or> \<not> list_all is_digit_byte declared \<or> digits_value declared > max_bytes"
proof (cases "declared \<noteq> [] \<and> list_all is_digit_byte declared")
  case True
  define ds where "ds = dropWhile (\<lambda>b. b = 48) declared"
  define digits where "digits = (if ds = [] then [48] else ds)"
  let ?max = "ascii (str_of_int max_bytes)"
  note m = ascii_digits [OF assms]
  have zeros: "digits_value zs = 0" if "\<forall>b\<in>set zs. b = 48" for zs using that by (induction zs rule: rev_induct) auto
  have "declared = takeWhile (\<lambda>b. b = 48) declared @ ds" by (simp add: ds_def)
  then have "digits_value declared = digits_value (takeWhile (\<lambda>b. b = 48) declared @ ds)" by simp
  also have "\<dots> = digits_value ds" unfolding digits_value_append by (subst zeros) (auto dest: set_takeWhileD)
  also have "\<dots> = digits_value digits" using zeros [of "[48]"] by (simp add: digits_def)
  finally have v: "digits_value declared = digits_value digits" .
  have all: "list_all is_digit_byte digits"
    using True by (auto simp: digits_def ds_def is_digit_byte_def list_all_iff dest: set_dropWhileD)
  have hd: "hd digits \<noteq> 48 \<or> digits = [48]"
    using hd_dropWhile [of "\<lambda>b. b = 48" declared] by (auto simp: digits_def ds_def)
  have "length digits > length ?max \<or> length digits = length ?max \<and> digits > ?max \<longleftrightarrow> max_bytes < digits_value digits"
  proof -
    consider "length ?max < length digits" | "length digits = length ?max" | "length digits < length ?max" by linarith
    then show ?thesis
    proof cases
      case 1
      then have "hd digits \<noteq> 48" using hd m by (auto simp: Suc_le_eq)
      with 1 show ?thesis using digits_value_longer [OF 1] m all by auto
    next
      case 2
      then show ?thesis using digits_less [of ?max digits] m all by auto
    next
      case 3
      have "max_bytes \<noteq> 0"
      proof
        assume "max_bytes = 0"
        then have "length ?max = 1" by (simp add: ascii_def str_of_int.simps)
        with 3 show False by (simp add: digits_def split: if_splits)
      qed
      with 3 show ?thesis using digits_value_longer [OF 3] m all by auto
    qed
  qed
  then show ?thesis using True v unfolding refuse_length_def Let_def digits_def ds_def by simp
qed (auto simp: refuse_length_def Let_def)

text \<open>Whatever is declared and however the body is cut into messages: it is passed on exactly when it fits,
  and never is more than the limit held in memory.\<close>

lemma read_body_chunks:
  assumes "int (length body) \<le> max_bytes" "cs \<noteq> []"
  shows "read_body max_bytes close (map (\<lambda>c. Body c True) (butlast cs) @ [Body (last cs) False]) body =
     Some (if int (length body) + int (length (concat cs)) \<le> max_bytes then Delivered (body @ concat cs) else Too_large)"
  using assms
proof (induction cs arbitrary: body)
  case (Cons c cs)
  show ?case
  proof (cases "cs = []")
    case False
    with Cons.IH [of "body @ c"] show ?thesis by auto
  qed simp
qed simp

lemma read_body_bounded:
  "read_body max_bytes close es body = Some (Delivered d) \<Longrightarrow> int (length d) \<le> max_bytes"
  by (induction max_bytes close es body rule: read_body.induct) (auto split: if_splits)

lemma body_limit_exact:
  assumes "0 \<le> max_bytes" "sc_type scope = ''http''" "cs \<noteq> []"
    and "\<forall>(key, declared)\<in>set (sc_headers scope). map lower_byte key = ascii ''content-length'' \<longrightarrow>
           declared \<noteq> [] \<and> list_all is_digit_byte declared \<and> digits_value declared \<le> max_bytes"
  shows "body_limit max_bytes scope (map (\<lambda>c. Body c True) (butlast cs) @ [Body (last cs) False]) =
     Some (if int (length (concat cs)) \<le> max_bytes then Delivered (concat cs) else Too_large)"
proof -
  have "\<not> list_ex (\<lambda>(key, declared). map lower_byte key = ascii ''content-length'' \<and> refuse_length max_bytes declared)
      (sc_headers scope)"
    using assms(4) by (auto simp: list_ex_iff refuse_length_iff [OF assms(1)] not_less)
  with assms read_body_chunks [of "[]" max_bytes cs] show ?thesis by (simp add: body_limit_def)
qed

end
