(* ===== verification/Events.thy ===== *)
theory Events
  imports Prelude "HOL-Library.Finite_Map" "HOL-Library.Char_ord"
begin

text \<open>
  \<open>node/events.py\<close>: the live events for subscribers.  Subscriptions are objects that the bus indexes by
  topic; here they are numbered and kept in one table beside the index, so that what the program shares by
  reference is one entry of the table.  The index and the topics of each subscription always agree, and
  publishing reaches exactly the subscribers of the topic.
\<close>

definition QUEUE_LIMIT :: nat where "QUEUE_LIMIT = 1000"

record 'm subscription =
  sub_queue :: "'m list"
  sub_topics :: "string fset"
  sub_overflowed :: bool

record 'm event_bus =
  bus_by_topic :: "(string, nat fset) fmap"
  bus_subscriptions :: "'m subscription list"

definition new_subscription :: "'m subscription" where
  "new_subscription = \<lparr>sub_queue = [], sub_topics = {||}, sub_overflowed = False\<rparr>"

definition new_bus :: "'m event_bus" where
  "new_bus = \<lparr>bus_by_topic = fmempty, bus_subscriptions = []\<rparr>"

definition deliver :: "'m \<Rightarrow> 'm subscription \<Rightarrow> 'm subscription" where
  "deliver m s =
     (if length (sub_queue s) < QUEUE_LIMIT then s\<lparr>sub_queue := sub_queue s @ [m]\<rparr> else s\<lparr>sub_overflowed := True\<rparr>)"

definition subscribers :: "string \<Rightarrow> 'm event_bus \<Rightarrow> nat fset" where
  "subscribers t bus = (case fmlookup (bus_by_topic bus) t of None \<Rightarrow> {||} | Some is \<Rightarrow> is)"

text \<open>Changing one subscription object.\<close>

definition change_sub :: "nat \<Rightarrow> ('m subscription \<Rightarrow> 'm subscription) \<Rightarrow> 'm event_bus \<Rightarrow> 'm event_bus" where
  "change_sub i f bus = bus\<lparr>bus_subscriptions := (bus_subscriptions bus)[i := f (bus_subscriptions bus ! i)]\<rparr>"

definition subscribe :: "'m event_bus \<Rightarrow> nat \<times> 'm event_bus" where
  "subscribe bus =
     (length (bus_subscriptions bus), bus\<lparr>bus_subscriptions := bus_subscriptions bus @ [new_subscription]\<rparr>)"

definition add_topic :: "nat \<Rightarrow> string \<Rightarrow> 'm event_bus \<Rightarrow> 'm event_bus" where
  "add_topic i t bus =
     (let bus = change_sub i (\<lambda>s. s\<lparr>sub_topics := finsert t (sub_topics s)\<rparr>) bus
      in bus\<lparr>bus_by_topic := fmupd t (finsert i (subscribers t bus)) (bus_by_topic bus)\<rparr>)"

fun add_topics :: "nat \<Rightarrow> string list \<Rightarrow> int \<Rightarrow> 'm event_bus \<Rightarrow> 'm event_bus" where
  "add_topics i [] limit bus = bus"
| "add_topics i (t # ts) limit bus =
     (if int (fcard (sub_topics (bus_subscriptions bus ! i))) \<ge> limit then bus
      else add_topics i ts limit (add_topic i t bus))"

definition leave_topic :: "nat \<Rightarrow> string \<Rightarrow> 'm event_bus \<Rightarrow> 'm event_bus" where
  "leave_topic i t bus =
     (case fmlookup (bus_by_topic bus) t of
        None \<Rightarrow> bus
      | Some is \<Rightarrow>
          let is = is |-| {|i|}
          in bus\<lparr>bus_by_topic := (if is = {||} then fmdrop t (bus_by_topic bus) else fmupd t is (bus_by_topic bus))\<rparr>)"

definition unsubscribe :: "nat \<Rightarrow> 'm event_bus \<Rightarrow> 'm event_bus" where
  "unsubscribe i bus =
     change_sub i (\<lambda>s. s\<lparr>sub_topics := {||}\<rparr>)
       (fold (leave_topic i) (sorted_list_of_fset (sub_topics (bus_subscriptions bus ! i))) bus)"

definition publish :: "string \<Rightarrow> 'm \<Rightarrow> 'm event_bus \<Rightarrow> 'm event_bus" where
  "publish t m bus = fold (\<lambda>i. change_sub i (deliver m)) (sorted_list_of_fset (subscribers t bus)) bus"

section \<open>The index and the subscriptions agree\<close>

text \<open>\<open>topics_of\<close> is what subscription \<open>i\<close> wants; the index has exactly that, no topic without
  subscribers, and no queue is longer than its limit.\<close>

definition topics_of :: "nat \<Rightarrow> 'm event_bus \<Rightarrow> string fset" where
  "topics_of i bus = (if i < length (bus_subscriptions bus) then sub_topics (bus_subscriptions bus ! i) else {||})"

definition bus_ok :: "'m event_bus \<Rightarrow> bool" where
  "bus_ok bus \<longleftrightarrow> (\<forall>t i. i |\<in>| subscribers t bus \<longleftrightarrow> t |\<in>| topics_of i bus) \<and>
     (\<forall>t. fmlookup (bus_by_topic bus) t \<noteq> Some {||}) \<and>
     (\<forall>s\<in>set (bus_subscriptions bus). length (sub_queue s) \<le> QUEUE_LIMIT)"

lemma change_sub_fields [simp]:
  "bus_by_topic (change_sub i f bus) = bus_by_topic bus" "subscribers t (change_sub i f bus) = subscribers t bus"
  "length (bus_subscriptions (change_sub i f bus)) = length (bus_subscriptions bus)"
  by (simp_all add: change_sub_def subscribers_def)

lemma nth_change_sub: "j < length (bus_subscriptions bus) \<Longrightarrow>
    bus_subscriptions (change_sub i f bus) ! j = (if i = j then f (bus_subscriptions bus ! j) else bus_subscriptions bus ! j)"
  by (simp add: change_sub_def)

lemma topics_of_change: "topics_of j (change_sub i f bus) =
    (if i = j \<and> i < length (bus_subscriptions bus) then sub_topics (f (bus_subscriptions bus ! i)) else topics_of j bus)"
  by (auto simp: topics_of_def nth_change_sub)

lemma change_sub_queues:
  assumes "\<forall>s\<in>set (bus_subscriptions bus). length (sub_queue s) \<le> QUEUE_LIMIT"
    and "\<And>s. length (sub_queue s) \<le> QUEUE_LIMIT \<Longrightarrow> length (sub_queue (f s)) \<le> QUEUE_LIMIT"
  shows "\<forall>s\<in>set (bus_subscriptions (change_sub i f bus)). length (sub_queue s) \<le> QUEUE_LIMIT"
proof (cases "i < length (bus_subscriptions bus)")
  case True
  then have "bus_subscriptions bus ! i \<in> set (bus_subscriptions bus)" by simp
  with assms show ?thesis using set_update_subset_insert [of "bus_subscriptions bus" i] by (fastforce simp: change_sub_def)
next
  case False
  with assms(1) show ?thesis by (simp add: change_sub_def list_update_beyond)
qed

lemma bus_ok_new [simp]: "bus_ok new_bus"
  by (simp add: bus_ok_def new_bus_def subscribers_def topics_of_def)

lemma subscribe_ok: "bus_ok bus \<Longrightarrow> bus_ok (snd (subscribe bus))"
  by (auto simp: bus_ok_def subscribe_def subscribers_def topics_of_def nth_append new_subscription_def less_Suc_eq)

lemma add_topic_ok:
  assumes "bus_ok bus" "i < length (bus_subscriptions bus)"
  shows "bus_ok (add_topic i t bus) \<and> topics_of i (add_topic i t bus) = finsert t (topics_of i bus)"
proof -
  let ?b = "change_sub i (\<lambda>s. s\<lparr>sub_topics := finsert t (sub_topics s)\<rparr>) bus"
  have subs: "subscribers u (add_topic i t bus) = (if u = t then finsert i (subscribers u bus) else subscribers u bus)" for u
    by (simp add: add_topic_def Let_def subscribers_def change_sub_def)
  have topics: "topics_of j (add_topic i t bus) = (if i = j then finsert t (topics_of j bus) else topics_of j bus)" for j
    using assms(2) by (auto simp: add_topic_def Let_def topics_of_def nth_change_sub)
  have q: "bus_subscriptions (add_topic i t bus) = bus_subscriptions ?b" by (simp add: add_topic_def Let_def)
  have "\<forall>s\<in>set (bus_subscriptions (add_topic i t bus)). length (sub_queue s) \<le> QUEUE_LIMIT"
    unfolding q by (rule change_sub_queues) (use assms(1) in \<open>auto simp: bus_ok_def\<close>)
  moreover have "fmlookup (bus_by_topic (add_topic i t bus)) u \<noteq> Some {||}" for u
    using assms(1) by (auto simp: bus_ok_def add_topic_def Let_def)
  ultimately show ?thesis using assms(1) by (auto simp: bus_ok_def subs topics)
qed

lemma add_topics_ok:
  "bus_ok bus \<Longrightarrow> i < length (bus_subscriptions bus) \<Longrightarrow> int (fcard (topics_of i bus)) \<le> limit \<Longrightarrow>
     bus_ok (add_topics i ts limit bus) \<and> int (fcard (topics_of i (add_topics i ts limit bus))) \<le> limit \<and>
     topics_of i bus |\<subseteq>| topics_of i (add_topics i ts limit bus)"
proof (induction ts arbitrary: bus)
  case (Cons t ts)
  show ?case
  proof (cases "int (fcard (sub_topics (bus_subscriptions bus ! i))) \<ge> limit")
    case False
    note s = add_topic_ok [OF Cons.prems(1,2), of t]
    have "fcard (finsert t (topics_of i bus)) \<le> Suc (fcard (topics_of i bus))" by (simp add: fcard_finsert_if)
    with False Cons.prems(2) s have "int (fcard (topics_of i (add_topic i t bus))) \<le> limit" by (simp add: topics_of_def)
    moreover have "i < length (bus_subscriptions (add_topic i t bus))"
      using Cons.prems(2) by (simp add: add_topic_def Let_def)
    ultimately show ?thesis using Cons.IH [of "add_topic i t bus"] s False by auto
  qed (use Cons.prems in simp)
qed simp

lemma leave_topic_subscribers:
  "subscribers u (leave_topic i t bus) = (if u = t then subscribers u bus |-| {|i|} else subscribers u bus)"
  "bus_subscriptions (leave_topic i t bus) = bus_subscriptions bus"
  by (auto simp: leave_topic_def subscribers_def Let_def split: option.splits)

lemma leave_topics:
  assumes "\<forall>t. fmlookup (bus_by_topic bus) t \<noteq> Some {||}"
  shows "(\<forall>u. subscribers u (fold (leave_topic i) ts bus) = (if u \<in> set ts then subscribers u bus |-| {|i|} else subscribers u bus)) \<and>
     bus_subscriptions (fold (leave_topic i) ts bus) = bus_subscriptions bus \<and>
     (\<forall>t. fmlookup (bus_by_topic (fold (leave_topic i) ts bus)) t \<noteq> Some {||})"
  using assms
proof (induction ts arbitrary: bus)
  case (Cons t ts)
  have "\<forall>u. fmlookup (bus_by_topic (leave_topic i t bus)) u \<noteq> Some {||}"
    using Cons.prems by (auto simp: leave_topic_def Let_def split: option.splits)
  from Cons.IH [OF this] show ?case by (auto simp: leave_topic_subscribers)
qed simp

text \<open>After \<open>unsubscribe\<close> nothing of the subscription is left in the index.\<close>

lemma unsubscribe_ok:
  assumes "bus_ok bus" "i < length (bus_subscriptions bus)"
  shows "bus_ok (unsubscribe i bus) \<and> (\<forall>t. i |\<notin>| subscribers t (unsubscribe i bus)) \<and>
     (\<forall>j t. j \<noteq> i \<longrightarrow> j |\<in>| subscribers t (unsubscribe i bus) \<longleftrightarrow> j |\<in>| subscribers t bus)"
proof -
  let ?ts = "sorted_list_of_fset (sub_topics (bus_subscriptions bus ! i))"
  let ?b = "fold (leave_topic i) ?ts bus"
  have ok: "\<forall>t i. i |\<in>| subscribers t bus \<longleftrightarrow> t |\<in>| topics_of i bus" "\<forall>t. fmlookup (bus_by_topic bus) t \<noteq> Some {||}"
      "\<forall>s\<in>set (bus_subscriptions bus). length (sub_queue s) \<le> QUEUE_LIMIT" using assms(1) by (simp_all add: bus_ok_def)
  note l = leave_topics [OF ok(2), of i ?ts]
  have subs: "subscribers u (unsubscribe i bus) = subscribers u bus |-| {|i|}" for u
    using l ok(1) assms(2) by (auto simp: unsubscribe_def topics_of_def)
  have topics: "topics_of j (unsubscribe i bus) = (if i = j then {||} else topics_of j bus)" for j
    using l assms(2) by (simp add: unsubscribe_def topics_of_change) (simp add: topics_of_def)
  have "\<forall>s\<in>set (bus_subscriptions (unsubscribe i bus)). length (sub_queue s) \<le> QUEUE_LIMIT"
    unfolding unsubscribe_def by (rule change_sub_queues) (use l ok(3) in auto)
  then show ?thesis using ok(1) l unfolding bus_ok_def subs topics by (auto simp: unsubscribe_def)
qed

lemma publish_fold:
  assumes "distinct is" "\<forall>i\<in>set is. i < length (bus_subscriptions bus)"
  shows "bus_by_topic (fold (\<lambda>i. change_sub i (deliver m)) is bus) = bus_by_topic bus \<and>
     length (bus_subscriptions (fold (\<lambda>i. change_sub i (deliver m)) is bus)) = length (bus_subscriptions bus) \<and>
     (\<forall>j<length (bus_subscriptions bus). bus_subscriptions (fold (\<lambda>i. change_sub i (deliver m)) is bus) ! j =
        (if j \<in> set is then deliver m (bus_subscriptions bus ! j) else bus_subscriptions bus ! j))"
  using assms
proof (induction "is" arbitrary: bus)
  case (Cons i "is")
  from Cons.IH [of "change_sub i (deliver m) bus"] Cons.prems show ?case by (auto simp: nth_change_sub)
qed simp

text \<open>Publishing puts the message at the end of the queue of each subscriber of the topic that keeps up,
  marks the others as fallen behind, and touches nobody else.\<close>

lemma publish_reaches:
  assumes "bus_ok bus"
  shows "bus_ok (publish t m bus) \<and> bus_by_topic (publish t m bus) = bus_by_topic bus \<and>
     length (bus_subscriptions (publish t m bus)) = length (bus_subscriptions bus) \<and>
     (\<forall>j<length (bus_subscriptions bus). bus_subscriptions (publish t m bus) ! j =
        (if t |\<in>| topics_of j bus then deliver m (bus_subscriptions bus ! j) else bus_subscriptions bus ! j))"
proof -
  have ok: "\<forall>t i. i |\<in>| subscribers t bus \<longleftrightarrow> t |\<in>| topics_of i bus" using assms by (simp add: bus_ok_def)
  then have "\<forall>i\<in>set (sorted_list_of_fset (subscribers t bus)). i < length (bus_subscriptions bus)"
    by (auto simp: topics_of_def split: if_splits)
  moreover have "distinct (sorted_list_of_fset (subscribers t bus))" by (simp add: sorted_list_of_fset.rep_eq)
  ultimately have p: "bus_by_topic (publish t m bus) = bus_by_topic bus \<and>
     length (bus_subscriptions (publish t m bus)) = length (bus_subscriptions bus) \<and>
     (\<forall>j<length (bus_subscriptions bus). bus_subscriptions (publish t m bus) ! j =
        (if j |\<in>| subscribers t bus then deliver m (bus_subscriptions bus ! j) else bus_subscriptions bus ! j))"
    using publish_fold [of "sorted_list_of_fset (subscribers t bus)" bus m] by (simp add: publish_def)
  have j: "bus_subscriptions (publish t m bus) ! j =
      (if t |\<in>| topics_of j bus then deliver m (bus_subscriptions bus ! j) else bus_subscriptions bus ! j)"
    if "j < length (bus_subscriptions bus)" for j using p that ok by simp
  have topics: "topics_of j (publish t m bus) = topics_of j bus" for j
    using p j [of j] by (auto simp: topics_of_def deliver_def)
  have "length (sub_queue s) \<le> QUEUE_LIMIT" if "s \<in> set (bus_subscriptions (publish t m bus))" for s
  proof -
    from that obtain j where "j < length (bus_subscriptions bus)" "s = bus_subscriptions (publish t m bus) ! j"
      using p by (auto simp: in_set_conv_nth)
    moreover from this have "length (sub_queue (bus_subscriptions bus ! j)) \<le> QUEUE_LIMIT" using assms by (simp add: bus_ok_def)
    ultimately show ?thesis using j by (auto simp: deliver_def)
  qed
  then have "bus_ok (publish t m bus)" using assms p unfolding bus_ok_def topics by (simp add: subscribers_def)
  with p j show ?thesis by simp
qed

end
