(* ===== verification/Texts.thy ===== *)
theory Texts
  imports Params
begin

text \<open>
  The methods of Python's \<open>str\<close> that the wallet uses: \<open>split\<close>, \<open>join\<close> and \<open>partition\<close> over any
  characters, \<open>lower\<close> and \<open>encode("utf-8")\<close> over the code points below 256.
\<close>

text \<open>A text as the list of its code points, for texts that may hold any character.\<close>

type_synonym ustr = "nat list"

definition u :: "string \<Rightarrow> ustr" where
  "u s = map of_char s"

text \<open>A text as the functions over 8-bit characters take it.  They compare characters with ASCII ones
  only; a code point above 255 is none of those, and neither is NUL.\<close>

definition chars :: "ustr \<Rightarrow> string" where
  "chars s = map (\<lambda>n. if n < 256 then char_of n else char_of (0 :: nat)) s"

fun split_by :: "('a \<Rightarrow> bool) \<Rightarrow> 'a list \<Rightarrow> 'a list list" where
  "split_by p [] = [[]]"
| "split_by p (c # s) =
     (if p c then [] # split_by p s else (case split_by p s of [] \<Rightarrow> [[c]] | w # ws \<Rightarrow> (c # w) # ws))"

text \<open>The value of a hexadecimal digit.\<close>

definition hex_digit :: "nat \<Rightarrow> nat option" where
  "hex_digit n =
     (if 48 \<le> n \<and> n \<le> 57 then Some (n - 48)
      else if 65 \<le> n \<and> n \<le> 70 then Some (n - 55)
      else if 97 \<le> n \<and> n \<le> 102 then Some (n - 87) else None)"

text \<open>\<open>text.split(c)\<close> and \<open>text.split()\<close>\<close>

definition split_on :: "'a \<Rightarrow> 'a list \<Rightarrow> 'a list list" where
  "split_on c s = split_by (\<lambda>x. x = c) s"

definition split_words :: "string \<Rightarrow> string list" where
  "split_words s = filter (\<lambda>w. w \<noteq> []) (split_by is_space s)"

fun join :: "'a \<Rightarrow> 'a list list \<Rightarrow> 'a list" where
  "join c [] = []"
| "join c [w] = w"
| "join c (w # v # ws) = w @ c # join c (v # ws)"

text \<open>\<open>text.partition(c)\<close>\<close>

definition partition_at :: "'a \<Rightarrow> 'a list \<Rightarrow> 'a list \<times> bool \<times> 'a list" where
  "partition_at c s =
     (case dropWhile (\<lambda>x. x \<noteq> c) s of
        [] \<Rightarrow> (s, False, [])
      | _ # after \<Rightarrow> (takeWhile (\<lambda>x. x \<noteq> c) s, True, after))"

definition lower_char :: "char \<Rightarrow> char" where
  "lower_char c =
     (let n = of_char c :: nat
      in if (65 \<le> n \<and> n \<le> 90) \<or> (192 \<le> n \<and> n \<le> 222 \<and> n \<noteq> 215) then char_of (n + 32) else c)"

definition lower :: "string \<Rightarrow> string" where
  "lower s = map lower_char s"

definition utf8_char :: "char \<Rightarrow> bytes" where
  "utf8_char c =
     (let n = of_char c :: int
      in if n < 128 then [word_of_int n] else [word_of_int (192 + n div 64), word_of_int (128 + n mod 64)])"

definition utf8 :: "string \<Rightarrow> bytes" where
  "utf8 s = concat (map utf8_char s)"

section \<open>Splitting and joining\<close>

lemma split_by_nonempty [simp]: "split_by p s \<noteq> []"
  by (induction s) (auto split: list.splits)

lemma split_by_plain: "\<forall>c\<in>set w. \<not> p c \<Longrightarrow> split_by p w = [w]"
  by (induction w) auto

lemma split_by_append: "\<forall>c\<in>set w. \<not> p c \<Longrightarrow> p c \<Longrightarrow> split_by p (w @ c # s) = w # split_by p s"
  by (induction w) auto

lemma split_by_join: "ws \<noteq> [] \<Longrightarrow> \<forall>w\<in>set ws. \<forall>x\<in>set w. \<not> p x \<Longrightarrow> p c \<Longrightarrow> split_by p (join c ws) = ws"
  by (induction c ws rule: join.induct) (auto simp: split_by_plain split_by_append)

lemma split_on_join: "ws \<noteq> [] \<Longrightarrow> \<forall>w\<in>set ws. c \<notin> set w \<Longrightarrow> split_on c (join c ws) = ws"
  unfolding split_on_def by (rule split_by_join) auto

lemma split_words_join:
  assumes "\<forall>w\<in>set ws. w \<noteq> [] \<and> (\<forall>x\<in>set w. \<not> is_space x)"
  shows "split_words (join CHR '' '' ws) = ws"
proof (cases "ws = []")
  case False
  with assms have "split_by is_space (join CHR '' '' ws) = ws" by (intro split_by_join) (auto simp: is_space_def)
  then show ?thesis using assms by (simp add: split_words_def filter_id_conv)
qed (simp add: split_words_def)

lemma split_by_parts: "w \<in> set (split_by p s) \<Longrightarrow> \<forall>x\<in>set w. \<not> p x \<and> x \<in> set s"
proof (induction s arbitrary: w)
  case (Cons c s)
  obtain v vs where v: "split_by p s = v # vs" by (cases "split_by p s") auto
  with Cons.IH have "\<forall>u\<in>set (v # vs). \<forall>x\<in>set u. \<not> p x \<and> x \<in> set s" by metis
  with Cons.prems v show ?case by (auto split: if_splits)
qed simp

lemma split_words_parts: "w \<in> set (split_words s) \<Longrightarrow> w \<noteq> [] \<and> (\<forall>x\<in>set w. \<not> is_space x)"
  using split_by_parts by (auto simp: split_words_def)

lemma join_split_on: "join c (split_on c s) = s"
  unfolding split_on_def
proof (induction s)
  case (Cons x s)
  obtain w ws where "split_by (\<lambda>y. y = c) s = w # ws" by (cases "split_by (\<lambda>y. y = c) s") auto
  with Cons show ?case by (cases ws) auto
qed simp

lemma set_join: "x \<in> set (join c ws) \<Longrightarrow> x = c \<or> (\<exists>w\<in>set ws. x \<in> set w)"
  by (induction c ws rule: join.induct) auto

lemma partition_at_found: "c \<notin> set a \<Longrightarrow> partition_at c (a @ c # b) = (a, True, b)"
proof -
  assume "c \<notin> set a"
  then have "\<forall>x\<in>set a. x \<noteq> c" by auto
  then have "dropWhile (\<lambda>x. x \<noteq> c) (a @ c # b) = c # b" "takeWhile (\<lambda>x. x \<noteq> c) (a @ c # b) = a"
    by (induction a) auto
  then show "partition_at c (a @ c # b) = (a, True, b)" by (simp add: partition_at_def)
qed

lemma partition_at_missing: "c \<notin> set a \<Longrightarrow> partition_at c a = (a, False, [])"
proof -
  assume "c \<notin> set a"
  then have "dropWhile (\<lambda>x. x \<noteq> c) a = []" unfolding dropWhile_eq_Nil_conv by auto
  then show "partition_at c a = (a, False, [])" by (simp add: partition_at_def del: dropWhile_eq_Nil_conv)
qed

end
