(* ===== verification/Mnemonic.thy ===== *)
theory Mnemonic
  imports Texts Hashing
begin

text \<open>
  \<open>crypto/mnemonic.py\<close>: the words a wallet is written down in.  The word list is a file; its text is an
  argument, and what the theorems need of it is \<open>wordlist_ok\<close>.  Unicode normalisation and
  PBKDF2 belong to Python's library and are fields of \<open>text_lib\<close>.
\<close>

unbundle bit_operations_syntax

record text_lib =
  nfkd :: "string \<Rightarrow> string"
  pbkdf2_sha512 :: "bytes \<Rightarrow> bytes \<Rightarrow> int \<Rightarrow> bytes"

definition VALID_ENTROPY_BYTES :: "nat set" where
  "VALID_ENTROPY_BYTES = {16, 20, 24, 28, 32}"

definition wordlist :: "string \<Rightarrow> string list result" where
  "wordlist file = (let ws = split_words file in if length ws = 2048 then Inr ws else Inl AssertionError)"

text \<open>A dictionary comprehension keeps the last index of a word.\<close>

definition word_index :: "string list \<Rightarrow> string \<Rightarrow> int option" where
  "word_index ws = map_of (rev (zip ws [0..int (length ws) - 1]))"

definition entropy_to_mnemonic :: "prims \<Rightarrow> string \<Rightarrow> bytes \<Rightarrow> string result" where
  "entropy_to_mnemonic P file entropy =
     (if length entropy \<notin> VALID_ENTROPY_BYTES then Inl ValueError
      else let checksum_bits = length entropy * 8 div 32;
               bits = push_bit checksum_bits (from_be entropy)
                      OR drop_bit (8 - checksum_bits) (uint (hd (sha256 P entropy)));
               word_count = (length entropy * 8 + checksum_bits) div 11
           in rbind (wordlist file) (\<lambda>ws.
                Inr (join CHR '' '' (map (\<lambda>i. ws ! nat (drop_bit (11 * (word_count - 1 - i)) bits AND 0x7FF))
                                       [0..<word_count]))))"

definition generate :: "prims \<Rightarrow> string \<Rightarrow> (int \<Rightarrow> bytes) \<Rightarrow> int \<Rightarrow> string result" where
  "generate P file token_bytes n =
     (let entropy_bytes = n * 4 div 3
      in if n mod 3 \<noteq> 0 \<or> entropy_bytes \<notin> int ` VALID_ENTROPY_BYTES then Inl ValueError
         else entropy_to_mnemonic P file (token_bytes entropy_bytes))"

definition normalize :: "text_lib \<Rightarrow> string \<Rightarrow> string" where
  "normalize T m = join CHR '' '' (split_words (lower (nfkd T m)))"

fun read_words :: "(string \<Rightarrow> int option) \<Rightarrow> string list \<Rightarrow> int \<Rightarrow> int result" where
  "read_words index [] bits = Inr bits"
| "read_words index (w # ws) bits =
     (case index w of None \<Rightarrow> Inl ValueError | Some i \<Rightarrow> read_words index ws (push_bit 11 bits OR i))"

definition mnemonic_to_entropy :: "prims \<Rightarrow> text_lib \<Rightarrow> string \<Rightarrow> string \<Rightarrow> bytes result" where
  "mnemonic_to_entropy P T file m =
     (let ws = split_on CHR '' '' (normalize T m)
      in if length ws \<notin> {12, 15, 18, 21, 24} then Inl ValueError
         else rbind (wordlist file) (\<lambda>wl. rbind (read_words (word_index wl) ws 0) (\<lambda>bits.
                let checksum_bits = length ws * 11 div 33;
                    entropy_bytes = (length ws * 11 - checksum_bits) div 8
                in rbind (to_bytes (drop_bit checksum_bits bits) entropy_bytes) (\<lambda>entropy.
                     if bits AND (push_bit checksum_bits 1 - 1)
                        \<noteq> drop_bit (8 - checksum_bits) (uint (hd (sha256 P entropy)))
                     then Inl ValueError else Inr entropy))))"

definition is_valid_mnemonic :: "prims \<Rightarrow> text_lib \<Rightarrow> string \<Rightarrow> string \<Rightarrow> bool result" where
  "is_valid_mnemonic P T file m =
     (case mnemonic_to_entropy P T file m of
        Inr _ \<Rightarrow> Inr True
      | Inl e \<Rightarrow> if e = ValueError then Inr False else Inl e)"

definition to_seed :: "text_lib \<Rightarrow> string \<Rightarrow> string \<Rightarrow> bytes" where
  "to_seed T m passphrase =
     pbkdf2_sha512 T (utf8 (normalize T m)) (utf8 (''mnemonic'' @ nfkd T passphrase)) 2048"

section \<open>Numbers in base 2048\<close>

lemma or_push: "0 \<le> y \<Longrightarrow> y < 2 ^ n \<Longrightarrow> push_bit n x OR y = x * 2 ^ n + (y :: int)"
proof -
  assume y: "0 \<le> y" "y < 2 ^ n"
  have "\<not> bit (push_bit n x) k \<or> \<not> bit y k" for k
  proof (cases "k < n")
    case False
    have "take_bit n y = y" using y by (simp add: take_bit_int_eq_self)
    then have "\<not> bit y k" using False by (metis bit_take_bit_iff)
    then show ?thesis ..
  qed (simp add: bit_push_bit_iff)
  then have "push_bit n x + y = push_bit n x OR y" by (rule disjunctive_add)
  then show "push_bit n x OR y = x * 2 ^ n + y" by (simp add: push_bit_eq_mult)
qed

definition base2048 :: "int list \<Rightarrow> int" where
  "base2048 ds = foldl (\<lambda>b d. b * 2048 + d) 0 ds"

definition digits2048 :: "nat \<Rightarrow> int \<Rightarrow> int list" where
  "digits2048 k n = map (\<lambda>i. n div 2048 ^ (k - 1 - i) mod 2048) [0..<k]"

lemma base2048_snoc [simp]: "base2048 (ds @ [d]) = base2048 ds * 2048 + d" "base2048 [] = 0"
  by (simp_all add: base2048_def)

lemma digits2048_Suc: "digits2048 (Suc k) n = digits2048 k (n div 2048) @ [n mod 2048]"
proof -
  have "n div 2048 ^ (k - i) = n div 2048 div 2048 ^ (k - 1 - i)" if "i < k" for i
    using that by (simp add: zdiv_zmult2_eq [symmetric] power_Suc [symmetric] Suc_diff_Suc)
  then show ?thesis by (auto simp: digits2048_def)
qed

lemma digits2048_0 [simp]: "digits2048 0 n = []"
  by (simp add: digits2048_def)

lemma digits2048_empty [simp]: "digits2048 k n = [] \<longleftrightarrow> k = 0"
  by (simp add: digits2048_def)

lemma length_digits2048 [simp]: "length (digits2048 k n) = k"
  by (simp add: digits2048_def)

lemma digits2048_bounds: "d \<in> set (digits2048 k n) \<Longrightarrow> 0 \<le> d \<and> d < 2048"
  by (auto simp: digits2048_def)

lemma base_digits: "0 \<le> n \<Longrightarrow> n < 2048 ^ k \<Longrightarrow> base2048 (digits2048 k n) = n"
proof (induction k arbitrary: n)
  case (Suc k)
  then have "n div 2048 < 2048 ^ k" by (simp add: div_less_iff_less_mult mult.commute)
  with Suc show ?case by (simp add: digits2048_Suc pos_imp_zdiv_nonneg_iff)
qed (simp add: digits2048_def)

lemma base2048_bounds: "\<forall>d\<in>set ds. 0 \<le> d \<and> d < 2048 \<Longrightarrow> 0 \<le> base2048 ds \<and> base2048 ds < 2048 ^ length ds"
  by (induction ds rule: rev_induct) (auto simp: algebra_simps)

lemma digits_base: "\<forall>d\<in>set ds. 0 \<le> d \<and> d < 2048 \<Longrightarrow> digits2048 (length ds) (base2048 ds) = ds"
  by (induction ds rule: rev_induct) (simp_all add: digits2048_Suc)

section \<open>Words and their numbers\<close>

text \<open>The words of the list are all different, of plain lower-case letters.\<close>

definition plain_word :: "string \<Rightarrow> bool" where
  "plain_word w \<longleftrightarrow> w \<noteq> [] \<and> (\<forall>c\<in>set w. (97 :: nat) \<le> of_char c \<and> of_char c \<le> (122 :: nat))"

definition wordlist_ok :: "string \<Rightarrow> bool" where
  "wordlist_ok file \<longleftrightarrow>
     length (split_words file) = 2048 \<and> distinct (split_words file) \<and> (\<forall>w\<in>set (split_words file). plain_word w)"

text \<open>Normalisation form KD changes no ASCII text (Unicode Standard Annex 15).\<close>

definition nfkd_ascii :: "text_lib \<Rightarrow> bool" where
  "nfkd_ascii T \<longleftrightarrow> (\<forall>s. (\<forall>c\<in>set s. of_char c < (128 :: nat)) \<longrightarrow> nfkd T s = s)"

lemma word_index_nth:
  assumes "distinct ws" "i < length ws"
  shows "word_index ws (ws ! i) = Some (int i)"
proof -
  let ?z = "zip ws [0..int (length ws) - 1]"
  have "distinct (map fst ?z)" using assms(1) by simp
  moreover have "(ws ! i, int i) \<in> set ?z" using assms(2) by (force simp: set_zip intro!: exI [of _ i])
  ultimately show ?thesis unfolding word_index_def by (intro map_of_is_SomeI) (simp_all add: rev_map [symmetric])
qed

lemma word_index_Some: "word_index ws w = Some i \<Longrightarrow> 0 \<le> i \<and> i < int (length ws) \<and> ws ! nat i = w"
  unfolding word_index_def by (drule map_of_SomeD) (auto simp: set_zip)

lemma read_words_digits:
  assumes "distinct wl" "length wl = 2048" "\<forall>d\<in>set ds. 0 \<le> d \<and> d < 2048"
  shows "read_words (word_index wl) (map (\<lambda>d. wl ! nat d) ds) b = Inr (foldl (\<lambda>b d. b * 2048 + d) b ds)"
  using assms(3)
proof (induction ds arbitrary: b)
  case (Cons d ds)
  then have "word_index wl (wl ! nat d) = Some d" using word_index_nth [of wl "nat d"] assms(1,2) by (simp add: nat_less_iff)
  with Cons or_push [of d 11 b] show ?case by simp
qed simp

lemma read_words_Inr:
  assumes "read_words (word_index wl) ws b = Inr n" "length wl = 2048"
  shows "\<exists>ds. ws = map (\<lambda>d. wl ! nat d) ds \<and> (\<forall>d\<in>set ds. 0 \<le> d \<and> d < 2048) \<and> n = foldl (\<lambda>b d. b * 2048 + d) b ds"
  using assms(1)
proof (induction ws arbitrary: b)
  case (Cons w ws)
  then obtain i where i: "word_index wl w = Some i" "read_words (word_index wl) ws (push_bit 11 b OR i) = Inr n"
    by (auto split: option.splits)
  note w = word_index_Some [OF i(1)]
  from Cons.IH [OF i(2)] obtain ds where "ws = map (\<lambda>d. wl ! nat d) ds" "\<forall>d\<in>set ds. 0 \<le> d \<and> d < 2048"
    "n = foldl (\<lambda>b d. b * 2048 + d) (push_bit 11 b OR i) ds" by blast
  with w or_push [of i 11 b] assms(2) show ?case by (intro exI [of _ "i # ds"]) simp
qed simp

section \<open>Words and entropy correspond\<close>

definition word_checksum :: "prims \<Rightarrow> nat \<Rightarrow> bytes \<Rightarrow> int" where
  "word_checksum P cs e = drop_bit (8 - cs) (uint (hd (sha256 P e)))"

lemma int_div_less_self_mult: "(x :: int) < y * z \<Longrightarrow> 0 < z \<Longrightarrow> x div z < y"
proof -
  assume "x < y * z" "0 < z"
  moreover have "x div z * z \<le> x" using \<open>0 < z\<close> by (metis div_mult_mod_eq le_add_same_cancel1 pos_mod_sign)
  ultimately have "x div z * z < y * z" by linarith
  then show "x div z < y" using \<open>0 < z\<close> by (simp add: mult_less_cancel_right_pos)
qed

lemma word_checksum_bounds: "cs \<le> 8 \<Longrightarrow> 0 \<le> word_checksum P cs e \<and> word_checksum P cs e < 2 ^ cs"
proof -
  assume cs: "cs \<le> 8"
  have "uint (hd (sha256 P e)) < 2 ^ 8" using uint_lt2p [of "hd (sha256 P e)"] by simp
  also have "(2 :: int) ^ 8 = 2 ^ cs * 2 ^ (8 - cs)" using cs by (simp flip: power_add)
  finally have "uint (hd (sha256 P e)) div 2 ^ (8 - cs) < 2 ^ cs"
    by (rule int_div_less_self_mult) simp
  then show "0 \<le> word_checksum P cs e \<and> word_checksum P cs e < 2 ^ cs"
    by (simp add: word_checksum_def drop_bit_eq_div pos_imp_zdiv_nonneg_iff)
qed

lemma and_2047: "(x :: int) AND 2047 = x mod 2048"
  using take_bit_eq_mask [of 11 x] by (simp add: take_bit_eq_mod mask_eq_exp_minus_1)

lemma drop_11: "drop_bit (11 * k) (x :: int) = x div 2048 ^ k"
  by (simp add: drop_bit_eq_div power_mult)

text \<open>The sizes: 4 bits of checksum for each 16 bytes, 11 bits a word.\<close>

lemma entropy_sizes:
  assumes "n \<in> VALID_ENTROPY_BYTES"
  shows "n * 8 div 32 = n div 4" "4 \<le> n div 4" "n div 4 \<le> 8" "(n * 8 + n div 4) div 11 = 3 * (n div 4)"
    "8 * n + n div 4 = 11 * (3 * (n div 4))" "n = 4 * (n div 4)"
  using assms by (auto simp: VALID_ENTROPY_BYTES_def)

lemma mnemonic_digits:
  assumes "length e \<in> VALID_ENTROPY_BYTES" "length (split_words file) = 2048"
  shows "entropy_to_mnemonic P file e = Inr (join CHR '' '' (map (\<lambda>d. split_words file ! nat d)
     (digits2048 (3 * (length e div 4)) (from_be e * 2 ^ (length e div 4) + word_checksum P (length e div 4) e))))"
proof -
  let ?cs = "length e div 4"
  note sz = entropy_sizes [OF assms(1)]
  have "push_bit ?cs (from_be e) OR word_checksum P ?cs e = from_be e * 2 ^ ?cs + word_checksum P ?cs e"
    using word_checksum_bounds [OF sz(3), of P e] by (intro or_push) auto
  then show ?thesis
    using assms sz(1,4)
    by (simp add: entropy_to_mnemonic_def wordlist_def Let_def drop_11 and_2047 digits2048_def comp_def flip: word_checksum_def)
qed

lemma bits_bounds:
  assumes "length e \<in> VALID_ENTROPY_BYTES"
  shows "0 \<le> from_be e * 2 ^ (length e div 4) + word_checksum P (length e div 4) e"
    and "from_be e * 2 ^ (length e div 4) + word_checksum P (length e div 4) e < 2048 ^ (3 * (length e div 4))"
proof -
  let ?cs = "length e div 4"
  note sz = entropy_sizes [OF assms] and ck = word_checksum_bounds [OF entropy_sizes(3) [OF assms], of P e]
  have e: "0 \<le> from_be e" "from_be e < 256 ^ length e" using from_be_nonneg from_be_bound by auto
  then show "0 \<le> from_be e * 2 ^ ?cs + word_checksum P ?cs e" using ck by simp
  have "from_be e * 2 ^ ?cs + word_checksum P ?cs e < (from_be e + 1) * 2 ^ ?cs" using ck by (simp add: algebra_simps)
  also have "\<dots> \<le> 256 ^ length e * 2 ^ ?cs" using e by (intro mult_right_mono) auto
  also have "\<dots> = 2 ^ (8 * length e + ?cs)" by (simp add: power_add power_mult)
  also have "\<dots> = 2048 ^ (3 * ?cs)" unfolding sz(5) power_mult by simp
  finally show "from_be e * 2 ^ ?cs + word_checksum P ?cs e < 2048 ^ (3 * ?cs)" .
qed

lemma plain_word_props:
  assumes "plain_word w"
  shows "w \<noteq> []" "\<forall>c\<in>set w. \<not> is_space c" "\<forall>c\<in>set w. of_char c < (128 :: nat)" "lower w = w" "CHR '' '' \<notin> set w"
proof -
  have w: "w \<noteq> []" "\<forall>c\<in>set w. (97 :: nat) \<le> of_char c \<and> of_char c \<le> (122 :: nat)" using assms by (auto simp: plain_word_def)
  then show "w \<noteq> []" "\<forall>c\<in>set w. \<not> is_space c" "\<forall>c\<in>set w. of_char c < (128 :: nat)"
    by (auto simp: is_space_def Let_def)
  then show "CHR '' '' \<notin> set w" by (auto simp: is_space_def)
  show "lower w = w" using w(2) by (auto simp: lower_def lower_char_def Let_def intro!: map_idI)
qed

text \<open>A text of words of the list, with one space between two, is normal.\<close>

lemma normalize_words:
  assumes "nfkd_ascii T" "\<forall>w\<in>set ws. plain_word w"
  shows "normalize T (join CHR '' '' ws) = join CHR '' '' ws"
proof -
  have "of_char c < (128 :: nat) \<and> lower_char c = c" if c: "c \<in> set (join CHR '' '' ws)" for c
  proof -
    consider "c = CHR '' ''" | w where "w \<in> set ws" "c \<in> set w" using set_join [OF c] by blast
    then show ?thesis
    proof cases
      case 2
      with assms(2) have "(97 :: nat) \<le> of_char c \<and> of_char c \<le> (122 :: nat)" by (auto simp: plain_word_def)
      then show ?thesis by (simp add: lower_char_def Let_def)
    qed (simp add: lower_char_def Let_def)
  qed
  then have "nfkd T (join CHR '' '' ws) = join CHR '' '' ws" "lower (join CHR '' '' ws) = join CHR '' '' ws"
    using assms(1) by (auto simp: nfkd_ascii_def lower_def intro!: map_idI)
  moreover have "split_words (join CHR '' '' ws) = ws" by (rule split_words_join) (use assms(2) plain_word_props in blast)
  ultimately show ?thesis by (simp add: normalize_def)
qed

lemma entropy_of_bits:
  assumes "length e \<in> VALID_ENTROPY_BYTES" "cs = length e div 4"
  shows "to_bytes (drop_bit cs (from_be e * 2 ^ cs + word_checksum P cs e)) (length e) = Inr e"
    and "(from_be e * 2 ^ cs + word_checksum P cs e) AND (push_bit cs 1 - 1) = word_checksum P cs e"
proof -
  have cs: "cs \<le> 8" using assms by (simp add: entropy_sizes(3))
  note ck = word_checksum_bounds [OF cs, of P e]
  have "drop_bit cs (from_be e * 2 ^ cs + word_checksum P cs e) = from_be e" using ck by (simp add: drop_bit_eq_div)
  then show "to_bytes (drop_bit cs (from_be e * 2 ^ cs + word_checksum P cs e)) (length e) = Inr e"
    using from_be_nonneg [of e] from_be_bound [of e] to_be_from_be [of e] by (simp add: to_bytes_def not_less)
  have "x AND (push_bit cs 1 - 1) = x mod 2 ^ cs" for x :: int
    using take_bit_eq_mask [of cs x] by (simp add: take_bit_eq_mod mask_eq_exp_minus_1 push_bit_eq_mult)
  then show "(from_be e * 2 ^ cs + word_checksum P cs e) AND (push_bit cs 1 - 1) = word_checksum P cs e"
    using ck by (simp add: mod_pos_pos_trivial)
qed

lemma wordlist_Inr:
  assumes "wordlist_ok file"
  shows "wordlist file = Inr (split_words file)" "length (split_words file) = 2048" "distinct (split_words file)"
    "\<forall>w\<in>set (split_words file). plain_word w"
  using assms by (simp_all add: wordlist_ok_def wordlist_def)

lemma words_read_back:
  assumes "wordlist_ok file" "nfkd_ascii T" and e: "length e \<in> VALID_ENTROPY_BYTES"
  shows "\<exists>m. entropy_to_mnemonic P file e = Inr m \<and> mnemonic_to_entropy P T file m = Inr e"
proof -
  let ?wl = "split_words file"
  note wl = wordlist_Inr [OF assms(1)]
  let ?cs = "length e div 4"
  let ?bits = "from_be e * 2 ^ ?cs + word_checksum P ?cs e"
  let ?ds = "digits2048 (3 * ?cs) ?bits"
  let ?ws = "map (\<lambda>d. ?wl ! nat d) ?ds"
  note sz = entropy_sizes [OF e] and ds = digits2048_bounds [of _ "3 * ?cs" ?bits]
  have plain: "\<forall>w\<in>set ?ws. plain_word w" using ds wl(2,4) by (auto simp: nat_less_iff)
  have len: "length ?ws = 3 * ?cs" "?ws \<noteq> []" "length ?ws \<in> {12, 15, 18, 21, 24}" using e by (auto simp: VALID_ENTROPY_BYTES_def)
  have split: "split_on CHR '' '' (normalize T (join CHR '' '' ?ws)) = ?ws"
    unfolding normalize_words [OF assms(2) plain] using plain plain_word_props(5) by (intro split_on_join len(2)) blast
  have "read_words (word_index ?wl) ?ws 0 = Inr (base2048 ?ds)"
    using read_words_digits [OF wl(3,2), of ?ds 0] ds by (simp add: base2048_def)
  also have "base2048 ?ds = ?bits" using bits_bounds [OF e] by (rule base_digits)
  finally have rd: "read_words (word_index ?wl) ?ws 0 = Inr ?bits" .
  have n: "length ?ws * 11 div 33 = ?cs" "(length ?ws * 11 - ?cs) div 8 = length e" using e by (auto simp: VALID_ENTROPY_BYTES_def)
  have "mnemonic_to_entropy P T file (join CHR '' '' ?ws) = Inr e"
    unfolding mnemonic_to_entropy_def Let_def split n using len(3) wl(1) rd entropy_of_bits [OF e refl, of P]
    by (simp add: word_checksum_def)
  then show ?thesis using mnemonic_digits [OF e wl(2)] by blast
qed

lemma accepted_words:
  assumes "wordlist_ok file" and m: "mnemonic_to_entropy P T file m = Inr e"
  shows "entropy_to_mnemonic P file e = Inr (normalize T m)"
proof -
  let ?wl = "split_words file"
  note wl = wordlist_Inr [OF assms(1)]
  let ?ws = "split_on CHR '' '' (normalize T m)"
  let ?n = "length ?ws"
  let ?cs = "?n * 11 div 33"
  from m wl(1) obtain bits where n: "?n \<in> {12, 15, 18, 21, 24}" and bits: "read_words (word_index ?wl) ?ws 0 = Inr bits"
    and e: "to_bytes (drop_bit ?cs bits) ((?n * 11 - ?cs) div 8) = Inr e"
    and ck: "bits AND (push_bit ?cs 1 - 1) = word_checksum P ?cs e"
    by (auto simp: mnemonic_to_entropy_def Let_def rbind_Inr_iff word_checksum_def split: if_splits)
  from read_words_Inr [OF bits wl(2)] obtain ds where ds: "?ws = map (\<lambda>d. ?wl ! nat d) ds"
    "\<forall>d\<in>set ds. 0 \<le> d \<and> d < 2048" "bits = base2048 ds" by (auto simp: base2048_def)
  have len: "length e = (?n * 11 - ?cs) div 8" "from_be e = drop_bit ?cs bits"
    using e by (auto simp: to_bytes_def from_be_to_be split: if_splits)
  have v: "length e \<in> VALID_ENTROPY_BYTES" "length e div 4 = ?cs" "3 * ?cs = ?n" using n len(1) by (auto simp: VALID_ENTROPY_BYTES_def)
  have "bits AND (push_bit ?cs 1 - 1) = bits mod 2 ^ ?cs"
    using take_bit_eq_mask [of ?cs bits] by (simp add: take_bit_eq_mod mask_eq_exp_minus_1 push_bit_eq_mult)
  then have "from_be e * 2 ^ ?cs + word_checksum P ?cs e = bits" using ck len(2) div_mult_mod_eq [of bits "2 ^ ?cs"]
    by (simp add: drop_bit_eq_div)
  then have "entropy_to_mnemonic P file e = Inr (join CHR '' '' (map (\<lambda>d. ?wl ! nat d) (digits2048 ?n bits)))"
    using mnemonic_digits [OF v(1) wl(2), of P] unfolding v(2) v(3) by simp
  also have "digits2048 ?n bits = ds" using digits_base [OF ds(2)] ds(1,3) by (metis length_map)
  finally show ?thesis using ds(1) join_split_on by metis
qed

text \<open>C34. A passphrase stands for its entropy and nothing else: for every entropy of a valid size the words
  made of it read back as exactly that entropy, and every text that is accepted, however it is spaced or
  capitalised, is the words of the entropy it is read as.  So a wrong word, a wrong order or a wrong
  number of words is accepted only when the checksum of the entropy happens to match.\<close>

theorem words_are_entropy:
  assumes "wordlist_ok file" and "nfkd_ascii T"
  shows "(length e \<in> VALID_ENTROPY_BYTES \<longrightarrow>
       (\<exists>m. entropy_to_mnemonic P file e = Inr m \<and> mnemonic_to_entropy P T file m = Inr e)) \<and>
     (mnemonic_to_entropy P T file m = Inr e \<longrightarrow> entropy_to_mnemonic P file e = Inr (normalize T m))"
  using words_read_back [OF assms] accepted_words [OF assms(1)] by blast

section \<open>An example\<close>

text \<open>A list of 2048 words of three letters.\<close>

definition example_letter :: "nat \<Rightarrow> char" where
  "example_letter n = char_of (97 + n mod 26)"

definition example_words :: "string list" where
  "example_words = map (\<lambda>i. [example_letter (i div 676), example_letter (i div 26), example_letter i]) [0..<2048]"

definition example_text_lib :: text_lib where
  "example_text_lib = \<lparr>nfkd = \<lambda>s. s, pbkdf2_sha512 = \<lambda>d salt n. take 64 (d @ salt @ replicate 64 0)\<rparr>"

lemma example_letter_eq: "example_letter m = example_letter n \<longleftrightarrow> m mod 26 = n mod 26"
proof -
  have "(of_char (example_letter k) :: nat) = 97 + k mod 26" for k by (simp add: example_letter_def)
  then have "(of_char (example_letter m) :: nat) = of_char (example_letter n) \<longleftrightarrow> m mod 26 = n mod 26" by simp
  then show ?thesis by (simp only: of_char_eq_iff)
qed

lemma example_words_ok: "wordlist_ok (join CHR '' '' example_words)"
proof -
  have plain: "\<forall>w\<in>set example_words. plain_word w"
    by (auto simp: example_words_def plain_word_def example_letter_def)
  have "distinct example_words"
    unfolding example_words_def distinct_map
  proof (intro conjI inj_onI)
    fix i j :: nat
    assume "i \<in> set [0..<2048]" "j \<in> set [0..<2048]" and eq: "[example_letter (i div 676), example_letter (i div 26), example_letter i]
        = [example_letter (j div 676), example_letter (j div 26), example_letter j]"
    then have m: "i mod 26 = j mod 26" "i div 26 mod 26 = j div 26 mod 26" "i div 676 = j div 676"
      by (auto simp: example_letter_eq)
    have "n = (n div 676 * 26 + n div 26 mod 26) * 26 + n mod 26" for n :: nat
    proof -
      have "n div 676 = n div 26 div 26" by (simp add: div_mult2_eq [symmetric])
      then have "n div 676 * 26 + n div 26 mod 26 = n div 26" by simp
      then show ?thesis by simp
    qed
    then show "i = j" using m by metis
  qed simp
  moreover have "split_words (join CHR '' '' example_words) = example_words"
    by (rule split_words_join) (use plain plain_word_props in blast)
  ultimately show ?thesis using plain by (simp add: wordlist_ok_def) (simp add: example_words_def)
qed

lemma words_are_entropy_witness:
  "\<exists>m. entropy_to_mnemonic example_prims (join CHR '' '' example_words) (replicate 16 7) = Inr m \<and>
     mnemonic_to_entropy example_prims example_text_lib (join CHR '' '' example_words) m = Inr (replicate 16 7)"
proof -
  have "nfkd_ascii example_text_lib" by (simp add: nfkd_ascii_def example_text_lib_def)
  from words_are_entropy [OF example_words_ok this, of "replicate 16 7" example_prims] show ?thesis
    by (simp add: VALID_ENTROPY_BYTES_def)
qed

end
