(* ===== verification/Payment_Link.thy ===== *)
theory Payment_Link
  imports Texts Tx
begin

text \<open>
  \<open>wallet/payment_link.py\<close>: the links that ask for a payment.  A text is the list of its code points, so
  that memos and labels may hold any character; bytes are numbers below 256.  Reading is strict and
  exact: what is read is a valid request, and every valid request is written as a link that reads back
  as itself.
\<close>

definition SCHEME :: string where "SCHEME = ''talcash''"
definition MAX_LINK_LENGTH :: nat where "MAX_LINK_LENGTH = 2048"
definition MAX_LABEL_LENGTH :: nat where "MAX_LABEL_LENGTH = 100"

record payment_request =
  pr_network :: string
  pr_address :: ustr
  pr_amount :: "int option"
  pr_memo :: "ustr option"
  pr_label :: "ustr option"

section \<open>UTF-8 and percent-encoding\<close>

definition is_surrogate :: "nat \<Rightarrow> bool" where
  "is_surrogate n \<longleftrightarrow> 55296 \<le> n \<and> n \<le> 57343"

definition utf8_octets :: "nat \<Rightarrow> nat list" where
  "utf8_octets n =
     (if n < 128 then [n]
      else if n < 2048 then [192 + n div 64, 128 + n mod 64]
      else if n < 65536 then [224 + n div 4096, 128 + n div 64 mod 64, 128 + n mod 64]
      else [240 + n div 262144, 128 + n div 4096 mod 64, 128 + n div 64 mod 64, 128 + n mod 64])"

definition utf8_encode :: "ustr \<Rightarrow> nat list result" where
  "utf8_encode s = (if list_ex is_surrogate s then Inl UnicodeEncodeError else Inr (concat (map utf8_octets s)))"

definition is_continuation :: "nat \<Rightarrow> bool" where
  "is_continuation b \<longleftrightarrow> 128 \<le> b \<and> b \<le> 191"

text \<open>Strict decoding: no overlong forms, no surrogates, nothing above U+10FFFF.\<close>

fun utf8_decode :: "nat list \<Rightarrow> ustr option" where
  "utf8_decode [] = Some []"
| "utf8_decode (a # s) =
     (if a < 128 then map_option (Cons a) (utf8_decode s)
      else case s of
          [] \<Rightarrow> None
        | b # s \<Rightarrow>
            if 194 \<le> a \<and> a \<le> 223 \<and> is_continuation b
            then map_option (Cons ((a - 192) * 64 + (b - 128))) (utf8_decode s)
            else case s of
                [] \<Rightarrow> None
              | c # s \<Rightarrow>
                  if 224 \<le> a \<and> a \<le> 239 \<and> is_continuation b \<and> is_continuation c
                     \<and> (a = 224 \<longrightarrow> 160 \<le> b) \<and> (a = 237 \<longrightarrow> b \<le> 159)
                  then map_option (Cons ((a - 224) * 4096 + (b - 128) * 64 + (c - 128))) (utf8_decode s)
                  else case s of
                      [] \<Rightarrow> None
                    | d # s \<Rightarrow>
                        if 240 \<le> a \<and> a \<le> 244 \<and> is_continuation b \<and> is_continuation c \<and> is_continuation d
                           \<and> (a = 240 \<longrightarrow> 144 \<le> b) \<and> (a = 244 \<longrightarrow> b \<le> 143)
                        then map_option (Cons ((a - 240) * 262144 + (b - 128) * 4096 + (c - 128) * 64 + (d - 128)))
                               (utf8_decode s)
                        else None)"

text \<open>\<open>quote(text, safe='')\<close>\<close>

definition is_unreserved :: "nat \<Rightarrow> bool" where
  "is_unreserved n \<longleftrightarrow> (65 \<le> n \<and> n \<le> 90) \<or> (97 \<le> n \<and> n \<le> 122) \<or> (48 \<le> n \<and> n \<le> 57)
     \<or> n = 95 \<or> n = 46 \<or> n = 45 \<or> n = 126"

definition hex_upper :: "nat \<Rightarrow> nat" where
  "hex_upper d = (if d < 10 then 48 + d else 55 + d)"

definition quote_octet :: "nat \<Rightarrow> ustr" where
  "quote_octet o' = (if is_unreserved o' then [o'] else [37, hex_upper (o' div 16), hex_upper (o' mod 16)])"

definition quote :: "ustr \<Rightarrow> ustr result" where
  "quote s = rbind (utf8_encode s) (\<lambda>os. Inr (concat (map quote_octet os)))"

text \<open>\<open>unquote_to_bytes\<close> and \<open>unquote(text, errors="strict")\<close>: each run of ASCII characters is decoded
  by itself.\<close>

fun unquote_octets :: "ustr \<Rightarrow> nat list" where
  "unquote_octets (c # x # y # s) =
     (if c = 37
      then (case (hex_digit x, hex_digit y) of
              (Some a, Some b) \<Rightarrow> (a * 16 + b) # unquote_octets s
            | _ \<Rightarrow> c # unquote_octets (x # y # s))
      else c # unquote_octets (x # y # s))"
| "unquote_octets s = s"

function unquote :: "ustr \<Rightarrow> ustr option" where
  "unquote s =
     (case s of
        [] \<Rightarrow> Some []
      | c # s' \<Rightarrow>
          if c \<ge> 128 then map_option (Cons c) (unquote s')
          else (case utf8_decode (unquote_octets (takeWhile (\<lambda>n. n < 128) s)) of
                  None \<Rightarrow> None
                | Some d \<Rightarrow> map_option (append d) (unquote (dropWhile (\<lambda>n. n < 128) s))))"
  by pat_completeness auto
termination
  by (relation "measure length") (auto intro: le_less_trans [OF length_dropWhile_le])

declare unquote.simps [simp del]

section \<open>Reading a link\<close>

definition is_end :: "nat \<Rightarrow> bool" where
  "is_end n \<longleftrightarrow> n \<in> {32, 9, 13, 10}"

definition strip_ends :: "ustr \<Rightarrow> ustr" where
  "strip_ends s = rev (dropWhile is_end (rev (dropWhile is_end s)))"

definition lower_ascii :: "nat \<Rightarrow> nat" where
  "lower_ascii n = (if 65 \<le> n \<and> n \<le> 90 then n + 32 else n)"

text \<open>No character beyond ASCII becomes a letter of the scheme by \<open>lower\<close>.\<close>

definition is_link :: "ustr \<Rightarrow> bool" where
  "is_link s \<longleftrightarrow> map lower_ascii (take (length SCHEME + 1) (strip_ends s)) = u (SCHEME @ '':'')"

fun network_of :: "prims \<Rightarrow> network_params list \<Rightarrow> ustr \<Rightarrow> network_params result" where
  "network_of P [] address = Inl PaymentLinkError"
| "network_of P (N # Ns) address =
     (if startswith address (u (address_prefix N))
      then (case decode_address P (chars address) (address_prefix N) of
              Inl e \<Rightarrow> Inl (if e = ValueError then PaymentLinkError else e)
            | Inr _ \<Rightarrow> Inr N)
      else network_of P Ns address)"

text \<open>\<open>[a-z0-9-]+\<close>, a \<open>%\<close> that no two hex digits follow, and \<open>[0-9]+(\.[0-9]+)?\<close>\<close>

definition is_name :: "ustr \<Rightarrow> bool" where
  "is_name s \<longleftrightarrow> s \<noteq> [] \<and> list_all (\<lambda>n. (97 \<le> n \<and> n \<le> 122) \<or> (48 \<le> n \<and> n \<le> 57) \<or> n = 45) s"

fun broken_percent :: "ustr \<Rightarrow> bool" where
  "broken_percent [] \<longleftrightarrow> False"
| "broken_percent (c # s) \<longleftrightarrow>
     (c = 37 \<and> (case s of x # y # _ \<Rightarrow> hex_digit x = None \<or> hex_digit y = None | _ \<Rightarrow> True)) \<or> broken_percent s"

definition is_amount_text :: "ustr \<Rightarrow> bool" where
  "is_amount_text s \<longleftrightarrow>
     (let digit = (\<lambda>n. 48 \<le> n \<and> n \<le> 57)
      in takeWhile digit s \<noteq> [] \<and>
         (case dropWhile digit s of [] \<Rightarrow> True | c # fraction \<Rightarrow> c = 46 \<and> fraction \<noteq> [] \<and> list_all digit fraction))"

text \<open>The categories Cc, Zl and Zp, and \<open>_BIDI\<close>\<close>

definition is_control :: "nat \<Rightarrow> bool" where
  "is_control n \<longleftrightarrow> n < 32 \<or> (127 \<le> n \<and> n \<le> 159) \<or> n = 8232 \<or> n = 8233"

definition is_bidi :: "nat \<Rightarrow> bool" where
  "is_bidi n \<longleftrightarrow> n = 1564 \<or> n = 8206 \<or> n = 8207 \<or> (8234 \<le> n \<and> n \<le> 8238) \<or> (8294 \<le> n \<and> n \<le> 8297)"

definition decode_value :: "ustr \<Rightarrow> ustr result" where
  "decode_value raw =
     (if raw = [] then Inl PaymentLinkError
      else if broken_percent raw then Inl PaymentLinkError
      else case unquote raw of
             None \<Rightarrow> Inl PaymentLinkError
           | Some v \<Rightarrow> if list_ex (\<lambda>n. is_control n \<or> is_bidi n) v then Inl PaymentLinkError else Inr v)"

fun read_parts :: "ustr list \<Rightarrow> (ustr \<times> ustr) list \<Rightarrow> (ustr \<times> ustr) list result" where
  "read_parts [] values = Inr values"
| "read_parts (part # parts) values =
     (case partition_at 61 part of (key, equals, raw) \<Rightarrow>
        if \<not> equals \<or> \<not> is_name key then Inl PaymentLinkError
        else if key \<in> set (map fst values) then Inl PaymentLinkError
        else rbind (decode_value raw) (\<lambda>v. read_parts parts (values @ [(key, v)])))"

definition read_amount :: "ustr option \<Rightarrow> int option result" where
  "read_amount amount =
     (case amount of
        None \<Rightarrow> Inr None
      | Some a \<Rightarrow>
          if \<not> is_amount_text a then Inl PaymentLinkError
          else (case parse_amount (chars a) of
                  Inl e \<Rightarrow> Inl (if e = ValueError then PaymentLinkError else e)
                | Inr n \<Rightarrow> if n = 0 then Inl PaymentLinkError else Inr (Some n)))"

definition check_memo :: "ustr option \<Rightarrow> unit result" where
  "check_memo memo =
     (case memo of
        None \<Rightarrow> Inr ()
      | Some m \<Rightarrow> rbind (utf8_encode m) (\<lambda>d. if length d > MAX_MEMO_SIZE then Inl PaymentLinkError else Inr ()))"

definition parse_link :: "prims \<Rightarrow> ustr \<Rightarrow> network_params option \<Rightarrow> payment_request result" where
  "parse_link P text' params =
     (let s = strip_ends text'
      in if length s > MAX_LINK_LENGTH then Inl PaymentLinkError
         else if \<not> is_link s then Inl PaymentLinkError
         else if 35 \<in> set s then Inl PaymentLinkError
         else case partition_at 63 (drop (length SCHEME + 1) s) of (address, question_mark, query) \<Rightarrow>
           if question_mark \<and> query = [] then Inl PaymentLinkError
           else rbind (network_of P NETWORKS address) (\<lambda>N.
             if (case params of None \<Rightarrow> False | Some M \<Rightarrow> name N \<noteq> name M) then Inl PaymentLinkError
             else rbind (read_parts (if query \<noteq> [] then split_on 38 query else []) []) (\<lambda>values.
               if list_ex (\<lambda>(key, _). startswith key (u ''req-'')) values then Inl PaymentLinkError
               else rbind (read_amount (map_of values (u ''amount''))) (\<lambda>amount.
                 let memo = map_of values (u ''memo''); label = map_of values (u ''label'')
                 in rbind (check_memo memo) (\<lambda>_.
                      if (case label of None \<Rightarrow> False | Some l \<Rightarrow> length l > MAX_LABEL_LENGTH)
                      then Inl PaymentLinkError
                      else Inr \<lparr>pr_network = name N, pr_address = address, pr_amount = amount, pr_memo = memo,
                             pr_label = label\<rparr>)))))"

section \<open>Writing a link\<close>

definition quoted_part :: "string \<Rightarrow> ustr option \<Rightarrow> ustr list result" where
  "quoted_part key v = (case v of None \<Rightarrow> Inr [] | Some s \<Rightarrow> rbind (quote s) (\<lambda>q. Inr [u key @ 61 # q]))"

definition link_text :: "payment_request \<Rightarrow> ustr result" where
  "link_text r =
     rbind (quoted_part ''memo'' (pr_memo r)) (\<lambda>memo. rbind (quoted_part ''label'' (pr_label r)) (\<lambda>label.
       let amount = (case pr_amount r of None \<Rightarrow> [] | Some n \<Rightarrow> [u ''amount'' @ 61 # u (format_amount n False)]);
           parts = amount @ memo @ label
       in Inr (u (SCHEME @ '':'') @ pr_address r @ (if parts \<noteq> [] then 63 # join 38 parts else []))))"

definition to_link :: "prims \<Rightarrow> payment_request \<Rightarrow> ustr result" where
  "to_link P r =
     rbind (link_text r) (\<lambda>link. rbind (parse_link P link None) (\<lambda>r'.
       if r' \<noteq> r then Inl PaymentLinkError else Inr link))"

section \<open>Encodings read back\<close>

definition is_char :: "nat \<Rightarrow> bool" where
  "is_char n \<longleftrightarrow> n < 1114112 \<and> \<not> is_surrogate n"

lemma base64_split:
  "n div 4096 * 4096 + n div 64 mod 64 * 64 + n mod 64 = (n :: nat)"
  "n div 262144 * 262144 + n div 4096 mod 64 * 4096 + n div 64 mod 64 * 64 + n mod 64 = (n :: nat)"
proof -
  have d: "n div 4096 = n div 64 div 64" "n div 262144 = n div 4096 div 64" by (simp_all add: div_mult2_eq [symmetric])
  have 1: "n div 64 * 64 + n mod 64 = n" "n div 4096 * 64 + n div 64 mod 64 = n div 64"
    "n div 262144 * 64 + n div 4096 mod 64 = n div 4096" unfolding d by simp_all
  then show "n div 4096 * 4096 + n div 64 mod 64 * 64 + n mod 64 = n" by linarith
  from 1 show "n div 262144 * 262144 + n div 4096 mod 64 * 4096 + n div 64 mod 64 * 64 + n mod 64 = n" by linarith
qed

lemma utf8_octets_decode: "is_char n \<Longrightarrow> utf8_decode (utf8_octets n @ s) = map_option (Cons n) (utf8_decode s)"
proof -
  assume n: "is_char n"
  have low: "is_continuation (128 + k mod 64)" for k by (simp add: is_continuation_def less_Suc_eq_le [symmetric])
  consider "n < 128" | "128 \<le> n" "n < 2048" | "2048 \<le> n" "n < 65536" | "65536 \<le> n" by linarith
  then show ?thesis
  proof cases
    case 2
    then have "194 \<le> 192 + n div 64" "192 + n div 64 \<le> 223" by linarith+
    with 2 low [of n] show ?thesis by (simp add: utf8_octets_def)
  next
    case 3
    have m: "n div 64 = n div 4096 * 64 + n div 64 mod 64" using base64_split(1) [of n] by linarith
    have "160 \<le> 128 + n div 64 mod 64" if "n div 4096 = 0" using that 3 m by linarith
    moreover have "128 + n div 64 mod 64 \<le> 159" if "n div 4096 = 13"
    proof -
      have "n < 57344" using that by linarith
      with n have "n < 55296" by (simp add: is_char_def is_surrogate_def)
      with that m show ?thesis by linarith
    qed
    moreover have "n div 4096 \<le> 15" using 3 by linarith
    ultimately show ?thesis
      using 3 low [of n] low [of "n div 64"] base64_split(1) [of n] by (auto simp: utf8_octets_def)
  next
    case 4
    have b: "n < 1114112" using n by (simp add: is_char_def)
    have m: "n div 4096 = n div 262144 * 64 + n div 4096 mod 64" using base64_split [of n] by linarith
    have "144 \<le> 128 + n div 4096 mod 64" if "n div 262144 = 0" using that 4 m by linarith
    moreover have "128 + n div 4096 mod 64 \<le> 143" if "n div 262144 = 4" using that b m by linarith
    moreover have "n div 262144 \<le> 4" using b by linarith
    ultimately show ?thesis
      using 4 low [of n] low [of "n div 64"] low [of "n div 4096"] base64_split(2) [of n] by (auto simp: utf8_octets_def)
  qed (simp add: utf8_octets_def)
qed

lemma utf8_roundtrip: "\<forall>n\<in>set s. is_char n \<Longrightarrow> utf8_decode (concat (map utf8_octets s)) = Some s"
  by (induction s) (simp_all add: utf8_octets_decode)

lemma utf8_octets_bound: "is_char n \<Longrightarrow> \<forall>b\<in>set (utf8_octets n). b < 256"
  by (auto simp: utf8_octets_def is_char_def; linarith)

lemma utf8_octets_nonempty [simp]: "utf8_octets n \<noteq> []"
  by (simp add: utf8_octets_def)

lemma hex_upper_digit: "d < 16 \<Longrightarrow> hex_digit (hex_upper d) = Some d"
  by (auto simp: hex_digit_def hex_upper_def)

lemma unquote_octet: "b < 256 \<Longrightarrow> unquote_octets (quote_octet b @ s) = b # unquote_octets s"
proof -
  assume b: "b < 256"
  show ?thesis
  proof (cases "is_unreserved b")
    case True
    then have "b \<noteq> 37" by (auto simp: is_unreserved_def)
    with True show ?thesis by (cases s; cases "tl s") (auto simp: quote_octet_def)
  next
    case False
    from b have "b div 16 < 16" by linarith
    with False show ?thesis
      using hex_upper_digit [of "b div 16"] hex_upper_digit [of "b mod 16"] by (simp add: quote_octet_def)
  qed
qed

lemma unquote_quoted: "\<forall>b\<in>set os. b < 256 \<Longrightarrow> unquote_octets (concat (map quote_octet os)) = os"
  by (induction os) (simp_all add: unquote_octet)

lemma broken_percent_quoted: "\<forall>b\<in>set os. b < 256 \<Longrightarrow> \<not> broken_percent (concat (map quote_octet os))"
proof (induction os)
  case (Cons b os)
  have "b div 16 < 16" using Cons.prems by auto
  moreover have "hex_upper d \<noteq> 37" for d by (simp add: hex_upper_def)
  ultimately show ?case
    using Cons hex_upper_digit [of "b div 16"] hex_upper_digit [of "b mod 16"]
    by (auto simp: quote_octet_def is_unreserved_def)
qed simp

lemma quoted_chars: "\<forall>b\<in>set os. b < 256 \<Longrightarrow> n \<in> set (concat (map quote_octet os)) \<Longrightarrow> is_unreserved n \<or> n = 37"
proof -
  assume "\<forall>b\<in>set os. b < 256" "n \<in> set (concat (map quote_octet os))"
  then obtain b where b: "b < 256" "n \<in> set (quote_octet b)" by auto
  have "is_unreserved (hex_upper d)" if "d < 16" for d using that by (simp add: hex_upper_def is_unreserved_def)
  from this [of "b div 16"] this [of "b mod 16"] b show "is_unreserved n \<or> n = 37"
    by (auto simp: quote_octet_def split: if_splits)
qed

lemma quoted_ascii: "is_unreserved n \<or> n = 37 \<Longrightarrow> n < 128"
  by (auto simp: is_unreserved_def)

lemma unquote_ascii: "s \<noteq> [] \<Longrightarrow> \<forall>n\<in>set s. n < 128 \<Longrightarrow> unquote s = utf8_decode (unquote_octets s)"
proof -
  assume s: "s \<noteq> []" "\<forall>n\<in>set s. n < 128"
  then obtain c s' where c: "s = c # s'" "c < 128" "\<forall>n\<in>set s'. n < 128" by (cases s) auto
  then have "takeWhile (\<lambda>n. n < 128) s' = s'" "dropWhile (\<lambda>n. n < 128) s' = []" by simp_all
  moreover have "unquote [] = Some []" by (simp add: unquote.simps)
  ultimately show ?thesis using c by (subst unquote.simps) (simp split: option.splits del: dropWhile_eq_Nil_conv takeWhile_eq_all_conv)
qed

definition valid_text :: "ustr \<Rightarrow> bool" where
  "valid_text s \<longleftrightarrow> s \<noteq> [] \<and> (\<forall>n\<in>set s. is_char n \<and> \<not> is_control n \<and> \<not> is_bidi n)"

lemma quote_valid:
  assumes "valid_text s"
  obtains q where "quote s = Inr q" and "decode_value q = Inr s" and "\<forall>n\<in>set q. is_unreserved n \<or> n = 37" and "q \<noteq> []"
proof -
  let ?os = "concat (map utf8_octets s)"
  let ?q = "concat (map quote_octet ?os)"
  have s: "s \<noteq> []" "\<forall>n\<in>set s. is_char n" using assms by (auto simp: valid_text_def)
  then have b: "\<forall>b\<in>set ?os. b < 256" using utf8_octets_bound by fastforce
  have q: "\<forall>n\<in>set ?q. is_unreserved n \<or> n = 37" using quoted_chars [OF b] by blast
  have "?os \<noteq> []" using s(1) by (cases s) simp_all
  then have ne: "?q \<noteq> []" by (cases ?os) (auto simp: quote_octet_def)
  have "\<forall>n\<in>set ?q. n < 128" using q quoted_ascii by blast
  then have "unquote ?q = Some s" using unquote_ascii [OF ne] unquote_quoted [OF b] utf8_roundtrip [OF s(2)] by simp
  then have "decode_value ?q = Inr s"
    using ne broken_percent_quoted [OF b] assms by (auto simp: decode_value_def valid_text_def list_ex_iff)
  moreover have "quote s = Inr ?q"
    using s(2) by (auto simp: quote_def utf8_encode_def list_ex_iff is_char_def)
  ultimately show ?thesis using that q ne by blast
qed

section \<open>What is read is valid\<close>

text \<open>Decoded text has no surrogates.\<close>

lemma char_of_2: "194 \<le> a \<Longrightarrow> a \<le> 223 \<Longrightarrow> is_continuation b \<Longrightarrow> is_char ((a - 192) * 64 + (b - 128))"
proof -
  assume "194 \<le> a" "a \<le> 223" "is_continuation b"
  then have "a - 192 \<le> 31" "b - 128 \<le> 63" by (auto simp: is_continuation_def)
  then have "(a - 192) * 64 + (b - 128) \<le> 2047" by linarith
  then show ?thesis unfolding is_char_def is_surrogate_def by linarith
qed

lemma char_of_3:
  assumes "224 \<le> a" "a \<le> 239" "is_continuation b" "is_continuation c" "a = 237 \<longrightarrow> b \<le> 159"
  shows "is_char ((a - 224) * 4096 + (b - 128) * 64 + (c - 128))" (is "is_char ?n")
proof -
  have b: "b - 128 \<le> 63" "c - 128 \<le> 63" using assms by (auto simp: is_continuation_def)
  consider "a - 224 \<le> 12" | "a - 224 = 13" "b - 128 \<le> 31" | "14 \<le> a - 224" "a - 224 \<le> 15" using assms by force
  then have "?n \<le> 55295 \<or> 57344 \<le> ?n \<and> ?n \<le> 65535"
  proof cases
    case 1
    then have "?n \<le> 55295" using b by linarith
    then show ?thesis ..
  next
    case 2
    then have "?n \<le> 55295" using b unfolding 2(1) by linarith
    then show ?thesis ..
  next
    case 3
    then have "57344 \<le> ?n" "?n \<le> 65535" using b by linarith+
    then show ?thesis by blast
  qed
  then show ?thesis unfolding is_char_def is_surrogate_def by linarith
qed

lemma char_of_4:
  assumes "240 \<le> a" "a \<le> 244" "is_continuation b" "is_continuation c" "is_continuation d"
    and "a = 240 \<longrightarrow> 144 \<le> b" "a = 244 \<longrightarrow> b \<le> 143"
  shows "is_char ((a - 240) * 262144 + (b - 128) * 4096 + (c - 128) * 64 + (d - 128))" (is "is_char ?n")
proof -
  have b: "b - 128 \<le> 63" "c - 128 \<le> 63" "d - 128 \<le> 63" using assms by (auto simp: is_continuation_def)
  consider "a - 240 = 0" "16 \<le> b - 128" | "1 \<le> a - 240" "a - 240 \<le> 3" | "a - 240 = 4" "b - 128 \<le> 15" using assms by force
  then have "65536 \<le> ?n \<and> ?n < 1114112"
  proof cases
    case 1
    then show ?thesis using b unfolding 1(1) by linarith
  next
    case 3
    then show ?thesis using b unfolding 3(1) by linarith
  qed (use b in linarith)
  then show ?thesis unfolding is_char_def is_surrogate_def by linarith
qed

lemma utf8_decode_step:
  assumes "utf8_decode (a # os) = Some s"
  shows "\<exists>n s' os'. s = n # s' \<and> is_char n \<and> utf8_decode os' = Some s' \<and> length os' \<le> length os"
proof (cases "a < 128")
  case True
  with assms obtain s' where "utf8_decode os = Some s'" "s = a # s'" by auto
  moreover have "is_char a" using True by (simp add: is_char_def is_surrogate_def)
  ultimately show ?thesis by blast
next
  case False
  with assms obtain b os1 where b: "os = b # os1" by (cases os) auto
  show ?thesis
  proof (cases "194 \<le> a \<and> a \<le> 223 \<and> is_continuation b")
    case True
    then obtain s' where "utf8_decode os1 = Some s'" "s = ((a - 192) * 64 + (b - 128)) # s'" using assms False b by auto
    then show ?thesis using True char_of_2 [of a b] b by auto
  next
    case no2: False
    with assms False b obtain c os2 where c: "os1 = c # os2" by (cases os1) (auto split: if_splits)
    show ?thesis
    proof (cases "224 \<le> a \<and> a \<le> 239 \<and> is_continuation b \<and> is_continuation c \<and> (a = 224 \<longrightarrow> 160 \<le> b) \<and> (a = 237 \<longrightarrow> b \<le> 159)")
      case True
      then have "map_option (Cons ((a - 224) * 4096 + (b - 128) * 64 + (c - 128))) (utf8_decode os2) = Some s"
        using assms False b c no2 by simp
      then obtain s' where "utf8_decode os2 = Some s'" "s = ((a - 224) * 4096 + (b - 128) * 64 + (c - 128)) # s'" by blast
      then show ?thesis using True char_of_3 [of a b c] b c by auto
    next
      case no3: False
      with assms False b c no2 obtain d os3 where d: "os2 = d # os3" by (cases os2) (auto split: if_splits)
      have "(if 240 \<le> a \<and> a \<le> 244 \<and> is_continuation b \<and> is_continuation c \<and> is_continuation d
           \<and> (a = 240 \<longrightarrow> 144 \<le> b) \<and> (a = 244 \<longrightarrow> b \<le> 143)
         then map_option (Cons ((a - 240) * 262144 + (b - 128) * 4096 + (c - 128) * 64 + (d - 128))) (utf8_decode os3) else None)
         = Some s"
        using assms unfolding b c d utf8_decode.simps list.case using False no2 no3 by (simp only: if_False simp_thms)
      then obtain s' where "utf8_decode os3 = Some s'" and s: "s = ((a - 240) * 262144 + (b - 128) * 4096 + (c - 128) * 64 + (d - 128)) # s'"
        and "is_char ((a - 240) * 262144 + (b - 128) * 4096 + (c - 128) * 64 + (d - 128))"
        using char_of_4 [of a b c d] by (auto split: if_splits)
      then show ?thesis using b c d by (intro exI conjI) auto
    qed
  qed
qed

lemma utf8_decode_chars: "utf8_decode os = Some s \<Longrightarrow> (\<forall>n\<in>set s. is_char n) \<and> (s = [] \<longrightarrow> os = [])"
proof (induction "length os" arbitrary: os s rule: less_induct)
  case less
  show ?case
  proof (cases os)
    case (Cons a os1)
    from utf8_decode_step [OF less.prems [unfolded Cons]] obtain n s' os' where
      "s = n # s'" "is_char n" "utf8_decode os' = Some s'" "length os' \<le> length os1" by blast
    with less.hyps [of os' s'] Cons show ?thesis by auto
  qed (use less.prems in simp)
qed

lemma unquote_octets_empty: "unquote_octets s = [] \<Longrightarrow> s = []"
  by (induction s rule: unquote_octets.induct) (auto split: if_splits option.splits)

lemma unquote_step:
  "unquote (c # s) =
     (if c \<ge> 128 then map_option (Cons c) (unquote s)
      else (case utf8_decode (unquote_octets (c # takeWhile (\<lambda>n. n < 128) s)) of
              None \<Rightarrow> None
            | Some d \<Rightarrow> map_option (append d) (unquote (dropWhile (\<lambda>n. n < 128) s))))"
  by (cases "c \<ge> 128"; subst unquote.simps; simp split: option.splits)

lemma unquote_chars:
  "unquote s = Some v \<Longrightarrow> \<forall>n\<in>set s. is_char n \<Longrightarrow> (\<forall>n\<in>set v. is_char n) \<and> (v = [] \<longrightarrow> s = [])"
proof (induction "length s" arbitrary: s v rule: less_induct)
  case less
  show ?case
  proof (cases s)
    case (Cons c s')
    show ?thesis
    proof (cases "c \<ge> 128")
      case True
      with less.prems Cons obtain w where "unquote s' = Some w" "v = c # w" by (auto simp: unquote_step)
      with less.hyps [of s' w] less.prems Cons show ?thesis by auto
    next
      case False
      let ?run = "c # takeWhile (\<lambda>n. n < 128) s'" and ?rest = "dropWhile (\<lambda>n. n < 128) s'"
      from less.prems(1) False Cons obtain d w where d: "utf8_decode (unquote_octets ?run) = Some d"
        and w: "unquote ?rest = Some w" "v = d @ w"
        by (auto simp: unquote_step split: option.splits)
      have "d \<noteq> []" using utf8_decode_chars [OF d] unquote_octets_empty [of ?run] by auto
      moreover have "\<forall>n\<in>set ?rest. is_char n" using less.prems(2) Cons by (auto dest: set_dropWhileD)
      moreover have "length ?rest < length s" using Cons length_dropWhile_le [of _ s'] by (simp add: le_imp_less_Suc)
      ultimately show ?thesis using less.hyps [of ?rest w] w utf8_decode_chars [OF d] by auto
    qed
  qed (use less.prems in \<open>simp add: unquote.simps\<close>)
qed

lemma decode_value_Inr: "decode_value raw = Inr v \<Longrightarrow> \<forall>n\<in>set raw. is_char n \<Longrightarrow> valid_text v"
  using unquote_chars [of raw v]
  by (auto simp: decode_value_def valid_text_def list_ex_iff split: if_splits option.splits)

lemma decode_value_Inl: "decode_value raw = Inl e \<Longrightarrow> e = PaymentLinkError"
  by (auto simp: decode_value_def split: if_splits option.splits)

lemma read_parts_Inl: "read_parts parts values = Inl e \<Longrightarrow> e = PaymentLinkError"
  by (induction parts arbitrary: "values") (auto simp: rbind_Inl_iff dest: decode_value_Inl split: prod.splits if_splits)

lemma partition_at_set: "partition_at c s = (a, q, b) \<Longrightarrow> set a \<subseteq> set s \<and> set b \<subseteq> set s \<and> c \<notin> set a"
  unfolding partition_at_def
proof (cases "dropWhile (\<lambda>x. x \<noteq> c) s")
  case Nil
  assume "(case dropWhile (\<lambda>x. x \<noteq> c) s of [] \<Rightarrow> (s, False, []) | x # after \<Rightarrow> (takeWhile (\<lambda>x. x \<noteq> c) s, True, after)) = (a, q, b)"
  then show ?thesis using Nil by (auto simp: dropWhile_eq_Nil_conv)
next
  case (Cons x after)
  assume "(case dropWhile (\<lambda>x. x \<noteq> c) s of [] \<Rightarrow> (s, False, []) | x # after \<Rightarrow> (takeWhile (\<lambda>x. x \<noteq> c) s, True, after)) = (a, q, b)"
  moreover have "set after \<subseteq> set s" using Cons set_dropWhileD [of _ "\<lambda>x. x \<noteq> c" s] by auto
  ultimately show ?thesis using Cons by (auto dest: set_takeWhileD)
qed

lemma read_parts_Inr:
  assumes "read_parts parts values = Inr values'" "\<forall>part\<in>set parts. \<forall>n\<in>set part. is_char n"
    and "\<forall>v\<in>snd ` set values. valid_text v"
  shows "\<forall>v\<in>snd ` set values'. valid_text v"
  using assms
proof (induction parts arbitrary: "values")
  case (Cons part parts)
  obtain key equals raw where p: "partition_at 61 part = (key, equals, raw)" by (cases "partition_at 61 part")
  with Cons.prems(1) obtain v where v: "decode_value raw = Inr v" "read_parts parts (values @ [(key, v)]) = Inr values'"
    by (auto simp: rbind_Inr_iff split: if_splits)
  have "\<forall>n\<in>set raw. is_char n" using partition_at_set [OF p] Cons.prems(2) by auto
  from decode_value_Inr [OF v(1) this] Cons.IH [OF v(2)] Cons.prems(2,3) show ?case by auto
qed simp

text \<open>Requests that can be paid and shown: a real address, an amount in range, and texts that are safe to
  show and fit on the chain.\<close>

definition valid_request :: "prims \<Rightarrow> payment_request \<Rightarrow> bool" where
  "valid_request P r \<longleftrightarrow>
     (\<exists>N. network_of P NETWORKS (pr_address r) = Inr N \<and> pr_network r = name N) \<and>
     (\<forall>n. pr_amount r = Some n \<longrightarrow> 1 \<le> n \<and> n \<le> MAX_AMOUNT) \<and>
     (\<forall>m. pr_memo r = Some m \<longrightarrow> valid_text m \<and> length (concat (map utf8_octets m)) \<le> MAX_MEMO_SIZE) \<and>
     (\<forall>l. pr_label r = Some l \<longrightarrow> valid_text l \<and> length l \<le> MAX_LABEL_LENGTH)"

lemma strip_ends_set: "set (strip_ends s) \<subseteq> set s"
  by (auto simp: strip_ends_def dest!: set_dropWhileD)

lemma link_values_valid:
  assumes "read_parts (if query \<noteq> [] then split_on 38 query else []) [] = Inr kvs" "\<forall>n\<in>set query. is_char n"
    and "map_of kvs key = Some v"
  shows "valid_text v"
proof -
  have "\<forall>part\<in>set (if query \<noteq> [] then split_on 38 query else []). \<forall>n\<in>set part. is_char n"
    using assms(2) by (auto simp: split_on_def dest: split_by_parts)
  from read_parts_Inr [OF assms(1) this] show ?thesis using map_of_SomeD [OF assms(3)] by force
qed

lemma read_amount_Inr: "read_amount a = Inr (Some n) \<Longrightarrow> 1 \<le> n \<and> n \<le> MAX_AMOUNT"
  using parse_amount_range by (fastforce simp: read_amount_def split: option.splits if_splits sum.splits)

lemma parsed_is_valid:
  assumes "parse_link P t params = Inr r" "\<forall>n\<in>set t. is_char n"
  shows "valid_request P r"
proof -
  let ?s = "strip_ends t"
  obtain a q query where p: "partition_at 63 (drop (length SCHEME + 1) ?s) = (a, q, query)"
    by (cases "partition_at 63 (drop (length SCHEME + 1) ?s)")
  with assms(1) obtain N kvs where n: "network_of P NETWORKS a = Inr N"
    and kvs: "read_parts (if query \<noteq> [] then split_on 38 query else []) [] = Inr kvs"
    and amount: "read_amount (map_of kvs (u ''amount'')) = Inr (pr_amount r)"
    and memo: "check_memo (map_of kvs (u ''memo'')) = Inr ()" "pr_memo r = map_of kvs (u ''memo'')"
    and label: "pr_label r = map_of kvs (u ''label'')" "\<not> (case pr_label r of None \<Rightarrow> False | Some l \<Rightarrow> length l > MAX_LABEL_LENGTH)"
    and r: "pr_network r = name N" "pr_address r = a"
    by (auto simp: parse_link_def Let_def rbind_Inr_iff split: if_splits)
  have "\<forall>n\<in>set query. is_char n"
    using partition_at_set [OF p] strip_ends_set [of t] assms(2) set_drop_subset [of "length SCHEME + 1" ?s] by blast
  note valid = link_values_valid [OF kvs this]
  have "1 \<le> n \<and> n \<le> MAX_AMOUNT" if "pr_amount r = Some n" for n
    using amount read_amount_Inr that by simp
  moreover have "valid_text m \<and> length (concat (map utf8_octets m)) \<le> MAX_MEMO_SIZE" if "pr_memo r = Some m" for m
    using that memo valid by (auto simp: check_memo_def utf8_encode_def split: if_splits)
  moreover have "valid_text l \<and> length l \<le> MAX_LABEL_LENGTH" if "pr_label r = Some l" for l
    using that label valid by simp
  ultimately show ?thesis using n r by (auto simp: valid_request_def)
qed

text \<open>Everything that is wrong with a link is a \<open>PaymentLinkError\<close>.\<close>

lemma network_of_Inl: "network_of P Ns a = Inl e \<Longrightarrow> e = PaymentLinkError"
  by (induction Ns) (auto dest: decode_address_error split: if_splits sum.splits)

lemma parse_link_raises:
  assumes "parse_link P t params = Inl e" "\<forall>n\<in>set t. is_char n"
  shows "e = PaymentLinkError"
proof -
  let ?s = "strip_ends t"
  obtain a q query where p: "partition_at 63 (drop (length SCHEME + 1) ?s) = (a, q, query)"
    by (cases "partition_at 63 (drop (length SCHEME + 1) ?s)")
  have chars: "\<forall>n\<in>set query. is_char n"
    using partition_at_set [OF p] strip_ends_set [of t] assms(2) set_drop_subset [of "length SCHEME + 1" ?s] by blast
  have memo: "x = PaymentLinkError" if "check_memo (map_of kvs (u ''memo'')) = Inl x"
    "read_parts (if query \<noteq> [] then split_on 38 query else []) [] = Inr kvs" for kvs x
  proof (cases "map_of kvs (u ''memo'')")
    case (Some m)
    have "valid_text m" using link_values_valid [OF that(2) chars Some] .
    then have "\<not> list_ex is_surrogate m" by (auto simp: valid_text_def list_ex_iff is_char_def)
    with that(1) Some show ?thesis by (simp add: check_memo_def utf8_encode_def split: if_splits)
  qed (use that in \<open>simp add: check_memo_def\<close>)
  have amount: "x = PaymentLinkError" if "read_amount o' = Inl x" for o' x
    using that by (auto simp: read_amount_def dest: parse_amount_error split: option.splits if_splits sum.splits)
  have "x = PaymentLinkError" if "network_of P NETWORKS a = Inl x" for x using network_of_Inl that by blast
  with assms(1) p memo amount show ?thesis
    by (auto simp: parse_link_def Let_def rbind_Inl_iff dest: read_parts_Inl split: if_splits)
qed

section \<open>Every valid request is written as a link\<close>

definition is_alnum :: "nat \<Rightarrow> bool" where
  "is_alnum n \<longleftrightarrow> (48 \<le> n \<and> n \<le> 57) \<or> (65 \<le> n \<and> n \<le> 90) \<or> (97 \<le> n \<and> n \<le> 122)"

lemma alphabet_alnum: "c \<in> set ALPHABET \<Longrightarrow> is_alnum (of_char c)"
  by (auto simp: ALPHABET_def is_alnum_def)

lemma b58decode_alphabet: "b58decode s = Inr d \<Longrightarrow> set s \<subseteq> set ALPHABET"
proof -
  have "set s \<subseteq> set ALPHABET" if "decode_number s = Inr n" for s n
    using that
  proof (induction s arbitrary: n rule: rev_induct)
    case (snoc c s)
    then obtain m i where "decode_number s = Inr m" "char_index c = Some i"
      by (auto simp: decode_number_append rbind_Inr_iff split: option.splits)
    with snoc.IH char_index_Some [of c i] show ?case by (auto simp: length_ALPHABET)
  qed simp
  then show "b58decode s = Inr d \<Longrightarrow> set s \<subseteq> set ALPHABET" by (auto simp: b58decode_def rbind_Inr_iff)
qed

lemma networks_prefix: "N \<in> set NETWORKS \<Longrightarrow> \<forall>c\<in>set (address_prefix N). is_alnum (of_char c)"
  by (auto simp: NETWORKS_def MAINNET_def TESTNET_def DEVNET_def REGTEST_def is_alnum_def)

lemma network_of_Inr: "network_of P Ns a = Inr N \<Longrightarrow>
    N \<in> set Ns \<and> (\<exists>p. decode_address P (chars a) (address_prefix N) = Inr p)"
  by (induction Ns) (auto split: if_splits sum.splits)

lemma address_alnum:
  assumes "network_of P NETWORKS a = Inr N"
  shows "\<forall>n\<in>set a. is_alnum n"
proof
  fix n
  assume n: "n \<in> set a"
  from network_of_Inr [OF assms] obtain p where N: "N \<in> set NETWORKS" and "decode_address P (chars a) (address_prefix N) = Inr p" by blast
  then obtain raw where raw: "b58decode (drop (length (address_prefix N)) (chars a)) = Inr raw"
    and pre: "take (length (address_prefix N)) (chars a) = address_prefix N"
    by (auto simp: decode_address_def rbind_Inr_iff startswith_def split: if_splits)
  let ?c = "if n < 256 then char_of n else char_of (0 :: nat)"
  have "?c \<in> set (chars a)" using n by (auto simp: chars_def)
  then have "?c \<in> set (address_prefix N) \<union> set (drop (length (address_prefix N)) (chars a))"
    using pre by (metis append_take_drop_id set_append)
  then have c: "is_alnum (of_char ?c)"
    using b58decode_alphabet [OF raw] alphabet_alnum networks_prefix [OF N] by blast
  show "is_alnum n"
  proof (cases "n < 256")
    case False
    with c show ?thesis by (simp add: is_alnum_def)
  qed (use c in simp)
qed

definition link_char :: "nat \<Rightarrow> bool" where
  "link_char n \<longleftrightarrow> is_unreserved n \<or> n \<in> {37, 38, 58, 61, 63}"

lemma link_char_plain: "link_char n \<Longrightarrow> \<not> is_end n \<and> n \<noteq> 35"
  by (auto simp: link_char_def is_unreserved_def is_end_def)

lemma alnum_unreserved: "is_alnum n \<Longrightarrow> is_unreserved n"
  by (auto simp: is_alnum_def is_unreserved_def)

lemma strip_ends_plain: "\<forall>n\<in>set s. \<not> is_end n \<Longrightarrow> strip_ends s = s"
proof -
  assume s: "\<forall>n\<in>set s. \<not> is_end n"
  then have "dropWhile is_end s = s" "dropWhile is_end (rev s) = rev s" using hd_in_set [of s] hd_in_set [of "rev s"] unfolding dropWhile_eq_self_iff by auto
  then show ?thesis by (simp add: strip_ends_def)
qed

lemma of_char_bound: "(of_char c :: nat) < 256"
  by (subst of_char_mod_256 [symmetric], rule mod_less_divisor) simp

lemma chars_u [simp]: "chars (u s) = s"
  by (induction s) (simp_all add: chars_def u_def of_char_bound)

lemma u_append [simp]: "u (s @ t) = u s @ u t"
  by (simp add: u_def)

text \<open>Text that needs no quoting.\<close>

lemma decode_plain:
  assumes "s \<noteq> []" "\<forall>n\<in>set s. is_unreserved n"
  shows "decode_value s = Inr s"
proof -
  have "is_char n \<and> \<not> is_control n \<and> \<not> is_bidi n \<and> utf8_octets n = [n] \<and> quote_octet n = [n]" if "is_unreserved n" for n
    using that by (auto simp: is_unreserved_def is_char_def is_surrogate_def is_control_def is_bidi_def utf8_octets_def quote_octet_def)
  note n = this
  have "valid_text s" using assms n by (auto simp: valid_text_def)
  then obtain q where q: "quote s = Inr q" "decode_value q = Inr s" by (rule quote_valid)
  have "concat (map utf8_octets s) = s" "concat (map quote_octet s) = s" using assms(2) n by (induction s) auto
  with q show ?thesis by (auto simp: quote_def utf8_encode_def split: if_splits)
qed

definition digit_code :: "nat \<Rightarrow> bool" where
  "digit_code n \<longleftrightarrow> 48 \<le> n \<and> n \<le> 57"

lemma digit_text: "list_all is_digit s \<Longrightarrow> \<forall>n\<in>set (u s). digit_code n"
  by (auto simp: u_def list_all_iff is_digit_def digit_code_def Let_def)

lemma format_amount_text:
  assumes "0 \<le> n"
  shows "is_amount_text (u (format_amount n False)) \<and> (\<forall>c\<in>set (u (format_amount n False)). is_unreserved c)
    \<and> u (format_amount n False) \<noteq> []"
proof -
  let ?w = "str_of_int (n div COIN)" and ?f = "rstrip (\<lambda>c. c = CHR ''0'') (zero_padded DECIMALS (n mod COIN))"
  have w: "\<forall>d\<in>set (u ?w). digit_code d" "u ?w \<noteq> []"
    using digit_text [OF str_of_int_digits [of "n div COIN"]] assms by (auto simp: u_def pos_imp_zdiv_nonneg_iff COIN_eq)
  have "list_all is_digit (zero_padded DECIMALS (n mod COIN))" by (rule zero_padded_digits) (simp add: COIN_eq)
  then have "list_all is_digit ?f" by (rule list_all_rstrip)
  then have f: "\<forall>d\<in>set (u ?f). digit_code d" by (rule digit_text)
  have d: "is_unreserved d" if "digit_code d" for d using that by (simp add: digit_code_def is_unreserved_def)
  have dot: "is_unreserved 46" "\<not> digit_code 46" "u ''.'' = [46]" by (simp_all add: is_unreserved_def digit_code_def u_def)
  have eq: "u (format_amount n False) = u ?w @ (if ?f = [] then [] else 46 # u ?f)"
    using assms by (simp add: format_amount_def Let_def) (simp add: u_def)
  have tw: "takeWhile digit_code (u ?w @ r) = u ?w @ takeWhile digit_code r" "dropWhile digit_code (u ?w @ r) = dropWhile digit_code r" for r
    using w(1) by (simp_all add: takeWhile_append2 dropWhile_append2)
  have "is_amount_text (u (format_amount n False))"
    unfolding is_amount_text_def Let_def digit_code_def [symmetric] eq tw
    using w(2) f dot(2) by (auto simp: list_all_iff u_def)
  with w f d dot(1) eq show ?thesis by auto
qed

lemma read_part:
  assumes "is_name key" "key \<notin> set (map fst kvs)" "decode_value raw = Inr v"
  shows "read_parts ((key @ 61 # raw) # parts) kvs = read_parts parts (kvs @ [(key, v)])"
proof -
  have "61 \<notin> set key" using assms(1) by (auto simp: is_name_def list_all_iff)
  from partition_at_found [OF this] assms show ?thesis by simp
qed

text \<open>The part of an optional text: how it is written and how it reads.\<close>

lemma quoted_part_reads:
  assumes "\<forall>s. v = Some s \<longrightarrow> valid_text s" "is_name (u key)"
  obtains ps where "quoted_part key v = Inr ps" and "\<forall>part\<in>set ps. part \<noteq> [] \<and> 38 \<notin> set part \<and> (\<forall>n\<in>set part. link_char n)"
    and "\<forall>parts kvs. u key \<notin> set (map fst kvs) \<longrightarrow>
      read_parts (ps @ parts) kvs = read_parts parts (kvs @ (case v of None \<Rightarrow> [] | Some s \<Rightarrow> [(u key, s)]))"
proof (cases v)
  case None
  then show ?thesis by (intro that [of "[]"]) (simp_all add: quoted_part_def)
next
  case (Some s)
  with assms(1) obtain q where q: "quote s = Inr q" "decode_value q = Inr s" "\<forall>n\<in>set q. is_unreserved n \<or> n = 37"
    by (auto elim: quote_valid)
  have k: "is_unreserved n" if "n \<in> set (u key)" for n
    using that assms(2) by (auto simp: is_name_def list_all_iff is_unreserved_def)
  have "38 \<noteq> n \<and> link_char n" if "n \<in> set (u key @ 61 # q)" for n
    using that k [of n] q(3) by (auto simp: link_char_def is_unreserved_def)
  then show ?thesis using Some q read_part [OF assms(2) _ q(2)]
    by (intro that [of "[u key @ 61 # q]"]) (auto simp: quoted_part_def)
qed

lemma amount_part_reads:
  assumes "\<forall>n. amount = Some n \<longrightarrow> 0 \<le> n"
  defines "ps \<equiv> (case amount of None \<Rightarrow> [] | Some n \<Rightarrow> [u ''amount'' @ 61 # u (format_amount n False)])"
  shows "\<forall>part\<in>set ps. part \<noteq> [] \<and> 38 \<notin> set part \<and> (\<forall>n\<in>set part. link_char n)"
    and "read_parts (ps @ parts) [] =
      read_parts parts (case amount of None \<Rightarrow> [] | Some n \<Rightarrow> [(u ''amount'', u (format_amount n False))])"
proof -
  have name: "is_name (u ''amount'')" by (simp add: is_name_def u_def)
  have f: "(\<forall>c\<in>set (u (format_amount n False)). is_unreserved c) \<and> decode_value (u (format_amount n False)) = Inr (u (format_amount n False))"
    if "amount = Some n" for n
    using format_amount_text [of n] assms(1) that decode_plain by blast
  have "\<forall>c\<in>set (u ''amount'' @ 61 # u (format_amount n False)). c \<noteq> 38 \<and> link_char c" if "amount = Some n" for n
    using that f by (auto simp: link_char_def is_unreserved_def u_def)
  then show "\<forall>part\<in>set ps. part \<noteq> [] \<and> 38 \<notin> set part \<and> (\<forall>n\<in>set part. link_char n)"
    unfolding ps_def by (cases amount) auto
  show "read_parts (ps @ parts) [] =
      read_parts parts (case amount of None \<Rightarrow> [] | Some n \<Rightarrow> [(u ''amount'', u (format_amount n False))])"
    using f read_part [OF name, of "[]"] by (auto simp: ps_def split: option.splits)
qed

lemma join_nonempty: "parts \<noteq> [] \<Longrightarrow> \<forall>part\<in>set parts. part \<noteq> [] \<Longrightarrow> join c parts \<noteq> []"
  by (cases "(c, parts)" rule: join.cases) auto

text \<open>The parts of the query of a request, and what they read as.\<close>

lemma request_parts:
  assumes "valid_request P r"
  obtains parts kvs where "link_text r = Inr (u (SCHEME @ '':'') @ pr_address r @ (if parts \<noteq> [] then 63 # join 38 parts else []))"
    and "\<forall>part\<in>set parts. part \<noteq> [] \<and> 38 \<notin> set part \<and> (\<forall>n\<in>set part. link_char n)"
    and "read_parts parts [] = Inr kvs"
    and "map_of kvs (u ''amount'') = map_option (\<lambda>n. u (format_amount n False)) (pr_amount r)"
    and "map_of kvs (u ''memo'') = pr_memo r" and "map_of kvs (u ''label'') = pr_label r"
    and "\<not> list_ex (\<lambda>(key, _). startswith key (u ''req-'')) kvs"
proof -
  let ?amount = "pr_amount r" and ?memo = "pr_memo r" and ?label = "pr_label r"
  from assms have amount: "\<forall>n. ?amount = Some n \<longrightarrow> 1 \<le> n \<and> n \<le> MAX_AMOUNT"
    and memo: "\<forall>m. ?memo = Some m \<longrightarrow> valid_text m" and label: "\<forall>l. ?label = Some l \<longrightarrow> valid_text l"
    by (auto simp: valid_request_def)
  have names: "is_name (u ''memo'')" "is_name (u ''label'')" by (simp_all add: is_name_def u_def)
  obtain ms where ms: "quoted_part ''memo'' ?memo = Inr ms" "\<forall>part\<in>set ms. part \<noteq> [] \<and> 38 \<notin> set part \<and> (\<forall>n\<in>set part. link_char n)"
    "\<forall>parts kvs. u ''memo'' \<notin> set (map fst kvs) \<longrightarrow>
      read_parts (ms @ parts) kvs = read_parts parts (kvs @ (case ?memo of None \<Rightarrow> [] | Some s \<Rightarrow> [(u ''memo'', s)]))"
    by (rule quoted_part_reads [OF memo names(1)])
  obtain ls where ls: "quoted_part ''label'' ?label = Inr ls" "\<forall>part\<in>set ls. part \<noteq> [] \<and> 38 \<notin> set part \<and> (\<forall>n\<in>set part. link_char n)"
    "\<forall>parts kvs. u ''label'' \<notin> set (map fst kvs) \<longrightarrow>
      read_parts (ls @ parts) kvs = read_parts parts (kvs @ (case ?label of None \<Rightarrow> [] | Some s \<Rightarrow> [(u ''label'', s)]))"
    by (rule quoted_part_reads [OF label names(2)])
  define am where "am = (case ?amount of None \<Rightarrow> [] | Some n \<Rightarrow> [u ''amount'' @ 61 # u (format_amount n False)])"
  have nn: "\<forall>n. ?amount = Some n \<longrightarrow> 0 \<le> n" using amount by force
  note am = amount_part_reads [OF nn, folded am_def]
  define parts where "parts = am @ ms @ ls"
  define kvs where "kvs = (case ?amount of None \<Rightarrow> [] | Some n \<Rightarrow> [(u ''amount'', u (format_amount n False))]) @
    (case ?memo of None \<Rightarrow> [] | Some s \<Rightarrow> [(u ''memo'', s)]) @ (case ?label of None \<Rightarrow> [] | Some s \<Rightarrow> [(u ''label'', s)])"
  have keys: "u ''amount'' \<noteq> u ''memo''" "u ''amount'' \<noteq> u ''label''" "u ''memo'' \<noteq> u ''label''" by (simp_all add: u_def)
  have read: "read_parts parts [] = Inr kvs"
    using am(2) [of "ms @ ls"] ms(3) [rule_format, of _ ls] ls(3) [rule_format, of _ "[]"] keys
    by (auto simp: parts_def kvs_def split: option.splits)
  have look: "map_of kvs (u ''amount'') = map_option (\<lambda>n. u (format_amount n False)) ?amount"
    "map_of kvs (u ''memo'') = ?memo" "map_of kvs (u ''label'') = ?label"
    "\<not> list_ex (\<lambda>(key, _). startswith key (u ''req-'')) kvs"
    using keys by (auto simp: kvs_def startswith_def u_def split: option.splits)
  have "link_text r = Inr (u (SCHEME @ '':'') @ pr_address r @ (if parts \<noteq> [] then 63 # join 38 parts else []))"
    by (simp add: link_text_def ms(1) ls(1) parts_def am_def Let_def)
  moreover have "\<forall>part\<in>set parts. part \<noteq> [] \<and> 38 \<notin> set part \<and> (\<forall>n\<in>set part. link_char n)"
    using am(1) ms(2) ls(2) by (auto simp: parts_def)
  ultimately show ?thesis using that read look by blast
qed

lemma parse_link_passes:
  assumes "strip_ends s = s" "length s \<le> MAX_LINK_LENGTH" "is_link s" "35 \<notin> set s"
    and "partition_at 63 (drop (length SCHEME + 1) s) = (a, q, query)" "q \<longleftrightarrow> query \<noteq> []"
    and "network_of P NETWORKS a = Inr N" "read_parts (if query \<noteq> [] then split_on 38 query else []) [] = Inr kvs"
    and "\<not> list_ex (\<lambda>(key, _). startswith key (u ''req-'')) kvs"
    and "read_amount (map_of kvs (u ''amount'')) = Inr amount" "check_memo (map_of kvs (u ''memo'')) = Inr ()"
    and "\<not> (case map_of kvs (u ''label'') of None \<Rightarrow> False | Some l \<Rightarrow> length l > MAX_LABEL_LENGTH)"
  shows "parse_link P s None = Inr \<lparr>pr_network = name N, pr_address = a, pr_amount = amount,
     pr_memo = map_of kvs (u ''memo''), pr_label = map_of kvs (u ''label'')\<rparr>"
  unfolding parse_link_def Let_def assms(1) assms(5) prod.case assms(7) rbind.simps assms(8)
  using assms(2-4,6,9-12) by auto

lemma link_reads_back:
  assumes "valid_request P r"
  shows "\<exists>l. link_text r = Inr l \<and> (length l \<le> MAX_LINK_LENGTH \<longrightarrow> parse_link P l None = Inr r)"
proof -
  let ?a = "pr_address r"
  from assms obtain parts kvs where link: "link_text r = Inr (u (SCHEME @ '':'') @ ?a @ (if parts \<noteq> [] then 63 # join 38 parts else []))"
    and parts: "\<forall>part\<in>set parts. part \<noteq> [] \<and> 38 \<notin> set part \<and> (\<forall>n\<in>set part. link_char n)"
    and read: "read_parts parts [] = Inr kvs"
    and look: "map_of kvs (u ''amount'') = map_option (\<lambda>n. u (format_amount n False)) (pr_amount r)"
      "map_of kvs (u ''memo'') = pr_memo r" "map_of kvs (u ''label'') = pr_label r"
      "\<not> list_ex (\<lambda>(key, _). startswith key (u ''req-'')) kvs" by (rule request_parts)
  define query where "query = (if parts \<noteq> [] then join 38 parts else [])"
  let ?l = "u (SCHEME @ '':'') @ ?a @ (if parts \<noteq> [] then 63 # join 38 parts else [])"
  from assms obtain N where N: "network_of P NETWORKS ?a = Inr N" "pr_network r = name N" by (auto simp: valid_request_def)
  have a: "\<forall>n\<in>set ?a. is_unreserved n" using address_alnum [OF N(1)] alnum_unreserved by blast
  have query: "query \<noteq> [] \<longleftrightarrow> parts \<noteq> []" using parts join_nonempty [of parts 38] by (fastforce simp: query_def)
  have split: "(if query \<noteq> [] then split_on 38 query else []) = parts"
    using parts query split_on_join [of parts 38] by (auto simp: query_def)
  have "\<forall>n\<in>set (u (SCHEME @ '':'')). link_char n" by (simp add: u_def SCHEME_def link_char_def is_unreserved_def)
  moreover have "link_char n" if "n \<in> set (join 38 parts)" for n using set_join [OF that] parts by (auto simp: link_char_def)
  ultimately have "\<forall>n\<in>set ?l. link_char n" using a by (auto simp: link_char_def)
  then have plain: "strip_ends ?l = ?l" "35 \<notin> set ?l" using link_char_plain strip_ends_plain by blast+
  have head: "take (length SCHEME + 1) ?l = u (SCHEME @ '':'')" "drop (length SCHEME + 1) ?l = ?a @ (if parts \<noteq> [] then 63 # join 38 parts else [])"
    by (simp_all add: SCHEME_def u_def)
  have "is_link ?l" unfolding is_link_def plain(1) head by (simp add: u_def SCHEME_def lower_ascii_def)
  moreover have "partition_at 63 (drop (length SCHEME + 1) ?l) = (?a, parts \<noteq> [], query)"
  proof -
    have "63 \<notin> set ?a" using a by (auto simp: is_unreserved_def)
    then show ?thesis unfolding head query_def by (auto simp: partition_at_found partition_at_missing)
  qed
  moreover have "read_amount (map_of kvs (u ''amount'')) = Inr (pr_amount r)"
    using assms format_amount_text format_then_parse by (auto simp: look(1) read_amount_def valid_request_def split: option.splits)
  moreover have "check_memo (pr_memo r) = Inr ()"
    using assms by (auto simp: check_memo_def utf8_encode_def valid_request_def valid_text_def list_ex_iff is_char_def split: option.splits)
  moreover have "\<not> (case pr_label r of None \<Rightarrow> False | Some l \<Rightarrow> length l > MAX_LABEL_LENGTH)"
    using assms by (auto simp: valid_request_def split: option.splits)
  ultimately have "parse_link P ?l None = Inr \<lparr>pr_network = name N, pr_address = ?a, pr_amount = pr_amount r,
     pr_memo = map_of kvs (u ''memo''), pr_label = map_of kvs (u ''label'')\<rparr>" if "length ?l \<le> MAX_LINK_LENGTH"
    using that plain N(1) query read look split by (intro parse_link_passes [where q = "parts \<noteq> []" and query = query]) simp_all
  then have "parse_link P ?l None = Inr r" if "length ?l \<le> MAX_LINK_LENGTH" using that look(2,3) N(2) by simp
  with link show ?thesis by blast
qed

section \<open>Links and requests correspond\<close>

text \<open>C35. A link means one request and every request has a link: whatever is read from a link is a request
  with a real address of the network it names, an amount between one base unit and the supply, a memo
  that fits on the chain, and texts free of control and reordering characters; and every such
  request, in whatever characters, is written as a link that reads back as exactly that request.\<close>

theorem links_are_requests:
  "(parse_link P t params = Inr r \<and> (\<forall>n\<in>set t. is_char n) \<longrightarrow> valid_request P r) \<and>
   (valid_request P r \<longrightarrow> (\<exists>l. link_text r = Inr l \<and>
      (length l \<le> MAX_LINK_LENGTH \<longrightarrow> to_link P r = Inr l \<and> parse_link P l None = Inr r)))"
proof (intro conjI impI)
  show "valid_request P r" if "parse_link P t params = Inr r \<and> (\<forall>n\<in>set t. is_char n)"
    using that parsed_is_valid by blast
  show "\<exists>l. link_text r = Inr l \<and>
      (length l \<le> MAX_LINK_LENGTH \<longrightarrow> to_link P r = Inr l \<and> parse_link P l None = Inr r)" if "valid_request P r"
    using link_reads_back [OF that] by (auto simp: to_link_def)
qed

text \<open>C36. Whatever is wrong with a text of Unicode characters, reading it as a link raises \<open>PaymentLinkError\<close> and
  nothing else, so that callers need to handle only this.\<close>

theorem bad_links_raise_one_error:
  assumes "parse_link P t params = Inl e" and "\<forall>n\<in>set t. is_char n"
  shows "e = PaymentLinkError"
  using assms by (rule parse_link_raises)

lemma bad_links_raise_one_error_witness:
  "\<exists>e. parse_link example_prims (u ''bitcoin:tc1'') None = Inl e \<and> e = PaymentLinkError"
proof -
  have "strip_ends (u ''bitcoin:tc1'') = u ''bitcoin:tc1''"
    by (rule strip_ends_plain) (simp add: u_def is_end_def)
  then have "\<not> is_link (u ''bitcoin:tc1'')" by (simp add: is_link_def u_def SCHEME_def lower_ascii_def)
  with \<open>strip_ends _ = _\<close> obtain e where e: "parse_link example_prims (u ''bitcoin:tc1'') None = Inl e"
    by (simp add: parse_link_def Let_def)
  have "\<forall>n\<in>set (u ''bitcoin:tc1''). is_char n" by (simp add: u_def is_char_def is_surrogate_def)
  with e bad_links_raise_one_error [OF e] show ?thesis by blast
qed

definition example_request :: payment_request where
  "example_request = \<lparr>pr_network = ''mainnet'',
     pr_address = u (''tc'' @ b58encode (BURN_PAYLOAD @ checksum example_prims ''tc'' BURN_PAYLOAD)),
     pr_amount = Some 12500000, pr_memo = Some [99, 97, 102, 233, 32, 9749], pr_label = None\<rparr>"

lemma example_request_ok: "network_of example_prims NETWORKS (pr_address example_request) = Inr MAINNET"
  "valid_request example_prims example_request" "length (pr_address example_request) \<le> 42"
proof -
  let ?t = "''tc'' @ b58encode (BURN_PAYLOAD @ checksum example_prims ''tc'' BURN_PAYLOAD)"
  have "encode_address example_prims BURN_PAYLOAD ''tc'' = Inr ?t" by (simp add: encode_address_def is_known_payload_burn)
  then have "decode_address example_prims ?t ''tc'' = Inr BURN_PAYLOAD" using decode_iff_encode [OF digest32_example] by blast
  then show net: "network_of example_prims NETWORKS (pr_address example_request) = Inr MAINNET"
    by (simp add: example_request_def NETWORKS_def MAINNET_def startswith_def) (simp add: u_def)
  then show "valid_request example_prims example_request"
    by (simp add: valid_request_def) (simp add: example_request_def MAINNET_def MAX_AMOUNT_def valid_text_def is_char_def
        is_surrogate_def is_control_def is_bidi_def utf8_octets_def MAX_MEMO_SIZE_def)
  have "length (b58encode (BURN_PAYLOAD @ checksum example_prims ''tc'' BURN_PAYLOAD)) \<le> 40"
    by (rule length_b58encode) (simp add: BURN_PAYLOAD_def PAYLOAD_SIZE_def length_checksum [OF digest32_example] CHECKSUM_SIZE_def)
  then show "length (pr_address example_request) \<le> 42" by (simp add: example_request_def u_def)
qed

lemma links_are_requests_witness:
  "\<exists>l. link_text example_request = Inr l \<and> to_link example_prims example_request = Inr l \<and>
     parse_link example_prims l None = Inr example_request"
proof -
  obtain l where l: "link_text example_request = Inr l" "length l \<le> MAX_LINK_LENGTH \<longrightarrow>
      to_link example_prims example_request = Inr l \<and> parse_link example_prims l None = Inr example_request"
    using links_are_requests [of example_prims "[]" None example_request] example_request_ok(2) by blast
  have "format_amount 12500000 False = ''12.5''"
    by code_simp
  moreover have "pr_amount example_request = Some 12500000" "pr_label example_request = None"
    "pr_memo example_request = Some [99, 97, 102, 233, 32, 9749]"
    by (simp_all add: example_request_def)
  moreover have "quote [99, 97, 102, 233, 32, 9749] = Inr (u ''caf%C3%A9%20%E2%98%95'')"
    by (simp add: quote_def utf8_encode_def is_surrogate_def utf8_octets_def quote_octet_def is_unreserved_def hex_upper_def u_def)
  ultimately have "length l \<le> MAX_LINK_LENGTH"
    using l(1) example_request_ok(3)
    by (simp add: link_text_def quoted_part_def SCHEME_def MAX_LINK_LENGTH_def u_def split: sum.splits if_splits) auto
  with l show ?thesis by blast
qed

text \<open>A text that holds half of a surrogate pair, as Python's strings may, is refused with another
  exception.\<close>

lemma surrogate_memo_escapes:
  "parse_link example_prims (u ''talcash:'' @ pr_address example_request @ u ''?memo='' @ [55296]) None = Inl UnicodeEncodeError"
proof -
  let ?a = "pr_address example_request"
  let ?s = "u ''talcash:'' @ ?a @ u ''?memo='' @ [55296]"
  have a: "\<forall>n\<in>set ?a. is_unreserved n" using address_alnum [OF example_request_ok(1)] alnum_unreserved by blast
  have plain: "strip_ends ?s = ?s"
    by (rule strip_ends_plain) (use a in \<open>auto simp: u_def is_end_def is_unreserved_def\<close>)
  have head: "take (length SCHEME + 1) ?s = u ''talcash:''" "drop (length SCHEME + 1) ?s = ?a @ 63 # (u ''memo='' @ [55296])"
    by (simp_all add: SCHEME_def u_def)
  have "is_link ?s" unfolding is_link_def plain head by (simp add: u_def SCHEME_def lower_ascii_def)
  moreover have "35 \<notin> set ?s" using a by (auto simp: u_def is_unreserved_def)
  moreover have "length ?s \<le> MAX_LINK_LENGTH" using example_request_ok(3) by (simp add: u_def MAX_LINK_LENGTH_def)
  moreover have "partition_at 63 (drop (length SCHEME + 1) ?s) = (?a, True, u ''memo='' @ [55296])"
    unfolding head by (rule partition_at_found) (use a in \<open>auto simp: is_unreserved_def\<close>)
  moreover have "split_on 38 (u ''memo='' @ [55296]) = [u ''memo'' @ 61 # [55296]]"
    by (simp add: split_on_def u_def)
  moreover have "decode_value [55296] = Inr [55296]"
    by (simp add: decode_value_def unquote_step unquote.simps [of "[]"] is_control_def is_bidi_def)
  then have "read_parts [u ''memo'' @ 61 # [55296]] [] = Inr [(u ''memo'', [55296])]"
    by (subst read_part) (simp_all add: is_name_def u_def)
  moreover have "read_amount (map_of [(u ''memo'', [55296])] (u ''amount'')) = Inr None" by (simp add: read_amount_def u_def)
  moreover have "check_memo (Some [55296]) = Inl UnicodeEncodeError"
    by (simp add: check_memo_def utf8_encode_def is_surrogate_def)
  ultimately show ?thesis
    unfolding parse_link_def Let_def plain using example_request_ok(1) by (simp add: startswith_def u_def)
qed

end
