(* ===== verification/Json.thy ===== *)
theory Json
  imports Complex_Main Texts
begin

text \<open>
  What \<open>json.loads\<close> gives, and the functions of Python that take such values apart: \<open>dict.get\<close>,
  \<open>bytes.fromhex\<close>, \<open>bytes.hex\<close> and \<open>int(text, base)\<close>.  A dictionary is a list of keys and values; a finite float is
  the rational it stands for.
\<close>

datatype json =
    JNull
  | JBool bool
  | JInt int
  | JFloat rat
  | JInf
  | JNaN
  | JStr ustr
  | JList "json list"
  | JObj "(ustr \<times> json) list"

type_synonym dict = "(ustr \<times> json) list"

text \<open>\<open>message.get(key)\<close> and \<open>message.get(key, default)\<close>\<close>

definition get_or :: "json \<Rightarrow> dict \<Rightarrow> string \<Rightarrow> json" where
  "get_or d m key = (case map_of m (u key) of None \<Rightarrow> d | Some v \<Rightarrow> v)"

abbreviation get :: "dict \<Rightarrow> string \<Rightarrow> json" where
  "get \<equiv> get_or JNull"

text \<open>\<open>value == n\<close>: a float or a boolean equals the integer of its value.\<close>

definition equals_int :: "int \<Rightarrow> json \<Rightarrow> bool" where
  "equals_int n v \<longleftrightarrow> v = JInt n \<or> v = JFloat (of_int n) \<or> (\<exists>b. v = JBool b \<and> n = (if b then 1 else 0))"

text \<open>\<open>len(value) if isinstance(value, list) else 0\<close>\<close>

definition length_of :: "json \<Rightarrow> nat" where
  "length_of v = (case v of JList vs \<Rightarrow> length vs | _ \<Rightarrow> 0)"

section \<open>Hex\<close>

definition hex_lower :: "nat \<Rightarrow> nat" where
  "hex_lower d = (if d < 10 then 48 + d else 87 + d)"

definition hex :: "bytes \<Rightarrow> ustr" where
  "hex bs = concat (map (\<lambda>b. [hex_lower (unat b div 16), hex_lower (unat b mod 16)]) bs)"

text \<open>The ASCII whitespace that \<open>bytes.fromhex\<close> skips between bytes and \<open>int\<close> around a number.\<close>

definition is_blank :: "nat \<Rightarrow> bool" where
  "is_blank n \<longleftrightarrow> n = 32 \<or> (9 \<le> n \<and> n \<le> 13)"

fun from_hex :: "ustr \<Rightarrow> bytes option" where
  "from_hex [] = Some []"
| "from_hex (a # s) =
     (if is_blank a then from_hex s
      else case s of
          [] \<Rightarrow> None
        | b # s' \<Rightarrow>
            (case (hex_digit a, hex_digit b) of
               (Some x, Some y) \<Rightarrow> map_option (Cons (word_of_nat (x * 16 + y))) (from_hex s')
             | _ \<Rightarrow> None))"

text \<open>\<open>bytes.fromhex(value)\<close>\<close>

definition bytes_fromhex :: "json \<Rightarrow> bytes result" where
  "bytes_fromhex v =
     (case v of
        JStr s \<Rightarrow> (case from_hex s of None \<Rightarrow> Inl ValueError | Some bs \<Rightarrow> Inr bs)
      | _ \<Rightarrow> Inl TypeError)"

lemma hex_digit_lower [simp]: "d < 16 \<Longrightarrow> hex_digit (hex_lower d) = Some d"
  by (auto simp: hex_digit_def hex_lower_def)

lemma not_blank_hex_lower [simp]: "d < 16 \<Longrightarrow> \<not> is_blank (hex_lower d)"
  by (auto simp: is_blank_def hex_lower_def)

lemma byte_split: "word_of_nat (unat b div 16 * 16 + unat b mod 16) = (b :: byte)"
  unfolding div_mult_mod_eq by simp

lemma from_hex_hex [simp]: "from_hex (hex bs) = Some bs"
proof (induction bs)
  case (Cons b bs)
  have "unat b < 256" using unsigned_less [of b] by simp
  then have "unat b div 16 < 16" "unat b mod 16 < 16" by auto
  with Cons show ?case by (simp add: hex_def byte_split)
qed (simp add: hex_def)

lemma bytes_fromhex_hex [simp]: "bytes_fromhex (JStr (hex bs)) = Inr bs"
  by (simp add: bytes_fromhex_def)

lemma length_hex [simp]: "length (hex bs) = 2 * length bs"
  by (induction bs) (simp_all add: hex_def)

lemma hex_inject [simp]: "hex a = hex b \<longleftrightarrow> a = b"
  using from_hex_hex by (metis option.inject)

lemma length_from_hex: "from_hex s = Some bs \<Longrightarrow> 2 * length bs \<le> length s"
  by (induction s arbitrary: bs rule: from_hex.induct) (fastforce split: if_splits list.splits option.splits)+

lemma bytes_fromhex_raises: "bytes_fromhex v = Inl e \<Longrightarrow> e = TypeError \<or> e = ValueError"
  by (auto simp: bytes_fromhex_def split: json.splits option.splits)

section \<open>Numbers\<close>

text \<open>What Unicode says of the characters beyond ASCII: white space, and decimal digits with their value.\<close>

record unicode_db =
  uni_space :: "nat \<Rightarrow> bool"
  uni_decimal :: "nat \<Rightarrow> nat option"

definition ascii_digits :: "unicode_db \<Rightarrow> ustr \<Rightarrow> ustr" where
  "ascii_digits D s =
     map (\<lambda>n. if n < 128 then n else if uni_space D n then 32
              else case uni_decimal D n of Some d \<Rightarrow> 48 + d | None \<Rightarrow> 63) s"

definition digit_in :: "nat \<Rightarrow> nat \<Rightarrow> nat option" where
  "digit_in base n =
     (if 48 \<le> n \<and> n \<le> 57 \<and> n - 48 < base then Some (n - 48)
      else if 65 \<le> n \<and> n \<le> 90 \<and> n - 55 < base then Some (n - 55)
      else if 97 \<le> n \<and> n \<le> 122 \<and> n - 87 < base then Some (n - 87) else None)"

text \<open>Digits, single underscores allowed between them.\<close>

fun digits_of :: "nat \<Rightarrow> bool \<Rightarrow> ustr \<Rightarrow> nat list option" where
  "digits_of base us [] = (if us then None else Some [])"
| "digits_of base us (c # s) =
     (if c = 95 then (if us then None else digits_of base True s)
      else case digit_in base c of None \<Rightarrow> None | Some d \<Rightarrow> map_option (Cons d) (digits_of base False s))"

text \<open>\<open>int(text, base)\<close> for base 10 and 16.  In base 10 more than 4300 digits are refused.\<close>

definition py_int :: "unicode_db \<Rightarrow> nat \<Rightarrow> ustr \<Rightarrow> int result" where
  "py_int D base s =
     (let s = dropWhile is_blank (ascii_digits D s);
          s = rev (dropWhile is_blank (rev s));
          negative = (s \<noteq> [] \<and> hd s = 45);
          s = (if s \<noteq> [] \<and> (hd s = 43 \<or> hd s = 45) then tl s else s);
          prefixed = (base = 16 \<and> length s \<ge> 2 \<and> s ! 0 = 48 \<and> (s ! 1 = 120 \<or> s ! 1 = 88));
          s = (if prefixed then drop 2 s else s);
          s = (if prefixed \<and> s \<noteq> [] \<and> hd s = 95 then tl s else s)
      in if s = [] \<or> hd s = 95 then Inl ValueError
         else case digits_of base False s of
                None \<Rightarrow> Inl ValueError
              | Some ds \<Rightarrow>
                  if base = 10 \<and> length ds > 4300 then Inl ValueError
                  else let n = foldl (\<lambda>n d. n * int base + int d) 0 ds in Inr (if negative then - n else n))"

lemma py_int_raises: "py_int D base s = Inl e \<Longrightarrow> e = ValueError"
  by (auto simp: py_int_def Let_def split: if_splits option.splits)

text \<open>\<open>f"{n:x}"\<close>\<close>

function hex_digits :: "nat \<Rightarrow> ustr" where
  "hex_digits n = (if n < 16 then [hex_lower n] else hex_digits (n div 16) @ [hex_lower (n mod 16)])"
  by pat_completeness auto
termination
  by (relation "measure id") auto

declare hex_digits.simps [simp del]

definition hex_of_int :: "int \<Rightarrow> ustr" where
  "hex_of_int n = (if n < 0 then 45 # hex_digits (nat (- n)) else hex_digits (nat n))"

text \<open>\<open>int(value)\<close> of a value from a JSON file\<close>

definition json_int :: "unicode_db \<Rightarrow> json \<Rightarrow> int result" where
  "json_int D v =
     (case v of
        JInt n \<Rightarrow> Inr n
      | JBool b \<Rightarrow> Inr (if b then 1 else 0)
      | JFloat r \<Rightarrow> Inr (if r < 0 then - \<lfloor>- r\<rfloor> else \<lfloor>r\<rfloor>)
      | JInf \<Rightarrow> Inl OverflowError
      | JNaN \<Rightarrow> Inl ValueError
      | JStr s \<Rightarrow> py_int D 10 s
      | _ \<Rightarrow> Inl TypeError)"

end
