(* ===== verification/Wallet.thy ===== *)
theory Wallet
  imports Mnemonic Json Tx "HOL-Library.Multiset"
begin

text \<open>
  \<open>crypto/hd.py\<close>, \<open>wallet/keystore.py\<close> and \<open>wallet/wallet.py\<close>: the keys that one passphrase stands for, the
  encryption of the passphrase, and the wallet file.  HMAC, Unicode normalisation, libsodium's password
  hash and secret box, and the JSON reader and writer are fields of \<open>wallet_lib\<close>; random bytes, the clock
  and the answers of a node are arguments.  A disk maps paths to the text of the file there.  The texts of
  passphrases and passwords are of code points below 256, as in \<open>Mnemonic\<close>.
\<close>

unbundle bit_operations_syntax

record kdf_strength =
  opslimit :: int
  memlimit :: int

record wallet_lib =
  hmac_sha512 :: "bytes \<Rightarrow> bytes \<Rightarrow> bytes"
  nfkc :: "string \<Rightarrow> string"
  argon2id_kdf :: "nat \<Rightarrow> bytes \<Rightarrow> bytes \<Rightarrow> int \<Rightarrow> int \<Rightarrow> bytes result"
  box_encrypt :: "bytes \<Rightarrow> bytes \<Rightarrow> bytes \<Rightarrow> bytes"
  box_decrypt :: "bytes \<Rightarrow> bytes \<Rightarrow> bytes option result"
  BOX_KEY_SIZE :: nat
  OPSLIMIT_MIN :: int
  OPSLIMIT_SENSITIVE :: int
  MEMLIMIT_MIN :: int
  secret_dumps :: "string \<times> string \<Rightarrow> bytes"
  secret_loads :: "bytes \<Rightarrow> (string \<times> string) result"
  json_dumps :: "json \<Rightarrow> ustr"
  json_loads :: "ustr \<Rightarrow> json option"

section \<open>Deriving keys\<close>

definition HARDENED :: int where "HARDENED = 0x80000000"
definition COIN_TYPE :: int where "COIN_TYPE = 84184"

definition master_key :: "wallet_lib \<Rightarrow> bytes \<Rightarrow> bytes \<times> bytes" where
  "master_key W seed = (let digest = hmac_sha512 W (ascii ''ed25519 seed'') seed in (take 32 digest, drop 32 digest))"

definition derive_child :: "wallet_lib \<Rightarrow> bytes \<Rightarrow> bytes \<Rightarrow> int \<Rightarrow> (bytes \<times> bytes) result" where
  "derive_child W key chain_code index =
     (if index < HARDENED then Inl ValueError
      else rbind (to_bytes index 4) (\<lambda>i.
        let digest = hmac_sha512 W chain_code ([0] @ key @ i) in Inr (take 32 digest, drop 32 digest)))"

definition derive_path :: "wallet_lib \<Rightarrow> bytes \<Rightarrow> int list \<Rightarrow> bytes result" where
  "derive_path W seed path =
     rbind (for_each (\<lambda>index (key, chain_code). derive_child W key chain_code index) path (master_key W seed))
       (\<lambda>(key, _). Inr key)"

definition wallet_private_key :: "wallet_lib \<Rightarrow> bytes \<Rightarrow> int \<Rightarrow> int \<Rightarrow> bytes result" where
  "wallet_private_key W seed index acct =
     derive_path W seed [44 OR HARDENED, COIN_TYPE OR HARDENED, acct OR HARDENED, index OR HARDENED]"

section \<open>Encrypting the secret\<close>

definition KDF_NAME :: string where "KDF_NAME = ''argon2id''"
definition CIPHER_NAME :: string where "CIPHER_NAME = ''xsalsa20-poly1305''"
definition MAX_MEMLIMIT :: int where "MAX_MEMLIMIT = 2 ^ 30"

definition kdf_key :: "wallet_lib \<Rightarrow> string \<Rightarrow> bytes \<Rightarrow> kdf_strength \<Rightarrow> bytes result" where
  "kdf_key W password salt' strength =
     argon2id_kdf W (BOX_KEY_SIZE W) (utf8 (nfkc W password)) salt' (opslimit strength) (memlimit strength)"

definition encrypt :: "wallet_lib \<Rightarrow> bytes \<Rightarrow> bytes \<Rightarrow> bytes \<Rightarrow> string \<Rightarrow> kdf_strength \<Rightarrow> json result" where
  "encrypt W salt' nonce plaintext password strength =
     rbind (kdf_key W password salt' strength) (\<lambda>key. Inr (JObj
       [(u ''kdf'', JStr (u KDF_NAME)), (u ''salt'', JStr (hex salt')), (u ''opslimit'', JInt (opslimit strength)),
        (u ''memlimit'', JInt (memlimit strength)), (u ''cipher'', JStr (u CIPHER_NAME)),
        (u ''data'', JStr (hex (box_encrypt W key nonce plaintext)))]))"

text \<open>\<open>blob[key]\<close>\<close>

definition item :: "dict \<Rightarrow> string \<Rightarrow> json result" where
  "item d key = (case map_of d (u key) of None \<Rightarrow> Inl KeyError | Some v \<Rightarrow> Inr v)"

definition as_dict :: "exn \<Rightarrow> json \<Rightarrow> dict result" where
  "as_dict e v = (case v of JObj d \<Rightarrow> Inr d | _ \<Rightarrow> Inl e)"

definition bounded_int :: "int \<Rightarrow> int \<Rightarrow> json \<Rightarrow> int result" where
  "bounded_int lo hi v = (case v of JInt n \<Rightarrow> if lo \<le> n \<and> n \<le> hi then Inr n else Inl ValueError | _ \<Rightarrow> Inl ValueError)"

definition decrypt :: "wallet_lib \<Rightarrow> json \<Rightarrow> string \<Rightarrow> bytes result" where
  "decrypt W blob password =
     rbind (as_dict AttributeError blob) (\<lambda>d.
       if get d ''kdf'' \<noteq> JStr (u KDF_NAME) \<or> get d ''cipher'' \<noteq> JStr (u CIPHER_NAME) then Inl ValueError
       else rbind (item d ''opslimit'') (\<lambda>ops. rbind (item d ''memlimit'') (\<lambda>mem.
         rbind (bounded_int (OPSLIMIT_MIN W) (OPSLIMIT_SENSITIVE W) ops) (\<lambda>ops.
         rbind (bounded_int (MEMLIMIT_MIN W) MAX_MEMLIMIT mem) (\<lambda>mem.
         rbind (rbind (item d ''salt'') bytes_fromhex) (\<lambda>salt'.
         rbind (kdf_key W password salt' \<lparr>opslimit = ops, memlimit = mem\<rparr>) (\<lambda>key.
         rbind (rbind (item d ''data'') bytes_fromhex) (\<lambda>sealed.
         rbind (box_decrypt W key sealed) (\<lambda>plain.
           case plain of None \<Rightarrow> Inl WrongPassword | Some p \<Rightarrow> Inr p)))))))))"

section \<open>The wallet\<close>

definition FORMAT :: string where "FORMAT = ''talcash-wallet''"
definition VERSION :: int where "VERSION = 1"
definition GAP_LIMIT :: int where "GAP_LIMIT = 20"

text \<open>The address is whatever the file holds; only \<open>verified_seed\<close> says that it is the right text.\<close>

record wallet_address =
  wa_index :: int
  wa_address :: json

record wallet =
  w_path :: string
  w_params :: network_params
  w_encrypted :: json
  w_addresses :: "wallet_address list"
  w_created :: int

type_synonym disk = "string \<Rightarrow> ustr option"

definition wallet_json :: "wallet \<Rightarrow> json" where
  "wallet_json w = JObj
     [(u ''format'', JStr (u FORMAT)), (u ''version'', JInt VERSION), (u ''network'', JStr (u (name (w_params w)))),
      (u ''created'', JInt (w_created w)),
      (u ''addresses'', JList (map (\<lambda>a. JObj [(u ''index'', JInt (wa_index a)), (u ''address'', wa_address a)]) (w_addresses w))),
      (u ''encrypted'', w_encrypted w)]"

definition save :: "wallet_lib \<Rightarrow> bool \<Rightarrow> wallet \<Rightarrow> disk \<Rightarrow> disk result" where
  "save W overwrite w disk =
     (if \<not> overwrite \<and> disk (w_path w) \<noteq> None then Inl WalletError
      else Inr (disk(w_path w \<mapsto> json_dumps W (wallet_json w))))"

definition derive_address :: "prims \<Rightarrow> wallet_lib \<Rightarrow> bytes \<Rightarrow> int \<Rightarrow> network_params \<Rightarrow> string result" where
  "derive_address P W seed index N =
     rbind (wallet_private_key W seed index 0) (\<lambda>sk.
       encode_address P (payload_from_public_key P (public_key P sk)) (address_prefix N))"

definition new_wallet ::
  "prims \<Rightarrow> text_lib \<Rightarrow> wallet_lib \<Rightarrow> string \<Rightarrow> network_params \<Rightarrow> string \<Rightarrow> string \<Rightarrow> string \<Rightarrow> kdf_strength
     \<Rightarrow> bytes \<Rightarrow> bytes \<Rightarrow> int \<Rightarrow> disk \<Rightarrow> (wallet \<times> disk) result" where
  "new_wallet P T W path N phrase password extra strength salt' nonce now disk =
     (if disk path \<noteq> None then Inl WalletError
      else rbind (encrypt W salt' nonce (secret_dumps W (phrase, extra)) password strength) (\<lambda>encrypted.
        rbind (derive_address P W (to_seed T phrase extra) 0 N) (\<lambda>a.
          let w = \<lparr>w_path = path, w_params = N, w_encrypted = encrypted,
                   w_addresses = [\<lparr>wa_index = 0, wa_address = JStr (u a)\<rparr>], w_created = now\<rparr>
          in rbind (save W False w disk) (\<lambda>disk. Inr (w, disk)))))"

definition create_wallet ::
  "prims \<Rightarrow> text_lib \<Rightarrow> wallet_lib \<Rightarrow> string \<Rightarrow> (int \<Rightarrow> bytes) \<Rightarrow> string \<Rightarrow> network_params \<Rightarrow> string \<Rightarrow> int \<Rightarrow> string
     \<Rightarrow> kdf_strength \<Rightarrow> bytes \<Rightarrow> bytes \<Rightarrow> int \<Rightarrow> disk \<Rightarrow> (wallet \<times> string \<times> disk) result" where
  "create_wallet P T W file token_bytes path N password n extra strength salt' nonce now disk =
     rbind (generate P file token_bytes n) (\<lambda>phrase.
     rbind (new_wallet P T W path N phrase password extra strength salt' nonce now disk) (\<lambda>(w, disk).
       Inr (w, phrase, disk)))"

definition restore_wallet ::
  "prims \<Rightarrow> text_lib \<Rightarrow> wallet_lib \<Rightarrow> string \<Rightarrow> string \<Rightarrow> network_params \<Rightarrow> string \<Rightarrow> string \<Rightarrow> string \<Rightarrow> kdf_strength
     \<Rightarrow> bytes \<Rightarrow> bytes \<Rightarrow> int \<Rightarrow> disk \<Rightarrow> (wallet \<times> disk) result" where
  "restore_wallet P T W file path N phrase password extra strength salt' nonce now disk =
     rbind (mnemonic_to_entropy P T file phrase) (\<lambda>_.
       new_wallet P T W path N (normalize T phrase) password extra strength salt' nonce now disk)"

definition read_wallet_address :: "unicode_db \<Rightarrow> json \<Rightarrow> wallet_address result" where
  "read_wallet_address D v =
     rbind (as_dict TypeError v) (\<lambda>d. rbind (rbind (item d ''index'') (json_int D)) (\<lambda>i.
       rbind (item d ''address'') (\<lambda>a. Inr \<lparr>wa_index = i, wa_address = a\<rparr>)))"

definition wallet_network :: "json \<Rightarrow> network_params result" where
  "wallet_network v =
     (case v of
        JList _ \<Rightarrow> Inl TypeError
      | JObj _ \<Rightarrow> Inl TypeError
      | _ \<Rightarrow> (case find (\<lambda>N. v = JStr (u (name N))) NETWORKS of None \<Rightarrow> Inl WalletError | Some N \<Rightarrow> Inr N))"

text \<open>\<open>[... for a in value]\<close>: iterating over a dictionary gives its keys, over a text its characters.\<close>

definition elements :: "json \<Rightarrow> json list result" where
  "elements v =
     (case v of
        JList vs \<Rightarrow> Inr vs
      | JObj d \<Rightarrow> Inr (map (\<lambda>(k, _). JStr k) d)
      | JStr s \<Rightarrow> Inr (map (\<lambda>c. JStr [c]) s)
      | _ \<Rightarrow> Inl TypeError)"

definition load_wallet :: "wallet_lib \<Rightarrow> unicode_db \<Rightarrow> string \<Rightarrow> disk \<Rightarrow> wallet result" where
  "load_wallet W D path disk =
     (case disk path of
        None \<Rightarrow> Inl WalletError
      | Some s \<Rightarrow>
          (case json_loads W s of
             None \<Rightarrow> Inl ValueError
           | Some v \<Rightarrow>
               rbind (as_dict AttributeError v) (\<lambda>d.
                 if get d ''format'' \<noteq> JStr (u FORMAT) \<or> \<not> equals_int VERSION (get d ''version'') then Inl WalletError
                 else rbind (wallet_network (get d ''network'')) (\<lambda>N.
                   rbind (item d ''addresses'') (\<lambda>as. rbind (elements as) (\<lambda>as.
                   rbind (for_each (\<lambda>a found. rbind (read_wallet_address D a) (\<lambda>a. Inr (found @ [a]))) as []) (\<lambda>addresses.
                   rbind (item d ''encrypted'') (\<lambda>encrypted.
                   rbind (rbind (item d ''created'') (json_int D)) (\<lambda>created.
                     Inr \<lparr>w_path = path, w_params = N, w_encrypted = encrypted, w_addresses = addresses,
                          w_created = created\<rparr>)))))))))"

definition wallet_secret :: "wallet_lib \<Rightarrow> wallet \<Rightarrow> string \<Rightarrow> (string \<times> string) result" where
  "wallet_secret W w password = rbind (decrypt W (w_encrypted w) password) (secret_loads W)"

definition verified_seed :: "prims \<Rightarrow> text_lib \<Rightarrow> wallet_lib \<Rightarrow> wallet \<Rightarrow> string \<Rightarrow> bytes result" where
  "verified_seed P T W w password =
     rbind (wallet_secret W w password) (\<lambda>(phrase, extra).
       let seed = to_seed T phrase extra
       in for_each (\<lambda>entry seed. rbind (derive_address P W seed (wa_index entry) (w_params w)) (\<lambda>a.
            if JStr (u a) \<noteq> wa_address entry then Inl WalletError else Inr seed)) (w_addresses w) seed)"

definition reveal_passphrase :: "wallet_lib \<Rightarrow> wallet \<Rightarrow> string \<Rightarrow> string result" where
  "reveal_passphrase W w password = rbind (wallet_secret W w password) (\<lambda>(phrase, _). Inr phrase)"

definition check_password :: "prims \<Rightarrow> text_lib \<Rightarrow> wallet_lib \<Rightarrow> wallet \<Rightarrow> string \<Rightarrow> unit result" where
  "check_password P T W w password = rbind (verified_seed P T W w password) (\<lambda>_. Inr ())"

definition new_address ::
  "prims \<Rightarrow> text_lib \<Rightarrow> wallet_lib \<Rightarrow> wallet \<Rightarrow> string \<Rightarrow> disk \<Rightarrow> (wallet_address \<times> wallet \<times> disk) result" where
  "new_address P T W w password disk =
     rbind (verified_seed P T W w password) (\<lambda>seed.
       if w_addresses w = [] then Inl ValueError
       else let index = Max (wa_index ` set (w_addresses w)) + 1
            in rbind (derive_address P W seed index (w_params w)) (\<lambda>a.
                 let entry = \<lparr>wa_index = index, wa_address = JStr (u a)\<rparr>; w = w\<lparr>w_addresses := w_addresses w @ [entry]\<rparr>
                 in rbind (save W True w disk) (\<lambda>disk. Inr (entry, w, disk))))"

definition truthy :: "json \<Rightarrow> bool" where
  "truthy v \<longleftrightarrow> v \<notin> {JNull, JBool False, JInt 0, JFloat 0, JStr [], JList [], JObj []}"

text \<open>The loop of \<open>discover\<close>.  \<open>is_used\<close> asks a node and may raise.\<close>

partial_function (option) discover_loop ::
  "(json \<Rightarrow> bool result) \<Rightarrow> (int \<Rightarrow> json option) \<Rightarrow> (int \<Rightarrow> json result) \<Rightarrow> int \<Rightarrow> int \<Rightarrow> int \<Rightarrow> (int \<times> json) list
     \<Rightarrow> ((int \<times> json) list \<times> int) result option" where
  "discover_loop is_used known derive gap last_used index found =
     (if index - last_used \<le> gap
      then (case (case known index of None \<Rightarrow> derive index | Some a \<Rightarrow> if truthy a then Inr a else derive index) of
              Inl e \<Rightarrow> Some (Inl e)
            | Inr a \<Rightarrow>
                (case is_used a of
                   Inl e \<Rightarrow> Some (Inl e)
                 | Inr used \<Rightarrow> discover_loop is_used known derive gap (if used then index else last_used) (index + 1)
                                (found @ [(index, a)])))
      else Some (Inr (found, last_used)))"

declare discover_loop.simps [code]

definition known_addresses :: "wallet \<Rightarrow> int \<Rightarrow> json option" where
  "known_addresses w = map_of (rev (map (\<lambda>a. (wa_index a, wa_address a)) (w_addresses w)))"

definition discover ::
  "prims \<Rightarrow> text_lib \<Rightarrow> wallet_lib \<Rightarrow> wallet \<Rightarrow> string \<Rightarrow> (json \<Rightarrow> bool result) \<Rightarrow> int \<Rightarrow> disk
     \<Rightarrow> (wallet_address list \<times> wallet \<times> disk) result option" where
  "discover P T W w password is_used gap disk =
     (if gap < 1 then Some (Inl ValueError)
      else case verified_seed P T W w password of
        Inl e \<Rightarrow> Some (Inl e)
      | Inr seed \<Rightarrow>
          (case discover_loop is_used (known_addresses w)
                  (\<lambda>i. rbind (derive_address P W seed i (w_params w)) (\<lambda>a. Inr (JStr (u a)))) gap (- 1) 0 [] of
             None \<Rightarrow> None
           | Some (Inl e) \<Rightarrow> Some (Inl e)
           | Some (Inr (found, last_used)) \<Rightarrow>
               let added = map (\<lambda>i. \<lparr>wa_index = i, wa_address = the (map_of found i)\<rparr>)
                            (filter (\<lambda>i. known_addresses w i = None) [0..last_used])
               in if added = [] then Some (Inr ([], w, disk))
                  else let w = w\<lparr>w_addresses := sort_key wa_index (w_addresses w @ added)\<rparr>
                       in Some (rbind (save W True w disk) (\<lambda>disk. Inr (added, w, disk)))))"

definition private_key :: "prims \<Rightarrow> text_lib \<Rightarrow> wallet_lib \<Rightarrow> wallet \<Rightarrow> string \<Rightarrow> int \<Rightarrow> bytes result" where
  "private_key P T W w password index =
     (if index \<notin> wa_index ` set (w_addresses w) then Inl WalletError
      else rbind (verified_seed P T W w password) (\<lambda>seed. wallet_private_key W seed index 0))"

definition sign_payment ::
  "prims \<Rightarrow> text_lib \<Rightarrow> wallet_lib \<Rightarrow> wallet \<Rightarrow> string \<Rightarrow> int \<Rightarrow> int \<Rightarrow> int \<Rightarrow> (string \<times> int) list \<Rightarrow> bytes
     \<Rightarrow> transfer result" where
  "sign_payment P T W w password index nonce fee outputs memo =
     rbind (private_key P T W w password index) (\<lambda>sk.
     rbind (for_each (\<lambda>(address, amount) done.
              rbind (decode_address P address (address_prefix (w_params w))) (\<lambda>a.
                Inr (done @ [\<lparr>out_address = a, out_amount = amount\<rparr>]))) outputs []) (\<lambda>outs.
       sign_transfer P sk \<lparr>tf_network_id = network_id (w_params w), tf_sender_public_key = public_key P sk,
         tf_nonce = nonce, tf_fee = fee, tf_outputs = outs, tf_memo = memo,
         tf_signature = zero_bytes SIGNATURE_SIZE\<rparr>))"

section \<open>Keys exist\<close>

lemma hardened_range:
  assumes "0 \<le> i" "i < 2 ^ 31"
  shows "HARDENED \<le> i OR HARDENED" "i OR HARDENED < 2 ^ 32"
proof -
  show "HARDENED \<le> i OR HARDENED"
    using or_greater_eq [of i HARDENED] assms(1) by (simp add: or.commute)
  show "i OR HARDENED < 2 ^ 32"
    by (rule OR_upper) (use assms in \<open>simp_all add: HARDENED_def\<close>)
qed

lemma derive_child_returns: "HARDENED \<le> i \<Longrightarrow> i < 2 ^ 32 \<Longrightarrow> \<exists>r. derive_child W key chain_code i = Inr r"
  by (auto simp: derive_child_def to_bytes_def Let_def HARDENED_def)

lemma derive_path_returns:
  assumes "\<forall>i\<in>set path. HARDENED \<le> i \<and> i < 2 ^ 32"
  shows "\<exists>k. derive_path W seed path = Inr k"
proof -
  have "\<exists>r. for_each (\<lambda>index (key, chain_code). derive_child W key chain_code index) path s = Inr r" for s
    using assms
  proof (induction path arbitrary: s)
    case (Cons i path)
    obtain a b where s: "s = (a, b)" by (cases s)
    obtain r where "derive_child W a b i = Inr r" using derive_child_returns Cons.prems by fastforce
    with Cons s show ?case by simp
  qed simp
  from this [of "master_key W seed"] show ?thesis by (auto simp: derive_path_def)
qed

lemma wallet_private_key_returns: "0 \<le> index \<Longrightarrow> index < 2 ^ 31 \<Longrightarrow> \<exists>k. wallet_private_key W seed index 0 = Inr k"
  unfolding wallet_private_key_def
  by (rule derive_path_returns) (use hardened_range [of index] hardened_range [of COIN_TYPE] hardened_range [of 44]
      hardened_range [of 0] in \<open>simp add: COIN_TYPE_def\<close>)

lemma derive_address_returns:
  "digest32 P \<Longrightarrow> 0 \<le> index \<Longrightarrow> index < 2 ^ 31 \<Longrightarrow> \<exists>a. derive_address P W seed index N = Inr a"
  using wallet_private_key_returns [of index W seed]
  by (auto simp: derive_address_def encode_address_def is_known_payload_from_public_key)

section \<open>The seed is checked against the addresses\<close>

definition shows_key :: "prims \<Rightarrow> wallet_lib \<Rightarrow> bytes \<Rightarrow> network_params \<Rightarrow> wallet_address \<Rightarrow> bool" where
  "shows_key P W seed N e \<longleftrightarrow> (\<exists>a. derive_address P W seed (wa_index e) N = Inr a \<and> wa_address e = JStr (u a))"

lemma verified_seed_iff:
  "verified_seed P T W w password = Inr seed \<longleftrightarrow>
     (\<exists>phrase extra. wallet_secret W w password = Inr (phrase, extra) \<and> seed = to_seed T phrase extra) \<and>
     (\<forall>e\<in>set (w_addresses w). shows_key P W seed (w_params w) e)"
proof -
  have loop: "for_each (\<lambda>entry seed. rbind (derive_address P W seed (wa_index entry) N) (\<lambda>a.
      if JStr (u a) \<noteq> wa_address entry then Inl WalletError else Inr seed)) es s = Inr t \<longleftrightarrow>
      s = t \<and> (\<forall>e\<in>set es. shows_key P W s N e)" for es s t N
    by (induction es) (auto simp: result_simps shows_key_def)
  show ?thesis
    by (auto simp: verified_seed_def result_simps Let_def loop split: prod.splits)
qed

section \<open>Finding the addresses used before\<close>

lemma discover_loop_ends:
  assumes "1 \<le> gap" and "\<forall>i. 0 \<le> i \<and> i \<le> K + gap \<longrightarrow>
       (case known i of None \<Rightarrow> derive i | Some a \<Rightarrow> if truthy a then Inr a else derive i) = Inr (A i) \<and>
       is_used (A i) = Inr (U i)"
    and "\<forall>j. - 1 \<le> j \<and> j < K \<longrightarrow> (\<exists>i. j < i \<and> i \<le> j + gap \<and> U i)" and "\<forall>i. K < i \<and> i \<le> K + gap \<longrightarrow> \<not> U i"
    and "0 \<le> index" "index \<le> K + gap + 1" "- 1 \<le> last_used" "last_used < index" "last_used \<le> K"
    and "\<forall>i. last_used < i \<and> i < index \<longrightarrow> \<not> U i"
  shows "discover_loop is_used known derive gap last_used index found =
     Some (Inr (found @ map (\<lambda>i. (i, A i)) [index..K + gap], K))"
  using assms(5-)
proof (induction "nat (K + gap + 1 - index)" arbitrary: index last_used found rule: less_induct)
  case less
  note step = discover_loop.simps [of is_used known derive gap last_used index found]
  show ?case
  proof (cases "index - last_used \<le> gap")
    case True
    then have i: "index \<le> K + gap" using less.prems by linarith
    note here = assms(2) [rule_format, of index]
    let ?l = "if U index then index else last_used"
    have "U index \<Longrightarrow> index \<le> K" using assms(4) i by (meson not_le)
    then have "discover_loop is_used known derive gap ?l (index + 1) (found @ [(index, A index)]) =
        Some (Inr ((found @ [(index, A index)]) @ map (\<lambda>i. (i, A i)) [index + 1..K + gap], K))"
      using less.prems i by (intro less.hyps) (auto simp: less_le)
    moreover have "[index..K + gap] = index # [index + 1..K + gap]" using i by (simp add: upto_rec1)
    ultimately show ?thesis
      unfolding step using True here i less.prems(1) by (simp split: option.splits)
  next
    case False
    have "last_used = K"
    proof (rule ccontr)
      assume "last_used \<noteq> K"
      with less.prems have "last_used < K" by simp
      with assms(3) less.prems obtain i where "last_used < i" "i \<le> last_used + gap" "U i" by auto
      with False less.prems show False by auto
    qed
    with False less.prems have "[index..K + gap] = []" by simp
    with False \<open>last_used = K\<close> show ?thesis unfolding step by simp
  qed
qed


lemma known_address_shows_key:
  assumes "verified_seed P T W w password = Inr seed" "known_addresses w i = Some v"
  shows "\<exists>a. derive_address P W seed i (w_params w) = Inr a \<and> v = JStr (u a)"
  using assms by (auto simp: verified_seed_iff known_addresses_def shows_key_def dest!: map_of_SomeD)

lemma known_addresses_None: "known_addresses w i = None \<longleftrightarrow> i \<notin> wa_index ` set (w_addresses w)"
  by (force simp: known_addresses_def map_of_eq_None_iff)

text \<open>C37. A wallet rebuilt from its words finds its money again: if no \<open>gap\<close> addresses in a row are unused up to
  the last used one, number \<open>K\<close>, and the \<open>gap\<close> after it are, then \<open>discover\<close> ends after asking for exactly these,
  adds exactly the missing ones of the addresses \<open>0..K\<close>, each with the text its key derives, keeps every
  other entry, and has the wallet saved.\<close>

theorem discover_finds:
  assumes "verified_seed P T W w password = Inr seed" and "digest32 P" and "1 \<le> gap" and "- 1 \<le> K" and "K + gap < 2 ^ 31"
    and "\<forall>i a. 0 \<le> i \<and> i \<le> K + gap \<and> derive_address P W seed i (w_params w) = Inr a \<longrightarrow> is_used (JStr (u a)) = Inr (U i)"
    and "\<forall>j. - 1 \<le> j \<and> j < K \<longrightarrow> (\<exists>i. j < i \<and> i \<le> j + gap \<and> U i)" and "\<forall>i. K < i \<and> i \<le> K + gap \<longrightarrow> \<not> U i"
  shows "\<exists>added w' disk'. discover P T W w password is_used gap disk = Some (Inr (added, w', disk')) \<and>
     map wa_index added = [i \<leftarrow> [0..K]. i \<notin> wa_index ` set (w_addresses w)] \<and>
     w' = w\<lparr>w_addresses := w_addresses w'\<rparr> \<and> mset (w_addresses w') = mset (w_addresses w @ added) \<and>
     verified_seed P T W w' password = Inr seed \<and>
     disk' = (if added = [] then disk else disk(w_path w \<mapsto> json_dumps W (wallet_json w')))"
proof -
  let ?N = "w_params w"
  let ?derive = "\<lambda>i. rbind (derive_address P W seed i ?N) (\<lambda>a. Inr (JStr (u a)))"
  define A where "A i = JStr (u (result_or [] (derive_address P W seed i ?N)))" for i
  have A: "\<exists>a. derive_address P W seed i ?N = Inr a \<and> A i = JStr (u a)" if "0 \<le> i" "i \<le> K + gap" for i
    using derive_address_returns [OF assms(2), of i W seed ?N] that assms(5) by (auto simp: A_def)
  let ?found = "map (\<lambda>i. (i, A i)) [0..K + gap]"
  let ?missing = "[i \<leftarrow> [0..K]. i \<notin> wa_index ` set (w_addresses w)]"
  let ?added = "map (\<lambda>i. \<lparr>wa_index = i, wa_address = A i\<rparr>) ?missing"
  have "(case known_addresses w i of None \<Rightarrow> ?derive i | Some a \<Rightarrow> if truthy a then Inr a else ?derive i) = Inr (A i) \<and>
      is_used (A i) = Inr (U i)" if i: "0 \<le> i \<and> i \<le> K + gap" for i
  proof -
    obtain a where a: "derive_address P W seed i ?N = Inr a" "A i = JStr (u a)" using A i by blast
    then have "is_used (A i) = Inr (U i)" using assms(6) i by simp
    moreover have "known_addresses w i = Some v \<Longrightarrow> v = JStr (u a)" for v
      using known_address_shows_key [OF assms(1)] a by fastforce
    ultimately show ?thesis using a by (auto split: option.splits)
  qed
  then have loop: "discover_loop is_used (known_addresses w) ?derive gap (- 1) 0 [] = Some (Inr (?found, K))"
    using discover_loop_ends [of gap K ?derive "known_addresses w" A is_used U 0 "- 1" "[]"] assms(3,4,7,8) by simp
  have added: "map (\<lambda>i. \<lparr>wa_index = i, wa_address = the (map_of ?found i)\<rparr>)
      ?missing = ?added"
    using assms(3) by (simp add: map_of_map_restrict)
  define w' where "w' = (if ?added = [] then w else w\<lparr>w_addresses := sort_key wa_index (w_addresses w @ ?added)\<rparr>)"
  let ?disk = "if ?added = [] then disk else disk(w_path w \<mapsto> json_dumps W (wallet_json w'))"
  have "discover P T W w password is_used gap disk = Some (Inr (?added, w', ?disk))"
    using assms(1,3) unfolding discover_def Let_def loop added
    by (simp add: loop added Let_def w'_def save_def known_addresses_None)
  moreover have "map wa_index ?added = ?missing" by (simp add: comp_def)
  moreover have m: "mset (w_addresses w') = mset (w_addresses w @ ?added)" by (simp add: w'_def filter_empty_conv)
  moreover have same: "w' = w\<lparr>w_addresses := w_addresses w'\<rparr>" by (simp add: w'_def)
  moreover have "verified_seed P T W w' password = Inr seed"
  proof -
    have e: "w_params w' = ?N" "wallet_secret W w' password = wallet_secret W w password"
      by (simp_all add: w'_def wallet_secret_def)
    have "shows_key P W seed ?N x" if "x \<in> set ?added" for x
      using that A assms(3) by (auto simp: shows_key_def)
    moreover have "set (w_addresses w') = set (w_addresses w) \<union> set ?added"
      using m by (metis set_append set_mset_mset)
    ultimately show ?thesis using assms(1) unfolding verified_seed_iff e by auto
  qed
  ultimately show ?thesis by blast
qed

section \<open>A wallet over its life\<close>

text \<open>What the libraries promise: a box opens with its key, and the JSON that was written is read back.\<close>

definition wallet_lib_ok :: "wallet_lib \<Rightarrow> bool" where
  "wallet_lib_ok W \<longleftrightarrow>
     (\<forall>k n p. box_decrypt W k (box_encrypt W k n p) = Inr (Some p)) \<and>
     (\<forall>x. secret_loads W (secret_dumps W x) = Inr x)"

definition reads_back :: "wallet_lib \<Rightarrow> wallet \<Rightarrow> bool" where
  "reads_back W w \<longleftrightarrow> json_loads W (json_dumps W (wallet_json w)) = Some (wallet_json w)"

definition strength_ok :: "wallet_lib \<Rightarrow> kdf_strength \<Rightarrow> bool" where
  "strength_ok W st \<longleftrightarrow> OPSLIMIT_MIN W \<le> opslimit st \<and> opslimit st \<le> OPSLIMIT_SENSITIVE W \<and>
     MEMLIMIT_MIN W \<le> memlimit st \<and> memlimit st \<le> MAX_MEMLIMIT"

lemma get_or_Cons [simp]:
  "get_or e ((k, v) # d) key = (if u key = k then v else get_or e d key)"
  by (simp add: get_or_def)

lemma item_Cons [simp]: "item ((k, v) # d) key = (if u key = k then Inr v else item d key)"
  by (simp add: item_def)

lemma u_inject [simp]: "u s = u t \<longleftrightarrow> s = t"
  unfolding u_def by (rule inj_map_eq_map) (simp add: inj_on_def)

lemma kdf_key_strength [simp]: "kdf_key W password salt' \<lparr>opslimit = opslimit st, memlimit = memlimit st\<rparr> = kdf_key W password salt' st"
  by (simp add: kdf_key_def)

lemma decrypt_encrypt:
  assumes "wallet_lib_ok W" "strength_ok W st" "encrypt W salt' nonce p password st = Inr blob"
  shows "decrypt W blob password = Inr p"
proof -
  obtain key where key: "kdf_key W password salt' st = Inr key" using assms(3) by (auto simp: encrypt_def result_simps)
  with assms show ?thesis
    by (auto simp: encrypt_def decrypt_def as_dict_def bounded_int_def strength_ok_def wallet_lib_ok_def KDF_NAME_def CIPHER_NAME_def)
qed

lemma wrong_key_detected:
  assumes "encrypt W salt' nonce p password st = Inr blob" "strength_ok W st"
    and "kdf_key W other salt' st = Inr k" "kdf_key W password salt' st = Inr k'"
    and "box_decrypt W k (box_encrypt W k' nonce p) = Inr None"
  shows "decrypt W blob other = Inl WrongPassword"
  using assms by (auto simp: encrypt_def decrypt_def as_dict_def bounded_int_def strength_ok_def KDF_NAME_def CIPHER_NAME_def)

lemma wallet_network_name: "N \<in> set NETWORKS \<Longrightarrow> wallet_network (JStr (u (name N))) = Inr N"
  by (auto simp: wallet_network_def NETWORKS_def MAINNET_def TESTNET_def DEVNET_def REGTEST_def)

lemma load_saved:
  assumes "reads_back W w" "w_params w \<in> set NETWORKS" "save W overwrite w disk = Inr disk'"
  shows "load_wallet W D (w_path w) disk' = Inr w"
proof -
  let ?entry = "\<lambda>a. JObj [(u ''index'', JInt (wa_index a)), (u ''address'', wa_address a)]"
  have "read_wallet_address D (?entry a) = Inr a" for a
    by (simp add: read_wallet_address_def as_dict_def json_int_def)
  then have "for_each (\<lambda>a found. rbind (read_wallet_address D a) (\<lambda>a. Inr (found @ [a]))) (map ?entry as) found =
      Inr (found @ as)" for as found
    by (induction as arbitrary: found) simp_all
  then show ?thesis using assms
    by (auto simp: load_wallet_def save_def wallet_json_def reads_back_def as_dict_def wallet_network_name elements_def
        json_int_def equals_int_def FORMAT_def VERSION_def split: if_splits)
qed

lemma new_wallet_ok:
  assumes "wallet_lib_ok W" "strength_ok W st"
    and "new_wallet P T W path N phrase password extra st salt' nonce now disk = Inr (w, disk')"
  shows "w_params w = N" "w_path w = path" "save W False w disk = Inr disk'"
    "wallet_secret W w password = Inr (phrase, extra)" "verified_seed P T W w password = Inr (to_seed T phrase extra)"
    "wa_index ` set (w_addresses w) = {0}"
proof -
  obtain blob a where e: "encrypt W salt' nonce (secret_dumps W (phrase, extra)) password st = Inr blob"
      and a: "derive_address P W (to_seed T phrase extra) 0 N = Inr a"
      and w: "w = \<lparr>w_path = path, w_params = N, w_encrypted = blob, w_addresses = [\<lparr>wa_index = 0, wa_address = JStr (u a)\<rparr>], w_created = now\<rparr>"
      and "save W False w disk = Inr disk'"
    using assms(3) by (auto simp: new_wallet_def result_simps Let_def)
  then show "w_params w = N" "w_path w = path" "save W False w disk = Inr disk'" "wa_index ` set (w_addresses w) = {0}" by simp_all
  have "decrypt W blob password = Inr (secret_dumps W (phrase, extra))" by (rule decrypt_encrypt [OF assms(1,2) e])
  then show s: "wallet_secret W w password = Inr (phrase, extra)"
    using assms(1) by (simp add: wallet_secret_def w wallet_lib_ok_def)
  then show "verified_seed P T W w password = Inr (to_seed T phrase extra)"
    using a by (simp add: verified_seed_iff shows_key_def w)
qed

lemma read_outputs:
  "for_each (\<lambda>(address, amount) done. rbind (decode_address P address prefix) (\<lambda>a.
      Inr (done @ [\<lparr>out_address = a, out_amount = amount\<rparr>]))) outputs done = Inr outs \<longleftrightarrow>
   (\<exists>new. outs = done @ new \<and> list_all2 (\<lambda>(address, amount) p. decode_address P address prefix = Inr (out_address p) \<and>
      out_amount p = amount) outputs new)"
proof (induction outputs arbitrary: "done")
  case (Cons x outputs)
  obtain address amount where x: "x = (address, amount)" by (cases x)
  show ?case unfolding x
    by (auto simp: result_simps Cons.IH list_all2_Cons1)
qed (auto)

lemma wallet_signs:
  assumes "wallet_lib_ok W" and "strength_ok W st" and "digest32 P" and "ed25519_correct P" and "N \<in> set NETWORKS"
    and "new_wallet P T W path N phrase password extra st salt' nonce now disk = Inr (w, disk')" and "reads_back W w"
    and "list_all2 (\<lambda>(address, amount) p. decode_address P address (address_prefix N) = Inr (out_address p) \<and>
           out_amount p = amount) outputs outs"
    and "outputs \<noteq> []" and "length outputs \<le> 255" and "\<forall>(address, amount)\<in>set outputs. 1 \<le> amount"
    and "0 \<le> fee" and "sum_list (map snd outputs) + fee \<le> MAX_AMOUNT" and "0 \<le> n" and "n < 2 ^ 64"
    and "length memo \<le> 255"
  shows "disk path = None \<and> load_wallet W D path disk' = Inr w \<and> reveal_passphrase W w password = Inr phrase \<and>
     (\<exists>t. sign_payment P T W w password 0 n fee outputs memo = Inr t \<and> tf_outputs t = outs \<and> tf_nonce t = n \<and>
        tf_fee t = fee \<and> check_transaction P N (Transfer t) = Inr ())"
proof -
  note w = new_wallet_ok [OF assms(1,2,6)]
  let ?seed = "to_seed T phrase extra"
  obtain sk where sk: "wallet_private_key W ?seed 0 0 = Inr sk" using wallet_private_key_returns [of 0 W ?seed] by auto
  let ?t = "\<lparr>tf_network_id = network_id N, tf_sender_public_key = public_key P sk, tf_nonce = n, tf_fee = fee,
     tf_outputs = outs, tf_memo = memo, tf_signature = zero_bytes SIGNATURE_SIZE\<rparr>"
  have len: "length outs = length outputs" using assms(8) by (simp add: list_all2_lengthD)
  have amounts: "map out_amount outs = map snd outputs"
    using assms(8) by (induction rule: list_all2_induct) auto
  have outs: "is_known_payload (out_address p) \<and> 1 \<le> out_amount p" if "p \<in> set outs" for p
  proof -
    from that obtain i where i: "i < length outs" "p = outs ! i" by (auto simp: in_set_conv_nth)
    obtain address amount where x: "outputs ! i = (address, amount)" by fastforce
    have p: "decode_address P address (address_prefix N) = Inr (out_address p)" and "out_amount p = amount"
      using list_all2_nthD2 [OF assms(8) i(1)] i(2) x by simp_all
    moreover have "(address, amount) \<in> set outputs" using i(1) len x nth_mem [of i outputs] by simp
    ultimately have "1 \<le> out_amount p" using assms(11) by auto
    with p show ?thesis by (auto simp: decode_address_def Let_def result_simps split: if_splits)
  qed
  have small: "out_amount p < 2 ^ 64" if "p \<in> set outs" for p
  proof -
    have "out_amount p \<le> sum_list (map out_amount outs)"
      using that outs by (intro member_le_sum_list_int) (auto simp: image_iff, force)
    then show ?thesis using assms(12,13) unfolding amounts by (simp add: MAX_AMOUNT_def)
  qed
  have "0 \<le> out_amount p" if "p \<in> set outs" for p using outs [OF that] by linarith
  then have "0 \<le> sum_list (map snd outputs)" unfolding amounts [symmetric] by (intro sum_list_nonneg_int) auto
  then have "fee < 2 ^ 64" using assms(13) by (simp add: MAX_AMOUNT_def)
  moreover have "fits 1 (network_id N)"
    using assms(5) by (auto simp: fits_def NETWORKS_def MAINNET_def TESTNET_def DEVNET_def REGTEST_def)
  ultimately have "unsigned_fits ?t"
    using assms(4,9,10,12,14-16) len small outs
    by (fastforce simp: unsigned_fits_def fits_def list_all_iff output_fits_def is_known_payload_def public_key_def ed25519_correct_def)
  then obtain m where "signing_message ?t = Inr m" using signing_message_iff by blast
  then obtain t where t: "sign_transfer P sk ?t = Inr t" by (auto simp: sign_transfer_def)
  then have same: "t = ?t\<lparr>tf_signature := tf_signature t\<rparr>" by (rule signed_is_valid(2) [OF assms(4)])
  have "check_transaction P N (Transfer t) = Inr ()"
    by (rule signed_transfer_accepted [OF assms(4) t])
       (use assms(9,10,12,13,16) len outs in \<open>auto simp: total_spent_def amounts\<close>)
  moreover have "sign_payment P T W w password 0 n fee outputs memo = Inr t"
    using assms(8) t sk w by (auto simp: sign_payment_def private_key_def read_outputs result_simps)
  moreover have "tf_outputs t = outs \<and> tf_nonce t = n \<and> tf_fee t = fee" by (subst same, subst same, subst same) simp
  moreover have "load_wallet W D path disk' = Inr w" using load_saved [OF assms(7), of False disk disk' D] w assms(5) by simp
  moreover have "disk path = None" using w(2,3) by (simp add: save_def split: if_splits)
  ultimately show ?thesis using w(4) by (simp add: reveal_passphrase_def)
qed

text \<open>C38. What a wallet is for: a wallet made from a passphrase is saved, loads again as it was, shows its words
  to whoever knows the password, and signs payments that every node accepts, for any outputs with valid
  addresses of its network and amounts in range.\<close>

theorem wallet_pays:
  assumes "wallet_lib_ok W" and "strength_ok W st" and "digest32 P" and "ed25519_correct P" and "N \<in> set NETWORKS"
    and "new_wallet P T W path N phrase password extra st salt' nonce now disk = Inr (w, disk')" and "reads_back W w"
    and "list_all2 (\<lambda>(address, amount) p. decode_address P address (address_prefix N) = Inr (out_address p) \<and>
           out_amount p = amount) outputs outs"
    and "outputs \<noteq> []" and "length outputs \<le> 255" and "\<forall>(address, amount)\<in>set outputs. 1 \<le> amount"
    and "0 \<le> fee" and "sum_list (map snd outputs) + fee \<le> MAX_AMOUNT" and "0 \<le> n" and "n < 2 ^ 64"
    and "length memo \<le> 255"
  shows "disk path = None \<and> load_wallet W D path disk' = Inr w \<and> reveal_passphrase W w password = Inr phrase \<and>
     (\<exists>t. sign_payment P T W w password 0 n fee outputs memo = Inr t \<and> tf_outputs t = outs \<and> tf_nonce t = n \<and>
        tf_fee t = fee \<and> check_transaction P N (Transfer t) = Inr ())"
  using assms by (rule wallet_signs)

section \<open>An example\<close>

definition example_wallet_lib :: "json option \<Rightarrow> wallet_lib" where
  "example_wallet_lib v = \<lparr>hmac_sha512 = \<lambda>k d. concat (replicate 16 (take 4 (rev d))), nfkc = \<lambda>s. s,
     argon2id_kdf = \<lambda>n p s t m. Inr (take n (p @ replicate n 1)),
     box_encrypt = \<lambda>k n p. k @ p, box_decrypt = \<lambda>k c. Inr (if take (length k) c = k then Some (drop (length k) c) else None),
     BOX_KEY_SIZE = 32, OPSLIMIT_MIN = 1, OPSLIMIT_SENSITIVE = 4, MEMLIMIT_MIN = 8192,
     secret_dumps = \<lambda>(a, b). replicate (length a) 1 @ [0] @ ascii a @ ascii b,
     secret_loads = \<lambda>d. (let n = length (takeWhile (\<lambda>x. x = 1) d); t = map (\<lambda>b. char_of (unat b)) (drop (n + 1) d)
       in Inr (take n t, drop n t)),
     json_dumps = \<lambda>v. [], json_loads = \<lambda>s. v\<rparr>"

abbreviation example_strength :: kdf_strength where
  "example_strength \<equiv> \<lparr>opslimit = 1, memlimit = 8192\<rparr>"

lemma example_secret: "secret_loads (example_wallet_lib v) (secret_dumps (example_wallet_lib v) (a, b)) = Inr (a, b)"
proof -
  have "takeWhile (\<lambda>x. x = (1 :: byte)) (replicate n 1 @ 0 # d) = replicate n 1" for n d
    by (induction n) auto
  moreover have "map (\<lambda>b. char_of (unat b)) (ascii s) = s" for s
  proof -
    have "unat (of_char c :: byte) = of_char c" for c
      unfolding of_nat_of_char [symmetric, where 'a = byte] by (simp add: unsigned_of_nat take_bit_eq_mod)
    then show ?thesis by (simp add: ascii_def comp_def)
  qed
  ultimately show ?thesis by (simp add: example_wallet_lib_def Let_def ascii_def)
qed

lemma example_wallet_lib_ok: "wallet_lib_ok (example_wallet_lib v)"
proof -
  have "secret_loads (example_wallet_lib v) (secret_dumps (example_wallet_lib v) x) = Inr x" for x
    using example_secret by (cases x) simp
  then show ?thesis by (auto simp: wallet_lib_ok_def) (simp add: example_wallet_lib_def)
qed

lemma example_strength_ok: "strength_ok (example_wallet_lib v) example_strength"
  by (simp add: strength_ok_def example_wallet_lib_def MAX_MEMLIMIT_def)

lemma example_new_wallet:
  "\<exists>w disk. (\<forall>v. new_wallet example_prims example_text_lib (example_wallet_lib v) ''w.json'' MAINNET ''abandon'' ''pw'' []
     example_strength [1] [2] 0 (\<lambda>_. None) = Inr (w, disk))"
proof -
  let ?new = "\<lambda>v. new_wallet example_prims example_text_lib (example_wallet_lib v) ''w.json'' MAINNET ''abandon'' ''pw'' []
     example_strength [1] [2] 0 (\<lambda>_. None)"
  have "?new v = ?new None" for v
  proof -
    let ?W = "example_wallet_lib"
    have f: "hmac_sha512 (?W v) = hmac_sha512 (?W None)" "nfkc (?W v) = nfkc (?W None)" "json_dumps (?W v) = json_dumps (?W None)"
      "argon2id_kdf (?W v) = argon2id_kdf (?W None)" "box_encrypt (?W v) = box_encrypt (?W None)"
      "BOX_KEY_SIZE (?W v) = BOX_KEY_SIZE (?W None)" "secret_dumps (?W v) = secret_dumps (?W None)"
      by (simp_all add: example_wallet_lib_def)
    have c: "derive_child (?W v) k c i = derive_child (?W None) k c i" for k c i by (simp add: derive_child_def f)
    have "wallet_private_key (?W v) seed i 0 = wallet_private_key (?W None) seed i 0" for seed i
      by (simp add: wallet_private_key_def derive_path_def master_key_def c f)
    then have "derive_address example_prims (?W v) = derive_address example_prims (?W None)"
      by (auto simp: fun_eq_iff derive_address_def)
    then show ?thesis by (simp add: new_wallet_def encrypt_def kdf_key_def save_def f)
  qed
  moreover have "\<exists>r. ?new None = Inr r"
    using derive_address_returns [OF digest32_example, of 0 "example_wallet_lib None" "to_seed example_text_lib ''abandon'' []" MAINNET]
    by (auto simp: new_wallet_def encrypt_def kdf_key_def save_def) (simp_all add: example_wallet_lib_def)
  ultimately show ?thesis by (metis surj_pair)
qed

lemma example_burn_address:
  "\<exists>a. encode_address example_prims BURN_PAYLOAD ''tc'' = Inr a \<and> decode_address example_prims a ''tc'' = Inr BURN_PAYLOAD"
  using decode_iff_encode [OF digest32_example] by (simp add: encode_address_def is_known_payload_burn)

lemma wallet_pays_witness:
  "\<exists>v w disk' address t. encode_address example_prims BURN_PAYLOAD ''tc'' = Inr address \<and>
     new_wallet example_prims example_text_lib (example_wallet_lib v) ''w.json'' MAINNET ''abandon'' ''pw'' [] example_strength
       [1] [2] 0 (\<lambda>_. None) = Inr (w, disk') \<and>
     sign_payment example_prims example_text_lib (example_wallet_lib v) w ''pw'' 0 0 1000 [(address, 5000)] [] = Inr t \<and>
     check_transaction example_prims MAINNET (Transfer t) = Inr ()"
proof -
  obtain w disk where w: "\<And>v. new_wallet example_prims example_text_lib (example_wallet_lib v) ''w.json'' MAINNET ''abandon''
      ''pw'' [] example_strength [1] [2] 0 (\<lambda>_. None) = Inr (w, disk)" using example_new_wallet by auto
  obtain a where a: "encode_address example_prims BURN_PAYLOAD ''tc'' = Inr a"
      "decode_address example_prims a ''tc'' = Inr BURN_PAYLOAD" using example_burn_address by blast
  let ?v = "Some (wallet_json w)"
  have rb: "reads_back (example_wallet_lib ?v) w" by (simp add: reads_back_def) (simp add: example_wallet_lib_def)
  have tc: "address_prefix MAINNET = ''tc''" by (simp add: MAINNET_def)
  have net: "MAINNET \<in> set NETWORKS" by (simp add: NETWORKS_def)
  have "\<exists>t. sign_payment example_prims example_text_lib (example_wallet_lib ?v) w ''pw'' 0 0 1000 [(a, 5000)] [] = Inr t \<and>
      check_transaction example_prims MAINNET (Transfer t) = Inr ()"
    using wallet_pays [OF example_wallet_lib_ok example_strength_ok digest32_example ed25519_correct_example net w rb,
        of "[(a, 5000)]" "[\<lparr>out_address = BURN_PAYLOAD, out_amount = 5000\<rparr>]" 1000 0 "[]"] a(2)
    by (auto simp: tc MAX_AMOUNT_def)
  with a(1) w show ?thesis by blast
qed

text \<open>The key of an address in the example is made of the bytes of its index.\<close>

lemma example_key:
  assumes "0 \<le> i" "i < 2 ^ 31"
  shows "wallet_private_key (example_wallet_lib v) seed i 0 = Inr (take 32 (concat (replicate 16 (rev (to_be 4 (i OR HARDENED))))))"
proof -
  have last: "derive_child (example_wallet_lib v) k c (i OR HARDENED) = Inr (d, e) \<Longrightarrow>
      d = take 32 (concat (replicate 16 (rev (to_be 4 (i OR HARDENED)))))" for k c d e
    by (auto simp: derive_child_def to_bytes_def Let_def example_wallet_lib_def split: if_splits)
  obtain k where "wallet_private_key (example_wallet_lib v) seed i 0 = Inr k"
    using wallet_private_key_returns [OF assms] by blast
  then show ?thesis
    by (auto simp: wallet_private_key_def derive_path_def result_simps split: prod.splits dest: last)
qed

lemma example_addresses_differ:
  assumes "0 \<le> i" "i < 2 ^ 31" "0 \<le> j" "j < 2 ^ 31" "to_be 4 (i OR HARDENED) \<noteq> to_be 4 (j OR HARDENED)"
    and "derive_address example_prims (example_wallet_lib v) seed i N = Inr a"
    and "derive_address example_prims (example_wallet_lib v) seed j N = Inr b"
  shows "a \<noteq> b"
proof
  assume "a = b"
  define key where "key x = take 32 (concat (replicate 16 (rev x)))" for x :: bytes
  define payload where "payload x = payload_from_public_key example_prims (public_key example_prims (key x))" for x
  have d: "decode_address example_prims a (address_prefix N) = Inr (payload (to_be 4 (i OR HARDENED)))"
    if "0 \<le> i" "i < 2 ^ 31" "derive_address example_prims (example_wallet_lib v) seed i N = Inr a" for i a
    using that example_key [of i v seed] by (simp add: derive_address_def decode_iff_encode [OF digest32_example] payload_def key_def)
  have "payload (to_be 4 (i OR HARDENED)) = payload (to_be 4 (j OR HARDENED))"
    using d [OF assms(1,2,6)] d [OF assms(3,4,7)] \<open>a = b\<close> by simp
  moreover have "take 4 (drop 1 (payload x)) = x" if "length x = 4" for x
  proof -
    from that obtain p q r t where x: "x = [p, q, r, t]" by (auto simp: numeral_eq_Suc length_Suc_conv)
    show ?thesis unfolding x payload_def key_def
      by (simp add: payload_from_public_key_def public_key_def sha256_def example_prims_def numeral_eq_Suc)
  qed
  ultimately show False using assms(5) by (metis length_to_be)
qed

lemma discover_finds_witness:
  "\<exists>w disk seed a is_used added w' disk'.
     verified_seed example_prims example_text_lib (example_wallet_lib None) w ''pw'' = Inr seed \<and>
     derive_address example_prims (example_wallet_lib None) seed 2 (w_params w) = Inr a \<and>
     is_used = (\<lambda>x. Inr (x \<noteq> JStr (u a))) \<and>
     discover example_prims example_text_lib (example_wallet_lib None) w ''pw'' is_used 1 disk = Some (Inr (added, w', disk')) \<and>
     map wa_index added = [1]"
proof -
  let ?W = "example_wallet_lib None"
  obtain w disk where w: "\<And>v. new_wallet example_prims example_text_lib (example_wallet_lib v) ''w.json'' MAINNET ''abandon''
      ''pw'' [] example_strength [1] [2] 0 (\<lambda>_. None) = Inr (w, disk)" using example_new_wallet by auto
  note ok = new_wallet_ok [OF example_wallet_lib_ok example_strength_ok w [of None]]
  let ?seed = "to_seed example_text_lib ''abandon'' []"
  obtain a where a: "derive_address example_prims ?W ?seed 2 (w_params w) = Inr a"
    using derive_address_returns [OF digest32_example, of 2] by force
  let ?used = "\<lambda>x. Inr (x \<noteq> JStr (u a))"
  have "?used (JStr (u b)) = Inr (i < 2)"
    if "0 \<le> i \<and> i \<le> 1 + 1 \<and> derive_address example_prims ?W ?seed i (w_params w) = Inr b" for i b
  proof -
    have "i = 0 \<or> i = 1 \<or> i = 2" using that by auto
    then show ?thesis
    proof (cases "i = 2")
      case True
      then show ?thesis using that a by simp
    next
      case False
      then have "i OR HARDENED \<noteq> 2 OR HARDENED" using that \<open>i = 0 \<or> _\<close> by (auto simp: HARDENED_def)
      moreover have read: "0 \<le> j \<and> j < 2 ^ 31 \<Longrightarrow> from_be (to_be 4 (j OR HARDENED)) = j OR HARDENED" for j
        using hardened_range [of j] by (intro from_be_to_be) (simp_all add: HARDENED_def)
      ultimately have "from_be (to_be 4 (i OR HARDENED)) \<noteq> from_be (to_be 4 (2 OR HARDENED))"
        using read [of i] read [of 2] that by auto
      then have "to_be 4 (i OR HARDENED) \<noteq> to_be 4 (2 OR HARDENED)" by metis
      then show ?thesis
        using example_addresses_differ [of i 2 None ?seed "w_params w" b a] a that False \<open>i = 0 \<or> _\<close> by auto
    qed
  qed
  then have asked: "\<forall>i b. 0 \<le> i \<and> i \<le> 1 + 1 \<and> derive_address example_prims ?W ?seed i (w_params w) = Inr b \<longrightarrow>
      ?used (JStr (u b)) = Inr (i < 2)" by blast
  have found: "\<forall>j. - 1 \<le> j \<and> j < 1 \<longrightarrow> (\<exists>i. j < i \<and> i \<le> j + 1 \<and> i < (2 :: int))"
    by (intro allI impI, rule_tac x = "j + 1" in exI) auto
  have n: "1 \<le> (1 :: int)" "- 1 \<le> (1 :: int)" "1 + 1 < (2 :: int) ^ 31" by simp_all
  have quiet: "\<forall>i. 1 < i \<and> i \<le> 1 + 1 \<longrightarrow> \<not> i < (2 :: int)" by auto
  have "\<exists>added w' disk'. discover example_prims example_text_lib ?W w ''pw'' ?used 1 disk = Some (Inr (added, w', disk')) \<and>
     map wa_index added = [i \<leftarrow> [0..1]. i \<notin> wa_index ` set (w_addresses w)]"
    using discover_finds [OF ok(5) digest32_example n asked found quiet, of disk]
    by (elim exE conjE) (intro exI conjI, assumption+)
  moreover have "[0..1] = [0, 1 :: int]" by (simp add: upto_rec1)
  ultimately obtain added w' disk' where "discover example_prims example_text_lib ?W w ''pw'' ?used 1 disk = Some (Inr (added, w', disk'))"
      "map wa_index added = [1]" using ok(6) by auto
  with ok(5) a show ?thesis
    by (intro exI [of _ w] exI [of _ disk] exI [of _ ?seed] exI [of _ a] exI [of _ ?used] exI conjI refl)
qed

end
