(* ===== verification/Views.thy ===== *)
theory Views
  imports Json Block Difficulty
begin

text \<open>
  \<open>node/views.py\<close>: how transactions, headers and blocks look to clients.  The decoding of memos that may not be
  UTF-8 is Python's and is an argument (\<open>lossy\<close>).  The difficulty is the exact quotient, which Python rounds to
  a float.
\<close>

definition obj :: "(string \<times> json) list \<Rightarrow> json" where
  "obj kvs = JObj (map (\<lambda>(k, v). (u k, v)) kvs)"

definition text_json :: "string \<Rightarrow> json" where
  "text_json s = JStr (u s)"

definition hex_json :: "bytes \<Rightarrow> json" where
  "hex_json d = JStr (hex d)"

definition difficulty :: "int \<Rightarrow> network_params \<Rightarrow> rat result" where
  "difficulty target N = (if target = 0 then Inl ZeroDivisionError else Inr (Fract (genesis_target N) target))"

definition amount_text :: "int \<Rightarrow> string" where
  "amount_text units = format_amount units True"

definition address_json :: "prims \<Rightarrow> network_params \<Rightarrow> bytes \<Rightarrow> json result" where
  "address_json P N a = rbind (encode_address P a (address_prefix N)) (\<lambda>t. Inr (text_json t))"

definition output_view :: "prims \<Rightarrow> network_params \<Rightarrow> tx_output \<Rightarrow> json result" where
  "output_view P N p =
     rbind (address_json P N (out_address p)) (\<lambda>a.
       Inr (obj [(''address'', a), (''amount'', text_json (amount_text (out_amount p)))]))"

definition tx_view :: "prims \<Rightarrow> (bytes \<Rightarrow> ustr) \<Rightarrow> network_params \<Rightarrow> transaction \<Rightarrow> json result" where
  "tx_view P lossy N tx =
     (case tx of
        Coinbase c \<Rightarrow>
          rbind (address_json P N (cb_address c)) (\<lambda>dest.
            Inr (obj [(''txid'', hex_json (txid P tx)), (''type'', text_json ''coinbase''), (''height'', JInt (cb_height c)),
                      (''to'', dest), (''amount'', text_json (amount_text (cb_amount c))),
                      (''memo'', JStr (lossy (cb_memo c))), (''size'', JInt (tx_size tx))]))
      | Transfer t \<Rightarrow>
          rbind (address_json P N (sender P t)) (\<lambda>src.
          rbind (map_each (output_view P N) (tf_outputs t)) (\<lambda>outputs.
            Inr (obj [(''txid'', hex_json (txid P tx)), (''type'', text_json ''transfer''), (''from'', src),
                      (''nonce'', JInt (tf_nonce t)), (''fee'', text_json (amount_text (tf_fee t))),
                      (''outputs'', JList outputs), (''memo'', JStr (lossy (tf_memo t))), (''size'', JInt (tx_size tx)),
                      (''public_key'', hex_json (tf_sender_public_key t)),
                      (''signature'', hex_json (tf_signature t))]))))"

definition target_text :: "int \<Rightarrow> ustr" where
  "target_text target = (let s = hex_of_int target in replicate (64 - length s) 48 @ s)"

definition header_fields :: "prims \<Rightarrow> network_params \<Rightarrow> block_header \<Rightarrow> (string \<times> json) list result" where
  "header_fields P N h =
     rbind (difficulty (bh_target h) N) (\<lambda>d.
       Inr [(''id'', hex_json (block_id P h)), (''height'', JInt (bh_height h)), (''prev_id'', hex_json (bh_prev_id h)),
            (''merkle_root'', hex_json (bh_merkle_root h)), (''snapshot_root'', hex_json (bh_snapshot_root h)),
            (''time'', JInt (bh_timestamp h)), (''target'', JStr (target_text (bh_target h))), (''difficulty'', JFloat d),
            (''nonce'', JInt (bh_nonce h))])"

definition header_view :: "prims \<Rightarrow> network_params \<Rightarrow> block_header \<Rightarrow> json result" where
  "header_view P N h = rmap obj (header_fields P N h)"

definition contents_fields :: "prims \<Rightarrow> (bytes \<Rightarrow> ustr) \<Rightarrow> network_params \<Rightarrow> block \<Rightarrow> (string \<times> json) list result" where
  "contents_fields P lossy N b =
     rbind (header_fields P N (header b)) (\<lambda>fields.
     rbind (map_each (tx_view P lossy N) (transactions b)) (\<lambda>txs.
       Inr (fields @ [(''size'', JInt (block_size b)), (''transactions'', JList txs)])))"

definition block_contents_view :: "prims \<Rightarrow> (bytes \<Rightarrow> ustr) \<Rightarrow> network_params \<Rightarrow> block \<Rightarrow> json result" where
  "block_contents_view P lossy N b = rmap obj (contents_fields P lossy N b)"

definition block_view :: "prims \<Rightarrow> (bytes \<Rightarrow> ustr) \<Rightarrow> network_params \<Rightarrow> block \<Rightarrow> bool \<Rightarrow> int \<Rightarrow> json result" where
  "block_view P lossy N b on_main confirmations =
     rmap (\<lambda>fields. obj (fields @ [(''on_main_chain'', JBool on_main), (''confirmations'', JInt confirmations)]))
       (contents_fields P lossy N b)"

section \<open>What a client reads is what is there\<close>

lemma map_each_Inr_ex: "(\<And>x. x \<in> set xs \<Longrightarrow> \<exists>y. f x = Inr y) \<Longrightarrow> \<exists>ys. map_each f xs = Inr ys"
  by (induction xs) fastforce+

text \<open>A checked transaction always has a view.\<close>

lemma tx_view_returns:
  assumes "digest32 P"
    and "case tx of Coinbase c \<Rightarrow> is_known_payload (cb_address c)
       | Transfer t \<Rightarrow> \<forall>p\<in>set (tf_outputs t). is_known_payload (out_address p)"
  shows "\<exists>v. tx_view P lossy N tx = Inr v"
proof (cases tx)
  case (Coinbase c)
  with assms show ?thesis by (simp add: tx_view_def address_json_def encode_address_def)
next
  case (Transfer t)
  have "\<exists>y. output_view P N p = Inr y" if "p \<in> set (tf_outputs t)" for p
    using that assms(2) Transfer by (simp add: output_view_def address_json_def encode_address_def)
  then obtain ys where "map_each (output_view P N) (tf_outputs t) = Inr ys" using map_each_Inr_ex by metis
  with Transfer show ?thesis
    using assms(1) by (simp add: tx_view_def address_json_def encode_address_def sender_def is_known_payload_from_public_key)
qed

end
