(* ===== verification/Service.thy ===== *)
theory Service
  imports Template Events Views
begin

text \<open>
  \<open>node/service.py\<close>: one object through which every new block and transfer goes, from whatever side it comes:
  the chain manager, the mempool and the live events, kept in step.  The peers listen through callbacks; their
  state is the field \<open>sv_peers\<close>, of any type, which the callbacks update.  Lines for the log are left out, but
  not what the code looks up, and may fail on, to write them.  A computation that raises anything but the
  \<open>ValidationError\<close> of a refused transfer or chunk gives \<open>Inl\<close> and no state.
\<close>

record account_info =
  ai_balance :: int
  ai_nonce :: int
  ai_next_nonce :: int
  ai_pending_out :: int
  ai_pending_in :: int
  ai_immature :: int

definition available :: "account_info \<Rightarrow> int" where
  "available i = ai_balance i - ai_pending_out i"

record history_item =
  hi_tx :: transaction
  hi_location :: "tx_location option"
  hi_time :: "int option"

record 'l service =
  sv_chain :: chain
  sv_mempool :: mempool
  sv_events :: "json event_bus"
  sv_tip_version :: int
  sv_peers :: 'l

record ('o, 'l) listeners =
  tip_listeners :: "(block \<Rightarrow> 'o option \<Rightarrow> 'l \<Rightarrow> 'l) list"
  tx_listeners :: "(transfer \<Rightarrow> 'o option \<Rightarrow> 'l \<Rightarrow> 'l) list"

definition new_service :: "chain \<Rightarrow> 'l \<Rightarrow> 'l service" where
  "new_service c l = \<lparr>sv_chain = c, sv_mempool = new_mempool, sv_events = new_bus, sv_tip_version = 0, sv_peers = l\<rparr>"

definition sv_store :: "'l service \<Rightarrow> store" where
  "sv_store sv = ch_store (sv_chain sv)"

definition address_text :: "prims \<Rightarrow> network_params \<Rightarrow> bytes \<Rightarrow> string result" where
  "address_text P N payload = encode_address P payload (address_prefix N)"

section \<open>Announcing\<close>

definition event_json :: "string \<Rightarrow> (string \<times> json) list \<Rightarrow> json" where
  "event_json kind data = obj [(''event'', text_json kind), (''data'', obj data)]"

definition announce :: "string \<Rightarrow> json \<Rightarrow> 'l service \<Rightarrow> 'l service" where
  "announce topic m sv = sv\<lparr>sv_events := publish topic m (sv_events sv)\<rparr>"

text \<open>Telling the subscribers of each address that a transaction touches.  (The order within a transaction is
  that of a Python set; each message goes to another topic.)\<close>

definition announce_addresses ::
  "prims \<Rightarrow> network_params \<Rightarrow> transaction \<Rightarrow> (string \<times> json) list \<Rightarrow> 'l service \<Rightarrow> 'l service result" where
  "announce_addresses P N tx status sv =
     for_each (\<lambda>a sv. rbind (address_text P N a) (\<lambda>t.
                 Inr (announce (''address:'' @ t)
                   (event_json ''address'' ([(''address'', text_json t), (''txid'', hex_json (txid P tx))] @ status)) sv)))
       (addresses_of P tx) sv"

definition announce_block :: "prims \<Rightarrow> network_params \<Rightarrow> bool \<Rightarrow> block \<Rightarrow> 'l service \<Rightarrow> 'l service result" where
  "announce_block P N silent b sv =
     (let h = header b
      in rbind (if silent then Inr ()
                else rbind (find_header (bh_prev_id h) (sv_store sv)) (\<lambda>parent.
                       case parent of None \<Rightarrow> Inl AttributeError | Some _ \<Rightarrow> Inr ())) (\<lambda>_.
         rbind (difficulty (bh_target h) N) (\<lambda>d.
         for_each (\<lambda>tx. announce_addresses P N tx [(''status'', text_json ''confirmed''), (''height'', JInt (bh_height h))])
           (transactions b)
           (announce ''blocks'' (event_json ''block''
              [(''height'', JInt (bh_height h)), (''id'', hex_json (block_id P h)), (''time'', JInt (bh_timestamp h)),
               (''txs'', JInt (int (length (transactions b)) - 1)), (''difficulty'', JFloat d)]) sv))))"

definition tell_tip :: "('o, 'l) listeners \<Rightarrow> block \<Rightarrow> 'o option \<Rightarrow> 'l service \<Rightarrow> 'l service" where
  "tell_tip L b origin sv = sv\<lparr>sv_peers := fold (\<lambda>f. f b origin) (tip_listeners L) (sv_peers sv)\<rparr>"

definition tell_tx :: "('o, 'l) listeners \<Rightarrow> transfer \<Rightarrow> 'o option \<Rightarrow> 'l service \<Rightarrow> 'l service" where
  "tell_tx L t origin sv = sv\<lparr>sv_peers := fold (\<lambda>f. f t origin) (tx_listeners L) (sv_peers sv)\<rparr>"

section \<open>Changes\<close>

definition bump_tip :: "submit_result \<Rightarrow> 'l service \<Rightarrow> 'l service" where
  "bump_tip r sv =
     (if sr_connected r \<noteq> [] \<or> sr_disconnected r \<noteq> [] then sv\<lparr>sv_tip_version := sv_tip_version sv + 1\<rparr> else sv)"

definition announce_switch :: "prims \<Rightarrow> submit_result \<Rightarrow> 'l service \<Rightarrow> 'l service" where
  "announce_switch P r sv =
     (if sr_disconnected r = [] then sv
      else let ids = (\<lambda>bs. JList (map (\<lambda>b. hex_json (block_id P (header b))) bs))
           in announce ''blocks'' (event_json ''reorg'' [(''undone'', ids (sr_disconnected r)), (''applied'', ids (sr_connected r))]) sv)"

definition submit_block ::
  "prims \<Rightarrow> network_params \<Rightarrow> policy \<Rightarrow> ('o, 'l) listeners \<Rightarrow> rat \<Rightarrow> block \<Rightarrow> 'o option \<Rightarrow> bool \<Rightarrow> 'l service
     \<Rightarrow> (submit_result \<times> 'l service) result" where
  "submit_block P N po L now b origin silent sv =
     rbind (Chain.submit_block P N \<lfloor>now\<rfloor> b (sv_chain sv)) (\<lambda>(r, c).
     rbind (update_pool P po (get_account (ch_store c)) now (sr_connected r) (sr_disconnected r) (sv_mempool sv)) (\<lambda>(returned, mp).
       let sv = announce_switch P r (bump_tip r (sv\<lparr>sv_chain := c, sv_mempool := mp\<rparr>))
       in rbind (for_each (announce_block P N silent) (sr_connected r) sv) (\<lambda>sv.
            let sv = (if sr_connected r = [] then sv else tell_tip L (last (sr_connected r)) origin sv)
            in Inr (r, fold (\<lambda>t. tell_tx L t None) returned sv))))"

definition import_checked_chunk ::
  "prims \<Rightarrow> network_params \<Rightarrow> policy \<Rightarrow> ('o, 'l) listeners \<Rightarrow> rat \<Rightarrow> checked_chunk \<Rightarrow> 'o option \<Rightarrow> 'l service
     \<Rightarrow> (int result \<times> 'l service) result" where
  "import_checked_chunk P N po L now checked origin sv =
     rbind (apply_chunk P N checked (sv_chain sv)) (\<lambda>(added, c).
       let sv = sv\<lparr>sv_chain := c\<rparr>
       in case added of
            Inl e \<Rightarrow> Inr (Inl e, sv)
          | Inr [] \<Rightarrow> Inr (Inr 0, sv)
          | Inr added \<Rightarrow>
              rbind (update_pool P po (get_account (ch_store c)) now added [] (sv_mempool sv)) (\<lambda>(_, mp).
              let sv = sv\<lparr>sv_mempool := mp, sv_tip_version := sv_tip_version sv + 1\<rparr>
              in rbind (announce_block P N True (last added) sv) (\<lambda>sv.
                   Inr (Inr (int (length added)), tell_tip L (last added) origin sv))))"

definition tx_event :: "prims \<Rightarrow> network_params \<Rightarrow> transfer \<Rightarrow> json result" where
  "tx_event P N t =
     rbind (address_json P N (sender P t)) (\<lambda>src. rbind (map_each (output_view P N) (tf_outputs t)) (\<lambda>outputs.
       Inr (event_json ''tx'' [(''txid'', hex_json (txid P (Transfer t))), (''from'', src),
              (''fee'', text_json (amount_text (tf_fee t))), (''outputs'', JList outputs)])))"

definition submit_transaction ::
  "prims \<Rightarrow> network_params \<Rightarrow> policy \<Rightarrow> ('o, 'l) listeners \<Rightarrow> rat \<Rightarrow> transaction \<Rightarrow> 'o option \<Rightarrow> 'l service
     \<Rightarrow> (mempool_entry result \<times> 'l service) result" where
  "submit_transaction P N po L now tx origin sv =
     rbind (add P N po (get_account (sv_store sv)) now tx (sv_mempool sv)) (\<lambda>(r, mp).
       let sv = sv\<lparr>sv_mempool := mp\<rparr>
       in case (r, tx) of
            (Inl e, _) \<Rightarrow> Inr (Inl e, sv)
          | (Inr e, Coinbase _) \<Rightarrow> Inl AssertionError
          | (Inr e, Transfer t) \<Rightarrow>
              let sv = tell_tx L t origin sv
              in rbind (tx_event P N t) (\<lambda>m.
                 rbind (announce_addresses P N tx [(''status'', text_json ''pending'')] (announce ''mempool'' m sv)) (\<lambda>sv.
                   Inr (Inr e, sv))))"

definition service_template ::
  "prims \<Rightarrow> network_params \<Rightarrow> rat \<Rightarrow> bytes \<Rightarrow> bytes \<Rightarrow> 'l service \<Rightarrow> block result" where
  "service_template P N now miner memo sv =
     build_template P N (ch_genesis (sv_chain sv)) (sv_store sv) (sv_mempool sv) miner \<lfloor>now\<rfloor> memo"

section \<open>Questions\<close>

definition coinbase_amount_at :: "prims \<Rightarrow> int \<Rightarrow> store \<Rightarrow> int result" where
  "coinbase_amount_at P h s =
     rbind (main_block P h s) (\<lambda>b.
       case b of
         None \<Rightarrow> Inl AttributeError
       | Some b \<Rightarrow> rbind (coinbase_of b) (\<lambda>c. Inr (cb_amount c)))"

definition account_of :: "prims \<Rightarrow> network_params \<Rightarrow> bytes \<Rightarrow> 'l service \<Rightarrow> account_info result" where
  "account_of P N a sv =
     (let confirmed = get_account (sv_store sv) a;
          pending = pending_for a (sv_mempool sv);
          pending_in = sum_list (map out_amount (filter (\<lambda>p. out_address p = a)
            (concat (map (\<lambda>e. tf_outputs (me_tx e)) (incoming_for a (sv_mempool sv))))))
      in rbind (tip_height (sv_store sv)) (\<lambda>tip.
         rbind (for_each (\<lambda>h immature. rbind (coinbase_amount_at P h (sv_store sv)) (\<lambda>x. Inr (immature + x)))
                  (coinbase_heights a (tip - coinbase_maturity N) (sv_store sv)) 0) (\<lambda>immature.
           Inr \<lparr>ai_balance = balance confirmed, ai_nonce = acct_nonce confirmed,
                ai_next_nonce = acct_nonce confirmed + int (length pending),
                ai_pending_out = sum_list (map (\<lambda>e. total_spent (me_tx e)) pending),
                ai_pending_in = pending_in, ai_immature = immature\<rparr>)))"

definition waiting_item :: "mempool_entry \<Rightarrow> history_item" where
  "waiting_item e = \<lparr>hi_tx = Transfer (me_tx e), hi_location = None, hi_time = None\<rparr>"

text \<open>\<open>block.transactions[position]\<close>; a block that is not there raises.\<close>

definition located_item :: "block option \<Rightarrow> tx_location \<Rightarrow> history_item result" where
  "located_item b loc =
     (case b of
        None \<Rightarrow> Inl AttributeError
      | Some b \<Rightarrow>
          if 0 \<le> tl_position loc \<and> nat (tl_position loc) < length (transactions b)
          then Inr \<lparr>hi_tx = transactions b ! nat (tl_position loc), hi_location = Some loc,
                 hi_time = Some (bh_timestamp (header b))\<rparr>
          else Inl IndexError)"

definition history :: "prims \<Rightarrow> bytes \<Rightarrow> nat \<Rightarrow> (int \<times> int) option \<Rightarrow> 'l service \<Rightarrow> history_item list result" where
  "history P a limit before sv =
     (let items = (if before \<noteq> None then [] else take limit (map waiting_item (involving P a (sv_mempool sv))))
      in rbind (map_each (\<lambda>(h, position, _).
                  rbind (main_block P h (sv_store sv)) (\<lambda>b.
                    case b of
                      None \<Rightarrow> Inl AttributeError
                    | Some b' \<Rightarrow> located_item b \<lparr>tl_block_id = block_id P (header b'), tl_height = h, tl_position = position\<rparr>))
                (address_history a (limit - length items) before (sv_store sv))) (\<lambda>confirmed.
           Inr (items @ confirmed)))"

definition find_transaction :: "prims \<Rightarrow> bytes \<Rightarrow> 'l service \<Rightarrow> history_item option result" where
  "find_transaction P tid sv =
     (case find_tx tid (sv_store sv) of
        Some loc \<Rightarrow> rbind (find_block P (tl_block_id loc) (sv_store sv)) (\<lambda>b. rmap Some (located_item b loc))
      | None \<Rightarrow> Inr (map_option waiting_item (mempool_get tid (sv_mempool sv))))"

definition confirmations :: "int \<Rightarrow> 'l service \<Rightarrow> int result" where
  "confirmations h sv = rbind (tip_height (sv_store sv)) (\<lambda>tip. Inr (tip - h + 1))"

section \<open>What listeners see\<close>

lemma announce_fields [simp]:
  "sv_peers (announce topic m sv) = sv_peers sv" "sv_chain (announce topic m sv) = sv_chain sv"
  "sv_mempool (announce topic m sv) = sv_mempool sv" "sv_store (announce topic m sv) = sv_store sv"
  by (simp_all add: announce_def sv_store_def)

lemma announce_addresses_fields:
  "announce_addresses P N tx status sv = Inr sv' \<Longrightarrow>
     sv_peers sv' = sv_peers sv \<and> sv_chain sv' = sv_chain sv \<and> sv_mempool sv' = sv_mempool sv"
  unfolding announce_addresses_def
  by (erule for_each_invariant [where I = "\<lambda>s. sv_peers s = sv_peers sv \<and> sv_chain s = sv_chain sv \<and> sv_mempool s = sv_mempool sv"])
    (auto simp: result_simps)

lemma announce_block_fields:
  assumes "announce_block P N silent b sv = Inr sv'"
  shows "sv_peers sv' = sv_peers sv \<and> sv_chain sv' = sv_chain sv \<and> sv_mempool sv' = sv_mempool sv"
proof -
  from assms obtain m where m: "for_each (\<lambda>tx. announce_addresses P N tx
      [(''status'', text_json ''confirmed''), (''height'', JInt (bh_height (header b)))]) (transactions b) (announce ''blocks'' m sv) = Inr sv'"
    by (auto simp: announce_block_def Let_def result_simps)
  show ?thesis
    by (rule for_each_invariant [OF m, where I = "\<lambda>s. sv_peers s = sv_peers sv \<and> sv_chain s = sv_chain sv \<and> sv_mempool s = sv_mempool sv"])
      (auto dest: announce_addresses_fields)
qed

lemma fold_invariant_list: "I s \<Longrightarrow> (\<And>x s. x \<in> set xs \<Longrightarrow> I s \<Longrightarrow> I (f x s)) \<Longrightarrow> I (fold f xs s)"
  by (induction xs arbitrary: s) auto

text \<open>Whatever all listeners keep of their state, the operations of the service keep.\<close>

definition listeners_keep :: "('o, 'l) listeners \<Rightarrow> ('l \<Rightarrow> bool) \<Rightarrow> bool" where
  "listeners_keep L I \<longleftrightarrow> (\<forall>f\<in>set (tip_listeners L). \<forall>b origin l. I l \<longrightarrow> I (f b origin l)) \<and>
     (\<forall>f\<in>set (tx_listeners L). \<forall>t origin l. I l \<longrightarrow> I (f t origin l))"

lemma tell_tip_keeps: "listeners_keep L I \<Longrightarrow> I (sv_peers sv) \<Longrightarrow> I (sv_peers (tell_tip L b origin sv))"
  unfolding tell_tip_def by simp (rule fold_invariant_list, auto simp: listeners_keep_def)

lemma tell_tx_keeps: "listeners_keep L I \<Longrightarrow> I (sv_peers sv) \<Longrightarrow> I (sv_peers (tell_tx L t origin sv))"
  unfolding tell_tx_def by simp (rule fold_invariant_list, auto simp: listeners_keep_def)

lemma submit_block_keeps:
  assumes "submit_block P N po L now b origin silent sv = Inr (r, sv')" and keep: "listeners_keep L I" and "I (sv_peers sv)"
  shows "I (sv_peers sv')"
proof -
  from assms(1) obtain c mp returned sv1 where
    a: "for_each (announce_block P N silent) (sr_connected r) (announce_switch P r (bump_tip r (sv\<lparr>sv_chain := c, sv_mempool := mp\<rparr>))) = Inr sv1"
    and sv': "sv' = fold (\<lambda>t. tell_tx L t None) returned
        (if sr_connected r = [] then sv1 else tell_tip L (last (sr_connected r)) origin sv1)"
    by (auto simp: submit_block_def Let_def result_simps)
  have "sv_peers sv1 = sv_peers (announce_switch P r (bump_tip r (sv\<lparr>sv_chain := c, sv_mempool := mp\<rparr>)))"
    by (rule for_each_invariant [OF a]) (auto dest: announce_block_fields)
  then have "I (sv_peers sv1)" using assms(3) by (simp add: announce_switch_def bump_tip_def Let_def)
  then show ?thesis
    unfolding sv' by (intro fold_invariant_list [where I = "\<lambda>s. I (sv_peers s)"]) (auto intro: tell_tip_keeps tell_tx_keeps keep)
qed

lemma import_keeps:
  assumes "import_checked_chunk P N po L now checked origin sv = Inr (r, sv')" and keep: "listeners_keep L I" and "I (sv_peers sv)"
  shows "I (sv_peers sv')"
proof -
  from assms(1) obtain added c where a: "apply_chunk P N checked (sv_chain sv) = Inr (added, c)"
    by (auto simp: import_checked_chunk_def result_simps)
  consider "sv_peers sv' = sv_peers sv"
    | b sv1 where "sv_peers sv1 = sv_peers sv" "sv' = tell_tip L b origin sv1"
  proof (cases added)
    case (Inl e)
    with assms(1) a that(1) show thesis by (auto simp: import_checked_chunk_def Let_def result_simps)
  next
    case added: (Inr bs)
    show thesis
    proof (cases bs)
      case Nil
      with added assms(1) a that(1) show thesis by (auto simp: import_checked_chunk_def Let_def result_simps)
    next
      case (Cons b bs')
      with added assms(1) a that(2) show thesis
        by (auto simp: import_checked_chunk_def Let_def result_simps dest!: announce_block_fields)
    qed
  qed
  then show ?thesis
  proof cases
    case 1
    then show ?thesis using assms(3) by simp
  next
    case 2
    then show ?thesis using assms(3) by (simp add: tell_tip_keeps [OF keep])
  qed
qed

lemma submit_transaction_keeps:
  assumes "submit_transaction P N po L now tx origin sv = Inr (r, sv')" and keep: "listeners_keep L I" and "I (sv_peers sv)"
  shows "I (sv_peers sv')"
proof -
  have told: "I (sv_peers (tell_tx L t origin (sv\<lparr>sv_mempool := mp\<rparr>)))" for t mp using assms(3) by (intro tell_tx_keeps [OF keep]) simp
  from assms(1) obtain r0 mp where a: "add P N po (get_account (sv_store sv)) now tx (sv_mempool sv) = Inr (r0, mp)"
    by (auto simp: submit_transaction_def result_simps)
  show ?thesis
  proof (cases r0)
    case (Inl e)
    with assms(1,3) a show ?thesis by (auto simp: submit_transaction_def Let_def result_simps)
  next
    case r0: (Inr e)
    show ?thesis
    proof (cases tx)
      case (Transfer t)
      with assms(1) a r0 told show ?thesis
        by (auto simp: submit_transaction_def Let_def result_simps dest!: announce_addresses_fields)
    next
      case (Coinbase x)
      with assms(1) a r0 show ?thesis by (auto simp: submit_transaction_def Let_def result_simps)
    qed
  qed
qed

end
