(* ===== verification/P2P_Peers.thy ===== *)
theory P2P_Peers
  imports Service Rate_Limits
begin

text \<open>
  The first half of \<open>node/p2p.py\<close>: what arrives from peers and how it is decoded, what a peer costs, what the
  node keeps of each peer, addresses and bans; with \<open>is_loopback\<close> and \<open>is_local\<close> of \<open>node/limits.py\<close> and
  \<open>parse_peer_url\<close> and \<open>public_address\<close> of \<open>node/peer_net.py\<close>.  Python's URL and IP address parsers, its JSON
  reader and what Unicode says of characters are fields of \<open>net_lib\<close>.
\<close>

definition PROTOCOL_VERSION :: int where "PROTOCOL_VERSION = 1"
definition MAX_MESSAGE_BYTES :: nat where "MAX_MESSAGE_BYTES = 4 * 1024 * 1024"
definition MAX_HEADERS :: nat where "MAX_HEADERS = 2000"
definition MAX_INV :: nat where "MAX_INV = 1000"
definition MAX_LOCATOR :: nat where "MAX_LOCATOR = 101"
definition MAX_PEER_URLS :: nat where "MAX_PEER_URLS = 100"
definition BLOCKS_PER_REQUEST :: nat where "BLOCKS_PER_REQUEST = 64"
definition STALL_TIMEOUT :: rat where "STALL_TIMEOUT = 30"
definition SEND_QUEUE_LIMIT :: nat where "SEND_QUEUE_LIMIT = 5000"
definition KNOWN_LIMIT :: nat where "KNOWN_LIMIT = 20000"
definition BAN_SECONDS :: rat where "BAN_SECONDS = 3600"
definition MAX_INBOUND_PER_HOST :: nat where "MAX_INBOUND_PER_HOST = 4"
definition MAX_SYNC_CHUNK_BYTES :: int where "MAX_SYNC_CHUNK_BYTES = 32 * 1024 * 1024"
definition MAX_PENDING_HEADERS :: nat where "MAX_PENDING_HEADERS = 50000"
definition MESSAGE_RATE :: rat where "MESSAGE_RATE = 500"
definition MESSAGE_BURST :: rat where "MESSAGE_BURST = 5000"

definition MESSAGE_COSTS :: "(string \<times> rat) list" where
  "MESSAGE_COSTS = [(''get_headers'', 250), (''get_peers'', 50), (''peers'', 5), (''block'', 5), (''tx'', 2)]"

definition HARMLESS_BLOCK_ERRORS :: "string set" where
  "HARMLESS_BLOCK_ERRORS = {''time-too-new'', ''fork-below-finality''}"

definition INVALID_TX_ERRORS :: "string set" where
  "INVALID_TX_ERRORS = {''wrong-network'', ''memo-too-large'', ''bad-output-count'', ''bad-address'', ''bad-amount'',
     ''bad-fee'', ''amount-overflow'', ''bad-signature'', ''not-a-transfer''}"

section \<open>Addresses of other nodes\<close>

record split_url =
  su_scheme :: ustr
  su_netloc :: ustr
  su_hostname :: "ustr option"
  su_username :: "ustr option"
  su_password :: "ustr option"
  su_query :: ustr
  su_fragment :: ustr
  su_port :: "int option result"

record ip =
  ip_loopback :: bool
  ip_private :: bool
  ip_link_local :: bool
  ip_global :: bool
  ip_multicast :: bool

text \<open>\<open>ip_address\<close> gives an address and, for an IPv6 address that stands for an IPv4 one, that.\<close>

record net_lib =
  urlsplit :: "ustr \<Rightarrow> split_url result"
  ip_address :: "ustr \<Rightarrow> (ip \<times> ip option) option"
  uni :: unicode_db
  loads :: "ustr \<Rightarrow> json option"
  lossy_utf8 :: "bytes \<Rightarrow> ustr"

definition is_space_char :: "net_lib \<Rightarrow> nat \<Rightarrow> bool" where
  "is_space_char L n \<longleftrightarrow> is_blank n \<or> (28 \<le> n \<and> n \<le> 31) \<or> (n \<ge> 128 \<and> uni_space (uni L) n)"

definition is_loopback :: "net_lib \<Rightarrow> ustr option \<Rightarrow> bool" where
  "is_loopback L host =
     (case host of
        None \<Rightarrow> False
      | Some h \<Rightarrow>
          if h = [] then False
          else if h = u ''localhost'' then True
          else case ip_address L h of
                 None \<Rightarrow> False
               | Some (a, mapped) \<Rightarrow> ip_loopback a \<or> (case mapped of None \<Rightarrow> False | Some m \<Rightarrow> ip_loopback m))"

definition is_local :: "net_lib \<Rightarrow> ustr option \<Rightarrow> bool" where
  "is_local L host =
     (if is_loopback L host then True
      else case ip_address L (case host of None \<Rightarrow> [] | Some h \<Rightarrow> h) of
             None \<Rightarrow> False
           | Some (a, mapped) \<Rightarrow> let a = (case mapped of None \<Rightarrow> a | Some m \<Rightarrow> m) in ip_private a \<or> ip_link_local a)"

definition public_address :: "net_lib \<Rightarrow> ustr \<Rightarrow> bool result" where
  "public_address L host =
     (case ip_address L host of
        None \<Rightarrow> Inl ValueError
      | Some (a, mapped) \<Rightarrow> let a = (case mapped of None \<Rightarrow> a | Some m \<Rightarrow> m) in Inr (ip_global a \<and> \<not> ip_multicast a))"

definition parse_peer_url :: "net_lib \<Rightarrow> json \<Rightarrow> split_url result" where
  "parse_peer_url L url =
     (case url of
        JStr s \<Rightarrow>
          if length s > 200 \<or> list_ex (\<lambda>c. is_space_char L c \<or> c < 32 \<or> c = 92) s then Inl ValueError
          else rbind (urlsplit L s) (\<lambda>p.
            if su_scheme p \<notin> {u ''ws'', u ''wss''} then Inl ValueError
            else case su_hostname p of
                   None \<Rightarrow> Inl ValueError
                 | Some h \<Rightarrow>
                     if h = [] \<or> su_username p \<noteq> None \<or> su_password p \<noteq> None \<or> su_fragment p \<noteq> [] \<or> su_query p \<noteq> []
                        \<or> 37 \<in> set h then Inl ValueError
                     else rbind (su_port p) (\<lambda>port. if port = Some 0 then Inl ValueError else Inr p))
      | _ \<Rightarrow> Inl ValueError)"

definition valid_url :: "net_lib \<Rightarrow> json \<Rightarrow> bool" where
  "valid_url L url = (case parse_peer_url L url of Inr _ \<Rightarrow> True | Inl _ \<Rightarrow> False)"

definition http_base :: "net_lib \<Rightarrow> json \<Rightarrow> ustr option" where
  "http_base L url =
     (case parse_peer_url L url of
        Inl _ \<Rightarrow> None
      | Inr p \<Rightarrow> Some (u (if su_scheme p = u ''wss'' then ''https'' else ''http'') @ u ''://'' @ su_netloc p))"

definition url_host :: "net_lib \<Rightarrow> ustr option \<Rightarrow> ustr option" where
  "url_host L url =
     (case url of
        None \<Rightarrow> None
      | Some s \<Rightarrow> if s = [] then None else (case urlsplit L s of Inl _ \<Rightarrow> None | Inr p \<Rightarrow> su_hostname p))"

definition meaningful_between :: "net_lib \<Rightarrow> ustr option \<Rightarrow> ustr \<Rightarrow> bool" where
  "meaningful_between L peer_host url \<longleftrightarrow> is_local L peer_host \<or> \<not> is_local L (url_host L (Some url))"

definition max_chunk_file_bytes :: "network_params \<Rightarrow> int" where
  "max_chunk_file_bytes N = chunk_size N * (max_block_size N + 64) + 1000000"

section \<open>Messages\<close>

text \<open>A message is a dictionary whose type is a text.  A decoder gives None for what makes the node ban a peer.\<close>

definition parse_message :: "net_lib \<Rightarrow> ustr \<Rightarrow> (ustr \<times> dict) option" where
  "parse_message L s =
     (case loads L s of
        Some (JObj d) \<Rightarrow> (case get d ''type'' of JStr kind \<Rightarrow> Some (kind, d) | _ \<Rightarrow> None)
      | _ \<Rightarrow> None)"

definition list_of :: "dict \<Rightarrow> string \<Rightarrow> nat \<Rightarrow> json list option" where
  "list_of m key limit =
     (case get_or (JList []) m key of JList vs \<Rightarrow> if length vs > limit then None else Some vs | _ \<Rightarrow> None)"

definition ids_of :: "dict \<Rightarrow> string \<Rightarrow> nat \<Rightarrow> bytes list option" where
  "ids_of m key limit =
     (case list_of m key limit of
        None \<Rightarrow> None
      | Some vs \<Rightarrow>
          (case map_each bytes_fromhex vs of
             Inl _ \<Rightarrow> None
           | Inr ids \<Rightarrow> if list_ex (\<lambda>i. length i \<noteq> 32) ids then None else Some ids))"

definition hex_of_message :: "dict \<Rightarrow> string \<Rightarrow> bytes option" where
  "hex_of_message m key =
     (case get m key of JStr s \<Rightarrow> if length s > MAX_MESSAGE_BYTES then None else from_hex s | _ \<Rightarrow> None)"

definition count_of :: "dict \<Rightarrow> string \<Rightarrow> int option" where
  "count_of m key = (case get_or (JInt 0) m key of JInt n \<Rightarrow> if 0 \<le> n \<and> n < 2 ^ 63 then Some n else None | _ \<Rightarrow> None)"

definition work_of :: "net_lib \<Rightarrow> dict \<Rightarrow> int option" where
  "work_of L m =
     (case get_or (JStr (u ''0'')) m ''work'' of
        JStr s \<Rightarrow> if length s > 80 then None else (case py_int (uni L) 16 s of Inl _ \<Rightarrow> None | Inr n \<Rightarrow> Some n)
      | _ \<Rightarrow> None)"

definition message_cost :: "ustr \<Rightarrow> dict \<Rightarrow> rat" where
  "message_cost kind m =
     (let cost = (case map_of (map (\<lambda>(k, c). (u k, c)) MESSAGE_COSTS) kind of None \<Rightarrow> 1 | Some c \<Rightarrow> c);
          blocks = of_nat (length_of (get m ''blocks'')); txs = of_nat (length_of (get m ''txs''))
      in if kind = u ''get_data'' then cost + 2 * blocks + txs / 10
         else if kind = u ''inv'' then cost + (blocks + txs) / 100
         else cost)"

section \<open>Bounded memory of what a peer has\<close>

record recent =
  rc_items :: "bytes list"
  rc_limit :: nat

definition new_recent :: recent where
  "new_recent = \<lparr>rc_items = [], rc_limit = KNOWN_LIMIT\<rparr>"

definition recent_add :: "bytes \<Rightarrow> recent \<Rightarrow> recent" where
  "recent_add i r =
     (let items = filter (\<lambda>x. x \<noteq> i) (rc_items r) @ [i]
      in r\<lparr>rc_items := (if length items > rc_limit r then tl items else items)\<rparr>)"

definition recent_has :: "recent \<Rightarrow> bytes \<Rightarrow> bool" where
  "recent_has r i \<longleftrightarrow> i \<in> set (rc_items r)"

section \<open>Peers\<close>

text \<open>What waits to be sent: a message, a block whose bytes are read when its turn comes, or the end.\<close>

datatype outgoing = Message json | Block_later bytes | Stop

text \<open>Where the reader of a connection is: a message over budget is held back until a later time.\<close>

datatype reading = Expect_hello | Ready_to_read | Held_back ustr dict rat | Finished

record peer =
  pr_reading :: reading
  pr_outbound :: bool
  pr_label :: ustr
  pr_url :: "ustr option"
  pr_host :: "ustr option"
  pr_ready :: bool
  pr_node_id :: ustr
  pr_height :: int
  pr_work :: int
  pr_chunks :: int
  pr_http_url :: "ustr option"
  pr_known_blocks :: recent
  pr_known_txs :: recent
  pr_budget :: token_bucket
  pr_queue :: "outgoing list"
  pr_closed :: bool
  pr_sync_round :: nat
  pr_header_tip :: "header_tip option"
  pr_waiting :: "bytes list"
  pr_in_flight :: "bytes fset"
  pr_more_headers :: bool
  pr_awaiting_headers :: bool
  pr_checking_headers :: bool
  pr_last_progress :: rat

definition new_peer :: "bool \<Rightarrow> ustr \<Rightarrow> ustr option \<Rightarrow> rat \<Rightarrow> peer" where
  "new_peer outbound label host now =
     \<lparr>pr_reading = Expect_hello, pr_outbound = outbound, pr_label = label, pr_url = (if outbound then Some label else None), pr_host = host,
      pr_ready = False, pr_node_id = [], pr_height = 0, pr_work = 0, pr_chunks = 0, pr_http_url = None,
      pr_known_blocks = new_recent, pr_known_txs = new_recent, pr_budget = new_bucket MESSAGE_RATE MESSAGE_BURST now,
      pr_queue = [], pr_closed = False, pr_sync_round = 0, pr_header_tip = None, pr_waiting = [], pr_in_flight = {||},
      pr_more_headers = False, pr_awaiting_headers = False, pr_checking_headers = False, pr_last_progress = now\<rparr>"

definition put_item :: "outgoing \<Rightarrow> peer \<Rightarrow> peer" where
  "put_item x p =
     (if pr_closed p then p
      else if length (pr_queue p) \<ge> SEND_QUEUE_LIMIT then p\<lparr>pr_closed := True, pr_queue := pr_queue p @ [Stop]\<rparr>
      else p\<lparr>pr_queue := pr_queue p @ [x]\<rparr>)"

definition send :: "json \<Rightarrow> peer \<Rightarrow> peer" where
  "send m = put_item (Message m)"

definition send_later :: "bytes \<Rightarrow> peer \<Rightarrow> peer" where
  "send_later i = put_item (Block_later i)"

text \<open>Forgetting an earlier catch-up.\<close>

definition clear_sync :: "peer \<Rightarrow> peer" where
  "clear_sync p = p\<lparr>pr_header_tip := None, pr_more_headers := False, pr_waiting := [], pr_in_flight := {||}\<rparr>"

section \<open>The node's view of the network\<close>

record p2p_config =
  listen_url :: "ustr option"
  connect_urls :: "ustr list"
  seed_urls :: "ustr list"
  target_outbound :: nat
  max_inbound :: nat

text \<open>Work in the background: a batch of headers before and after its proof of work is checked, with the
  peer and the round of catching up that it belongs to.\<close>

record header_check =
  hc_peer :: nat
  hc_headers :: "block_header list"
  hc_round :: nat

record pow_check =
  pc_peer :: nat
  pc_count :: nat
  pc_round :: nat
  pc_anchor :: header_tip
  pc_checked :: "block_header list"
  pc_new :: nat
  pc_known :: nat

datatype chunk_stage = Starting | Await_previous | Downloading int | Checking int

record chunk_task =
  ct_stage :: chunk_stage
  ct_peer :: nat
  ct_round :: nat

record net =
  nt_node_id :: ustr
  nt_peers :: "(nat, peer) fmap"
  nt_connected :: "nat list"
  nt_addresses :: "ustr list"
  nt_private :: "ustr list"
  nt_self_urls :: "ustr list"
  nt_url_node :: "(ustr, ustr) fmap"
  nt_dialing :: "ustr list"
  nt_retry_at :: "(ustr, rat) fmap"
  nt_failures :: "(ustr, nat) fmap"
  nt_sync_peer :: "nat option"
  nt_chunk_task :: "chunk_task option"
  nt_chunk_check :: "bytes option"
  nt_banned :: "(ustr, rat) fmap"
  nt_banned_hosts :: "(ustr, rat) fmap"
  nt_rejected_txs :: recent
  nt_remembered :: "ustr list"
  nt_remembered_changed :: bool
  nt_header_checks :: "header_check list"
  nt_pow_checks :: "pow_check list"

type_synonym node = "net service"

text \<open>What never changes while the node runs.\<close>

record site =
  e_prims :: prims
  e_params :: network_params
  e_policy :: policy
  e_lib :: net_lib
  e_config :: p2p_config

definition insert_new :: "'a \<Rightarrow> 'a list \<Rightarrow> 'a list" where
  "insert_new x xs = (if x \<in> set xs then xs else xs @ [x])"

definition new_net :: "p2p_config \<Rightarrow> ustr \<Rightarrow> net" where
  "new_net cfg nid =
     \<lparr>nt_node_id = nid, nt_peers = fmempty, nt_connected = [],
      nt_addresses = fold insert_new (connect_urls cfg @ seed_urls cfg) [], nt_private = connect_urls cfg,
      nt_self_urls = (case listen_url cfg of None \<Rightarrow> [] | Some url \<Rightarrow> if url = [] then [] else [url]),
      nt_url_node = fmempty, nt_dialing = [], nt_retry_at = fmempty, nt_failures = fmempty, nt_sync_peer = None,
      nt_chunk_task = None, nt_chunk_check = None, nt_banned = fmempty, nt_banned_hosts = fmempty,
      nt_rejected_txs = new_recent, nt_remembered = [], nt_remembered_changed = False, nt_header_checks = [],
      nt_pow_checks = []\<rparr>"

text \<open>The peers are objects; number \<open>i\<close> stands for one of them.\<close>

definition peer_of :: "nat \<Rightarrow> net \<Rightarrow> peer" where
  "peer_of i nt = (case fmlookup (nt_peers nt) i of None \<Rightarrow> new_peer False [] None 0 | Some p \<Rightarrow> p)"

definition change_peer :: "nat \<Rightarrow> (peer \<Rightarrow> peer) \<Rightarrow> net \<Rightarrow> net" where
  "change_peer i f nt = nt\<lparr>nt_peers := fmupd i (f (peer_of i nt)) (nt_peers nt)\<rparr>"

definition ready_peers :: "net \<Rightarrow> nat list" where
  "ready_peers nt = filter (\<lambda>i. pr_ready (peer_of i nt) \<and> \<not> pr_closed (peer_of i nt)) (nt_connected nt)"

definition lookup_or :: "'b \<Rightarrow> ('a, 'b) fmap \<Rightarrow> 'a \<Rightarrow> 'b" where
  "lookup_or d m k = (case fmlookup m k of None \<Rightarrow> d | Some v \<Rightarrow> v)"

section \<open>Remembering addresses\<close>

definition load_peers :: "site \<Rightarrow> ustr option \<Rightarrow> net \<Rightarrow> net" where
  "load_peers E file nt =
     (case file of
        None \<Rightarrow> nt
      | Some s \<Rightarrow>
          (case loads (e_lib E) s of
             Some (JList urls) \<Rightarrow>
               fold (\<lambda>url nt. case url of
                       JStr s \<Rightarrow>
                         if valid_url (e_lib E) url \<and> s \<notin> set (nt_self_urls nt)
                         then nt\<lparr>nt_remembered := insert_new s (nt_remembered nt), nt_addresses := insert_new s (nt_addresses nt),
                                 nt_private := (if is_local (e_lib E) (url_host (e_lib E) (Some s))
                                                then insert_new s (nt_private nt) else nt_private nt)\<rparr>
                         else nt
                     | _ \<Rightarrow> nt) urls nt
           | _ \<Rightarrow> nt))"

definition remember :: "ustr \<Rightarrow> net \<Rightarrow> net" where
  "remember url nt =
     (if url \<notin> set (nt_remembered nt) \<and> url \<notin> set (nt_self_urls nt)
      then nt\<lparr>nt_remembered := nt_remembered nt @ [url], nt_remembered_changed := True\<rparr> else nt)"

text \<open>\<open>_save_peers\<close>: what is written to the file, when there is one and something changed.\<close>

definition save_peers :: "bool \<Rightarrow> net \<Rightarrow> json option \<times> net" where
  "save_peers has_file nt =
     (if \<not> has_file \<or> \<not> nt_remembered_changed nt then (None, nt)
      else (Some (JList (map JStr (take 1000 (sort (nt_remembered nt))))), nt\<lparr>nt_remembered_changed := False\<rparr>))"

definition learn :: "ustr \<Rightarrow> bool \<Rightarrow> net \<Rightarrow> net" where
  "learn url allow_private nt =
     (let nt = (if url \<notin> set (nt_addresses nt) \<and> url \<notin> set (nt_self_urls nt) \<and> length (nt_addresses nt) < 1000
                then nt\<lparr>nt_addresses := nt_addresses nt @ [url]\<rparr> else nt)
      in if url \<in> set (nt_addresses nt) \<and> allow_private then nt\<lparr>nt_private := insert_new url (nt_private nt)\<rparr> else nt)"

section \<open>Bans\<close>

definition ban :: "net_lib \<Rightarrow> rat \<Rightarrow> nat \<Rightarrow> net \<Rightarrow> net" where
  "ban L now i nt =
     (let p = peer_of i nt; til = now + BAN_SECONDS;
          nt = (if pr_node_id p \<noteq> [] then nt\<lparr>nt_banned := fmupd (pr_node_id p) til (nt_banned nt)\<rparr> else nt);
          nt = (case pr_url p of
                  None \<Rightarrow> nt
                | Some url \<Rightarrow> if url = [] then nt else nt\<lparr>nt_retry_at := fmupd url til (nt_retry_at nt)\<rparr>);
          nt = (case pr_host p of
                  None \<Rightarrow> nt
                | Some h \<Rightarrow> if h = [] \<or> is_loopback L (Some h) then nt
                            else nt\<lparr>nt_banned_hosts := fmupd h til (nt_banned_hosts nt)\<rparr>)
      in change_peer i (\<lambda>p. p\<lparr>pr_work := 0\<rparr>) nt)"

definition forget_expired_bans :: "rat \<Rightarrow> net \<Rightarrow> net" where
  "forget_expired_bans now nt =
     nt\<lparr>nt_banned := fmfilter (\<lambda>k. lookup_or 0 (nt_banned nt) k > now) (nt_banned nt),
        nt_banned_hosts := fmfilter (\<lambda>k. lookup_or 0 (nt_banned_hosts nt) k > now) (nt_banned_hosts nt)\<rparr>"

text \<open>\<open>inbound_refusal\<close>: the close code for a connection that is refused.\<close>

definition inbound_refusal :: "site \<Rightarrow> rat \<Rightarrow> ustr option \<Rightarrow> net \<Rightarrow> int option" where
  "inbound_refusal E now host nt =
     (let inbound = filter (\<lambda>i. \<not> pr_outbound (peer_of i nt)) (nt_connected nt)
      in if length inbound \<ge> max_inbound (e_config E) then Some 1013
         else case host of
                None \<Rightarrow> None
              | Some h \<Rightarrow>
                  if h = [] then None
                  else if lookup_or 0 (nt_banned_hosts nt) h > now then Some 1008
                  else if \<not> is_loopback (e_lib E) host
                          \<and> length (filter (\<lambda>i. pr_host (peer_of i nt) = host) inbound) \<ge> MAX_INBOUND_PER_HOST
                  then Some 1013 else None)"

text \<open>Which addresses \<open>_dial_more\<close> starts to dial, in the order of the table.\<close>

definition may_dial :: "site \<Rightarrow> rat \<Rightarrow> net \<Rightarrow> ustr \<Rightarrow> bool" where
  "may_dial E now nt url \<longleftrightarrow>
     Some url \<notin> (\<lambda>i. pr_url (peer_of i nt)) ` set (nt_connected nt) \<and> url \<notin> set (nt_dialing nt) \<and> url \<notin> set (nt_self_urls nt) \<and>
     (case fmlookup (nt_url_node nt) url of
        None \<Rightarrow> True | Some nid \<Rightarrow> nid \<notin> (\<lambda>i. pr_node_id (peer_of i nt)) ` set (ready_peers nt)) \<and>
     lookup_or 0 (nt_retry_at nt) url \<le> now \<and>
     lookup_or 0 (nt_banned_hosts nt) (case url_host (e_lib E) (Some url) of None \<Rightarrow> [] | Some h \<Rightarrow> h) \<le> now"

definition dial_more :: "site \<Rightarrow> rat \<Rightarrow> net \<Rightarrow> net" where
  "dial_more E now nt =
     (let outbound = length (filter (\<lambda>i. pr_outbound (peer_of i nt)) (nt_connected nt)) + length (nt_dialing nt)
      in nt\<lparr>nt_dialing := nt_dialing nt @ take (target_outbound (e_config E) - outbound) (filter (may_dial E now nt) (nt_addresses nt))\<rparr>)"

definition dial_failed :: "site \<Rightarrow> rat \<Rightarrow> ustr \<Rightarrow> net \<Rightarrow> net" where
  "dial_failed E now url nt =
     (let failures = lookup_or 0 (nt_failures nt) url + 1
      in nt\<lparr>nt_failures := fmupd url failures (nt_failures nt),
            nt_retry_at := fmupd url (now + min 60 (2 ^ min failures 6)) (nt_retry_at nt),
            nt_addresses := (if failures \<ge> 10 \<and> url \<notin> set (connect_urls (e_config E)) \<and> url \<notin> set (seed_urls (e_config E))
                             then remove1 url (nt_addresses nt) else nt_addresses nt),
            nt_dialing := remove1 url (nt_dialing nt)\<rparr>)"

end
