(* ===== verification/P2P_Sync.thy ===== *)
theory P2P_Sync
  imports P2P_Peers
begin

text \<open>
  The second half of \<open>node/p2p.py\<close>: catching up with a peer.  Whole sealed chunks come first, then headers that
  are checked before any of their blocks is asked for, then the blocks.  What runs in the background between
  two awaits is one step of its own; the tables \<open>nt_header_checks\<close>, \<open>nt_pow_checks\<close>, \<open>nt_chunk_task\<close> and
  \<open>nt_chunk_check\<close> hold what is under way.  An exception that the program would log as a bug of its own gives
  \<open>Inl\<close> where the model keeps no state for it.
\<close>

section \<open>Access\<close>

definition on_net :: "(net \<Rightarrow> net) \<Rightarrow> node \<Rightarrow> node" where
  "on_net f nd = nd\<lparr>sv_peers := f (sv_peers nd)\<rparr>"

definition at_peer :: "nat \<Rightarrow> (peer \<Rightarrow> peer) \<Rightarrow> node \<Rightarrow> node" where
  "at_peer i f nd = on_net (change_peer i f) nd"

definition node_peer :: "nat \<Rightarrow> node \<Rightarrow> peer" where
  "node_peer i nd = peer_of i (sv_peers nd)"

definition sync_peer :: "node \<Rightarrow> nat option" where
  "sync_peer nd = nt_sync_peer (sv_peers nd)"

definition our_work :: "node \<Rightarrow> int result" where
  "our_work nd = rmap sh_chain_work (the_tip (sv_store nd))"

definition message :: "string \<Rightarrow> (string \<times> json) list \<Rightarrow> json" where
  "message kind content = obj ((''type'', text_json kind) # content)"

definition hex_list :: "bytes list \<Rightarrow> json" where
  "hex_list ids = JList (map hex_json ids)"

text \<open>\<open>i.hex()\<close> of an id that may be missing\<close>

definition known_id :: "bytes option \<Rightarrow> bytes result" where
  "known_id x = (case x of None \<Rightarrow> Inl AttributeError | Some i \<Rightarrow> Inr i)"

section \<open>Starting and ending\<close>

definition request_headers :: "site \<Rightarrow> nat \<Rightarrow> node \<Rightarrow> node result" where
  "request_headers E i nd =
     rbind (locator (e_prims E) (ch_genesis (sv_chain nd)) (sv_store nd)) (\<lambda>ids.
       let ids = (case pr_header_tip (node_peer i nd) of
                    None \<Rightarrow> ids
                  | Some t \<Rightarrow> Some (block_id (e_prims E) (ht_header t)) # take (MAX_LOCATOR - 1) ids)
       in rbind (map_each known_id ids) (\<lambda>ids.
            Inr (at_peer i (\<lambda>p. send (message ''get_headers'' [(''locator'', hex_list ids)]) (p\<lparr>pr_awaiting_headers := True\<rparr>)) nd)))"

definition start_sync :: "site \<Rightarrow> rat \<Rightarrow> nat \<Rightarrow> node \<Rightarrow> node result" where
  "start_sync E now i nd =
     (let nd = on_net (\<lambda>nt. nt\<lparr>nt_chunk_task := None, nt_sync_peer := Some i\<rparr>) nd;
          nd = at_peer i (\<lambda>p. (clear_sync p)\<lparr>pr_sync_round := pr_sync_round p + 1, pr_awaiting_headers := False,
                                   pr_checking_headers := False, pr_last_progress := now\<rparr>) nd;
          p = node_peer i nd
      in rbind (tip_height (sv_store nd)) (\<lambda>_.
         if pr_http_url p \<noteq> None \<and> pr_chunks p > sealed_chunks (sv_store nd)
         then Inr (on_net (\<lambda>nt. nt\<lparr>nt_chunk_task := Some \<lparr>ct_stage = Starting, ct_peer = i, ct_round = pr_sync_round p\<rparr>\<rparr>) nd)
         else request_headers E i nd))"

text \<open>\<open>max(candidates, key=...)\<close> is the first of the largest.\<close>

definition first_max :: "('a \<Rightarrow> int) \<Rightarrow> 'a list \<Rightarrow> 'a option" where
  "first_max f xs = find (\<lambda>x. list_all (\<lambda>y. f y \<le> f x) xs) xs"

definition maybe_sync :: "site \<Rightarrow> rat \<Rightarrow> node \<Rightarrow> node result" where
  "maybe_sync E now nd =
     (if sync_peer nd \<noteq> None then Inr nd
      else rbind (our_work nd) (\<lambda>ours.
        case first_max (\<lambda>i. pr_work (node_peer i nd))
               (filter (\<lambda>i. pr_work (node_peer i nd) > ours) (ready_peers (sv_peers nd))) of
          None \<Rightarrow> Inr nd
        | Some i \<Rightarrow> start_sync E now i nd))"

definition stop_sync :: "node \<Rightarrow> node" where
  "stop_sync nd = on_net (\<lambda>nt. nt\<lparr>nt_sync_peer := None, nt_chunk_task := None\<rparr>) nd"

definition end_sync :: "site \<Rightarrow> rat \<Rightarrow> nat \<Rightarrow> bool \<Rightarrow> node \<Rightarrow> node result" where
  "end_sync E now i useless nd =
     rbind (our_work nd) (\<lambda>ours.
       maybe_sync E now (stop_sync (at_peer i (\<lambda>p. clear_sync (p\<lparr>pr_work := (if useless then 0 else min (pr_work p) ours)\<rparr>)) nd)))"

definition drop_peer :: "site \<Rightarrow> rat \<Rightarrow> nat \<Rightarrow> bool \<Rightarrow> node \<Rightarrow> node result" where
  "drop_peer E now i banned nd =
     (let nd = (if banned then on_net (ban (e_lib E) now i) nd else nd);
          nd = at_peer i (\<lambda>p. p\<lparr>pr_work := 0, pr_closed := True\<rparr>) nd
      in maybe_sync E now (if sync_peer nd = Some i then stop_sync nd else nd))"

section \<open>Blocks\<close>

fun drop_known :: "store \<Rightarrow> bytes list \<Rightarrow> bytes list result" where
  "drop_known s [] = Inr []"
| "drop_known s (i # ids) =
     rbind (find_header i s) (\<lambda>stored. case stored of None \<Rightarrow> Inr (i # ids) | Some _ \<Rightarrow> drop_known s ids)"

definition request_blocks :: "nat \<Rightarrow> node \<Rightarrow> node" where
  "request_blocks i nd =
     at_peer i (\<lambda>p. let batch = take BLOCKS_PER_REQUEST (pr_waiting p)
                    in send (message ''get_data'' [(''blocks'', hex_list batch), (''txs'', JList [])])
                         (p\<lparr>pr_waiting := drop BLOCKS_PER_REQUEST (pr_waiting p),
                            pr_in_flight := pr_in_flight p |\<union>| fset_of_list batch\<rparr>)) nd"

definition continue_sync :: "site \<Rightarrow> rat \<Rightarrow> nat \<Rightarrow> node \<Rightarrow> node result" where
  "continue_sync E now i nd =
     (let p = node_peer i nd
      in if sync_peer nd \<noteq> Some i \<or> pr_in_flight p \<noteq> {||} \<or> pr_awaiting_headers p \<or> pr_checking_headers p then Inr nd
         else rbind (drop_known (sv_store nd) (pr_waiting p)) (\<lambda>waiting.
              let nd = at_peer i (\<lambda>p. p\<lparr>pr_waiting := waiting\<rparr>) nd
              in rbind (our_work nd) (\<lambda>ours.
                   let better = (case pr_header_tip p of None \<Rightarrow> False | Some t \<Rightarrow> ht_chain_work t > ours)
                   in if waiting \<noteq> [] \<and> better then Inr (request_blocks i nd)
                      else if pr_more_headers p \<and> length waiting < MAX_PENDING_HEADERS then request_headers E i nd
                      else end_sync E now i False nd)))"

section \<open>Headers\<close>

text \<open>How many headers, from the first, are stored already.\<close>

fun known_prefix :: "prims \<Rightarrow> store \<Rightarrow> block_header list \<Rightarrow> nat result" where
  "known_prefix P s [] = Inr 0"
| "known_prefix P s (h # hs) =
     rbind (find_header (block_id P h) s) (\<lambda>stored.
       case stored of
         None \<Rightarrow> Inr 0
       | Some sh \<Rightarrow> if sh_status sh = STATUS_INVALID then Inl (ProtocolError True)
                    else rbind (known_prefix P s hs) (\<lambda>n. Inr (n + 1)))"

record checked_batch =
  cb_anchor :: "header_tip option"
  cb_checked :: "block_header list"
  cb_known :: nat
  cb_new :: nat

text \<open>Everything that \<open>_check_headers\<close> does before the proof of work.  None: the headers connect to nothing known.\<close>

definition check_batch ::
  "site \<Rightarrow> rat \<Rightarrow> block_header list \<Rightarrow> header_tip option \<Rightarrow> node \<Rightarrow> checked_batch option result" where
  "check_batch E now headers tip nd =
     (let P = e_prims E; N = e_params E; s = sv_store nd
      in rbind (known_prefix P s headers) (\<lambda>known.
         let new = drop known headers;
             own = (known = 0 \<and> headers \<noteq> [] \<and>
                    (case tip of None \<Rightarrow> False | Some t \<Rightarrow> bh_prev_id (hd headers) = block_id P (ht_header t)))
         in rbind (if known > 0 then header_tip_of N (block_id P (headers ! (known - 1))) s
                   else if own \<or> headers = [] then Inr tip
                   else header_tip_of N (bh_prev_id (hd headers)) s) (\<lambda>anchor.
            case anchor of
              None \<Rightarrow>
                if headers \<noteq> [] then Inr None
                else Inr (Some \<lparr>cb_anchor = None, cb_checked = [], cb_known = known, cb_new = 0\<rparr>)
            | Some a \<Rightarrow>
                if new = [] then Inr (Some \<lparr>cb_anchor = anchor, cb_checked = [], cb_known = known, cb_new = 0\<rparr>)
                else rbind (if own then Inr () else check_branch_point P N (block_id P (ht_header a)) s) (\<lambda>_.
                     rbind (check_headers P N (ch_genesis (sv_chain nd)) \<lfloor>now\<rfloor> a new) (\<lambda>(a, checked).
                       Inr (Some \<lparr>cb_anchor = Some a, cb_checked = checked, cb_known = known, cb_new = length new\<rparr>))))))"

definition done_checking :: "nat \<Rightarrow> nat \<Rightarrow> node \<Rightarrow> node" where
  "done_checking i rnd nd =
     at_peer i (\<lambda>p. if pr_sync_round p = rnd then p\<lparr>pr_checking_headers := False\<rparr> else p) nd"

definition current_round :: "nat \<Rightarrow> nat \<Rightarrow> node \<Rightarrow> bool" where
  "current_round i rnd nd \<longleftrightarrow> sync_peer nd = Some i \<and> \<not> pr_closed (node_peer i nd) \<and> pr_sync_round (node_peer i nd) = rnd"

text \<open>What \<open>_check_headers\<close> does with headers that passed; \<open>received\<close> is how many came.\<close>

definition take_headers :: "site \<Rightarrow> rat \<Rightarrow> nat \<Rightarrow> nat \<Rightarrow> nat \<Rightarrow> checked_batch \<Rightarrow> node \<Rightarrow> node result" where
  "take_headers E now i rnd received b nd =
     (let nd = done_checking i rnd nd; checked = cb_checked b
      in if \<not> current_round i rnd nd then Inr nd
         else continue_sync E now i (at_peer i (\<lambda>p.
                p\<lparr>pr_header_tip := cb_anchor b,
                  pr_waiting := pr_waiting p @ map (block_id (e_prims E)) checked,
                  pr_more_headers := (received = MAX_HEADERS \<and> length checked = cb_new b),
                  pr_work := (if length checked < cb_new b then 0 else pr_work p),
                  pr_last_progress := (if checked \<noteq> [] \<or> cb_known b > 0 then now else pr_last_progress p)\<rparr>) nd))"

text \<open>The \<open>except\<close> clauses.  A search that does not return is not an exception.\<close>

definition headers_failed :: "site \<Rightarrow> rat \<Rightarrow> nat \<Rightarrow> nat \<Rightarrow> exn \<Rightarrow> node \<Rightarrow> node result" where
  "headers_failed E now i rnd e nd =
     rmap (done_checking i rnd)
       (case e of
          ValidationError code \<Rightarrow>
            if code = ''fork-below-finality''
            then if sync_peer nd = Some i then end_sync E now i True nd else Inr nd
            else drop_peer E now i True nd
        | ProtocolError banned \<Rightarrow> drop_peer E now i banned nd
        | NoReturn \<Rightarrow> Inl NoReturn
        | _ \<Rightarrow> drop_peer E now i False nd)"

definition check_headers_begin :: "site \<Rightarrow> rat \<Rightarrow> header_check \<Rightarrow> node \<Rightarrow> node result" where
  "check_headers_begin E now hc nd =
     (let i = hc_peer hc; rnd = hc_round hc
      in case check_batch E now (hc_headers hc) (pr_header_tip (node_peer i nd)) nd of
           Inl e \<Rightarrow> headers_failed E now i rnd e nd
         | Inr None \<Rightarrow>
             if pr_sync_round (node_peer i nd) = rnd \<and> sync_peer nd = Some i
             then let nd = at_peer i (\<lambda>p. p\<lparr>pr_header_tip := None, pr_waiting := []\<rparr>) nd
                  in (case request_headers E i nd of
                        Inl e \<Rightarrow> headers_failed E now i rnd e nd
                      | Inr nd \<Rightarrow> Inr (done_checking i rnd nd))
             else Inr (done_checking i rnd nd)
         | Inr (Some b) \<Rightarrow>
             (case cb_anchor b of
                Some a \<Rightarrow>
                  if cb_checked b = [] then take_headers E now i rnd (length (hc_headers hc)) b nd
                  else Inr (on_net (\<lambda>nt. nt\<lparr>nt_pow_checks := nt_pow_checks nt @
                         [\<lparr>pc_peer = i, pc_count = length (hc_headers hc), pc_round = rnd, pc_anchor = a,
                           pc_checked = cb_checked b, pc_new = cb_new b, pc_known = cb_known b\<rparr>]\<rparr>) nd)
              | None \<Rightarrow> take_headers E now i rnd (length (hc_headers hc)) b nd))"

definition pow_checked :: "site \<Rightarrow> rat \<Rightarrow> pow_check \<Rightarrow> node \<Rightarrow> node result" where
  "pow_checked E now pc nd =
     (let i = pc_peer pc; rnd = pc_round pc; P = e_prims E
      in case all_meet_target P (pc_checked pc) (pow (e_params E)) of
           Inl e \<Rightarrow> headers_failed E now i rnd e nd
         | Inr False \<Rightarrow> headers_failed E now i rnd (ProtocolError True) nd
         | Inr True \<Rightarrow>
             take_headers E now i rnd (pc_count pc)
               \<lparr>cb_anchor = Some (pc_anchor pc), cb_checked = pc_checked pc, cb_known = pc_known pc, cb_new = pc_new pc\<rparr>
               (nd\<lparr>sv_chain := note_pow_checked (map (block_id P) (pc_checked pc)) (sv_chain nd)\<rparr>))"

section \<open>Chunks\<close>

text \<open>The \<open>finally\<close> clause of \<open>_sync_chunks\<close>\<close>

definition chunks_done :: "site \<Rightarrow> nat \<Rightarrow> nat \<Rightarrow> node \<Rightarrow> node result" where
  "chunks_done E i rnd nd =
     (let nd = on_net (\<lambda>nt. case nt_chunk_task nt of
                 Some t \<Rightarrow> if ct_peer t = i \<and> ct_round t = rnd then nt\<lparr>nt_chunk_task := None\<rparr> else nt
               | None \<Rightarrow> nt) nd
      in if current_round i rnd nd then request_headers E i nd else Inr nd)"

definition set_stage :: "chunk_stage \<Rightarrow> node \<Rightarrow> node" where
  "set_stage stage nd = on_net (\<lambda>nt. nt\<lparr>nt_chunk_task := map_option (\<lambda>t. t\<lparr>ct_stage := stage\<rparr>) (nt_chunk_task nt)\<rparr>) nd"

definition next_chunk :: "site \<Rightarrow> rat \<Rightarrow> nat \<Rightarrow> nat \<Rightarrow> node \<Rightarrow> node result" where
  "next_chunk E now i rnd nd =
     (let index = sealed_chunks (sv_store nd)
      in if index \<ge> pr_chunks (node_peer i nd) then chunks_done E i rnd nd
         else Inr (set_stage (Downloading index) (at_peer i (\<lambda>p. p\<lparr>pr_last_progress := now\<rparr>) nd)))"

definition chunk_loop :: "site \<Rightarrow> rat \<Rightarrow> nat \<Rightarrow> nat \<Rightarrow> node \<Rightarrow> node result" where
  "chunk_loop E now i rnd nd =
     (if \<not> current_round i rnd nd then chunks_done E i rnd nd
      else if nt_chunk_check (sv_peers nd) \<noteq> None then Inr (set_stage Await_previous nd)
      else next_chunk E now i rnd nd)"

text \<open>The answer to a download: None for an error, \<open>Some None\<close> when the peer does not have the chunk.\<close>

definition chunk_downloaded :: "site \<Rightarrow> nat \<Rightarrow> nat \<Rightarrow> int \<Rightarrow> bytes option option \<Rightarrow> node \<Rightarrow> node result" where
  "chunk_downloaded E i rnd index answer nd =
     (case answer of
        Some (Some data) \<Rightarrow>
          if current_round i rnd nd
          then Inr (set_stage (Checking index) (on_net (\<lambda>nt. nt\<lparr>nt_chunk_check := Some data\<rparr>) nd))
          else chunks_done E i rnd nd
      | _ \<Rightarrow> chunks_done E i rnd nd)"

definition chunk_failed :: "site \<Rightarrow> rat \<Rightarrow> nat \<Rightarrow> nat \<Rightarrow> exn \<Rightarrow> node \<Rightarrow> node result" where
  "chunk_failed E now i rnd e nd =
     (if e = NoReturn then Inl NoReturn
      else if e = ChunkError \<or> (\<exists>code. e = ValidationError code \<and> code \<noteq> ''chunk-not-next'')
      then rbind (drop_peer E now i True nd) (chunks_done E i rnd)
      else chunks_done E i rnd nd)"

text \<open>Listeners of the service\<close>

definition tell_block :: "site \<Rightarrow> block \<Rightarrow> nat option \<Rightarrow> net \<Rightarrow> net" where
  "tell_block E b origin nt =
     (let i = block_id (e_prims E) (header b)
      in fold (\<lambda>j nt.
           if Some j \<noteq> origin \<and> \<not> recent_has (pr_known_blocks (peer_of j nt)) i
           then change_peer j (\<lambda>p. send (message ''inv'' [(''blocks'', hex_list [i]), (''txs'', JList [])])
                                     (p\<lparr>pr_known_blocks := recent_add i (pr_known_blocks p)\<rparr>)) nt
           else nt) (ready_peers nt) nt)"

definition tell_transfer :: "site \<Rightarrow> transfer \<Rightarrow> nat option \<Rightarrow> net \<Rightarrow> net" where
  "tell_transfer E t origin nt =
     (let i = txid (e_prims E) (Transfer t)
      in fold (\<lambda>j nt.
           if Some j \<noteq> origin \<and> \<not> recent_has (pr_known_txs (peer_of j nt)) i
           then change_peer j (\<lambda>p. send (message ''inv'' [(''blocks'', JList []), (''txs'', hex_list [i])])
                                     (p\<lparr>pr_known_txs := recent_add i (pr_known_txs p)\<rparr>)) nt
           else nt) (ready_peers nt) nt)"

definition p2p_listeners :: "site \<Rightarrow> (nat, net) listeners" where
  "p2p_listeners E = \<lparr>tip_listeners = [tell_block E], tx_listeners = [tell_transfer E]\<rparr>"

text \<open>The background check of a chunk file ends; the task that waits for it goes on.\<close>

definition chunk_checked :: "site \<Rightarrow> rat \<Rightarrow> node \<Rightarrow> node result" where
  "chunk_checked E now nd =
     (case nt_chunk_check (sv_peers nd) of
        None \<Rightarrow> Inr nd
      | Some data \<Rightarrow>
          let task = nt_chunk_task (sv_peers nd);
              nd = on_net (\<lambda>nt. nt\<lparr>nt_chunk_check := None\<rparr>) nd;
              nd = (case (task, sync_peer nd) of
                      (Some _, Some j) \<Rightarrow> at_peer j (\<lambda>p. p\<lparr>pr_last_progress := now\<rparr>) nd | _ \<Rightarrow> nd)
          in case task of
               None \<Rightarrow> Inr nd
             | Some t \<Rightarrow>
                 let i = ct_peer t; rnd = ct_round t
                 in case ct_stage t of
                      Await_previous \<Rightarrow>
                        if current_round i rnd nd then next_chunk E now i rnd nd else chunks_done E i rnd nd
                    | Checking index \<Rightarrow>
                        (case check_chunk_file (e_prims E) (e_params E) data (Some MAX_SYNC_CHUNK_BYTES) of
                           Inl e \<Rightarrow> chunk_failed E now i rnd e nd
                         | Inr checked \<Rightarrow>
                             if \<not> current_round i rnd nd then chunks_done E i rnd nd
                             else rbind (import_checked_chunk (e_prims E) (e_params E) (e_policy E) (p2p_listeners E) now checked (Some i) nd)
                                    (\<lambda>(r, nd). case r of
                                        Inl e \<Rightarrow> chunk_failed E now i rnd e nd
                                      | Inr _ \<Rightarrow> chunk_loop E now i rnd (at_peer i (\<lambda>p. p\<lparr>pr_last_progress := now\<rparr>) nd)))
                    | _ \<Rightarrow> Inr nd)"

definition check_stall :: "site \<Rightarrow> rat \<Rightarrow> node \<Rightarrow> node result" where
  "check_stall E now nd =
     (if nt_chunk_task (sv_peers nd) \<noteq> None \<and> nt_chunk_check (sv_peers nd) \<noteq> None then Inr nd
      else case sync_peer nd of
             None \<Rightarrow> Inr nd
           | Some i \<Rightarrow> if now - pr_last_progress (node_peer i nd) > STALL_TIMEOUT then drop_peer E now i False nd else Inr nd)"

end
