(* ===== verification/P2P.thy ===== *)
theory P2P
  imports P2P_Sync
begin

text \<open>
  The handlers of \<open>node/p2p.py\<close> for each type of message, the life of a connection, and the steps of the node as
  a whole.  \<open>Broke b\<close> is a \<open>ProtocolError\<close> (with \<open>ban=b\<close>) together with the state it leaves.
\<close>

datatype verdict = Fine | Broke bool

type_synonym handled = "(verdict \<times> node) result"

definition decoded :: "'a option \<Rightarrow> node \<Rightarrow> ('a \<Rightarrow> handled) \<Rightarrow> handled" where
  "decoded x nd f = (case x of None \<Rightarrow> Inr (Broke True, nd) | Some v \<Rightarrow> f v)"

definition fine :: "node result \<Rightarrow> handled" where
  "fine m = rmap (Pair Fine) m"

fun filter_each :: "('a \<Rightarrow> bool result) \<Rightarrow> 'a list \<Rightarrow> 'a list result" where
  "filter_each p [] = Inr []"
| "filter_each p (x # xs) = rbind (p x) (\<lambda>ok. rbind (filter_each p xs) (\<lambda>ys. Inr (if ok then x # ys else ys)))"

definition is_stored :: "bytes \<Rightarrow> node \<Rightarrow> bool result" where
  "is_stored i nd = rmap (\<lambda>h. h \<noteq> None) (find_header i (sv_store nd))"

section \<open>Hello\<close>

definition hello :: "site \<Rightarrow> ustr \<Rightarrow> node \<Rightarrow> json result" where
  "hello E agent nd =
     rbind (the_tip (sv_store nd)) (\<lambda>tip.
       Inr (message ''hello''
         [(''protocol'', JInt PROTOCOL_VERSION), (''network'', text_json (name (e_params E))),
          (''genesis'', hex_json (block_id (e_prims E) (header (ch_genesis (sv_chain nd))))),
          (''node_id'', JStr (nt_node_id (sv_peers nd))), (''height'', JInt (sh_height tip)),
          (''work'', JStr (hex_of_int (sh_chain_work tip))), (''chunks'', JInt (sealed_chunks (sv_store nd))),
          (''listen'', case listen_url (e_config E) of None \<Rightarrow> JNull | Some url \<Rightarrow> JStr url), (''agent'', JStr agent)]))"

fun in_parts :: "nat \<Rightarrow> 'a list \<Rightarrow> 'a list list" where
  "in_parts n xs = (if xs = [] \<or> n = 0 then [] else take n xs # in_parts n (drop n xs))"

declare in_parts.simps [simp del]

text \<open>The listen URL that counts: valid, and one that means something to this node.\<close>

definition heard_listen :: "site \<Rightarrow> peer \<Rightarrow> dict \<Rightarrow> ustr option" where
  "heard_listen E p m =
     (case get m ''listen'' of
        JStr s \<Rightarrow> if valid_url (e_lib E) (JStr s) \<and> meaningful_between (e_lib E) (pr_host p) s \<and> s \<noteq> [] then Some s else None
      | _ \<Rightarrow> None)"

definition note_node :: "ustr option \<Rightarrow> ustr \<Rightarrow> net \<Rightarrow> net" where
  "note_node url nid nt =
     (case url of
        None \<Rightarrow> nt
      | Some a \<Rightarrow> if a = [] then nt else nt\<lparr>nt_url_node := fmupd a nid (nt_url_node nt)\<rparr>)"

text \<open>A peer that passed every check of \<open>_handle_hello\<close>\<close>

definition greet_peer :: "site \<Rightarrow> rat \<Rightarrow> nat \<Rightarrow> ustr \<Rightarrow> int \<Rightarrow> int \<Rightarrow> int \<Rightarrow> ustr option \<Rightarrow> node \<Rightarrow> node result" where
  "greet_peer E now i nid h work chunks listen nd =
     (let nd = at_peer i (\<lambda>p. p\<lparr>pr_height := h, pr_work := work, pr_chunks := chunks, pr_node_id := nid, pr_ready := True,
                 pr_http_url := (case if pr_outbound p then pr_url p else listen of
                                   None \<Rightarrow> None | Some url \<Rightarrow> http_base (e_lib E) (JStr url))\<rparr>) nd;
          p = node_peer i nd;
          nd = on_net (\<lambda>nt. if pr_outbound p then (case pr_url p of None \<Rightarrow> nt | Some url \<Rightarrow> remember url nt)
                            else case listen of None \<Rightarrow> nt | Some url \<Rightarrow> learn url (is_local (e_lib E) (pr_host p)) nt) nd;
          nd = at_peer i (send (message ''get_peers'' [])) nd;
          txids = map (entry_id (e_prims E)) (entries (sv_mempool nd));
          nd = at_peer i (fold (\<lambda>part. send (message ''inv'' [(''txs'', hex_list part)])) (in_parts MAX_INV txids)) nd
      in maybe_sync E now nd)"

definition handle_hello :: "site \<Rightarrow> rat \<Rightarrow> nat \<Rightarrow> ustr \<Rightarrow> dict \<Rightarrow> node \<Rightarrow> handled" where
  "handle_hello E now i kind m nd =
     (let p = node_peer i nd; nt = sv_peers nd
      in if kind \<noteq> u ''hello'' then Inr (Broke False, nd)
         else if \<not> equals_int PROTOCOL_VERSION (get m ''protocol'') then Inr (Broke False, nd)
         else if get m ''network'' \<noteq> text_json (name (e_params E))
                 \<or> get m ''genesis'' \<noteq> hex_json (block_id (e_prims E) (header (ch_genesis (sv_chain nd))))
         then Inr (Broke False, nd)
         else case get m ''node_id'' of
           JStr nid \<Rightarrow>
             if \<not> (1 \<le> length nid \<and> length nid \<le> 64) then Inr (Broke True, nd)
             else if nid = nt_node_id nt
             then Inr (Fine, at_peer i (\<lambda>p. p\<lparr>pr_closed := True\<rparr>)
                    (on_net (\<lambda>nt. case pr_url p of
                        None \<Rightarrow> nt
                      | Some url \<Rightarrow> if url = [] then nt else nt\<lparr>nt_self_urls := insert_new url (nt_self_urls nt)\<rparr>) nd))
             else if lookup_or 0 (nt_banned nt) nid > now then Inr (Broke False, nd)
             else decoded (count_of m ''height'') nd (\<lambda>h.
                  decoded (count_of m ''chunks'') nd (\<lambda>chunks.
                  decoded (work_of (e_lib E) m) nd (\<lambda>work.
                    let listen = heard_listen E p m;
                        nd = on_net (note_node listen nid \<circ> note_node (pr_url p) nid) nd
                    in if nid \<in> (\<lambda>j. pr_node_id (node_peer j nd)) ` set (ready_peers nt)
                       then Inr (Fine, at_peer i (\<lambda>p. p\<lparr>pr_closed := True\<rparr>) nd)
                       else fine (greet_peer E now i nid h work chunks listen nd))))
         | _ \<Rightarrow> Inr (Broke True, nd))"

section \<open>News\<close>

definition on_inv :: "site \<Rightarrow> nat \<Rightarrow> dict \<Rightarrow> node \<Rightarrow> handled" where
  "on_inv E i m nd =
     decoded (ids_of m ''blocks'' MAX_INV) nd (\<lambda>blocks.
     decoded (ids_of m ''txs'' MAX_INV) nd (\<lambda>txs.
       let nd = at_peer i (\<lambda>p. p\<lparr>pr_known_blocks := fold recent_add blocks (pr_known_blocks p),
                               pr_known_txs := fold recent_add txs (pr_known_txs p)\<rparr>) nd
       in rbind (filter_each (\<lambda>b. rmap Not (is_stored b nd)) blocks) (\<lambda>want_blocks.
          let want_txs = filter (\<lambda>t. mempool_get t (sv_mempool nd) = None \<and> \<not> recent_has (nt_rejected_txs (sv_peers nd)) t
                                     \<and> find_tx t (sv_store nd) = None) txs
          in Inr (Fine, if want_blocks \<noteq> [] \<or> want_txs \<noteq> []
                        then at_peer i (send (message ''get_data'' [(''blocks'', hex_list want_blocks), (''txs'', hex_list want_txs)])) nd
                        else nd))))"

text \<open>One id of \<open>get_data\<close>; the state is the ids that are missing and the node.\<close>

definition serve_block :: "nat \<Rightarrow> bytes \<Rightarrow> bytes list \<times> node \<Rightarrow> (bytes list \<times> node) result" where
  "serve_block i b s =
     (case s of (missing, nd) \<Rightarrow>
        rbind (find_header b (sv_store nd)) (\<lambda>stored.
          if (case stored of None \<Rightarrow> True | Some sh \<Rightarrow> sh_status sh \<noteq> STATUS_VALID) then Inr (missing @ [b], nd)
          else Inr (missing, at_peer i (\<lambda>p. send_later b (p\<lparr>pr_known_blocks := recent_add b (pr_known_blocks p)\<rparr>)) nd)))"

definition serve_tx :: "nat \<Rightarrow> bytes \<Rightarrow> bytes list \<times> node \<Rightarrow> (bytes list \<times> node) result" where
  "serve_tx i t s =
     (case s of (missing, nd) \<Rightarrow>
        (case mempool_get t (sv_mempool nd) of
           None \<Rightarrow> Inr (missing @ [t], nd)
         | Some e \<Rightarrow> rbind (serialize_tx (Transfer (me_tx e))) (\<lambda>d.
             Inr (missing, at_peer i (\<lambda>p. send (message ''tx'' [(''hex'', hex_json d)])
                                            (p\<lparr>pr_known_txs := recent_add t (pr_known_txs p)\<rparr>)) nd))))"

definition on_get_data :: "nat \<Rightarrow> dict \<Rightarrow> node \<Rightarrow> handled" where
  "on_get_data i m nd =
     decoded (ids_of m ''blocks'' MAX_INV) nd (\<lambda>blocks.
     rbind (for_each (serve_block i) blocks ([], nd)) (\<lambda>(missing_blocks, nd).
     decoded (ids_of m ''txs'' MAX_INV) nd (\<lambda>txs.
     rbind (for_each (serve_tx i) txs ([], nd)) (\<lambda>(missing_txs, nd).
       Inr (Fine, if missing_blocks \<noteq> [] \<or> missing_txs \<noteq> []
                  then at_peer i (send (message ''not_found'' [(''blocks'', hex_list missing_blocks), (''txs'', hex_list missing_txs)])) nd
                  else nd)))))"

definition block_message :: "site \<Rightarrow> bytes \<Rightarrow> node \<Rightarrow> json option result" where
  "block_message E b nd =
     rmap (map_option (\<lambda>d. message ''block'' [(''hex'', hex_json d)])) (find_block_bytes (e_prims E) b (sv_store nd))"

text \<open>What follows on the outcome of a block that was submitted.\<close>

definition after_block :: "site \<Rightarrow> rat \<Rightarrow> nat \<Rightarrow> bytes \<Rightarrow> bool \<Rightarrow> submit_result \<Rightarrow> node \<Rightarrow> handled" where
  "after_block E now i b syncing r nd =
     (let harmless = (case sr_error r of Some (ValidationError code) \<Rightarrow> code \<in> HARMLESS_BLOCK_ERRORS | _ \<Rightarrow> False)
      in if sr_outcome r = INVALID \<and> \<not> harmless then Inr (Broke True, nd)
         else let nd = (if sr_outcome r = INVALID then at_peer i (\<lambda>p. p\<lparr>pr_work := 0\<rparr>) nd else nd)
              in if syncing
                 then fine (continue_sync E now i
                        (at_peer i (\<lambda>p. p\<lparr>pr_in_flight := pr_in_flight p |-| {|b|}, pr_last_progress := now\<rparr>) nd))
                 else Inr (Fine, nd))"

definition take_block :: "site \<Rightarrow> rat \<Rightarrow> nat \<Rightarrow> block \<Rightarrow> node \<Rightarrow> handled" where
  "take_block E now i blk nd =
     (let b = block_id (e_prims E) (header blk);
          nd = at_peer i (\<lambda>p. p\<lparr>pr_known_blocks := recent_add b (pr_known_blocks p)\<rparr>) nd;
          syncing = b |\<in>| pr_in_flight (node_peer i nd)
      in rbind (if syncing then Inr True else is_stored (bh_prev_id (header blk)) nd) (\<lambda>connects.
         if \<not> connects
         then rbind (our_work nd) (\<lambda>ours.
                let nd = at_peer i (\<lambda>p. p\<lparr>pr_work := max (pr_work p) (ours + 1)\<rparr>) nd
                in fine (if sync_peer nd = None then start_sync E now i nd else Inr nd))
         else let nd = at_peer i (\<lambda>p. p\<lparr>pr_height := max (pr_height p) (height blk)\<rparr>) nd
              in rbind (Service.submit_block (e_prims E) (e_params E) (e_policy E) (p2p_listeners E) now blk (Some i) syncing nd)
                   (\<lambda>(r, nd). after_block E now i b syncing r nd)))"

definition on_block :: "site \<Rightarrow> rat \<Rightarrow> nat \<Rightarrow> dict \<Rightarrow> node \<Rightarrow> handled" where
  "on_block E now i m nd =
     decoded (hex_of_message m ''hex'') nd (\<lambda>data.
       if int (length data) > max_block_size (e_params E) then Inr (Broke True, nd)
       else case block_from_bytes data of
              Inl e \<Rightarrow> if e = DecodeError then Inr (Broke True, nd) else Inl e
            | Inr blk \<Rightarrow> take_block E now i blk nd)"

definition on_tx :: "site \<Rightarrow> rat \<Rightarrow> nat \<Rightarrow> dict \<Rightarrow> node \<Rightarrow> handled" where
  "on_tx E now i m nd =
     decoded (hex_of_message m ''hex'') nd (\<lambda>data.
       case transaction_from_bytes data of
         Inl e \<Rightarrow> if e = DecodeError then Inr (Broke True, nd) else Inl e
       | Inr tx \<Rightarrow>
           let t = txid (e_prims E) tx;
               nd = at_peer i (\<lambda>p. p\<lparr>pr_known_txs := recent_add t (pr_known_txs p)\<rparr>) nd
           in if mempool_get t (sv_mempool nd) \<noteq> None \<or> recent_has (nt_rejected_txs (sv_peers nd)) t then Inr (Fine, nd)
              else rbind (submit_transaction (e_prims E) (e_params E) (e_policy E) (p2p_listeners E) now tx (Some i) nd)
                     (\<lambda>(r, nd). case r of
                         Inr _ \<Rightarrow> Inr (Fine, nd)
                       | Inl (ValidationError code) \<Rightarrow>
                           if code \<in> INVALID_TX_ERRORS then Inr (Broke True, nd)
                           else Inr (Fine, on_net (\<lambda>nt. nt\<lparr>nt_rejected_txs := recent_add t (nt_rejected_txs nt)\<rparr>) nd)
                       | Inl e \<Rightarrow> Inl e))"

definition on_not_found :: "nat \<Rightarrow> dict \<Rightarrow> node \<Rightarrow> handled" where
  "on_not_found i m nd =
     decoded (ids_of m ''blocks'' MAX_INV) nd (\<lambda>blocks.
       Inr (if list_ex (\<lambda>b. b |\<in>| pr_in_flight (node_peer i nd)) blocks then Broke False else Fine, nd))"

definition on_get_headers :: "nat \<Rightarrow> dict \<Rightarrow> node \<Rightarrow> handled" where
  "on_get_headers i m nd =
     decoded (ids_of m ''locator'' MAX_LOCATOR) nd (\<lambda>ids.
     rbind (headers_after ids (int MAX_HEADERS) (sv_store nd)) (\<lambda>headers.
     rbind (map_each serialize_header headers) (\<lambda>ds.
       Inr (Fine, at_peer i (send (message ''headers'' [(''headers'', hex_list ds)])) nd))))"

definition on_get_peers :: "site \<Rightarrow> nat \<Rightarrow> node \<Rightarrow> handled" where
  "on_get_peers E i nd =
     (let nt = sv_peers nd; host = pr_host (node_peer i nd);
          urls = take (MAX_PEER_URLS - 1)
            (filter (\<lambda>url. url \<notin> set (nt_self_urls nt) \<and> meaningful_between (e_lib E) host url) (nt_addresses nt));
          urls = (case listen_url (e_config E) of
                    None \<Rightarrow> urls
                  | Some url \<Rightarrow> if url \<noteq> [] \<and> meaningful_between (e_lib E) host url then urls @ [url] else urls)
      in Inr (Fine, at_peer i (send (message ''peers'' [(''urls'', JList (map JStr urls))])) nd))"

definition learn_url :: "site \<Rightarrow> ustr option \<Rightarrow> json \<Rightarrow> net \<Rightarrow> net" where
  "learn_url E host url nt =
     (case url of
        JStr s \<Rightarrow> if valid_url (e_lib E) url \<and> meaningful_between (e_lib E) host s then learn s (is_local (e_lib E) host) nt else nt
      | _ \<Rightarrow> nt)"

definition on_peers :: "site \<Rightarrow> nat \<Rightarrow> dict \<Rightarrow> node \<Rightarrow> handled" where
  "on_peers E i m nd =
     decoded (list_of m ''urls'' MAX_PEER_URLS) nd (\<lambda>urls.
       Inr (Fine, on_net (fold (learn_url E (pr_host (node_peer i nd))) urls) nd))"

definition read_headers :: "json list \<Rightarrow> block_header list result" where
  "read_headers vs = map_each (\<lambda>v. rbind (bytes_fromhex v) header_from_bytes) vs"

fun linked :: "prims \<Rightarrow> block_header list \<Rightarrow> bool" where
  "linked P (h # g # hs) \<longleftrightarrow> bh_prev_id g = block_id P h \<and> linked P (g # hs)"
| "linked P hs \<longleftrightarrow> True"

definition on_headers :: "site \<Rightarrow> nat \<Rightarrow> dict \<Rightarrow> node \<Rightarrow> handled" where
  "on_headers E i m nd =
     decoded (list_of m ''headers'' MAX_HEADERS) nd (\<lambda>vs.
       if sync_peer nd \<noteq> Some i \<or> \<not> pr_awaiting_headers (node_peer i nd) then Inr (Fine, nd)
       else let nd = at_peer i (\<lambda>p. p\<lparr>pr_awaiting_headers := False\<rparr>) nd
            in case read_headers vs of
                 Inl e \<Rightarrow> if e \<in> {TypeError, ValueError, DecodeError} then Inr (Broke True, nd) else Inl e
               | Inr headers \<Rightarrow>
                   if \<not> linked (e_prims E) headers then Inr (Broke True, nd)
                   else Inr (Fine, on_net (\<lambda>nt. nt\<lparr>nt_header_checks := nt_header_checks nt @
                          [\<lparr>hc_peer = i, hc_headers = headers, hc_round = pr_sync_round (peer_of i nt)\<rparr>]\<rparr>)
                        (at_peer i (\<lambda>p. p\<lparr>pr_checking_headers := True\<rparr>) nd)))"

definition handle :: "site \<Rightarrow> rat \<Rightarrow> nat \<Rightarrow> ustr \<Rightarrow> dict \<Rightarrow> node \<Rightarrow> handled" where
  "handle E now i kind m nd =
     (if kind = u ''inv'' then on_inv E i m nd
      else if kind = u ''get_data'' then on_get_data i m nd
      else if kind = u ''block'' then on_block E now i m nd
      else if kind = u ''tx'' then on_tx E now i m nd
      else if kind = u ''not_found'' then on_not_found i m nd
      else if kind = u ''get_headers'' then on_get_headers i m nd
      else if kind = u ''headers'' then on_headers E i m nd
      else if kind = u ''get_peers'' then on_get_peers E i nd
      else if kind = u ''peers'' then on_peers E i m nd
      else Inr (Fine, nd))"

section \<open>A connection\<close>

definition fresh_peer :: "net \<Rightarrow> nat" where
  "fresh_peer nt = (if fmdom (nt_peers nt) = {||} then 0 else fMax (fmdom (nt_peers nt)) + 1)"

definition open_connection :: "site \<Rightarrow> ustr \<Rightarrow> rat \<Rightarrow> bool \<Rightarrow> ustr \<Rightarrow> ustr option \<Rightarrow> node \<Rightarrow> node result" where
  "open_connection E agent now outbound label host nd =
     (let i = fresh_peer (sv_peers nd);
          nd = on_net (\<lambda>nt. nt\<lparr>nt_peers := fmupd i (new_peer outbound label host now) (nt_peers nt),
                               nt_connected := nt_connected nt @ [i]\<rparr>) nd
      in rbind (hello E agent nd) (\<lambda>m. Inr (at_peer i (send m) nd)))"

definition dialed :: "site \<Rightarrow> ustr \<Rightarrow> rat \<Rightarrow> ustr \<Rightarrow> ustr option \<Rightarrow> node \<Rightarrow> node result" where
  "dialed E agent now url host nd =
     open_connection E agent now True url host
       (on_net (\<lambda>nt. nt\<lparr>nt_failures := fmdrop url (nt_failures nt), nt_dialing := remove1 url (nt_dialing nt)\<rparr>) nd)"

text \<open>\<open>accept\<close>: the close code of a connection that is refused.\<close>

definition accept :: "site \<Rightarrow> ustr \<Rightarrow> rat \<Rightarrow> ustr option \<Rightarrow> ustr \<Rightarrow> node \<Rightarrow> (int option \<times> node) result" where
  "accept E agent now host label nd =
     (case inbound_refusal E now host (sv_peers nd) of
        Some code \<Rightarrow> Inr (Some code, nd)
      | None \<Rightarrow> rmap (Pair None) (open_connection E agent now False label host nd))"

text \<open>The \<open>except\<close> and \<open>finally\<close> clauses of \<open>_serve\<close>\<close>

definition leave :: "site \<Rightarrow> rat \<Rightarrow> nat \<Rightarrow> bool \<Rightarrow> node \<Rightarrow> node result" where
  "leave E now i banned nd =
     (let nd = (if banned then on_net (ban (e_lib E) now i) nd else nd);
          nd = on_net (\<lambda>nt. nt\<lparr>nt_connected := removeAll i (nt_connected nt)\<rparr>) nd;
          nd = at_peer i (\<lambda>p. p\<lparr>pr_closed := True, pr_reading := Finished\<rparr>) nd
      in if sync_peer nd = Some i then maybe_sync E now (stop_sync nd) else Inr nd)"

text \<open>Going on after a message: the reader stops when the peer was closed meanwhile.\<close>

definition read_on :: "site \<Rightarrow> rat \<Rightarrow> nat \<Rightarrow> verdict \<times> node \<Rightarrow> node result" where
  "read_on E now i r =
     (case r of
        (Broke b, nd) \<Rightarrow> leave E now i b nd
      | (Fine, nd) \<Rightarrow>
          if pr_closed (node_peer i nd) then leave E now i False nd
          else Inr (at_peer i (\<lambda>p. p\<lparr>pr_reading := Ready_to_read\<rparr>) nd))"

definition handle_now :: "site \<Rightarrow> rat \<Rightarrow> nat \<Rightarrow> ustr \<Rightarrow> dict \<Rightarrow> node \<Rightarrow> node result" where
  "handle_now E now i kind m nd =
     (if pr_closed (node_peer i nd) then leave E now i False nd
      else rbind (handle E now i kind m nd) (read_on E now i))"

definition received :: "site \<Rightarrow> rat \<Rightarrow> nat \<Rightarrow> ustr \<Rightarrow> node \<Rightarrow> node result" where
  "received E now i s nd =
     (case pr_reading (node_peer i nd) of
        Expect_hello \<Rightarrow>
          (case parse_message (e_lib E) s of
             None \<Rightarrow> leave E now i True nd
           | Some (kind, m) \<Rightarrow> rbind (handle_hello E now i kind m nd) (read_on E now i))
      | Ready_to_read \<Rightarrow>
          (case parse_message (e_lib E) s of
             None \<Rightarrow> leave E now i True nd
           | Some (kind, m) \<Rightarrow>
               rbind (take_tokens now (message_cost kind m) (pr_budget (node_peer i nd))) (\<lambda>(wait, budget).
                 let nd = at_peer i (\<lambda>p. p\<lparr>pr_budget := budget\<rparr>) nd
                 in if wait > 0 then Inr (at_peer i (\<lambda>p. p\<lparr>pr_reading := Held_back kind m (now + wait)\<rparr>) nd)
                    else handle_now E now i kind m nd))
      | _ \<Rightarrow> Inr nd)"

definition resumed :: "site \<Rightarrow> rat \<Rightarrow> nat \<Rightarrow> node \<Rightarrow> node result" where
  "resumed E now i nd =
     (case pr_reading (node_peer i nd) of
        Held_back kind m til \<Rightarrow> if til \<le> now then handle_now E now i kind m nd else Inr nd
      | _ \<Rightarrow> Inr nd)"

text \<open>One turn of \<open>write_loop\<close>: what is sent, if anything.\<close>

definition write_next :: "site \<Rightarrow> nat \<Rightarrow> node \<Rightarrow> (json option \<times> node) result" where
  "write_next E i nd =
     (case pr_queue (node_peer i nd) of
        [] \<Rightarrow> Inr (None, nd)
      | x # xs \<Rightarrow>
          let nd = at_peer i (\<lambda>p. p\<lparr>pr_queue := xs\<rparr>) nd
          in case x of
               Message m \<Rightarrow> Inr (Some m, nd)
             | Block_later b \<Rightarrow>
                 (case block_message E b nd of
                    Inl e \<Rightarrow> Inr (None, at_peer i (\<lambda>p. p\<lparr>pr_closed := True\<rparr>) nd)
                  | Inr m \<Rightarrow> Inr (m, nd))
             | Stop \<Rightarrow> Inr (None, at_peer i (\<lambda>p. p\<lparr>pr_closed := True\<rparr>) nd))"

section \<open>The node\<close>

definition tick :: "site \<Rightarrow> rat \<Rightarrow> node \<Rightarrow> node result" where
  "tick E now nd = check_stall E now (on_net (dial_more E now \<circ> forget_expired_bans now) nd)"

datatype event =
    Tick
  | Dialed ustr "ustr option"
  | Dial_failed ustr
  | Incoming "ustr option" ustr
  | Received nat ustr
  | Resumed nat
  | Left nat
  | Written nat
  | Headers_begin header_check
  | Pow_done pow_check
  | Chunks_begin
  | Downloaded "bytes option option"
  | Chunk_checked
  | Own_block block
  | Own_transfer transaction

text \<open>One step of the event loop, between two awaits, at time \<open>now\<close>.\<close>

fun node_step :: "site \<Rightarrow> ustr \<Rightarrow> rat \<Rightarrow> event \<Rightarrow> node \<Rightarrow> node result" where
  "node_step E agent now Tick nd = tick E now nd"
| "node_step E agent now (Dialed url host) nd = dialed E agent now url host nd"
| "node_step E agent now (Dial_failed url) nd = Inr (on_net (dial_failed E now url) nd)"
| "node_step E agent now (Incoming host label) nd = rmap snd (accept E agent now host label nd)"
| "node_step E agent now (Received i s) nd = (if i \<in> set (nt_connected (sv_peers nd)) then received E now i s nd else Inr nd)"
| "node_step E agent now (Resumed i) nd = (if i \<in> set (nt_connected (sv_peers nd)) then resumed E now i nd else Inr nd)"
| "node_step E agent now (Left i) nd = (if i \<in> set (nt_connected (sv_peers nd)) then leave E now i False nd else Inr nd)"
| "node_step E agent now (Written i) nd = (if i |\<in>| fmdom (nt_peers (sv_peers nd)) then rmap snd (write_next E i nd) else Inr nd)"
| "node_step E agent now (Headers_begin hc) nd =
     (if hc \<in> set (nt_header_checks (sv_peers nd))
      then check_headers_begin E now hc (on_net (\<lambda>nt. nt\<lparr>nt_header_checks := remove1 hc (nt_header_checks nt)\<rparr>) nd)
      else Inr nd)"
| "node_step E agent now (Pow_done pc) nd =
     (if pc \<in> set (nt_pow_checks (sv_peers nd))
      then pow_checked E now pc (on_net (\<lambda>nt. nt\<lparr>nt_pow_checks := remove1 pc (nt_pow_checks nt)\<rparr>) nd)
      else Inr nd)"
| "node_step E agent now Chunks_begin nd =
     (case nt_chunk_task (sv_peers nd) of
        Some t \<Rightarrow> if ct_stage t = Starting then chunk_loop E now (ct_peer t) (ct_round t) nd else Inr nd
      | None \<Rightarrow> Inr nd)"
| "node_step E agent now (Downloaded answer) nd =
     (case nt_chunk_task (sv_peers nd) of
        Some t \<Rightarrow> (case ct_stage t of
            Downloading index \<Rightarrow> chunk_downloaded E (ct_peer t) (ct_round t) index answer nd | _ \<Rightarrow> Inr nd)
      | None \<Rightarrow> Inr nd)"
| "node_step E agent now Chunk_checked nd = chunk_checked E now nd"
| "node_step E agent now (Own_block b) nd =
     rmap snd (Service.submit_block (e_prims E) (e_params E) (e_policy E) (p2p_listeners E) now b None False nd)"
| "node_step E agent now (Own_transfer tx) nd =
     rmap snd (submit_transaction (e_prims E) (e_params E) (e_policy E) (p2p_listeners E) now tx None nd)"

text \<open>What the node can come to from a state, whatever peers and users do, in whatever order.\<close>

inductive reaches :: "site \<Rightarrow> ustr \<Rightarrow> node \<Rightarrow> node \<Rightarrow> bool" for E agent nd where
  start: "reaches E agent nd nd"
| step: "reaches E agent nd nd1 \<Longrightarrow> node_step E agent now e nd1 = Inr nd2 \<Longrightarrow> reaches E agent nd nd2"

end
