(* ===== verification/P2P_Inv.thy ===== *)
theory P2P_Inv
  imports P2P
begin

text \<open>
  What the node never loses, whatever its peers send and in whatever order: what it keeps of each peer is bounded,
  and catching up with a peer stays in order.  At most one batch of headers is being checked for a round of
  catching up, never while another answer is awaited, and no headers are asked for while a chunk is.
\<close>

section \<open>The invariant\<close>

definition recent_ok :: "recent \<Rightarrow> bool" where
  "recent_ok r \<longleftrightarrow> rc_limit r = KNOWN_LIMIT \<and> distinct (rc_items r) \<and> length (rc_items r) \<le> KNOWN_LIMIT"

definition peer_bounded :: "peer \<Rightarrow> bool" where
  "peer_bounded p \<longleftrightarrow> recent_ok (pr_known_blocks p) \<and> recent_ok (pr_known_txs p) \<and>
     length (pr_queue p) \<le> SEND_QUEUE_LIMIT + 1 \<and> (\<not> pr_closed p \<longrightarrow> length (pr_queue p) \<le> SEND_QUEUE_LIMIT) \<and>
     fcard (pr_in_flight p) \<le> BLOCKS_PER_REQUEST \<and> length (pr_waiting p) < MAX_PENDING_HEADERS + MAX_HEADERS \<and>
     tb_rate (pr_budget p) = MESSAGE_RATE"

text \<open>How many batches of headers of a peer and a round are being checked\<close>

definition under_way :: "nat \<Rightarrow> nat \<Rightarrow> net \<Rightarrow> nat" where
  "under_way i rnd nt =
     length (filter (\<lambda>c. hc_peer c = i \<and> hc_round c = rnd) (nt_header_checks nt)) +
     length (filter (\<lambda>c. pc_peer c = i \<and> pc_round c = rnd) (nt_pow_checks nt))"

text \<open>A peer of which only chunks are asked\<close>

definition idle :: "peer \<Rightarrow> bool" where
  "idle p \<longleftrightarrow> \<not> pr_awaiting_headers p \<and> pr_waiting p = [] \<and> pr_in_flight p = {||} \<and> \<not> pr_more_headers p"

definition orderly :: "peer \<Rightarrow> nat \<Rightarrow> bool" where
  "orderly p n \<longleftrightarrow> (n > 0 \<longrightarrow> pr_checking_headers p \<and> \<not> pr_awaiting_headers p) \<and>
     (n > 0 \<or> pr_awaiting_headers p \<longrightarrow> length (pr_waiting p) < MAX_PENDING_HEADERS)"

definition chunks_alone :: "net \<Rightarrow> bool" where
  "chunks_alone nt \<longleftrightarrow> (\<forall>t. nt_chunk_task nt = Some t \<longrightarrow>
     nt_sync_peer nt = Some (ct_peer t) \<and> pr_sync_round (peer_of (ct_peer t) nt) = ct_round t \<and>
     idle (peer_of (ct_peer t) nt) \<and> under_way (ct_peer t) (ct_round t) nt = 0)"

definition sane :: "net \<Rightarrow> bool" where
  "sane nt \<longleftrightarrow>
     (\<forall>i. peer_bounded (peer_of i nt) \<and> orderly (peer_of i nt) (under_way i (pr_sync_round (peer_of i nt)) nt)) \<and>
     (\<forall>i rnd. under_way i rnd nt \<le> 1 \<and> (under_way i rnd nt > 0 \<longrightarrow> rnd \<le> pr_sync_round (peer_of i nt))) \<and>
     (\<forall>c\<in>set (nt_header_checks nt). length (hc_headers c) \<le> MAX_HEADERS) \<and>
     (\<forall>c\<in>set (nt_pow_checks nt). length (pc_checked c) \<le> MAX_HEADERS) \<and>
     chunks_alone nt \<and> recent_ok (nt_rejected_txs nt)"

section \<open>Peers\<close>

lemma recent_ok_new [simp]: "recent_ok new_recent"
  by (simp add: recent_ok_def new_recent_def)

lemma distinct_tl_snoc: "distinct xs \<Longrightarrow> x \<notin> set xs \<Longrightarrow> distinct (tl (xs @ [x]))"
  by (cases xs) auto

lemma recent_ok_add [simp]:
  assumes "recent_ok r"
  shows "recent_ok (recent_add i r)"
proof -
  have "length (filter (\<lambda>x. x \<noteq> i) (rc_items r)) \<le> KNOWN_LIMIT"
    using assms length_filter_le [of "\<lambda>x. x \<noteq> i" "rc_items r"] unfolding recent_ok_def by linarith
  then show ?thesis
    using assms unfolding recent_ok_def recent_add_def Let_def by (auto intro!: distinct_tl_snoc)
qed

lemma recent_ok_fold [simp]: "recent_ok r \<Longrightarrow> recent_ok (fold recent_add is r)"
  by (induction "is" arbitrary: r) auto

definition sync_view :: "peer \<Rightarrow> nat \<times> bool \<times> bool \<times> bytes list \<times> bytes fset \<times> bool" where
  "sync_view p = (pr_sync_round p, pr_awaiting_headers p, pr_checking_headers p, pr_waiting p, pr_in_flight p, pr_more_headers p)"

text \<open>A change of a peer that has nothing to do with catching up\<close>

definition aside :: "(peer \<Rightarrow> peer) \<Rightarrow> bool" where
  "aside f \<longleftrightarrow> (\<forall>p. sync_view (f p) = sync_view p \<and> (peer_bounded p \<longrightarrow> peer_bounded (f p)))"

lemma aside_id: "aside (\<lambda>p. p)"
  by (simp add: aside_def)

lemma aside_comp: "aside f \<Longrightarrow> aside g \<Longrightarrow> aside (\<lambda>p. f (g p))"
  by (simp add: aside_def)

lemma aside_put_item: "aside (put_item x)"
  by (auto simp: aside_def sync_view_def peer_bounded_def put_item_def)

lemma aside_send: "aside (send m)" "aside (send_later b)"
  by (simp_all add: send_def send_later_def aside_put_item)

lemma put_item_fields [simp]:
  "pr_sync_round (put_item x p) = pr_sync_round p" "pr_awaiting_headers (put_item x p) = pr_awaiting_headers p"
  "pr_checking_headers (put_item x p) = pr_checking_headers p" "pr_waiting (put_item x p) = pr_waiting p"
  "pr_in_flight (put_item x p) = pr_in_flight p" "pr_more_headers (put_item x p) = pr_more_headers p"
  by (simp_all add: put_item_def)

lemma send_fields [simp]:
  "pr_sync_round (send m p) = pr_sync_round p" "pr_awaiting_headers (send m p) = pr_awaiting_headers p"
  "pr_checking_headers (send m p) = pr_checking_headers p" "pr_waiting (send m p) = pr_waiting p"
  "pr_in_flight (send m p) = pr_in_flight p" "pr_more_headers (send m p) = pr_more_headers p"
  by (simp_all add: send_def)

lemma send_bounded [simp]: "peer_bounded p \<Longrightarrow> peer_bounded (send m p)"
  using aside_send(1) by (auto simp: aside_def)

lemma send_closed [simp]: "pr_closed p \<Longrightarrow> send m p = p"
  by (simp add: send_def put_item_def)

lemma aside_fold: "(\<And>x. aside (f x)) \<Longrightarrow> aside (fold f xs)"
proof (induction xs)
  case (Cons x xs)
  then show ?case using aside_comp [of "fold f xs" "f x"] by (simp add: comp_def)
qed (simp add: aside_def)

lemma new_peer_bounded [simp]: "peer_bounded (new_peer outbound label host now)"
  by (simp add: peer_bounded_def new_peer_def new_bucket_def fcard_fempty BLOCKS_PER_REQUEST_def MAX_PENDING_HEADERS_def)

section \<open>Changing one peer\<close>

lemma peer_of_change: "peer_of j (change_peer i f nt) = (if j = i then f (peer_of i nt) else peer_of j nt)"
  by (simp add: peer_of_def change_peer_def)

lemma peer_of_change_same [simp]: "peer_of i (change_peer i f nt) = f (peer_of i nt)"
  by (simp add: peer_of_change)

lemma change_fields [simp]:
  "under_way j rnd (change_peer i f nt) = under_way j rnd nt"
  "nt_header_checks (change_peer i f nt) = nt_header_checks nt" "nt_pow_checks (change_peer i f nt) = nt_pow_checks nt"
  "nt_chunk_task (change_peer i f nt) = nt_chunk_task nt" "nt_sync_peer (change_peer i f nt) = nt_sync_peer nt"
  "nt_rejected_txs (change_peer i f nt) = nt_rejected_txs nt" "nt_connected (change_peer i f nt) = nt_connected nt"
  "nt_chunk_check (change_peer i f nt) = nt_chunk_check nt"
  by (simp_all add: change_peer_def under_way_def)

lemma sane_change_peer:
  assumes "sane nt" and "peer_bounded (f (peer_of i nt))"
    and "pr_sync_round (peer_of i nt) \<le> pr_sync_round (f (peer_of i nt))"
    and "orderly (f (peer_of i nt)) (under_way i (pr_sync_round (f (peer_of i nt))) nt)"
    and "\<And>t. nt_chunk_task nt = Some t \<Longrightarrow> ct_peer t = i \<Longrightarrow>
      pr_sync_round (f (peer_of i nt)) = ct_round t \<and> idle (f (peer_of i nt))"
  shows "sane (change_peer i f nt)"
  using assms by (auto simp: sane_def peer_of_change chunks_alone_def) (meson order_trans)

lemma aside_view:
  assumes "sync_view q = sync_view p"
  shows "pr_sync_round q = pr_sync_round p" "orderly q n = orderly p n" "idle q = idle p"
  using assms by (auto simp: sync_view_def orderly_def idle_def)

lemma sane_aside:
  assumes "sane nt" and "aside f"
  shows "sane (change_peer i f nt)"
proof (rule sane_change_peer [OF assms(1)])
  have v: "sync_view (f (peer_of i nt)) = sync_view (peer_of i nt)" using assms(2) by (simp add: aside_def)
  note view = aside_view [OF v]
  show "peer_bounded (f (peer_of i nt))" using assms by (auto simp: aside_def sane_def)
  show "pr_sync_round (peer_of i nt) \<le> pr_sync_round (f (peer_of i nt))" by (simp add: view)
  show "orderly (f (peer_of i nt)) (under_way i (pr_sync_round (f (peer_of i nt))) nt)"
    using assms(1) by (simp add: view sane_def)
  show "pr_sync_round (f (peer_of i nt)) = ct_round t \<and> idle (f (peer_of i nt))"
    if "nt_chunk_task nt = Some t" "ct_peer t = i" for t
    using assms(1) that by (auto simp: view sane_def chunks_alone_def)
qed

lemma sane_new [simp]: "sane (new_net cfg nid)"
  by (simp add: sane_def new_net_def peer_of_def under_way_def orderly_def chunks_alone_def new_peer_def)
    (simp add: peer_bounded_def new_bucket_def fcard_fempty BLOCKS_PER_REQUEST_def MAX_PENDING_HEADERS_def)

text \<open>The fields that the invariant does not speak of\<close>

lemma peer_of_fields [simp]:
  "peer_of i (nt\<lparr>nt_connected := a\<rparr>) = peer_of i nt" "peer_of i (nt\<lparr>nt_sync_peer := b\<rparr>) = peer_of i nt"
  "peer_of i (nt\<lparr>nt_chunk_task := c\<rparr>) = peer_of i nt" "peer_of i (nt\<lparr>nt_header_checks := d\<rparr>) = peer_of i nt"
  "peer_of i (nt\<lparr>nt_pow_checks := e\<rparr>) = peer_of i nt" "peer_of i (nt\<lparr>nt_rejected_txs := f\<rparr>) = peer_of i nt"
  "peer_of i (nt\<lparr>nt_chunk_check := g\<rparr>) = peer_of i nt"
  by (simp_all add: peer_of_def)

lemma sane_fields [simp]:
  "sane (nt\<lparr>nt_connected := a\<rparr>) = sane nt" "sane (nt\<lparr>nt_addresses := b\<rparr>) = sane nt" "sane (nt\<lparr>nt_private := b\<rparr>) = sane nt"
  "sane (nt\<lparr>nt_self_urls := b\<rparr>) = sane nt" "sane (nt\<lparr>nt_url_node := c\<rparr>) = sane nt" "sane (nt\<lparr>nt_dialing := b\<rparr>) = sane nt"
  "sane (nt\<lparr>nt_retry_at := d\<rparr>) = sane nt" "sane (nt\<lparr>nt_failures := e\<rparr>) = sane nt" "sane (nt\<lparr>nt_banned := d\<rparr>) = sane nt"
  "sane (nt\<lparr>nt_banned_hosts := d\<rparr>) = sane nt" "sane (nt\<lparr>nt_remembered := b\<rparr>) = sane nt"
  "sane (nt\<lparr>nt_remembered_changed := g\<rparr>) = sane nt" "sane (nt\<lparr>nt_chunk_check := h\<rparr>) = sane nt"
  by (simp_all add: sane_def peer_of_def under_way_def chunks_alone_def)

lemma sane_no_task: "sane nt \<Longrightarrow> sane (nt\<lparr>nt_chunk_task := None\<rparr>)" "sane nt \<Longrightarrow> sane (nt\<lparr>nt_chunk_task := None, nt_sync_peer := s\<rparr>)"
  "sane nt \<Longrightarrow> sane (nt\<lparr>nt_sync_peer := s, nt_chunk_task := None\<rparr>)"
  by (simp_all add: sane_def peer_of_def under_way_def chunks_alone_def)

lemma sane_rejected: "sane nt \<Longrightarrow> sane (nt\<lparr>nt_rejected_txs := recent_add i (nt_rejected_txs nt)\<rparr>)"
  by (simp add: sane_def peer_of_def under_way_def chunks_alone_def)

section \<open>Asking for headers and blocks\<close>

lemma on_net_fields [simp]:
  "sv_peers (on_net f nd) = f (sv_peers nd)" "sv_chain (on_net f nd) = sv_chain nd"
  "sv_mempool (on_net f nd) = sv_mempool nd" "sv_store (on_net f nd) = sv_store nd"
  "sv_peers (at_peer i g nd) = change_peer i g (sv_peers nd)" "sv_chain (at_peer i g nd) = sv_chain nd"
  "sv_mempool (at_peer i g nd) = sv_mempool nd" "sv_store (at_peer i g nd) = sv_store nd"
  by (simp_all add: on_net_def at_peer_def sv_store_def)

text \<open>What a step may do to the tables of checks under way: nothing.\<close>

definition same_checks :: "node \<Rightarrow> node \<Rightarrow> bool" where
  "same_checks nd nd' \<longleftrightarrow> nt_header_checks (sv_peers nd') = nt_header_checks (sv_peers nd) \<and>
     nt_pow_checks (sv_peers nd') = nt_pow_checks (sv_peers nd)"

lemma same_checks_refl [simp]: "same_checks nd nd"
  by (simp add: same_checks_def)

lemma same_checks_trans [trans]: "same_checks a b \<Longrightarrow> same_checks b c \<Longrightarrow> same_checks a c"
  by (simp add: same_checks_def)

lemma same_checks_under_way: "same_checks nd nd' \<Longrightarrow> under_way i rnd (sv_peers nd') = under_way i rnd (sv_peers nd)"
  by (simp add: same_checks_def under_way_def)

text \<open>A peer that may be asked for headers\<close>

definition may_ask :: "nat \<Rightarrow> net \<Rightarrow> bool" where
  "may_ask i nt \<longleftrightarrow> under_way i (pr_sync_round (peer_of i nt)) nt = 0 \<and>
     length (pr_waiting (peer_of i nt)) < MAX_PENDING_HEADERS \<and> (\<forall>t. nt_chunk_task nt = Some t \<longrightarrow> ct_peer t \<noteq> i)"

lemma request_headers_cases:
  assumes "request_headers E i nd = Inr nd'"
  obtains m where "nd' = at_peer i (\<lambda>p. send m (p\<lparr>pr_awaiting_headers := True\<rparr>)) nd"
  using assms by (auto simp: request_headers_def Let_def result_simps)

lemma awaiting_bounded [simp]: "peer_bounded (p\<lparr>pr_awaiting_headers := b\<rparr>) = peer_bounded p"
  by (simp add: peer_bounded_def)

lemma request_headers_sane:
  assumes "request_headers E i nd = Inr nd'" and "sane (sv_peers nd)" and "may_ask i (sv_peers nd)"
  shows "sane (sv_peers nd')"
proof -
  from assms(1) obtain m where nd': "nd' = at_peer i (\<lambda>p. send m (p\<lparr>pr_awaiting_headers := True\<rparr>)) nd"
    by (rule request_headers_cases)
  show ?thesis
    unfolding nd' using assms(2,3)
    by (auto intro!: sane_change_peer simp: may_ask_def orderly_def) (auto simp: sane_def)
qed

text \<open>What is left as it was when headers are asked for\<close>

lemma request_headers_keeps:
  assumes "request_headers E i nd = Inr nd'"
  shows "same_checks nd nd'" "pr_closed (node_peer j nd) \<Longrightarrow> pr_closed (node_peer j nd')"
  using assms by (auto elim!: request_headers_cases simp: same_checks_def node_peer_def peer_of_change send_def put_item_def)

lemma fcard_of_list_le: "fcard (fset_of_list xs) \<le> length xs"
  using card_length [of xs] by (simp add: fcard.rep_eq fset_of_list.rep_eq)

lemma request_blocks_sane:
  assumes "sane (sv_peers nd)" and "pr_in_flight (node_peer i nd) = {||}" and "\<not> idle (node_peer i nd)"
  shows "sane (sv_peers (request_blocks i nd))"
proof -
  define p where "p = node_peer i nd"
  define batch where "batch = take BLOCKS_PER_REQUEST (pr_waiting p)"
  define q where "q = p\<lparr>pr_waiting := drop BLOCKS_PER_REQUEST (pr_waiting p), pr_in_flight := pr_in_flight p |\<union>| fset_of_list batch\<rparr>"
  have p: "peer_bounded p" "orderly p (under_way i (pr_sync_round p) (sv_peers nd))"
    using assms(1) by (auto simp: p_def node_peer_def sane_def)
  have "length batch \<le> BLOCKS_PER_REQUEST" by (simp add: batch_def)
  then have "fcard (fset_of_list batch) \<le> BLOCKS_PER_REQUEST" using fcard_of_list_le order_trans by blast
  then have q: "peer_bounded q" "orderly q (under_way i (pr_sync_round p) (sv_peers nd))" "pr_sync_round q = pr_sync_round p"
    using p assms(2) by (auto simp: q_def peer_bounded_def orderly_def p_def)
  have alone: "ct_peer t \<noteq> i" if "nt_chunk_task (sv_peers nd) = Some t" for t
    using assms(1,3) that by (auto simp: sane_def chunks_alone_def node_peer_def)
  have change: "sv_peers (request_blocks i nd) =
      change_peer i (\<lambda>_. send (message ''get_data'' [(''blocks'', hex_list batch), (''txs'', JList [])]) q) (sv_peers nd)"
    by (simp add: request_blocks_def Let_def change_peer_def q_def batch_def p_def node_peer_def)
  show ?thesis
    unfolding change
  proof (rule sane_change_peer [OF assms(1)])
    show "orderly (send m q) (under_way i (pr_sync_round (send m q)) (sv_peers nd))" for m
      using q by (simp add: orderly_def)
  qed (use q alone in \<open>auto simp: p_def node_peer_def\<close>)
qed

section \<open>Starting and ending\<close>

definition restarted :: "rat \<Rightarrow> peer \<Rightarrow> peer" where
  "restarted now p = (clear_sync p)\<lparr>pr_sync_round := pr_sync_round p + 1, pr_awaiting_headers := False,
     pr_checking_headers := False, pr_last_progress := now\<rparr>"

lemma restarted_fields [simp]:
  "pr_sync_round (restarted now p) = pr_sync_round p + 1" "pr_waiting (restarted now p) = []"
  "pr_in_flight (restarted now p) = {||}" "\<not> pr_awaiting_headers (restarted now p)" "idle (restarted now p)"
  "pr_closed (restarted now p) = pr_closed p"
  by (simp_all add: restarted_def clear_sync_def idle_def)

lemma restarted_bounded [simp]: "peer_bounded p \<Longrightarrow> peer_bounded (restarted now p)"
  by (simp add: peer_bounded_def restarted_def clear_sync_def fcard_fempty BLOCKS_PER_REQUEST_def MAX_HEADERS_def)

lemma rbind_if: "rbind m (\<lambda>_. if c then Inr a else f) = Inr b \<Longrightarrow> b = a \<or> f = Inr b"
  by (cases m) (auto split: if_splits)

lemma no_later_round: "sane nt \<Longrightarrow> pr_sync_round (peer_of i nt) < rnd \<Longrightarrow> under_way i rnd nt = 0"
  unfolding sane_def by (metis linorder_not_less neq0_conv)

lemma start_sync_sane:
  assumes "start_sync E now i nd = Inr nd'" and "sane (sv_peers nd)"
  shows "sane (sv_peers nd')" "same_checks nd nd'" "pr_closed (node_peer j nd) \<Longrightarrow> pr_closed (node_peer j nd')"
proof -
  define nd1 where "nd1 = at_peer i (restarted now) (on_net (\<lambda>nt. nt\<lparr>nt_chunk_task := None, nt_sync_peer := Some i\<rparr>) nd)"
  have none: "under_way i (Suc (pr_sync_round (peer_of i (sv_peers nd)))) (sv_peers nd) = 0"
    using assms(2) by (simp add: no_later_round)
  have peers: "sane ((sv_peers nd)\<lparr>nt_chunk_task := None, nt_sync_peer := Some i\<rparr>)"
    using assms(2) by (rule sane_no_task)
  then have bounded: "peer_bounded (restarted now (peer_of i (sv_peers nd)))"
    using assms(2) by (simp add: sane_def)
  have s1: "sane (sv_peers nd1)"
    unfolding nd1_def using none bounded peers
    by (auto intro!: sane_change_peer simp: orderly_def under_way_def)
  have ask: "may_ask i (sv_peers nd1)"
    using none by (simp add: nd1_def may_ask_def under_way_def MAX_PENDING_HEADERS_def)
  have keep1: "same_checks nd nd1" "pr_closed (node_peer j nd) \<Longrightarrow> pr_closed (node_peer j nd1)"
    by (auto simp: nd1_def same_checks_def node_peer_def peer_of_change)
  have "start_sync E now i nd = rbind (tip_height (sv_store nd1)) (\<lambda>_.
      if pr_http_url (node_peer i nd1) \<noteq> None \<and> pr_chunks (node_peer i nd1) > sealed_chunks (sv_store nd1)
      then Inr (on_net (\<lambda>nt. nt\<lparr>nt_chunk_task := Some \<lparr>ct_stage = Starting, ct_peer = i, ct_round = pr_sync_round (node_peer i nd1)\<rparr>\<rparr>) nd1)
      else request_headers E i nd1)"
    unfolding start_sync_def Let_def nd1_def restarted_def [abs_def] by simp
  from rbind_if [OF this [unfolded assms(1), symmetric]] consider
      "nd' = on_net (\<lambda>nt. nt\<lparr>nt_chunk_task := Some \<lparr>ct_stage = Starting, ct_peer = i, ct_round = pr_sync_round (node_peer i nd1)\<rparr>\<rparr>) nd1"
    | "request_headers E i nd1 = Inr nd'"
    by blast
  then have "sane (sv_peers nd') \<and> same_checks nd nd' \<and> (pr_closed (node_peer j nd) \<longrightarrow> pr_closed (node_peer j nd'))"
  proof cases
    case 1
    have "sane (sv_peers nd')"
      using s1 none by (auto simp: 1 sane_def chunks_alone_def nd1_def node_peer_def under_way_def)
    with 1 keep1 show ?thesis by (auto simp: same_checks_def node_peer_def)
  next
    case 2
    show ?thesis
      using request_headers_sane [OF 2 s1 ask] request_headers_keeps [OF 2] keep1 same_checks_trans by blast
  qed
  then show "sane (sv_peers nd')" "same_checks nd nd'" "pr_closed (node_peer j nd) \<Longrightarrow> pr_closed (node_peer j nd')"
    by auto
qed

text \<open>A step that does not touch the checks under way and keeps the invariant; a closed peer stays closed.\<close>

definition safe_step :: "node \<Rightarrow> node \<Rightarrow> bool" where
  "safe_step nd nd' \<longleftrightarrow> (sane (sv_peers nd) \<longrightarrow> sane (sv_peers nd')) \<and> same_checks nd nd' \<and>
     (\<forall>j. pr_closed (node_peer j nd) \<longrightarrow> pr_closed (node_peer j nd'))"

lemma safe_refl [simp]: "safe_step nd nd"
  by (simp add: safe_step_def)

lemma safe_trans [trans]: "safe_step a b \<Longrightarrow> safe_step b c \<Longrightarrow> safe_step a c"
  by (auto simp: safe_step_def intro: same_checks_trans)

lemma safe_sane: "safe_step nd nd' \<Longrightarrow> sane (sv_peers nd) \<Longrightarrow> sane (sv_peers nd')"
  by (simp add: safe_step_def)

lemma safe_at_peer:
  assumes "aside f" and "\<And>p. pr_closed p \<Longrightarrow> pr_closed (f p)"
  shows "safe_step nd (at_peer i f nd)"
  using assms by (auto simp: safe_step_def same_checks_def node_peer_def peer_of_change intro: sane_aside)

lemma start_sync_safe: "start_sync E now i nd = Inr nd' \<Longrightarrow> sane (sv_peers nd) \<Longrightarrow> safe_step nd nd'"
  unfolding safe_step_def using start_sync_sane by blast

lemma maybe_sync_safe: "maybe_sync E now nd = Inr nd' \<Longrightarrow> sane (sv_peers nd) \<Longrightarrow> safe_step nd nd'"
  by (auto simp: maybe_sync_def result_simps start_sync_safe split: if_splits option.splits)

lemma sane_stop [simp]: "sane (sv_peers nd) \<Longrightarrow> sane (sv_peers (stop_sync nd))"
  by (simp add: stop_sync_def sane_no_task)

lemma stop_sync_safe: "safe_step nd (stop_sync nd)"
  by (auto simp: safe_step_def same_checks_def node_peer_def) (simp_all add: stop_sync_def)

lemma sane_clear:
  assumes "sane nt"
  shows "sane (change_peer i (\<lambda>p. clear_sync (p\<lparr>pr_work := f p\<rparr>)) nt)"
proof (rule sane_change_peer [OF assms])
  let ?p = "peer_of i nt"
  have p: "peer_bounded ?p" "orderly ?p (under_way i (pr_sync_round ?p) nt)" using assms by (auto simp: sane_def)
  show "peer_bounded (clear_sync (?p\<lparr>pr_work := f ?p\<rparr>))"
    using p(1) by (simp add: peer_bounded_def clear_sync_def fcard_fempty BLOCKS_PER_REQUEST_def MAX_HEADERS_def)
  show "orderly (clear_sync (?p\<lparr>pr_work := f ?p\<rparr>)) (under_way i (pr_sync_round (clear_sync (?p\<lparr>pr_work := f ?p\<rparr>))) nt)"
    using p(2) by (auto simp: orderly_def clear_sync_def MAX_PENDING_HEADERS_def)
qed (use assms in \<open>auto simp: clear_sync_def sane_def chunks_alone_def idle_def\<close>)

lemma end_sync_safe:
  assumes "end_sync E now i useless nd = Inr nd'" and "sane (sv_peers nd)"
  shows "safe_step nd nd'"
proof -
  from assms(1) obtain f where m: "maybe_sync E now (stop_sync (at_peer i (\<lambda>p. clear_sync (p\<lparr>pr_work := f p\<rparr>)) nd)) = Inr nd'"
    by (auto simp: end_sync_def result_simps)
  let ?nd1 = "at_peer i (\<lambda>p. clear_sync (p\<lparr>pr_work := f p\<rparr>)) nd"
  have s1: "sane (sv_peers ?nd1)" using assms(2) by (simp add: sane_clear)
  have "safe_step nd ?nd1"
    using s1 by (auto simp: safe_step_def same_checks_def node_peer_def peer_of_change clear_sync_def)
  also have "safe_step ?nd1 (stop_sync ?nd1)" by (rule stop_sync_safe)
  also have "safe_step (stop_sync ?nd1) nd'" using maybe_sync_safe [OF m] s1 by simp
  finally show ?thesis .
qed

lemma aside_ban: "aside (\<lambda>p. p\<lparr>pr_work := w\<rparr>)" "aside (\<lambda>p. p\<lparr>pr_work := w, pr_closed := True\<rparr>)" "aside (\<lambda>p. p\<lparr>pr_closed := True\<rparr>)"
  by (auto simp: aside_def sync_view_def peer_bounded_def)

lemma ban_sane [simp]: "sane nt \<Longrightarrow> sane (ban L now i nt)"
  by (auto simp: ban_def Let_def intro!: sane_aside aside_ban split: option.splits)

lemma peer_of_irrelevant [simp]:
  "peer_of i (nt\<lparr>nt_banned := a\<rparr>) = peer_of i nt" "peer_of i (nt\<lparr>nt_retry_at := b\<rparr>) = peer_of i nt"
  "peer_of i (nt\<lparr>nt_banned_hosts := c\<rparr>) = peer_of i nt"
  by (simp_all add: peer_of_def)

lemma ban_fields [simp]:
  "nt_header_checks (ban L now i nt) = nt_header_checks nt" "nt_pow_checks (ban L now i nt) = nt_pow_checks nt"
  "nt_chunk_task (ban L now i nt) = nt_chunk_task nt" "nt_sync_peer (ban L now i nt) = nt_sync_peer nt"
  "pr_closed (peer_of j (ban L now i nt)) = pr_closed (peer_of j nt)"
  by (simp_all add: ban_def Let_def peer_of_change split: option.split)

lemma ban_safe: "safe_step nd (on_net (ban L now i) nd)"
  by (simp add: safe_step_def same_checks_def node_peer_def)

lemma drop_peer_safe:
  assumes "drop_peer E now i banned nd = Inr nd'" and "sane (sv_peers nd)"
  shows "safe_step nd nd'" "pr_closed (node_peer i nd')"
proof -
  let ?nd1 = "if banned then on_net (ban (e_lib E) now i) nd else nd"
  let ?nd2 = "at_peer i (\<lambda>p. p\<lparr>pr_work := 0, pr_closed := True\<rparr>) ?nd1"
  let ?nd3 = "if sync_peer ?nd2 = Some i then stop_sync ?nd2 else ?nd2"
  from assms(1) have m: "maybe_sync E now ?nd3 = Inr nd'" by (simp add: drop_peer_def Let_def)
  have "safe_step nd ?nd1" by (simp add: ban_safe)
  also have "safe_step ?nd1 ?nd2" by (intro safe_at_peer aside_ban) simp
  finally have to2: "safe_step nd ?nd2" .
  moreover have s3: "safe_step ?nd2 ?nd3" by (simp add: stop_sync_safe)
  ultimately have "sane (sv_peers ?nd3)" using assms(2) safe_sane safe_trans by blast
  then have last: "safe_step ?nd3 nd'" by (rule maybe_sync_safe [OF m])
  show "safe_step nd nd'" using to2 s3 last safe_trans by blast
  have "pr_closed (node_peer i ?nd2)" by (simp add: node_peer_def)
  then show "pr_closed (node_peer i nd')" using safe_trans [OF s3 last] unfolding safe_step_def by blast
qed

section \<open>Going on\<close>

lemma drop_known_suffix: "drop_known s ids = Inr ids' \<Longrightarrow> length ids' \<le> length ids"
  by (induction ids) (fastforce simp: result_simps split: option.splits)+

lemma if_three:
  "(if a \<and> b then Inr x else if c \<and> d then y else z) = Inr r \<Longrightarrow> (a \<and> r = x) \<or> (c \<and> d \<and> y = Inr r) \<or> z = Inr r"
  by (auto split: if_splits)

lemma continue_sync_safe:
  assumes "continue_sync E now i nd = Inr nd'" and s: "sane (sv_peers nd)"
  shows "safe_step nd nd'"
proof -
  let ?p = "node_peer i nd"
  show ?thesis
  proof (cases "sync_peer nd \<noteq> Some i \<or> pr_in_flight ?p \<noteq> {||} \<or> pr_awaiting_headers ?p \<or> pr_checking_headers ?p")
    case True
    with assms(1) show ?thesis by (simp add: continue_sync_def Let_def)
  next
    case False
    then have flight: "pr_in_flight ?p = {||}" and free: "\<not> pr_awaiting_headers ?p" "\<not> pr_checking_headers ?p" by auto
    from assms(1) False obtain waiting better where
      w: "drop_known (sv_store nd) (pr_waiting ?p) = Inr waiting"
      and rest: "(if waiting \<noteq> [] \<and> better then Inr (request_blocks i (at_peer i (\<lambda>p. p\<lparr>pr_waiting := waiting\<rparr>) nd))
          else if pr_more_headers ?p \<and> length waiting < MAX_PENDING_HEADERS
          then request_headers E i (at_peer i (\<lambda>p. p\<lparr>pr_waiting := waiting\<rparr>) nd)
          else end_sync E now i False (at_peer i (\<lambda>p. p\<lparr>pr_waiting := waiting\<rparr>) nd)) = Inr nd'"
      by (auto simp: continue_sync_def Let_def result_simps)
    let ?nd1 = "at_peer i (\<lambda>p. p\<lparr>pr_waiting := waiting\<rparr>) nd"
    have p: "peer_bounded ?p" "orderly ?p (under_way i (pr_sync_round ?p) (sv_peers nd))"
      using s by (auto simp: sane_def node_peer_def)
    from p(2) free have none: "under_way i (pr_sync_round ?p) (sv_peers nd) = 0" by (auto simp: orderly_def)
    have shorter: "length waiting \<le> length (pr_waiting ?p)" by (rule drop_known_suffix [OF w])
    have s1: "sane (sv_peers ?nd1)"
    proof (simp, rule sane_change_peer [OF s])
      show "peer_bounded (peer_of i (sv_peers nd)\<lparr>pr_waiting := waiting\<rparr>)"
        using p(1) shorter by (simp add: peer_bounded_def node_peer_def)
      show "orderly (peer_of i (sv_peers nd)\<lparr>pr_waiting := waiting\<rparr>)
          (under_way i (pr_sync_round (peer_of i (sv_peers nd)\<lparr>pr_waiting := waiting\<rparr>)) (sv_peers nd))"
        using none free by (simp add: orderly_def node_peer_def)
    qed (use s shorter in \<open>auto simp: sane_def chunks_alone_def idle_def node_peer_def\<close>)
    have to1: "safe_step nd ?nd1"
      using s1 by (auto simp: safe_step_def same_checks_def node_peer_def peer_of_change)
    consider "waiting \<noteq> []" "nd' = request_blocks i ?nd1"
      | "pr_more_headers ?p" "length waiting < MAX_PENDING_HEADERS" "request_headers E i ?nd1 = Inr nd'"
      | "end_sync E now i False ?nd1 = Inr nd'"
      using if_three [OF rest] by blast
    then have "safe_step ?nd1 nd'"
    proof cases
      case 1
      have "sane (sv_peers nd')"
        unfolding 1(2) by (rule request_blocks_sane [OF s1]) (use 1 flight in \<open>auto simp: node_peer_def idle_def\<close>)
      then show ?thesis
        by (auto simp: safe_step_def 1 request_blocks_def same_checks_def node_peer_def peer_of_change Let_def send_def put_item_def)
    next
      case 2
      have "ct_peer t \<noteq> i" if "nt_chunk_task (sv_peers nd) = Some t" for t
        using s that 2(1) by (auto simp: sane_def chunks_alone_def idle_def node_peer_def)
      then have "may_ask i (sv_peers ?nd1)" using none 2 by (simp add: may_ask_def node_peer_def)
      then have "sane (sv_peers nd')" by (rule request_headers_sane [OF 2(3) s1])
      with request_headers_keeps [OF 2(3)] show ?thesis by (auto simp: safe_step_def)
    next
      case 3
      then show ?thesis using s1 by (rule end_sync_safe)
    qed
    with to1 show ?thesis by (rule safe_trans)
  qed
qed

section \<open>A batch of headers\<close>

text \<open>What holds of a batch of headers once it is out of the tables: no other one belongs to its round.\<close>

definition taken_out :: "nat \<Rightarrow> nat \<Rightarrow> net \<Rightarrow> bool" where
  "taken_out i rnd nt \<longleftrightarrow> under_way i rnd nt = 0 \<and>
     (pr_sync_round (peer_of i nt) = rnd \<longrightarrow> \<not> pr_awaiting_headers (peer_of i nt) \<and>
        length (pr_waiting (peer_of i nt)) < MAX_PENDING_HEADERS \<and> (\<forall>t. nt_chunk_task nt = Some t \<longrightarrow> ct_peer t \<noteq> i))"

definition held :: "nat \<Rightarrow> nat \<Rightarrow> net \<Rightarrow> bool" where
  "held i rnd nt \<longleftrightarrow> taken_out i rnd nt \<and> rnd \<le> pr_sync_round (peer_of i nt) \<and>
     (pr_sync_round (peer_of i nt) = rnd \<longrightarrow> pr_checking_headers (peer_of i nt))"

lemma filter_remove1_length:
  "x \<in> set xs \<Longrightarrow> length (filter P (remove1 x xs)) = (if P x then length (filter P xs) - 1 else length (filter P xs))"
proof (induction xs)
  case (Cons y ys)
  have "filter P ys \<noteq> []" if "P x" "x \<in> set ys" using that by (auto simp: filter_empty_conv)
  with Cons show ?case by (auto simp: Suc_diff_1 length_greater_0_conv)
qed simp

text \<open>Taking a batch out of its table, whichever of the two\<close>

lemma sane_take_out:
  assumes "sane nt" and fewer: "\<And>j r. under_way j r nt' = (if j = i \<and> r = rnd then under_way j r nt - 1 else under_way j r nt)"
    and here: "under_way i rnd nt > 0"
    and same: "nt_peers nt' = nt_peers nt" "nt_chunk_task nt' = nt_chunk_task nt" "nt_sync_peer nt' = nt_sync_peer nt"
      "nt_rejected_txs nt' = nt_rejected_txs nt" "set (nt_header_checks nt') \<subseteq> set (nt_header_checks nt)"
      "set (nt_pow_checks nt') \<subseteq> set (nt_pow_checks nt)"
  shows "sane nt'" "held i rnd nt'"
proof -
  have peers: "peer_of j nt' = peer_of j nt" for j using same(1) by (simp add: peer_of_def)
  have one: "under_way i rnd nt = 1" using assms(1) here unfolding sane_def by (metis One_nat_def Suc_leI le_antisym)
  have order: "orderly (peer_of j nt) (under_way j (pr_sync_round (peer_of j nt)) nt)" for j using assms(1) by (simp add: sane_def)
  have alone: "nt_chunk_task nt = Some t \<Longrightarrow> ct_peer t = i \<Longrightarrow> pr_sync_round (peer_of i nt) = rnd \<Longrightarrow> False" for t
    using assms(1) one by (auto simp: sane_def chunks_alone_def)
  have "orderly (peer_of j nt) (under_way j (pr_sync_round (peer_of j nt)) nt')" for j
    using order [of j] by (auto simp: orderly_def fewer)
  moreover have "under_way j r nt' \<le> 1 \<and> (under_way j r nt' > 0 \<longrightarrow> r \<le> pr_sync_round (peer_of j nt))" for j r
    using assms(1) one by (auto simp: fewer sane_def)
  moreover have "chunks_alone nt'"
    using assms(1) by (auto simp: sane_def chunks_alone_def same peers fewer)
  ultimately show "sane nt'"
    using assms(1) same unfolding sane_def peers by auto
  show "held i rnd nt'"
    using order [of i] one alone assms(1) here by (auto simp: held_def taken_out_def peers fewer same orderly_def sane_def)
qed

lemma take_header_check:
  assumes "sane nt" and "hc \<in> set (nt_header_checks nt)"
  shows "sane (nt\<lparr>nt_header_checks := remove1 hc (nt_header_checks nt)\<rparr>)"
    "held (hc_peer hc) (hc_round hc) (nt\<lparr>nt_header_checks := remove1 hc (nt_header_checks nt)\<rparr>)"
proof -
  have here: "filter (\<lambda>c. hc_peer c = hc_peer hc \<and> hc_round c = hc_round hc) (nt_header_checks nt) \<noteq> []"
    using assms(2) by (auto simp: filter_empty_conv)
  let ?nt = "nt\<lparr>nt_header_checks := remove1 hc (nt_header_checks nt)\<rparr>"
  have "under_way j r ?nt = (if j = hc_peer hc \<and> r = hc_round hc then under_way j r nt - 1 else under_way j r nt)" for j r
    using here by (auto simp: under_way_def filter_remove1_length [OF assms(2)] Suc_le_eq)
  note out = sane_take_out [OF assms(1) this]
  show "sane ?nt" by (rule out(1)) (use here in \<open>auto simp: under_way_def dest: set_remove1_subset [THEN subsetD]\<close>)
  show "held (hc_peer hc) (hc_round hc) ?nt"
    by (rule out(2)) (use here in \<open>auto simp: under_way_def dest: set_remove1_subset [THEN subsetD]\<close>)
qed

lemma take_pow_check:
  assumes "sane nt" and "pc \<in> set (nt_pow_checks nt)"
  shows "sane (nt\<lparr>nt_pow_checks := remove1 pc (nt_pow_checks nt)\<rparr>)"
    "held (pc_peer pc) (pc_round pc) (nt\<lparr>nt_pow_checks := remove1 pc (nt_pow_checks nt)\<rparr>)"
proof -
  have here: "filter (\<lambda>c. pc_peer c = pc_peer pc \<and> pc_round c = pc_round pc) (nt_pow_checks nt) \<noteq> []"
    using assms(2) by (auto simp: filter_empty_conv)
  let ?nt = "nt\<lparr>nt_pow_checks := remove1 pc (nt_pow_checks nt)\<rparr>"
  have "under_way j r ?nt = (if j = pc_peer pc \<and> r = pc_round pc then under_way j r nt - 1 else under_way j r nt)" for j r
    using here by (auto simp: under_way_def filter_remove1_length [OF assms(2)] Suc_le_eq)
  note out = sane_take_out [OF assms(1) this]
  show "sane ?nt" by (rule out(1)) (use here in \<open>auto simp: under_way_def dest: set_remove1_subset [THEN subsetD]\<close>)
  show "held (pc_peer pc) (pc_round pc) ?nt"
    by (rule out(2)) (use here in \<open>auto simp: under_way_def dest: set_remove1_subset [THEN subsetD]\<close>)
qed

lemma done_checking_safe:
  assumes "sane (sv_peers nd)" and "under_way i rnd (sv_peers nd) = 0"
  shows "safe_step nd (done_checking i rnd nd)"
proof -
  have "sane (sv_peers (done_checking i rnd nd))"
    unfolding done_checking_def on_net_fields
    by (rule sane_change_peer [OF assms(1)])
      (use assms in \<open>auto simp: sane_def orderly_def peer_bounded_def chunks_alone_def idle_def\<close>)
  then show ?thesis
    by (auto simp: safe_step_def done_checking_def same_checks_def node_peer_def peer_of_change)
qed

lemma done_checking_fields [simp]:
  "under_way j r (sv_peers (done_checking i rnd nd)) = under_way j r (sv_peers nd)"
  "taken_out j r (sv_peers (done_checking i rnd nd)) = taken_out j r (sv_peers nd)"
  by (simp_all add: done_checking_def taken_out_def peer_of_change)

lemma take_headers_safe:
  assumes "take_headers E now i rnd n b nd = Inr nd'" and s: "sane (sv_peers nd)"
    and out: "taken_out i rnd (sv_peers nd)" and few: "length (cb_checked b) \<le> MAX_HEADERS"
  shows "sane (sv_peers nd')"
proof -
  let ?nd1 = "done_checking i rnd nd"
  have "under_way i rnd (sv_peers nd) = 0" using out by (simp add: taken_out_def)
  then have "safe_step nd ?nd1" by (rule done_checking_safe [OF s])
  then have s1: "sane (sv_peers ?nd1)" using s safe_sane by blast
  show ?thesis
  proof (cases "current_round i rnd ?nd1")
    case False
    with assms(1) s1 show ?thesis by (simp add: take_headers_def Let_def)
  next
    case True
    then have rnd: "pr_sync_round (peer_of i (sv_peers ?nd1)) = rnd" by (simp add: current_round_def node_peer_def)
    have out1: "taken_out i rnd (sv_peers ?nd1)" using out by simp
    define f where "f = (\<lambda>p :: peer. p\<lparr>pr_header_tip := cb_anchor b,
                  pr_waiting := pr_waiting p @ map (block_id (e_prims E)) (cb_checked b),
                  pr_more_headers := (n = MAX_HEADERS \<and> length (cb_checked b) = cb_new b),
                  pr_work := (if length (cb_checked b) < cb_new b then 0 else pr_work p),
                  pr_last_progress := (if cb_checked b \<noteq> [] \<or> cb_known b > 0 then now else pr_last_progress p)\<rparr>)"
    have c: "continue_sync E now i (at_peer i f ?nd1) = Inr nd'"
      using assms(1) True by (simp add: take_headers_def Let_def f_def)
    have "sane (sv_peers (at_peer i f ?nd1))"
      unfolding on_net_fields
      by (rule sane_change_peer [OF s1])
        (use s1 out1 rnd few in \<open>auto simp: f_def sane_def peer_bounded_def orderly_def taken_out_def\<close>)
    then show ?thesis using continue_sync_safe [OF c] safe_sane by blast
  qed
qed

lemma headers_failed_safe:
  assumes "headers_failed E now i rnd e nd = Inr nd'" and s: "sane (sv_peers nd)"
    and out: "under_way i rnd (sv_peers nd) = 0"
  shows "sane (sv_peers nd')"
proof -
  from assms(1) obtain nd1 where nd': "nd' = done_checking i rnd nd1"
    and "nd1 = nd \<or> end_sync E now i True nd = Inr nd1 \<or> (\<exists>banned. drop_peer E now i banned nd = Inr nd1)"
    by (auto simp: headers_failed_def result_simps split: exn.splits if_splits)
  then have "safe_step nd nd1" using s end_sync_safe drop_peer_safe(1) by auto
  then have "sane (sv_peers nd1)" "under_way i rnd (sv_peers nd1) = 0"
    using s out by (auto simp: safe_step_def same_checks_under_way)
  then show ?thesis unfolding nd' using done_checking_safe safe_sane by blast
qed

lemma check_headers_shorter: "check_headers P N genesis now tip hs = Inr (tip', checked) \<Longrightarrow> length checked \<le> length hs"
proof (induction hs arbitrary: tip tip' checked)
  case (Cons h hs)
  show ?case
  proof (cases checked)
    case (Cons g gs)
    with Cons.prems obtain tip1 where "check_headers P N genesis now tip1 hs = Inr (tip', gs)"
      by (auto simp: result_simps split: sum.splits)
    then have "length gs \<le> length hs" by (rule Cons.IH)
    with Cons show ?thesis by simp
  qed simp
qed simp

lemma batch_tail_shorter:
  assumes "(case anchor of None \<Rightarrow> if some then Inr None else Inr (Some b0)
     | Some a \<Rightarrow> if new = [] then Inr (Some b1) else rbind (m a) (\<lambda>_. rbind (check_headers P N g t a new)
         (\<lambda>(a, checked). Inr (Some \<lparr>cb_anchor = Some a, cb_checked = checked, cb_known = k, cb_new = n\<rparr>)))) = Inr (Some b)"
    and "cb_checked b0 = []" and "cb_checked b1 = []"
  shows "length (cb_checked b) \<le> length new"
proof (cases anchor)
  case None
  with assms show ?thesis by (cases some) auto
next
  case (Some a)
  show ?thesis
  proof (cases "new = []")
    case True
    with assms Some show ?thesis by auto
  next
    case False
    with assms(1) Some obtain a' checked where "check_headers P N g t a new = Inr (a', checked)" "cb_checked b = checked"
      by (auto simp: result_simps)
    then show ?thesis using check_headers_shorter by auto
  qed
qed

lemma check_batch_shorter:
  assumes "check_batch E now headers tip nd = Inr (Some b)"
  shows "length (cb_checked b) \<le> length headers"
  using assms unfolding check_batch_def Let_def rbind_Inr_iff
proof (elim exE conjE, goal_cases)
  case (1 known anchor)
  from batch_tail_shorter [OF 1(3)] have "length (cb_checked b) \<le> length (drop known headers)" by simp
  then show ?case by simp
qed

lemma sane_add_pow_check:
  assumes "sane nt" and "held (pc_peer pc) (pc_round pc) nt" and "length (pc_checked pc) \<le> MAX_HEADERS"
  shows "sane (nt\<lparr>nt_pow_checks := nt_pow_checks nt @ [pc]\<rparr>)"
proof -
  let ?nt = "nt\<lparr>nt_pow_checks := nt_pow_checks nt @ [pc]\<rparr>"
  have more: "under_way j r ?nt = (if j = pc_peer pc \<and> r = pc_round pc then 1 else under_way j r nt)" for j r
    using assms(2) by (auto simp: under_way_def held_def taken_out_def)
  have "orderly (peer_of j nt) (under_way j (pr_sync_round (peer_of j nt)) ?nt)" for j
    using assms(1,2) by (auto simp: sane_def more orderly_def held_def taken_out_def)
  moreover have "under_way j r ?nt \<le> 1 \<and> (under_way j r ?nt > 0 \<longrightarrow> r \<le> pr_sync_round (peer_of j nt))" for j r
    using assms(1,2) by (auto simp: more sane_def held_def)
  moreover have "chunks_alone ?nt"
    using assms(1,2) by (auto simp: sane_def chunks_alone_def more held_def taken_out_def)
  ultimately show ?thesis
    using assms(1,3) by (auto simp: sane_def)
qed

lemma check_headers_begin_sane:
  assumes "check_headers_begin E now hc nd = Inr nd'" and s: "sane (sv_peers nd)"
    and h: "held (hc_peer hc) (hc_round hc) (sv_peers nd)" and few: "length (hc_headers hc) \<le> MAX_HEADERS"
  shows "sane (sv_peers nd')"
proof -
  define i rnd where "i = hc_peer hc" and "rnd = hc_round hc"
  have out: "taken_out i rnd (sv_peers nd)" and none: "under_way i rnd (sv_peers nd) = 0"
    using h by (auto simp: held_def taken_out_def i_def rnd_def)
  show ?thesis
  proof (cases "check_batch E now (hc_headers hc) (pr_header_tip (node_peer i nd)) nd")
    case (Inl e)
    with assms(1) have "headers_failed E now i rnd e nd = Inr nd'" by (simp add: check_headers_begin_def i_def rnd_def)
    then show ?thesis using s none by (rule headers_failed_safe)
  next
    case (Inr r)
    show ?thesis
    proof (cases r)
      case None
      show ?thesis
      proof (cases "pr_sync_round (node_peer i nd) = rnd \<and> sync_peer nd = Some i")
        case False
        with assms(1) Inr None have "nd' = done_checking i rnd nd"
          by (auto simp: check_headers_begin_def i_def rnd_def)
        then show ?thesis using done_checking_safe [OF s none] s safe_sane by blast
      next
        case True
        define nd1 where "nd1 = at_peer i (\<lambda>p. p\<lparr>pr_header_tip := None, pr_waiting := []\<rparr>) nd"
        have s1: "sane (sv_peers nd1)"
          unfolding nd1_def on_net_fields
          by (rule sane_change_peer [OF s])
            (use s in \<open>auto simp: sane_def peer_bounded_def orderly_def MAX_HEADERS_def MAX_PENDING_HEADERS_def chunks_alone_def idle_def\<close>)
        have none1: "under_way i rnd (sv_peers nd1) = 0" using none by (simp add: nd1_def)
        have ask: "may_ask i (sv_peers nd1)"
          using True out by (auto simp: nd1_def may_ask_def taken_out_def node_peer_def MAX_PENDING_HEADERS_def)
        show ?thesis
        proof (cases "request_headers E i nd1")
          case (Inl e)
          with assms(1) Inr None True have "headers_failed E now i rnd e nd1 = Inr nd'"
            by (simp add: check_headers_begin_def i_def rnd_def nd1_def Let_def)
          then show ?thesis using s1 none1 by (rule headers_failed_safe)
        next
          case r2: (Inr nd2)
          with assms(1) Inr None True have nd': "nd' = done_checking i rnd nd2"
            by (simp add: check_headers_begin_def i_def rnd_def nd1_def Let_def)
          have "sane (sv_peers nd2)" by (rule request_headers_sane [OF r2 s1 ask])
          moreover have "under_way i rnd (sv_peers nd2) = 0"
            using request_headers_keeps(1) [OF r2] none1 by (simp add: same_checks_under_way)
          ultimately show ?thesis unfolding nd' using done_checking_safe safe_sane by blast
        qed
      qed
    next
      case (Some b)
      have short: "length (cb_checked b) \<le> MAX_HEADERS" using check_batch_shorter Inr Some few order_trans by blast
      consider "take_headers E now i rnd (length (hc_headers hc)) b nd = Inr nd'"
        | a where "nd' = on_net (\<lambda>nt. nt\<lparr>nt_pow_checks := nt_pow_checks nt @
             [\<lparr>pc_peer = i, pc_count = length (hc_headers hc), pc_round = rnd, pc_anchor = a,
               pc_checked = cb_checked b, pc_new = cb_new b, pc_known = cb_known b\<rparr>]\<rparr>) nd"
        using assms(1) Inr Some unfolding check_headers_begin_def i_def rnd_def Let_def
        by (auto split: option.splits if_splits)
      then show ?thesis
      proof cases
        case 1
        then show ?thesis using s out short by (rule take_headers_safe)
      next
        case 2
        show ?thesis
          unfolding 2 on_net_fields by (rule sane_add_pow_check [OF s]) (use h short in \<open>simp_all add: i_def rnd_def\<close>)
      qed
    qed
  qed
qed

lemma pow_checked_sane:
  assumes "pow_checked E now pc nd = Inr nd'" and s: "sane (sv_peers nd)"
    and h: "held (pc_peer pc) (pc_round pc) (sv_peers nd)" and few: "length (pc_checked pc) \<le> MAX_HEADERS"
  shows "sane (sv_peers nd')"
proof -
  have none: "under_way (pc_peer pc) (pc_round pc) (sv_peers nd) = 0" and out: "taken_out (pc_peer pc) (pc_round pc) (sv_peers nd)"
    using h by (auto simp: held_def taken_out_def)
  show ?thesis
  proof (cases "all_meet_target (e_prims E) (pc_checked pc) (pow (e_params E))")
    case (Inl e)
    with assms(1) have "headers_failed E now (pc_peer pc) (pc_round pc) e nd = Inr nd'" by (simp add: pow_checked_def)
    then show ?thesis using s none by (rule headers_failed_safe)
  next
    case (Inr ok)
    show ?thesis
    proof (cases ok)
      case True
      let ?nd1 = "nd\<lparr>sv_chain := note_pow_checked (map (block_id (e_prims E)) (pc_checked pc)) (sv_chain nd)\<rparr>"
      let ?b = "\<lparr>cb_anchor = Some (pc_anchor pc), cb_checked = pc_checked pc, cb_known = pc_known pc, cb_new = pc_new pc\<rparr>"
      from Inr True assms(1) have "take_headers E now (pc_peer pc) (pc_round pc) (pc_count pc) ?b ?nd1 = Inr nd'"
        by (simp add: pow_checked_def Let_def)
      then show ?thesis by (rule take_headers_safe) (simp_all add: s out few)
    next
      case False
      with Inr assms(1) have "headers_failed E now (pc_peer pc) (pc_round pc) (ProtocolError True) nd = Inr nd'"
        by (simp add: pow_checked_def)
      then show ?thesis using s none by (rule headers_failed_safe)
    qed
  qed
qed

section \<open>Chunks\<close>

definition chunk_of :: "nat \<Rightarrow> nat \<Rightarrow> net \<Rightarrow> bool" where
  "chunk_of i rnd nt \<longleftrightarrow> (\<exists>t. nt_chunk_task nt = Some t \<and> ct_peer t = i \<and> ct_round t = rnd)"

lemma chunks_done_sane:
  assumes "chunks_done E i rnd nd = Inr nd'" and s: "sane (sv_peers nd)"
    and task: "current_round i rnd nd \<Longrightarrow> chunk_of i rnd (sv_peers nd)"
  shows "sane (sv_peers nd')"
proof -
  define f where "f = (\<lambda>nt :: net. case nt_chunk_task nt of
                 Some t \<Rightarrow> if ct_peer t = i \<and> ct_round t = rnd then nt\<lparr>nt_chunk_task := None\<rparr> else nt
               | None \<Rightarrow> nt)"
  have s1: "sane (sv_peers (on_net f nd))"
    using s by (auto simp: f_def sane_no_task split: option.split)
  have same: "sync_peer (on_net f nd) = sync_peer nd" "node_peer j (on_net f nd) = node_peer j nd" for j
    by (auto simp: f_def sync_peer_def node_peer_def split: option.split)
  show ?thesis
  proof (cases "current_round i rnd nd")
    case False
    with assms(1) s1 show ?thesis by (auto simp: chunks_done_def f_def [symmetric] current_round_def same)
  next
    case True
    then have r: "request_headers E i (on_net f nd) = Inr nd'"
      using assms(1) by (auto simp: chunks_done_def f_def [symmetric] current_round_def same)
    from task [OF True] obtain t where t: "nt_chunk_task (sv_peers nd) = Some t" "ct_peer t = i" "ct_round t = rnd"
      by (auto simp: chunk_of_def)
    have "may_ask i (sv_peers (on_net f nd))"
      using s t by (auto simp: may_ask_def f_def sane_def chunks_alone_def idle_def MAX_PENDING_HEADERS_def under_way_def)
    then show ?thesis by (rule request_headers_sane [OF r s1])
  qed
qed

lemma sane_set_stage [simp]: "sane (sv_peers (set_stage stage nd)) = sane (sv_peers nd)"
  by (auto simp: set_stage_def sane_def chunks_alone_def under_way_def)

lemma progress_aside [simp]: "aside (\<lambda>p. p\<lparr>pr_last_progress := now\<rparr>)"
  by (auto simp: aside_def sync_view_def peer_bounded_def)

lemma next_chunk_sane:
  "next_chunk E now i rnd nd = Inr nd' \<Longrightarrow> sane (sv_peers nd) \<Longrightarrow> chunk_of i rnd (sv_peers nd) \<Longrightarrow> sane (sv_peers nd')"
  by (auto simp: next_chunk_def Let_def sane_aside split: if_splits intro: chunks_done_sane)

lemma chunk_loop_sane:
  "chunk_loop E now i rnd nd = Inr nd' \<Longrightarrow> sane (sv_peers nd) \<Longrightarrow> chunk_of i rnd (sv_peers nd) \<Longrightarrow> sane (sv_peers nd')"
  by (auto simp: chunk_loop_def split: if_splits intro: chunks_done_sane next_chunk_sane)

lemma chunk_downloaded_sane:
  "chunk_downloaded E i rnd index answer nd = Inr nd' \<Longrightarrow> sane (sv_peers nd) \<Longrightarrow> chunk_of i rnd (sv_peers nd) \<Longrightarrow>
     sane (sv_peers nd')"
  by (auto simp: chunk_downloaded_def split: if_splits option.splits intro: chunks_done_sane)

lemma chunk_failed_sane:
  assumes "chunk_failed E now i rnd e nd = Inr nd'" and s: "sane (sv_peers nd)" and t: "chunk_of i rnd (sv_peers nd)"
  shows "sane (sv_peers nd')"
proof -
  from assms(1) consider nd1 where "drop_peer E now i True nd = Inr nd1" "chunks_done E i rnd nd1 = Inr nd'"
    | "chunks_done E i rnd nd = Inr nd'"
    by (auto simp: chunk_failed_def result_simps split: if_splits)
  then show ?thesis
  proof cases
    case 1
    note dropped = drop_peer_safe [OF 1(1) s]
    show ?thesis
      by (rule chunks_done_sane [OF 1(2)]) (use dropped s in \<open>auto simp: current_round_def safe_step_def\<close>)
  next
    case 2
    then show ?thesis using s t by (rule chunks_done_sane)
  qed
qed

section \<open>What the service tells the peers\<close>

text \<open>Listeners send and remember what they sent, and nothing else.\<close>

lemma known_aside:
  "aside (\<lambda>p. send m (p\<lparr>pr_known_blocks := recent_add b (pr_known_blocks p)\<rparr>))"
  "aside (\<lambda>p. send m (p\<lparr>pr_known_txs := recent_add b (pr_known_txs p)\<rparr>))"
  "aside (\<lambda>p. send_later b (p\<lparr>pr_known_blocks := recent_add b (pr_known_blocks p)\<rparr>))"
  "aside (\<lambda>p. p\<lparr>pr_known_blocks := recent_add b (pr_known_blocks p)\<rparr>)"
  "aside (\<lambda>p. p\<lparr>pr_known_txs := recent_add b (pr_known_txs p)\<rparr>)"
  "aside (\<lambda>p. p\<lparr>pr_known_blocks := fold recent_add bs (pr_known_blocks p), pr_known_txs := fold recent_add ts (pr_known_txs p)\<rparr>)"
proof -
  have b: "aside (\<lambda>p. p\<lparr>pr_known_blocks := recent_add b (pr_known_blocks p)\<rparr>)"
    and t: "aside (\<lambda>p. p\<lparr>pr_known_txs := recent_add b (pr_known_txs p)\<rparr>)"
    by (auto simp: aside_def sync_view_def peer_bounded_def)
  show "aside (\<lambda>p. p\<lparr>pr_known_blocks := recent_add b (pr_known_blocks p)\<rparr>)" by (rule b)
  show "aside (\<lambda>p. p\<lparr>pr_known_txs := recent_add b (pr_known_txs p)\<rparr>)" by (rule t)
  show "aside (\<lambda>p. p\<lparr>pr_known_blocks := fold recent_add bs (pr_known_blocks p), pr_known_txs := fold recent_add ts (pr_known_txs p)\<rparr>)"
    by (auto simp: aside_def sync_view_def peer_bounded_def)
  show "aside (\<lambda>p. send m (p\<lparr>pr_known_blocks := recent_add b (pr_known_blocks p)\<rparr>))" by (rule aside_comp [OF aside_send(1) b])
  show "aside (\<lambda>p. send m (p\<lparr>pr_known_txs := recent_add b (pr_known_txs p)\<rparr>))" by (rule aside_comp [OF aside_send(1) t])
  show "aside (\<lambda>p. send_later b (p\<lparr>pr_known_blocks := recent_add b (pr_known_blocks p)\<rparr>))" by (rule aside_comp [OF aside_send(2) b])
qed

definition sane_with :: "chunk_task option \<Rightarrow> nat option \<Rightarrow> net \<Rightarrow> bool" where
  "sane_with t s nt \<longleftrightarrow> sane nt \<and> nt_chunk_task nt = t \<and> nt_sync_peer nt = s"

lemma p2p_listeners_keep: "listeners_keep (p2p_listeners E) (sane_with t s)"
proof -
  have "sane_with t s (tell_block E b origin nt)" if "sane_with t s nt" for b origin nt
    unfolding tell_block_def Let_def using that
    by (rule fold_invariant_list) (auto simp: sane_with_def sane_aside known_aside)
  moreover have "sane_with t s (tell_transfer E x origin nt)" if "sane_with t s nt" for x origin nt
    unfolding tell_transfer_def Let_def using that
    by (rule fold_invariant_list) (auto simp: sane_with_def sane_aside known_aside)
  ultimately show ?thesis by (auto simp: listeners_keep_def p2p_listeners_def)
qed

lemma service_sane:
  "Service.submit_block P N po (p2p_listeners E) now b origin silent nd = Inr (r, nd') \<Longrightarrow> sane (sv_peers nd) \<Longrightarrow> sane (sv_peers nd')"
  "submit_transaction P N po (p2p_listeners E) now tx origin nd = Inr (r', nd') \<Longrightarrow> sane (sv_peers nd) \<Longrightarrow> sane (sv_peers nd')"
  using submit_block_keeps [OF _ p2p_listeners_keep] submit_transaction_keeps [OF _ p2p_listeners_keep]
  by (fastforce simp: sane_with_def)+

lemma import_sane:
  assumes "import_checked_chunk P N po (p2p_listeners E) now checked origin nd = Inr (r, nd')" and "sane (sv_peers nd)"
  shows "sane (sv_peers nd')" "nt_chunk_task (sv_peers nd') = nt_chunk_task (sv_peers nd)"
  using import_keeps [OF assms(1) p2p_listeners_keep, of "nt_chunk_task (sv_peers nd)" "nt_sync_peer (sv_peers nd)"] assms(2)
  by (auto simp: sane_with_def)

lemma chunk_checked_sane:
  assumes "chunk_checked E now nd = Inr nd'" and s: "sane (sv_peers nd)"
  shows "sane (sv_peers nd')"
proof (cases "nt_chunk_check (sv_peers nd)")
  case None
  with assms show ?thesis by (simp add: chunk_checked_def)
next
  case (Some data)
  define task where "task = nt_chunk_task (sv_peers nd)"
  let ?nd0 = "on_net (\<lambda>nt. nt\<lparr>nt_chunk_check := None\<rparr>) nd"
  define nd1 where "nd1 = (case (task, sync_peer ?nd0) of
                      (Some _, Some j) \<Rightarrow> at_peer j (\<lambda>p. p\<lparr>pr_last_progress := now\<rparr>) ?nd0 | _ \<Rightarrow> ?nd0)"
  have s1: "sane (sv_peers nd1)" using s by (auto simp: nd1_def sane_aside split: option.split)
  have t1: "nt_chunk_task (sv_peers nd1) = task" by (auto simp: nd1_def task_def split: option.split)
  show ?thesis
  proof (cases task)
    case None
    have "(Inr nd1 :: node result) = Inr nd'"
      using assms(1) unfolding chunk_checked_def Some Let_def option.case task_def [symmetric] nd1_def [symmetric]
      unfolding None option.case .
    then show ?thesis using s1 by simp
  next
    case task: (Some t)
    define i rnd where "i = ct_peer t" and "rnd = ct_round t"
    have c1: "chunk_of i rnd (sv_peers nd1)" by (simp add: chunk_of_def t1 task i_def rnd_def)
    have step: "(case ct_stage t of
          Await_previous \<Rightarrow> if current_round i rnd nd1 then next_chunk E now i rnd nd1 else chunks_done E i rnd nd1
        | Checking index \<Rightarrow>
            (case check_chunk_file (e_prims E) (e_params E) data (Some MAX_SYNC_CHUNK_BYTES) of
               Inl e \<Rightarrow> chunk_failed E now i rnd e nd1
             | Inr checked \<Rightarrow>
                 if \<not> current_round i rnd nd1 then chunks_done E i rnd nd1
                 else rbind (import_checked_chunk (e_prims E) (e_params E) (e_policy E) (p2p_listeners E) now checked (Some i) nd1)
                        (\<lambda>(r, nd). case r of
                            Inl e \<Rightarrow> chunk_failed E now i rnd e nd
                          | Inr _ \<Rightarrow> chunk_loop E now i rnd (at_peer i (\<lambda>p. p\<lparr>pr_last_progress := now\<rparr>) nd)))
        | _ \<Rightarrow> Inr nd1) = Inr nd'"
      using assms(1) unfolding chunk_checked_def Some Let_def option.case task_def [symmetric] nd1_def [symmetric]
      unfolding task option.case i_def rnd_def .
    show ?thesis
    proof (cases "ct_stage t")
      case Await_previous
      with step s1 c1 show ?thesis by (auto split: if_splits intro: next_chunk_sane chunks_done_sane)
    next
      case (Checking index)
      show ?thesis
      proof (cases "check_chunk_file (e_prims E) (e_params E) data (Some MAX_SYNC_CHUNK_BYTES)")
        case (Inl e)
        with step Checking s1 c1 show ?thesis by (auto intro: chunk_failed_sane)
      next
        case checked: (Inr checked)
        show ?thesis
        proof (cases "current_round i rnd nd1")
          case False
          with step Checking checked s1 c1 show ?thesis by (auto intro: chunks_done_sane)
        next
          case True
          from True step Checking checked obtain r nd2 where
            imp: "import_checked_chunk (e_prims E) (e_params E) (e_policy E) (p2p_listeners E) now checked (Some i) nd1 = Inr (r, nd2)"
            and more: "(case r of Inl e \<Rightarrow> chunk_failed E now i rnd e nd2
                | Inr _ \<Rightarrow> chunk_loop E now i rnd (at_peer i (\<lambda>p. p\<lparr>pr_last_progress := now\<rparr>) nd2)) = Inr nd'"
            by (auto simp: result_simps)
          have s2: "sane (sv_peers nd2)" and c2: "chunk_of i rnd (sv_peers nd2)"
            using import_sane [OF imp s1] c1 by (auto simp: chunk_of_def)
          show ?thesis
          proof (cases r)
            case (Inl e)
            with more s2 c2 show ?thesis by (auto intro: chunk_failed_sane)
          next
            case (Inr n)
            with more have "chunk_loop E now i rnd (at_peer i (\<lambda>p. p\<lparr>pr_last_progress := now\<rparr>) nd2) = Inr nd'" by simp
            then show ?thesis by (rule chunk_loop_sane) (use s2 c2 in \<open>simp_all add: sane_aside chunk_of_def\<close>)
          qed
        qed
      qed
    qed (use step s1 in auto)
  qed
qed

lemma check_stall_sane: "check_stall E now nd = Inr nd' \<Longrightarrow> sane (sv_peers nd) \<Longrightarrow> sane (sv_peers nd')"
  by (auto simp: check_stall_def split: if_splits option.splits dest: drop_peer_safe(1) intro: safe_sane)

section \<open>Messages\<close>

text \<open>A handler keeps the invariant, whether it goes well or the peer broke the rules.\<close>

definition handles_well :: "node \<Rightarrow> handled \<Rightarrow> bool" where
  "handles_well nd h \<longleftrightarrow> (\<forall>v nd'. sane (sv_peers nd) \<longrightarrow> h = Inr (v, nd') \<longrightarrow> sane (sv_peers nd'))"

lemma handles_wellI: "(\<And>v nd'. sane (sv_peers nd) \<Longrightarrow> h = Inr (v, nd') \<Longrightarrow> sane (sv_peers nd')) \<Longrightarrow> handles_well nd h"
  by (auto simp: handles_well_def)

lemma handles_well_return: "(sane (sv_peers nd) \<Longrightarrow> sane (sv_peers nd')) \<Longrightarrow> handles_well nd (Inr (v, nd'))"
  by (auto simp: handles_well_def)

lemma handles_well_raise: "handles_well nd (Inl e)"
  by (simp add: handles_well_def)

lemma handles_well_decoded: "(\<And>v. x = Some v \<Longrightarrow> handles_well nd (f v)) \<Longrightarrow> handles_well nd (decoded x nd f)"
  by (auto simp: decoded_def handles_well_return split: option.split)

lemma handles_well_fine: "(\<And>nd'. m = Inr nd' \<Longrightarrow> sane (sv_peers nd) \<Longrightarrow> sane (sv_peers nd')) \<Longrightarrow> handles_well nd (fine m)"
  by (auto simp: handles_well_def fine_def result_simps)

lemma handles_well_rbind: "(\<And>x. m = Inr x \<Longrightarrow> handles_well nd (f x)) \<Longrightarrow> handles_well nd (rbind m f)"
  by (cases m) (auto simp: handles_well_raise)

lemma work_aside: "aside (\<lambda>p. p\<lparr>pr_work := f p\<rparr>)" "aside (\<lambda>p. p\<lparr>pr_height := g p\<rparr>)"
  "aside (\<lambda>p. p\<lparr>pr_reading := r\<rparr>)" "aside (\<lambda>p. p\<lparr>pr_closed := True, pr_reading := r\<rparr>)"
  by (auto simp: aside_def sync_view_def peer_bounded_def)

lemmas sane_at = sane_aside [OF _ aside_send(1)] sane_aside [OF _ known_aside(4)] sane_aside [OF _ known_aside(5)]
  sane_aside [OF _ known_aside(6)] sane_aside [OF _ work_aside(1)] sane_aside [OF _ work_aside(2)] sane_aside [OF _ work_aside(3)]
  sane_aside [OF _ work_aside(4)] sane_aside [OF _ aside_ban(3)]

lemma serve_sane:
  assumes "for_each (serve_block i) bs ([], nd) = Inr (missing, nd')" "sane (sv_peers nd)"
  shows "sane (sv_peers nd')"
proof -
  have "(\<lambda>(missing, nd). sane (sv_peers nd)) (missing, nd')"
    by (rule for_each_invariant [OF assms(1)])
      (use assms(2) in \<open>auto simp: serve_block_def result_simps sane_aside known_aside split: if_splits\<close>)
  then show ?thesis by simp
qed

lemma serve_txs_sane:
  assumes "for_each (serve_tx i) ts ([], nd) = Inr (missing, nd')" "sane (sv_peers nd)"
  shows "sane (sv_peers nd')"
proof -
  have "(\<lambda>(missing, nd). sane (sv_peers nd)) (missing, nd')"
    by (rule for_each_invariant [OF assms(1)])
      (use assms(2) in \<open>auto simp: serve_tx_def result_simps sane_aside known_aside split: option.splits\<close>)
  then show ?thesis by simp
qed

lemma on_inv_well: "handles_well nd (on_inv E i m nd)"
  unfolding on_inv_def Let_def
  by (intro handles_well_decoded handles_well_rbind handles_well_return) (simp add: sane_at)

lemma on_get_data_well: "handles_well nd (on_get_data i m nd)"
proof (unfold on_get_data_def, intro handles_well_decoded handles_wellI)
  fix blocks v nd'
  assume s: "sane (sv_peers nd)"
    and h: "rbind (for_each (serve_block i) blocks ([], nd)) (\<lambda>(missing_blocks, nd).
     decoded (ids_of m ''txs'' MAX_INV) nd (\<lambda>txs.
     rbind (for_each (serve_tx i) txs ([], nd)) (\<lambda>(missing_txs, nd).
       Inr (Fine, if missing_blocks \<noteq> [] \<or> missing_txs \<noteq> []
                  then at_peer i (send (message ''not_found'' [(''blocks'', hex_list missing_blocks), (''txs'', hex_list missing_txs)])) nd
                  else nd)))) = Inr (v, nd')"
  then obtain missing nd1 where b: "for_each (serve_block i) blocks ([], nd) = Inr (missing, nd1)" by (auto simp: result_simps)
  have s1: "sane (sv_peers nd1)" by (rule serve_sane [OF b s])
  show "sane (sv_peers nd')"
  proof (cases "ids_of m ''txs'' MAX_INV")
    case None
    with h b s1 show ?thesis by (simp add: decoded_def)
  next
    case (Some txs)
    with h b obtain missing2 nd2 where t: "for_each (serve_tx i) txs ([], nd1) = Inr (missing2, nd2)"
      and nd': "nd' = (if missing \<noteq> [] \<or> missing2 \<noteq> []
          then at_peer i (send (message ''not_found'' [(''blocks'', hex_list missing), (''txs'', hex_list missing2)])) nd2 else nd2)"
      by (auto simp: decoded_def result_simps)
    have "sane (sv_peers nd2)" by (rule serve_txs_sane [OF t s1])
    then show ?thesis unfolding nd' by (simp add: sane_at)
  qed
qed

lemma flight_smaller_sane:
  assumes "sane nt"
  shows "sane (change_peer i (\<lambda>p. p\<lparr>pr_in_flight := pr_in_flight p |-| {|b|}, pr_last_progress := now\<rparr>) nt)"
proof (rule sane_change_peer [OF assms])
  have "fcard (pr_in_flight p |-| {|b|}) \<le> fcard (pr_in_flight p)" for p :: peer by (rule fcard_mono) auto
  with assms show "peer_bounded (peer_of i nt\<lparr>pr_in_flight := pr_in_flight (peer_of i nt) |-| {|b|}, pr_last_progress := now\<rparr>)"
    by (auto simp: sane_def peer_bounded_def intro: order_trans simp del: fcard_fminus_finsert)
qed (use assms in \<open>auto simp: sane_def orderly_def chunks_alone_def idle_def\<close>)

lemma continue_sync_sane: "continue_sync E now i nd = Inr nd' \<Longrightarrow> sane (sv_peers nd) \<Longrightarrow> sane (sv_peers nd')"
  by (blast intro: continue_sync_safe safe_sane)

lemma start_sync_well: "start_sync E now i nd = Inr nd' \<Longrightarrow> sane (sv_peers nd) \<Longrightarrow> sane (sv_peers nd')"
  by (rule start_sync_sane(1))

lemma maybe_sync_sane: "maybe_sync E now nd = Inr nd' \<Longrightarrow> sane (sv_peers nd) \<Longrightarrow> sane (sv_peers nd')"
  by (blast intro: maybe_sync_safe safe_sane)

lemma handles_well_if: "(c \<Longrightarrow> handles_well nd a) \<Longrightarrow> (\<not> c \<Longrightarrow> handles_well nd b) \<Longrightarrow> handles_well nd (if c then a else b)"
  by simp

lemma continue_after_block:
  assumes "continue_sync E now i (at_peer i (\<lambda>p. p\<lparr>pr_in_flight := pr_in_flight p |-| {|b|}, pr_last_progress := now\<rparr>) nd) = Inr nd'"
    and "sane (sv_peers nd)"
  shows "sane (sv_peers nd')"
  using assms(1) by (rule continue_sync_sane) (simp add: flight_smaller_sane assms(2))

lemma if_fine:
  "(if a then Inr (x, s) else if b then rmap (Pair y) m else Inr (y, s1)) = Inr (v, s') \<Longrightarrow> s' = s \<or> s' = s1 \<or> m = Inr s'"
  by (auto simp: rmap_Inr_iff split: if_splits)

lemma after_block_well: "handles_well nd (after_block E now i b syncing r nd)"
proof (rule handles_wellI)
  fix v nd'
  assume s: "sane (sv_peers nd)" and h: "after_block E now i b syncing r nd = Inr (v, nd')"
  let ?nd1 = "if sr_outcome r = INVALID then at_peer i (\<lambda>p. p\<lparr>pr_work := 0\<rparr>) nd else nd"
  have s1: "sane (sv_peers ?nd1)" using s by (simp add: sane_at)
  have "nd' = nd \<or> nd' = ?nd1 \<or>
      continue_sync E now i (at_peer i (\<lambda>p. p\<lparr>pr_in_flight := pr_in_flight p |-| {|b|}, pr_last_progress := now\<rparr>) ?nd1) = Inr nd'"
    using h unfolding after_block_def Let_def fine_def by (rule if_fine)
  then show "sane (sv_peers nd')"
  proof (elim disjE)
    assume "nd' = nd"
    then show ?thesis using s by (simp only:)
  next
    assume "nd' = ?nd1"
    then show ?thesis using s1 by (simp only:)
  next
    assume c: "continue_sync E now i (at_peer i (\<lambda>p. p\<lparr>pr_in_flight := pr_in_flight p |-| {|b|}, pr_last_progress := now\<rparr>) ?nd1) = Inr nd'"
    show ?thesis by (rule continue_after_block [OF c s1])
  qed
qed

lemma handles_well_after:
  assumes "sane (sv_peers nd) \<Longrightarrow> sane (sv_peers mid)" and "handles_well mid h"
  shows "handles_well nd h"
  using assms unfolding handles_well_def by blast

lemma take_block_well: "handles_well nd (take_block E now i blk nd)"
proof -
  let ?b = "block_id (e_prims E) (header blk)"
  let ?nd1 = "at_peer i (\<lambda>p. p\<lparr>pr_known_blocks := recent_add ?b (pr_known_blocks p)\<rparr>) nd"
  let ?syncing = "?b |\<in>| pr_in_flight (node_peer i ?nd1)"
  have s1: "sane (sv_peers nd) \<Longrightarrow> sane (sv_peers ?nd1)" by (simp add: sane_at)
  have unknown: "handles_well ?nd1 (rbind (our_work ?nd1) (\<lambda>ours.
      let nd = at_peer i (\<lambda>p. p\<lparr>pr_work := max (pr_work p) (ours + 1)\<rparr>) ?nd1
      in fine (if sync_peer nd = None then start_sync E now i nd else Inr nd)))"
    unfolding Let_def
    by (intro handles_well_rbind handles_well_fine) (auto simp: sane_at split: if_splits elim!: start_sync_well)
  have known: "handles_well ?nd1 (let nd = at_peer i (\<lambda>p. p\<lparr>pr_height := max (pr_height p) (height blk)\<rparr>) ?nd1
      in rbind (Service.submit_block (e_prims E) (e_params E) (e_policy E) (p2p_listeners E) now blk (Some i) ?syncing nd)
           (\<lambda>(r, nd). after_block E now i ?b ?syncing r nd))"
  proof (unfold Let_def, intro handles_well_rbind)
    fix x assume x: "Service.submit_block (e_prims E) (e_params E) (e_policy E) (p2p_listeners E) now blk (Some i) ?syncing
      (at_peer i (\<lambda>p. p\<lparr>pr_height := max (pr_height p) (height blk)\<rparr>) ?nd1) = Inr x"
    obtain r nd2 where x2: "x = (r, nd2)" by (cases x)
    show "handles_well ?nd1 (case x of (r, nd) \<Rightarrow> after_block E now i ?b ?syncing r nd)"
      unfolding x2 prod.case
      by (rule handles_well_after [OF _ after_block_well]) (use service_sane(1) [OF x [unfolded x2]] in \<open>simp add: sane_at\<close>)
  qed
  show ?thesis
    unfolding take_block_def Let_def
    by (rule handles_well_after [OF s1], simp, intro handles_well_rbind)
      (use unknown known in \<open>simp add: Let_def\<close>)
qed

lemma on_block_well: "handles_well nd (on_block E now i m nd)"
  unfolding on_block_def
  by (intro handles_well_decoded)
    (auto intro: handles_well_return handles_well_raise take_block_well split: sum.split)

lemma on_tx_well: "handles_well nd (on_tx E now i m nd)"
proof (unfold on_tx_def, intro handles_well_decoded)
  fix data
  show "handles_well nd (case transaction_from_bytes data of
         Inl e \<Rightarrow> if e = DecodeError then Inr (Broke True, nd) else Inl e
       | Inr tx \<Rightarrow>
           let t = txid (e_prims E) tx;
               nd = at_peer i (\<lambda>p. p\<lparr>pr_known_txs := recent_add t (pr_known_txs p)\<rparr>) nd
           in if mempool_get t (sv_mempool nd) \<noteq> None \<or> recent_has (nt_rejected_txs (sv_peers nd)) t then Inr (Fine, nd)
              else rbind (submit_transaction (e_prims E) (e_params E) (e_policy E) (p2p_listeners E) now tx (Some i) nd)
                     (\<lambda>(r, nd). case r of
                         Inr _ \<Rightarrow> Inr (Fine, nd)
                       | Inl (ValidationError code) \<Rightarrow>
                           if code \<in> INVALID_TX_ERRORS then Inr (Broke True, nd)
                           else Inr (Fine, on_net (\<lambda>nt. nt\<lparr>nt_rejected_txs := recent_add t (nt_rejected_txs nt)\<rparr>) nd)
                       | Inl e \<Rightarrow> Inl e))"
  proof (cases "transaction_from_bytes data")
    case (Inl e)
    then show ?thesis by (auto intro: handles_well_return handles_well_raise)
  next
    case (Inr tx)
    let ?nd1 = "at_peer i (\<lambda>p. p\<lparr>pr_known_txs := recent_add (txid (e_prims E) tx) (pr_known_txs p)\<rparr>) nd"
    show ?thesis
      unfolding Inr sum.case Let_def
    proof (rule handles_well_after [where mid = ?nd1], goal_cases)
      case 1
      then show ?case by (simp add: sane_at)
    next
      case 2
      show ?case
      proof (rule handles_wellI, goal_cases)
        case (1 v nd')
        show ?case
        proof (cases "mempool_get (txid (e_prims E) tx) (sv_mempool ?nd1) \<noteq> None \<or>
            recent_has (nt_rejected_txs (sv_peers ?nd1)) (txid (e_prims E) tx)")
          case True
          with 1 show ?thesis by auto
        next
          case False
          from 1(2) obtain r nd2 where sub: "submit_transaction (e_prims E) (e_params E) (e_policy E) (p2p_listeners E) now tx (Some i) ?nd1 = Inr (r, nd2)"
            and r: "(case r of Inr _ \<Rightarrow> Inr (Fine, nd2)
                       | Inl (ValidationError code) \<Rightarrow>
                           if code \<in> INVALID_TX_ERRORS then Inr (Broke True, nd2)
                           else Inr (Fine, on_net (\<lambda>nt. nt\<lparr>nt_rejected_txs := recent_add (txid (e_prims E) tx) (nt_rejected_txs nt)\<rparr>) nd2)
                       | Inl e \<Rightarrow> Inl e) = Inr (v, nd')"
            unfolding if_not_P [OF False] rbind_Inr_iff by auto
          have s2: "sane (sv_peers nd2)" by (rule service_sane(2) [OF sub 1(1)])
          have "sv_peers nd' = sv_peers nd2 \<or> (\<exists>t. sv_peers nd' = (sv_peers nd2)\<lparr>nt_rejected_txs := recent_add t (nt_rejected_txs (sv_peers nd2))\<rparr>)"
            using r by (auto split: sum.splits exn.splits if_splits)
          then show ?thesis using s2 by (auto simp: sane_rejected)
        qed
      qed
    qed
  qed
qed

lemma on_not_found_well: "handles_well nd (on_not_found i m nd)"
  unfolding on_not_found_def by (intro handles_well_decoded handles_well_return)

lemma on_get_headers_well: "handles_well nd (on_get_headers i m nd)"
  unfolding on_get_headers_def
  by (intro handles_well_decoded handles_well_rbind handles_well_return) (simp add: sane_at)

lemma on_get_peers_well: "handles_well nd (on_get_peers E i nd)"
  unfolding on_get_peers_def Let_def by (intro handles_well_return) (simp add: sane_at)

lemma learn_sane [simp]: "sane nt \<Longrightarrow> sane (learn url allow nt)"
  by (simp add: learn_def Let_def)

lemma learn_url_sane: "sane nt \<Longrightarrow> sane (learn_url E h url nt)"
  by (simp add: learn_url_def split: json.split)

lemma learn_urls_sane: "sane nt \<Longrightarrow> sane (fold (learn_url E h) urls nt)"
  by (rule fold_invariant_list) (auto intro: learn_url_sane)

lemma on_peers_well: "handles_well nd (on_peers E i m nd)"
  unfolding on_peers_def by (intro handles_well_decoded handles_well_return) (simp add: learn_urls_sane)

text \<open>An answer to \<open>get_headers\<close>: a batch goes into the table, and nothing is awaited any more.\<close>

lemma sane_add_header_check:
  assumes "sane nt" and "pr_awaiting_headers (peer_of i nt)" and "length hs \<le> MAX_HEADERS"
  shows "sane (change_peer i (\<lambda>p. p\<lparr>pr_awaiting_headers := False, pr_checking_headers := True\<rparr>) nt
      \<lparr>nt_header_checks := nt_header_checks nt @ [\<lparr>hc_peer = i, hc_headers = hs, hc_round = pr_sync_round (peer_of i nt)\<rparr>]\<rparr>)"
    (is "sane ?nt")
proof -
  let ?p = "peer_of i nt"
  have none: "under_way i (pr_sync_round ?p) nt = 0" and room: "length (pr_waiting ?p) < MAX_PENDING_HEADERS"
    using assms(1,2) by (auto simp: sane_def orderly_def)
  have more: "under_way j r ?nt = (if j = i \<and> r = pr_sync_round ?p then 1 else under_way j r nt)" for j r
    using none by (auto simp: under_way_def)
  have peer: "peer_of j ?nt = (if j = i then ?p\<lparr>pr_awaiting_headers := False, pr_checking_headers := True\<rparr> else peer_of j nt)" for j
    by (simp add: peer_of_change)
  have alone: "ct_peer t \<noteq> i" if "nt_chunk_task nt = Some t" for t
    using assms(1,2) that by (auto simp: sane_def chunks_alone_def idle_def)
  have "peer_bounded (peer_of j ?nt) \<and> orderly (peer_of j ?nt) (under_way j (pr_sync_round (peer_of j ?nt)) ?nt)" for j
    using assms(1) room unfolding peer more by (auto simp: sane_def orderly_def peer_bounded_def)
  moreover have "under_way j r ?nt \<le> 1 \<and> (under_way j r ?nt > 0 \<longrightarrow> r \<le> pr_sync_round (peer_of j ?nt))" for j r
    using assms(1) unfolding peer more by (auto simp: sane_def)
  moreover have "chunks_alone ?nt"
    using assms(1) alone unfolding chunks_alone_def peer more by (auto simp: sane_def chunks_alone_def)
  ultimately show ?thesis
    using assms(1,3) unfolding sane_def [of ?nt] by (auto simp: sane_def)
qed

lemma awaiting_off_sane: "sane nt \<Longrightarrow> sane (change_peer i (\<lambda>p. p\<lparr>pr_awaiting_headers := False\<rparr>) nt)"
  by (rule sane_change_peer) (auto simp: sane_def orderly_def chunks_alone_def idle_def)

lemma change_peer_twice: "change_peer i g (change_peer i f nt) = change_peer i (\<lambda>p. g (f p)) nt"
  by (simp add: change_peer_def peer_of_def)

lemma read_headers_length: "read_headers vs = Inr hs \<Longrightarrow> length hs = length vs"
  by (auto simp: read_headers_def result_simps dest: list_all2_lengthD)

lemma list_of_length: "list_of m key n = Some vs \<Longrightarrow> length vs \<le> n"
  by (auto simp: list_of_def split: json.splits if_splits)

lemma on_headers_well: "handles_well nd (on_headers E i m nd)"
proof (unfold on_headers_def, intro handles_well_decoded)
  fix vs assume "list_of m ''headers'' MAX_HEADERS = Some vs"
  then have few: "length vs \<le> MAX_HEADERS" by (rule list_of_length)
  let ?nd1 = "at_peer i (\<lambda>p. p\<lparr>pr_awaiting_headers := False\<rparr>) nd"
  show "handles_well nd (if sync_peer nd \<noteq> Some i \<or> \<not> pr_awaiting_headers (node_peer i nd) then Inr (Fine, nd)
       else let nd = ?nd1
            in case read_headers vs of
                 Inl e \<Rightarrow> if e \<in> {TypeError, ValueError, DecodeError} then Inr (Broke True, nd) else Inl e
               | Inr headers \<Rightarrow>
                   if \<not> linked (e_prims E) headers then Inr (Broke True, nd)
                   else Inr (Fine, on_net (\<lambda>nt. nt\<lparr>nt_header_checks := nt_header_checks nt @
                          [\<lparr>hc_peer = i, hc_headers = headers, hc_round = pr_sync_round (peer_of i nt)\<rparr>]\<rparr>)
                        (at_peer i (\<lambda>p. p\<lparr>pr_checking_headers := True\<rparr>) nd)))"
  proof (unfold Let_def, rule handles_well_if, rule handles_well_return)
    assume "\<not> (sync_peer nd \<noteq> Some i \<or> \<not> pr_awaiting_headers (node_peer i nd))"
    then have asked: "pr_awaiting_headers (peer_of i (sv_peers nd))" by (simp add: node_peer_def)
    show "handles_well nd (case read_headers vs of
                 Inl e \<Rightarrow> if e \<in> {TypeError, ValueError, DecodeError} then Inr (Broke True, ?nd1) else Inl e
               | Inr headers \<Rightarrow>
                   if \<not> linked (e_prims E) headers then Inr (Broke True, ?nd1)
                   else Inr (Fine, on_net (\<lambda>nt. nt\<lparr>nt_header_checks := nt_header_checks nt @
                          [\<lparr>hc_peer = i, hc_headers = headers, hc_round = pr_sync_round (peer_of i nt)\<rparr>]\<rparr>)
                        (at_peer i (\<lambda>p. p\<lparr>pr_checking_headers := True\<rparr>) ?nd1)))"
    proof (cases "read_headers vs")
      case (Inl e)
      then show ?thesis by (auto intro: handles_well_raise handles_well_return simp: awaiting_off_sane)
    next
      case (Inr hs)
      have "length hs \<le> MAX_HEADERS" using read_headers_length [OF Inr] few by simp
      with asked have "sane (sv_peers nd) \<Longrightarrow> sane (sv_peers (on_net (\<lambda>nt. nt\<lparr>nt_header_checks := nt_header_checks nt @
                          [\<lparr>hc_peer = i, hc_headers = hs, hc_round = pr_sync_round (peer_of i nt)\<rparr>]\<rparr>)
                        (at_peer i (\<lambda>p. p\<lparr>pr_checking_headers := True\<rparr>) ?nd1)))"
        using sane_add_header_check [of "sv_peers nd" i hs] by (simp add: change_peer_twice)
      then show ?thesis unfolding Inr sum.case
        by (intro handles_well_if handles_well_return) (simp_all add: awaiting_off_sane)
    qed
  qed
qed

lemma handle_well: "handles_well nd (handle E now i kind m nd)"
  unfolding handle_def
  by (intro handles_well_if on_inv_well on_get_data_well on_block_well on_tx_well on_not_found_well on_get_headers_well
      on_headers_well on_get_peers_well on_peers_well handles_well_return)

section \<open>A connection\<close>

lemma hello_aside:
  "aside (\<lambda>p. p\<lparr>pr_height := h, pr_work := w, pr_chunks := c, pr_node_id := nid, pr_ready := True, pr_http_url := f p\<rparr>)"
  by (auto simp: aside_def sync_view_def peer_bounded_def)

lemma note_node_sane [simp]: "sane (note_node url nid nt) = sane nt"
  by (simp add: note_node_def split: option.split)

lemma remember_sane [simp]: "sane (remember url nt) = sane nt"
  by (simp add: remember_def)

lemma greet_peer_sane:
  assumes "greet_peer E now i nid h work chunks listen nd = Inr nd'" and "sane (sv_peers nd)"
  shows "sane (sv_peers nd')"
proof -
  have f: "aside (fold (\<lambda>part. send (message ''inv'' [(''txs'', hex_list part)])) parts)" for parts
    by (intro aside_fold aside_send)
  from assms(1) show ?thesis
    unfolding greet_peer_def Let_def
    by (rule maybe_sync_sane) (auto simp: assms(2) sane_at sane_aside [OF _ hello_aside] sane_aside [OF _ f] split: option.split)
qed

lemma handles_well_text:
  "(\<And>x. v = JStr x \<Longrightarrow> handles_well nd (f x)) \<Longrightarrow> handles_well nd g \<Longrightarrow> handles_well nd (case v of JStr x \<Rightarrow> f x | _ \<Rightarrow> g)"
  by (cases v) auto

lemma close_sane [simp]: "sane nt \<Longrightarrow> sane (change_peer i (\<lambda>p. p\<lparr>pr_closed := True\<rparr>) nt)"
  by (rule sane_aside [OF _ aside_ban(3)])

lemma handle_hello_well: "handles_well nd (handle_hello E now i kind m nd)"
  unfolding handle_hello_def Let_def
proof (intro handles_well_if handles_well_text handles_well_decoded handles_well_fine handles_well_return, goal_cases)
  case (5 nid)
  have "sane (case pr_url (node_peer i nd) of None \<Rightarrow> sv_peers nd
      | Some url \<Rightarrow> if url = [] then sv_peers nd else (sv_peers nd)\<lparr>nt_self_urls := insert_new url (nt_self_urls (sv_peers nd))\<rparr>)"
    using 5(7) by (simp split: option.split)
  then show ?case by simp
next
  case (8 nid v va vb nd')
  from 8(12) show ?case by (rule greet_peer_sane) (simp add: 8(13))
qed (auto simp: comp_def)

lemma leave_sane:
  assumes "leave E now i banned nd = Inr nd'" and "sane (sv_peers nd)"
  shows "sane (sv_peers nd')"
proof -
  let ?nd1 = "at_peer i (\<lambda>p. p\<lparr>pr_closed := True, pr_reading := Finished\<rparr>)
    (on_net (\<lambda>nt. nt\<lparr>nt_connected := removeAll i (nt_connected nt)\<rparr>) (if banned then on_net (ban (e_lib E) now i) nd else nd))"
  have s1: "sane (sv_peers ?nd1)" using assms(2) by (simp add: sane_at)
  have "nd' = ?nd1 \<or> maybe_sync E now (stop_sync ?nd1) = Inr nd'"
    using assms(1) unfolding leave_def Let_def by (auto split: if_splits)
  then show ?thesis
  proof (elim disjE)
    assume "nd' = ?nd1"
    then show ?thesis using s1 by (simp only:)
  next
    assume m: "maybe_sync E now (stop_sync ?nd1) = Inr nd'"
    show ?thesis by (rule maybe_sync_sane [OF m sane_stop [OF s1]])
  qed
qed

lemma read_on_sane:
  assumes "read_on E now i (v, nd) = Inr nd'" and "sane (sv_peers nd)"
  shows "sane (sv_peers nd')"
  using assms by (auto simp: read_on_def sane_at split: verdict.splits if_splits intro: leave_sane)

lemma handle_now_sane:
  assumes "handle_now E now i kind m nd = Inr nd'" and s: "sane (sv_peers nd)"
  shows "sane (sv_peers nd')"
proof (cases "pr_closed (node_peer i nd)")
  case True
  with assms show ?thesis by (auto simp: handle_now_def intro: leave_sane)
next
  case False
  with assms(1) obtain v nd1 where "handle E now i kind m nd = Inr (v, nd1)" "read_on E now i (v, nd1) = Inr nd'"
    by (auto simp: handle_now_def result_simps)
  then show ?thesis using handle_well [of nd E now i kind m] s read_on_sane by (auto simp: handles_well_def)
qed

lemma budget_aside: "tb_rate b = MESSAGE_RATE \<Longrightarrow> aside (\<lambda>p. p\<lparr>pr_budget := b\<rparr>)"
  by (auto simp: aside_def sync_view_def peer_bounded_def)

lemma take_tokens_rate: "take_tokens now cost b = Inr (wait, b') \<Longrightarrow> tb_rate b' = tb_rate b"
  by (auto simp: take_tokens_def refill_def Let_def split: if_splits)

lemma received_sane:
  assumes "received E now i t nd = Inr nd'" and s: "sane (sv_peers nd)"
  shows "sane (sv_peers nd')"
proof (cases "pr_reading (node_peer i nd)")
  case Expect_hello
  show ?thesis
  proof (cases "parse_message (e_lib E) t")
    case None
    with assms Expect_hello show ?thesis by (auto simp: received_def intro: leave_sane)
  next
    case (Some km)
    obtain kind m where km: "km = (kind, m)" by (cases km)
    from assms(1) Expect_hello Some km obtain v nd1 where
      "handle_hello E now i kind m nd = Inr (v, nd1)" "read_on E now i (v, nd1) = Inr nd'"
      by (auto simp: received_def result_simps)
    then show ?thesis using handle_hello_well [of nd E now i kind m] s read_on_sane by (auto simp: handles_well_def)
  qed
next
  case Ready_to_read
  show ?thesis
  proof (cases "parse_message (e_lib E) t")
    case None
    with assms Ready_to_read show ?thesis by (auto simp: received_def intro: leave_sane)
  next
    case (Some km)
    obtain kind m where km: "km = (kind, m)" by (cases km)
    from assms(1) Ready_to_read Some km obtain wait budget where
      b: "take_tokens now (message_cost kind m) (pr_budget (node_peer i nd)) = Inr (wait, budget)" and
      "(if wait > 0 then Inr (at_peer i (\<lambda>p. p\<lparr>pr_reading := Held_back kind m (now + wait)\<rparr>) (at_peer i (\<lambda>p. p\<lparr>pr_budget := budget\<rparr>) nd))
        else handle_now E now i kind m (at_peer i (\<lambda>p. p\<lparr>pr_budget := budget\<rparr>) nd)) = Inr nd'"
      by (auto simp: received_def Let_def result_simps)
    moreover have "tb_rate budget = MESSAGE_RATE"
      using take_tokens_rate [OF b] s by (simp add: sane_def peer_bounded_def node_peer_def)
    then have "sane (sv_peers (at_peer i (\<lambda>p. p\<lparr>pr_budget := budget\<rparr>) nd))" using s by (simp add: sane_aside budget_aside)
    ultimately show ?thesis by (auto simp: sane_at split: if_splits intro: handle_now_sane)
  qed
qed (use assms in \<open>auto simp: received_def\<close>)

lemma resumed_sane: "resumed E now i nd = Inr nd' \<Longrightarrow> sane (sv_peers nd) \<Longrightarrow> sane (sv_peers nd')"
  by (auto simp: resumed_def split: reading.splits if_splits intro: handle_now_sane)

lemma queue_aside: "pr_queue (peer_of i nt) = x # xs \<Longrightarrow> sane nt \<Longrightarrow> sane (change_peer i (\<lambda>p. p\<lparr>pr_queue := xs\<rparr>) nt)"
  by (rule sane_change_peer) (auto simp: sane_def peer_bounded_def orderly_def chunks_alone_def idle_def dest!: spec [of _ i])

lemma write_next_sane:
  assumes "write_next E i nd = Inr (m, nd')" and "sane (sv_peers nd)"
  shows "sane (sv_peers nd')"
proof (cases "pr_queue (node_peer i nd)")
  case Nil
  with assms show ?thesis by (simp add: write_next_def)
next
  case (Cons x xs)
  let ?nd1 = "at_peer i (\<lambda>p. p\<lparr>pr_queue := xs\<rparr>) nd"
  have s1: "sane (sv_peers ?nd1)" using Cons assms(2) by (simp add: queue_aside node_peer_def)
  have "nd' = ?nd1 \<or> nd' = at_peer i (\<lambda>p. p\<lparr>pr_closed := True\<rparr>) ?nd1"
    using assms(1) Cons by (auto simp: write_next_def Let_def split: outgoing.splits sum.splits)
  then show ?thesis
  proof
    assume "nd' = ?nd1"
    then show ?thesis using s1 by (simp only:)
  next
    assume "nd' = at_peer i (\<lambda>p. p\<lparr>pr_closed := True\<rparr>) ?nd1"
    then show ?thesis using s1 by simp
  qed
qed

lemma fresh_not_there: "fmlookup (nt_peers nt) (fresh_peer nt) = None"
proof -
  have "fresh_peer nt |\<notin>| fmdom (nt_peers nt)"
  proof
    assume a: "fresh_peer nt |\<in>| fmdom (nt_peers nt)"
    then have "fMax (fmdom (nt_peers nt)) + 1 |\<in>| fmdom (nt_peers nt)" by (auto simp: fresh_peer_def split: if_splits)
    then have "fMax (fmdom (nt_peers nt)) + 1 \<le> fMax (fmdom (nt_peers nt))" by (rule fMax_ge)
    then show False by simp
  qed
  then show ?thesis by (simp add: fmdom_notD)
qed

lemma new_connection_sane:
  assumes "sane nt"
  shows "sane (nt\<lparr>nt_peers := fmupd (fresh_peer nt) (new_peer outbound label host now) (nt_peers nt), nt_connected := c\<rparr>)"
proof -
  let ?i = "fresh_peer nt" and ?p = "new_peer outbound label host now"
  have "peer_of ?i nt = new_peer False [] None 0" by (simp add: peer_of_def fresh_not_there)
  then have view: "sync_view ?p = sync_view (peer_of ?i nt)" by (simp add: sync_view_def new_peer_def)
  have "sane (change_peer ?i (\<lambda>_. ?p) nt)"
  proof (rule sane_change_peer [OF assms])
    show "orderly ?p (under_way ?i (pr_sync_round ?p) nt)" using assms aside_view [OF view] by (simp add: sane_def)
  qed (use assms aside_view [OF view] in \<open>auto simp: sane_def chunks_alone_def\<close>)
  then have "sane ((change_peer ?i (\<lambda>_. ?p) nt)\<lparr>nt_connected := c\<rparr>)" by simp
  then show ?thesis by (simp add: change_peer_def)
qed

lemma open_connection_sane:
  assumes "open_connection E agent now outbound label host nd = Inr nd'" and "sane (sv_peers nd)"
  shows "sane (sv_peers nd')"
  using assms by (auto simp: open_connection_def Let_def result_simps intro!: sane_aside aside_send(1) new_connection_sane)

lemma tick_sane:
  assumes "tick E now nd = Inr nd'" and s: "sane (sv_peers nd)"
  shows "sane (sv_peers nd')"
  using assms(1) unfolding tick_def
  by (rule check_stall_sane) (simp add: s dial_more_def forget_expired_bans_def Let_def)

text \<open>Every step keeps the invariant.\<close>

lemma node_step_sane:
  assumes "node_step E agent now e nd = Inr nd'" and s: "sane (sv_peers nd)"
  shows "sane (sv_peers nd')"
proof (cases e)
  case Tick
  with assms show ?thesis by (auto intro: tick_sane)
next
  case (Dialed url host)
  with assms(1) have "open_connection E agent now True url host
      (on_net (\<lambda>nt. nt\<lparr>nt_failures := fmdrop url (nt_failures nt), nt_dialing := remove1 url (nt_dialing nt)\<rparr>) nd) = Inr nd'"
    by (simp add: dialed_def)
  then show ?thesis by (rule open_connection_sane) (simp add: s)
next
  case (Dial_failed url)
  with assms show ?thesis by (auto simp: dial_failed_def Let_def)
next
  case (Incoming host label)
  with assms show ?thesis by (auto simp: accept_def result_simps split: option.splits intro: open_connection_sane)
next
  case (Received i t)
  with assms show ?thesis by (auto split: if_splits intro: received_sane)
next
  case (Resumed i)
  with assms show ?thesis by (auto split: if_splits intro: resumed_sane)
next
  case (Left i)
  with assms show ?thesis by (auto split: if_splits intro: leave_sane)
next
  case (Written i)
  with assms show ?thesis by (auto simp: result_simps split: if_splits intro: write_next_sane)
next
  case (Headers_begin hc)
  show ?thesis
  proof (cases "hc \<in> set (nt_header_checks (sv_peers nd))")
    case True
    with assms(1) Headers_begin show ?thesis
      by (simp, elim check_headers_begin_sane) (use take_header_check [OF s True] s True in \<open>auto simp: sane_def\<close>)
  qed (use assms Headers_begin in simp)
next
  case (Pow_done pc)
  show ?thesis
  proof (cases "pc \<in> set (nt_pow_checks (sv_peers nd))")
    case True
    with assms(1) Pow_done show ?thesis
      by (simp, elim pow_checked_sane) (use take_pow_check [OF s True] s True in \<open>auto simp: sane_def\<close>)
  qed (use assms Pow_done in simp)
next
  case Chunks_begin
  with assms show ?thesis by (auto split: option.splits if_splits intro: chunk_loop_sane simp: chunk_of_def)
next
  case (Downloaded answer)
  with assms show ?thesis by (auto split: option.splits chunk_stage.splits intro: chunk_downloaded_sane simp: chunk_of_def)
next
  case Chunk_checked
  with assms show ?thesis by (auto intro: chunk_checked_sane)
next
  case (Own_block b)
  with assms show ?thesis by (auto simp: result_simps intro: service_sane(1))
next
  case (Own_transfer tx)
  with assms show ?thesis by (auto simp: result_simps intro: service_sane(2))
qed

lemma reaches_sane: "reaches E agent nd nd' \<Longrightarrow> sane (sv_peers nd) \<Longrightarrow> sane (sv_peers nd')"
  by (induction rule: reaches.induct) (auto intro: node_step_sane)

section \<open>An example\<close>

text \<open>A node that knows the genesis block only.\<close>

definition genesis_row :: header_row where
  "genesis_row = \<lparr>hr_prev_id = zero_bytes 32, hr_height = 0, hr_header = header_bytes (header example_genesis),
     hr_chain_work = to_be 48 2, hr_status = STATUS_VALID, hr_location = None\<rparr>"

definition genesis_store :: store where
  "genesis_store = new_store\<lparr>st_headers := fmupd (bid example_prims example_genesis) genesis_row fmempty,
     st_main := fmupd 0 (bid example_prims example_genesis) fmempty\<rparr>"

definition example_node :: "p2p_config \<Rightarrow> node" where
  "example_node cfg = new_service \<lparr>ch_store = genesis_store, ch_genesis = example_genesis, ch_orphans = [],
     ch_orphan_bytes = 0, ch_pow_checked = []\<rparr> (new_net cfg [110])"

definition example_config :: p2p_config where
  "example_config = \<lparr>listen_url = None, connect_urls = [], seed_urls = [], target_outbound = 8, max_inbound = 64\<rparr>"

definition example_site :: "net_lib \<Rightarrow> site" where
  "example_site L = \<lparr>e_prims = example_prims, e_params = REGTEST, e_policy = default_policy, e_lib = L, e_config = example_config\<rparr>"

lemma example_header_fits: "header_fits (header example_genesis)"
proof -
  have "length (rfc6962_root example_prims [t]) = 32" for t
    using digest32_example by (simp add: length_rfc6962_root)
  then show ?thesis
    by (simp add: header_fits_def example_genesis_def example_link_def REGTEST_def MAINNET_def fits_def target_for_def)
qed

lemma genesis_store_header:
  "find_header (bid example_prims example_genesis) genesis_store =
     Inr (Some \<lparr>sh_header = header example_genesis, sh_chain_work = 2, sh_status = STATUS_VALID\<rparr>)"
  using example_header_fits
  by (simp add: find_header_def genesis_store_def genesis_row_def header_from_bytes_iff [THEN iffD2] from_be_to_be_mod)

lemma genesis_store_tip:
  "tip_height genesis_store = Inr 0"
  "the_tip genesis_store = Inr \<lparr>sh_header = header example_genesis, sh_chain_work = 2, sh_status = STATUS_VALID\<rparr>"
  using genesis_store_header by (simp_all add: the_tip_def tip_height_def main_id_def, simp_all add: genesis_store_def)

section \<open>The memory of a node is bounded\<close>

text \<open>C39. Whatever happens to a node that starts without peers, in whatever order peers connect, send and
  leave, blocks and transfers arrive and background checks end: what it keeps of every peer has the bounds of
  the code (ids it knows of, messages that wait to be sent, blocks asked for, headers whose blocks are not asked
  for yet), at most one batch of headers is checked for a round of catching up and none while an answer is
  awaited, and while chunks are fetched from a peer no headers and no blocks are.\<close>

theorem peers_stay_bounded:
  assumes "reaches E agent nd nd'" and "sv_peers nd = new_net cfg nid" and "fmlookup (nt_peers (sv_peers nd')) i = Some p"
  shows "length (rc_items (pr_known_blocks p)) \<le> 20000 \<and> length (rc_items (pr_known_txs p)) \<le> 20000 \<and>
     length (pr_queue p) \<le> 5001 \<and> fcard (pr_in_flight p) \<le> 64 \<and> length (pr_waiting p) < 52000 \<and>
     (\<forall>rnd. under_way i rnd (sv_peers nd') \<le> 1) \<and>
     (pr_awaiting_headers p \<longrightarrow> under_way i (pr_sync_round p) (sv_peers nd') = 0) \<and>
     (chunk_of i (pr_sync_round p) (sv_peers nd') \<longrightarrow>
        \<not> pr_awaiting_headers p \<and> under_way i (pr_sync_round p) (sv_peers nd') = 0 \<and> pr_in_flight p = {||})"
proof -
  have s: "sane (sv_peers nd')" using reaches_sane [OF assms(1)] assms(2) by simp
  have p: "peer_of i (sv_peers nd') = p" using assms(3) by (simp add: peer_of_def)
  have b: "peer_bounded p" and o: "orderly p (under_way i (pr_sync_round p) (sv_peers nd'))"
    and one: "\<forall>rnd. under_way i rnd (sv_peers nd') \<le> 1"
    using s p by (auto simp: sane_def)
  have "chunk_of i (pr_sync_round p) (sv_peers nd') \<Longrightarrow> idle p \<and> under_way i (pr_sync_round p) (sv_peers nd') = 0"
    using s p by (auto simp: sane_def chunks_alone_def chunk_of_def)
  with b o one show ?thesis
    by (auto simp: peer_bounded_def recent_ok_def orderly_def idle_def KNOWN_LIMIT_def SEND_QUEUE_LIMIT_def BLOCKS_PER_REQUEST_def
        MAX_PENDING_HEADERS_def MAX_HEADERS_def)
qed

lemma peers_stay_bounded_witness:
  "\<exists>L nd' p. reaches (example_site L) [116] (example_node example_config) nd' \<and>
     fmlookup (nt_peers (sv_peers nd')) 0 = Some p \<and> length (pr_queue p) = 1 \<and> length (pr_waiting p) < 52000"
proof -
  fix L
  let ?E = "example_site L" and ?nd = "example_node example_config"
  have fresh: "nt_peers nt = fmempty \<Longrightarrow> fresh_peer nt = 0" for nt by (simp add: fresh_peer_def)
  obtain m where "node_step ?E [116] 0 (Incoming None [112]) ?nd =
      Inr (at_peer 0 (send m) (on_net (\<lambda>nt. nt\<lparr>nt_peers := fmupd 0 (new_peer False [112] None 0) (nt_peers nt),
        nt_connected := nt_connected nt @ [0]\<rparr>) ?nd))" (is "_ = Inr ?nd'")
    using genesis_store_tip
    by (auto simp: accept_def inbound_refusal_def open_connection_def hello_def Let_def example_node_def new_service_def
        fresh example_site_def example_config_def sv_store_def on_net_def at_peer_def new_net_def)
  from reaches.step [OF reaches.start this] have r: "reaches ?E [116] ?nd ?nd'" .
  have p: "fmlookup (nt_peers (sv_peers ?nd')) 0 = Some (send m (new_peer False [112] None 0))"
    by (simp add: change_peer_def peer_of_def)
  have "sv_peers ?nd = new_net example_config [110]" by (simp add: example_node_def new_service_def)
  from peers_stay_bounded [OF r this p] have "length (pr_waiting (send m (new_peer False [112] None 0))) < 52000" by simp
  moreover have "length (pr_queue (send m (new_peer False [112] None 0))) = 1"
    by (simp add: send_def put_item_def new_peer_def SEND_QUEUE_LIMIT_def)
  ultimately show ?thesis using r p by blast
qed

end
