(* ===== verification/P2P_Answers.thy ===== *)
theory P2P_Answers
  imports P2P_Inv Mempool_Select
begin

text \<open>
  No text that a peer can send, other than one with a block, makes the node fail: every handler of the protocol
  returns, whatever the message holds, or ends the connection for a reason of its own.  What that takes of the
  node's own state is the predicate \<open>ready\<close>, which every such message keeps.
\<close>

section \<open>A database that can be read\<close>

definition readable :: "store \<Rightarrow> bool" where
  "readable s \<longleftrightarrow>
     (\<forall>i row. fmlookup (st_headers s) i = Some row \<longrightarrow> (\<exists>h. header_from_bytes (hr_header row) = Inr h)) \<and>
     (\<exists>n\<ge>0. \<forall>h. h |\<in>| fmdom (st_main s) \<longleftrightarrow> 0 \<le> h \<and> h \<le> n) \<and>
     (\<forall>h i. fmlookup (st_main s) h = Some i \<longrightarrow> i |\<in>| fmdom (st_headers s))"

lemma find_header_returns: "readable s \<Longrightarrow> \<exists>r. find_header i s = Inr r"
  unfolding readable_def find_header_def by (cases "fmlookup (st_headers s) i") fastforce+

lemma fMax_range:
  assumes "0 \<le> (n :: int)" and "\<forall>h. h |\<in>| A \<longleftrightarrow> 0 \<le> h \<and> h \<le> n"
  shows "A \<noteq> {||}" "fMax A = n"
proof -
  have n: "n |\<in>| A" using assms by simp
  then show ne: "A \<noteq> {||}" by auto
  have "fMax A |\<in>| A" using ne by (rule fMax_in)
  with assms(2) have "fMax A \<le> n" by simp
  moreover have "n \<le> fMax A" using n by (rule fMax_ge)
  ultimately show "fMax A = n" by simp
qed

lemma readable_tip:
  assumes "readable s"
  obtains n where "tip_height s = Inr n" "0 \<le> n" "\<And>h. 0 \<le> h \<Longrightarrow> h \<le> n \<Longrightarrow> \<exists>i. main_id h s = Some i \<and> i |\<in>| fmdom (st_headers s)"
proof -
  from assms obtain n where n: "0 \<le> n" "\<forall>h. h |\<in>| fmdom (st_main s) \<longleftrightarrow> 0 \<le> h \<and> h \<le> n"
    by (auto simp: readable_def)
  have "\<exists>i. main_id h s = Some i \<and> i |\<in>| fmdom (st_headers s)" if "0 \<le> h" "h \<le> n" for h
  proof -
    from that n(2) have "h |\<in>| fmdom (st_main s)" by simp
    then obtain i where "fmlookup (st_main s) h = Some i" by (auto simp: fmdomE fmlookup_dom_iff)
    with assms show ?thesis by (auto simp: main_id_def readable_def)
  qed
  with fMax_range [OF n] n(1) show thesis by (intro that [of n]) (simp_all add: tip_height_def)
qed

lemma the_tip_returns:
  assumes "readable s"
  shows "\<exists>t. the_tip s = Inr t"
proof -
  from readable_tip [OF assms] obtain n where n: "tip_height s = Inr n" "0 \<le> n"
    and ids: "\<And>h. 0 \<le> h \<Longrightarrow> h \<le> n \<Longrightarrow> \<exists>i. main_id h s = Some i \<and> i |\<in>| fmdom (st_headers s)" by metis
  from ids [OF n(2)] obtain i row where i: "main_id n s = Some i" "fmlookup (st_headers s) i = Some row"
    by (auto simp: fmlookup_dom_iff)
  with assms obtain h where "header_from_bytes (hr_header row) = Inr h" unfolding readable_def by blast
  with n i show ?thesis by (simp add: the_tip_def find_header_def)
qed

lemma locator_loop_returns:
  assumes "\<And>h. 0 \<le> h \<Longrightarrow> h \<le> n \<Longrightarrow> \<exists>i. main_id h s = Some i" and "h \<le> n" and "1 \<le> step"
    and "list_all (\<lambda>x. x \<noteq> None) ids"
  shows "\<exists>ids'. run_loop (locator_step s) (ids, h, step) = Inr ids' \<and> list_all (\<lambda>x. x \<noteq> None) ids'"
  using assms(2-4)
proof (induction "nat h" arbitrary: ids h step rule: less_induct)
  case less
  show ?case
  proof (cases "h > 0")
    case False
    then show ?thesis using less.prems by (subst run_loop_unfold) (simp add: locator_step_def)
  next
    case True
    let ?ids = "ids @ [main_id h s]" and ?step = "if length (ids @ [main_id h s]) \<ge> 10 then step * 2 else step"
    have "main_id h s \<noteq> None" using assms(1) [of h] True less.prems(1) by auto
    then have "\<exists>ids'. run_loop (locator_step s) (?ids, h - ?step, ?step) = Inr ids' \<and> list_all (\<lambda>x. x \<noteq> None) ids'"
      using less.prems True by (intro less.hyps) auto
    then show ?thesis using True by (subst run_loop_unfold) (simp add: locator_step_def Let_def)
  qed
qed

lemma locator_returns:
  assumes "readable s"
  shows "\<exists>ids. locator P genesis s = Inr ids \<and> list_all (\<lambda>x. x \<noteq> None) ids"
proof -
  from readable_tip [OF assms] obtain n where n: "tip_height s = Inr n"
    and ids: "\<And>h. 0 \<le> h \<Longrightarrow> h \<le> n \<Longrightarrow> \<exists>i. main_id h s = Some i" by metis
  from locator_loop_returns [OF ids, of n n 1 "[]"] n show ?thesis by (auto simp: locator_def)
qed

lemma known_ids_return: "list_all (\<lambda>x. x \<noteq> None) ids \<Longrightarrow> \<exists>is. map_each known_id ids = Inr is"
  by (induction ids) (auto simp: known_id_def)

lemma list_all_take: "list_all p xs \<Longrightarrow> list_all p (take n xs)"
  by (auto simp: list_all_iff dest: in_set_takeD)

lemma is_on_main_returns: "readable s \<Longrightarrow> \<exists>b. is_on_main_chain i s = Inr b"
  using find_header_returns [of s i] by (auto simp: is_on_main_chain_def split: option.split)

lemma after_locator_returns: "readable s \<Longrightarrow> \<exists>h. after_locator ids s = Inr h"
proof (induction ids)
  case (Cons i ids)
  from find_header_returns [OF Cons.prems] obtain r where r: "find_header i s = Inr r" by blast
  with Cons show ?case by (cases r) (auto simp: is_on_main_chain_def)
qed simp

lemma in_map_filter: "x \<in> set (List.map_filter f xs) \<Longrightarrow> \<exists>y. f y = Some x"
  by (induction xs) (auto simp: map_filter_simps split: option.splits)

lemma main_headers_return:
  assumes "readable s"
  shows "\<exists>hs. main_headers a b s = Inr hs \<and> list_all header_fits hs"
proof -
  let ?rows = "List.map_filter (\<lambda>h. Option.bind (fmlookup (st_main s) h) (fmlookup (st_headers s)))
          (filter (\<lambda>h. a \<le> h \<and> h \<le> b) (sorted_list_of_fset (fmdom (st_main s))))"
  have "\<exists>h. header_from_bytes (hr_header row) = Inr h" if "row \<in> set ?rows" for row
  proof -
    from in_map_filter [OF that] obtain h where "Option.bind (fmlookup (st_main s) h) (fmlookup (st_headers s)) = Some row" by blast
    then obtain i where "fmlookup (st_headers s) i = Some row" by (auto simp: bind_eq_Some_conv)
    with assms show ?thesis unfolding readable_def by blast
  qed
  then obtain hs where hs: "map_each (\<lambda>row. header_from_bytes (hr_header row)) ?rows = Inr hs"
    using map_each_Inr_ex [of ?rows "\<lambda>row. header_from_bytes (hr_header row)"] by blast
  then have "list_all2 (\<lambda>row h. header_from_bytes (hr_header row) = Inr h) ?rows hs" by (simp add: map_each_Inr)
  then have "list_all header_fits hs"
    by (auto simp: list_all2_conv_all_nth list_all_length header_from_bytes_iff)
  with hs show ?thesis by (simp add: main_headers_def)
qed

lemma headers_after_returns:
  assumes "readable s"
  shows "\<exists>hs. headers_after ids limit s = Inr hs \<and> list_all header_fits hs"
proof -
  from after_locator_returns [OF assms] obtain start where "after_locator ids s = Inr start" by blast
  moreover from readable_tip [OF assms] obtain n where "tip_height s = Inr n" by blast
  ultimately show ?thesis using main_headers_return [OF assms] by (simp add: headers_after_def)
qed

lemma serialize_headers: "list_all header_fits hs \<Longrightarrow> \<exists>ds. map_each serialize_header hs = Inr ds"
  by (rule map_each_Inr_ex) (auto simp: list_all_iff serialize_header_iff)

section \<open>What the node needs\<close>

definition same_core :: "node \<Rightarrow> node \<Rightarrow> bool" where
  "same_core nd nd' \<longleftrightarrow> sv_chain nd' = sv_chain nd \<and> sv_mempool nd' = sv_mempool nd"

lemma same_core_refl [simp]: "same_core nd nd"
  by (simp add: same_core_def)

lemma same_core_trans [trans]: "same_core a b \<Longrightarrow> same_core b c \<Longrightarrow> same_core a c"
  by (simp add: same_core_def)

lemma same_core_peers [simp]: "same_core nd (at_peer i f nd)" "same_core nd (on_net g nd)"
  by (simp_all add: same_core_def)

lemma same_core_store: "same_core nd nd' \<Longrightarrow> sv_store nd' = sv_store nd"
  by (simp add: same_core_def sv_store_def)

definition backed :: "site \<Rightarrow> node \<Rightarrow> bool" where
  "backed E nd \<longleftrightarrow> readable (sv_store nd) \<and>
     mempool_ok (e_prims E) (e_params E) (e_policy E) (get_account (sv_store nd)) (sv_mempool nd) \<and>
     (\<forall>e\<in>pool (sv_mempool nd). transfer_fits (me_tx e))"

lemma backed_core: "same_core nd nd' \<Longrightarrow> backed E nd \<Longrightarrow> backed E nd'"
  by (simp add: backed_def same_core_def sv_store_def)

definition site_ok :: "site \<Rightarrow> bool" where
  "site_ok E \<longleftrightarrow> digest32 (e_prims E) \<and> 0 \<le> po_max_bytes (e_policy E)"

section \<open>Catching up\<close>

lemma request_headers_returns:
  assumes "readable (sv_store nd)"
  shows "\<exists>nd'. request_headers E i nd = Inr nd' \<and> same_core nd nd'"
proof -
  from locator_returns [OF assms] obtain ids where l: "locator (e_prims E) (ch_genesis (sv_chain nd)) (sv_store nd) = Inr ids"
    and ids: "list_all (\<lambda>x. x \<noteq> None) ids" by blast
  let ?ids = "case pr_header_tip (node_peer i nd) of None \<Rightarrow> ids
      | Some t \<Rightarrow> Some (block_id (e_prims E) (ht_header t)) # take (MAX_LOCATOR - 1) ids"
  have "list_all (\<lambda>x. x \<noteq> None) ?ids" using ids by (auto intro: list_all_take split: option.split)
  from known_ids_return [OF this] obtain ks where "map_each known_id ?ids = Inr ks" by blast
  with l show ?thesis by (simp add: request_headers_def Let_def)
qed

lemma our_work_returns: "readable (sv_store nd) \<Longrightarrow> \<exists>w. our_work nd = Inr w"
  using the_tip_returns [of "sv_store nd"] by (auto simp: our_work_def)

lemma start_sync_returns:
  assumes "readable (sv_store nd)"
  shows "\<exists>nd'. start_sync E now i nd = Inr nd' \<and> same_core nd nd'"
proof -
  define nd1 where "nd1 = at_peer i (restarted now) (on_net (\<lambda>nt. nt\<lparr>nt_chunk_task := None, nt_sync_peer := Some i\<rparr>) nd)"
  have core: "same_core nd nd1" by (simp add: nd1_def same_core_def)
  then have store: "sv_store nd1 = sv_store nd" by (rule same_core_store)
  have "start_sync E now i nd = rbind (tip_height (sv_store nd1)) (\<lambda>_.
      if pr_http_url (node_peer i nd1) \<noteq> None \<and> pr_chunks (node_peer i nd1) > sealed_chunks (sv_store nd1)
      then Inr (on_net (\<lambda>nt. nt\<lparr>nt_chunk_task := Some \<lparr>ct_stage = Starting, ct_peer = i, ct_round = pr_sync_round (node_peer i nd1)\<rparr>\<rparr>) nd1)
      else request_headers E i nd1)"
    unfolding start_sync_def Let_def nd1_def restarted_def [abs_def] by simp
  moreover obtain n where "tip_height (sv_store nd1) = Inr n" using readable_tip [OF assms] store by metis
  moreover obtain nd2 where "request_headers E i nd1 = Inr nd2" "same_core nd1 nd2"
    using request_headers_returns assms store by metis
  ultimately show ?thesis using core same_core_trans by auto
qed

lemma maybe_sync_returns:
  assumes "readable (sv_store nd)"
  shows "\<exists>nd'. maybe_sync E now nd = Inr nd' \<and> same_core nd nd'"
proof (cases "sync_peer nd")
  case None
  from our_work_returns [OF assms] obtain w where "our_work nd = Inr w" by blast
  with None obtain best where m: "maybe_sync E now nd = (case best of None \<Rightarrow> Inr nd | Some i \<Rightarrow> start_sync E now i nd)"
    by (simp add: maybe_sync_def)
  show ?thesis
  proof (cases best)
    case None
    with m show ?thesis by simp
  next
    case (Some i)
    show ?thesis using start_sync_returns [OF assms] unfolding m Some by simp
  qed
qed (simp add: maybe_sync_def)

lemma leave_returns:
  assumes "readable (sv_store nd)"
  shows "\<exists>nd'. leave E now i banned nd = Inr nd' \<and> same_core nd nd'"
proof -
  define nd1 where "nd1 = at_peer i (\<lambda>p. p\<lparr>pr_closed := True, pr_reading := Finished\<rparr>)
    (on_net (\<lambda>nt. nt\<lparr>nt_connected := removeAll i (nt_connected nt)\<rparr>) (if banned then on_net (ban (e_lib E) now i) nd else nd))"
  have core: "same_core nd (stop_sync nd1)" "same_core nd nd1" by (simp_all add: nd1_def same_core_def stop_sync_def)
  have "readable (sv_store (stop_sync nd1))" unfolding same_core_store [OF core(1)] by (rule assms)
  from maybe_sync_returns [OF this] obtain nd2 where nd2: "maybe_sync E now (stop_sync nd1) = Inr nd2" "same_core (stop_sync nd1) nd2" by blast
  have "leave E now i banned nd = (if sync_peer nd1 = Some i then maybe_sync E now (stop_sync nd1) else Inr nd1)"
    by (simp only: leave_def Let_def nd1_def)
  then show ?thesis using nd2(1) core(2) same_core_trans [OF core(1) nd2(2)] by simp
qed

section \<open>Handlers\<close>

text \<open>A handler that returns, and leaves a node that can answer again.\<close>

definition answers :: "site \<Rightarrow> handled \<Rightarrow> bool" where
  "answers E h \<longleftrightarrow> (\<exists>v nd'. h = Inr (v, nd') \<and> backed E nd')"

lemma answers_return: "backed E nd \<Longrightarrow> answers E (Inr (v, nd))"
  by (simp add: answers_def)

lemma answers_if: "(c \<Longrightarrow> answers E a) \<Longrightarrow> (\<not> c \<Longrightarrow> answers E b) \<Longrightarrow> answers E (if c then a else b)"
  by simp

lemma answers_decoded: "backed E nd \<Longrightarrow> (\<And>v. x = Some v \<Longrightarrow> answers E (f v)) \<Longrightarrow> answers E (decoded x nd f)"
  by (auto simp: decoded_def answers_return split: option.split)

lemma answers_fine: "m = Inr nd' \<Longrightarrow> backed E nd' \<Longrightarrow> answers E (fine m)"
  by (auto simp: fine_def answers_def)

lemma answers_text:
  "(\<And>x. v = JStr x \<Longrightarrow> answers E (f x)) \<Longrightarrow> answers E g \<Longrightarrow> answers E (case v of JStr x \<Rightarrow> f x | _ \<Rightarrow> g)"
  by (cases v) auto

lemma backed_readable: "backed E nd \<Longrightarrow> readable (sv_store nd)"
  by (simp add: backed_def)

lemma backed_peers [simp]: "backed E (at_peer i f nd) = backed E nd" "backed E (on_net g nd) = backed E nd"
  by (simp_all add: backed_def)

lemma filter_each_returns: "(\<And>x. x \<in> set xs \<Longrightarrow> \<exists>b. p x = Inr b) \<Longrightarrow> \<exists>ys. filter_each p xs = Inr ys"
  by (induction xs) fastforce+

lemma is_stored_returns: "readable (sv_store nd) \<Longrightarrow> \<exists>b. is_stored i nd = Inr b"
  using find_header_returns [of "sv_store nd" i] by (auto simp: is_stored_def)

lemma on_inv_answers:
  assumes "backed E nd"
  shows "answers E (on_inv E i m nd)"
proof (unfold on_inv_def, intro answers_decoded assms)
  fix blocks txs
  let ?nd = "at_peer i (\<lambda>p. p\<lparr>pr_known_blocks := fold recent_add blocks (pr_known_blocks p),
                               pr_known_txs := fold recent_add txs (pr_known_txs p)\<rparr>) nd"
  have b: "backed E ?nd" using assms by simp
  have "\<exists>ys. filter_each (\<lambda>b. rmap Not (is_stored b ?nd)) blocks = Inr ys"
  proof (rule filter_each_returns)
    fix x
    from is_stored_returns [OF backed_readable [OF b], of x] show "\<exists>b. rmap Not (is_stored x ?nd) = Inr b" by auto
  qed
  then obtain want where "filter_each (\<lambda>b. rmap Not (is_stored b ?nd)) blocks = Inr want" by blast
  then show "answers E (let nd = ?nd
       in rbind (filter_each (\<lambda>b. rmap Not (is_stored b nd)) blocks) (\<lambda>want_blocks.
          let want_txs = filter (\<lambda>t. mempool_get t (sv_mempool nd) = None \<and> \<not> recent_has (nt_rejected_txs (sv_peers nd)) t
                                     \<and> find_tx t (sv_store nd) = None) txs
          in Inr (Fine, if want_blocks \<noteq> [] \<or> want_txs \<noteq> []
                        then at_peer i (send (message ''get_data'' [(''blocks'', hex_list want_blocks), (''txs'', hex_list want_txs)])) nd
                        else nd)))"
    unfolding Let_def by (simp add: answers_def assms)
qed

text \<open>Loops whose body always returns and keeps what the node needs\<close>

lemma for_each_returns:
  assumes "\<And>x s. x \<in> set xs \<Longrightarrow> I s \<Longrightarrow> \<exists>s'. f x s = Inr s' \<and> I s'" and "I s"
  shows "\<exists>s'. for_each f xs s = Inr s' \<and> I s'"
  using assms by (induction xs arbitrary: s) (simp, fastforce)

lemma serve_block_returns: "backed E (snd s) \<Longrightarrow> \<exists>s'. serve_block i b s = Inr s' \<and> backed E (snd s')"
  using find_header_returns [OF backed_readable, of E "snd s" b] by (cases s) (auto simp: serve_block_def)

lemma mempool_get_pool:
  assumes "mempool_ok P N po st mp" and "mempool_get t mp = Some e"
  shows "e \<in> pool mp"
  using assms pool_by_id by (fastforce simp: mempool_ok_def pool_ok_def mempool_get_def)

lemma serve_tx_returns:
  assumes "backed E (snd s)"
  shows "\<exists>s'. serve_tx i t s = Inr s' \<and> backed E (snd s')"
proof (cases "mempool_get t (sv_mempool (snd s))")
  case None
  with assms show ?thesis by (cases s) (auto simp: serve_tx_def)
next
  case (Some e)
  then have "e \<in> pool (sv_mempool (snd s))" using assms mempool_get_pool by (auto simp: backed_def)
  then have "tx_fits (Transfer (me_tx e))" using assms by (simp add: backed_def tx_fits_def)
  then obtain d where "serialize_tx (Transfer (me_tx e)) = Inr d" by (auto simp: serialize_iff)
  with Some assms show ?thesis by (cases s) (auto simp: serve_tx_def)
qed

lemma on_get_data_answers:
  assumes "backed E nd"
  shows "answers E (on_get_data i m nd)"
proof (unfold on_get_data_def, intro answers_decoded assms)
  fix blocks
  obtain missing nd1 where 1: "for_each (serve_block i) blocks ([], nd) = Inr (missing, nd1)" "backed E nd1"
    using for_each_returns [of blocks "\<lambda>s. backed E (snd s)" "serve_block i" "([], nd)"] serve_block_returns assms by fastforce
  have "answers E (decoded (ids_of m ''txs'' MAX_INV) nd1 (\<lambda>txs.
     rbind (for_each (serve_tx i) txs ([], nd1)) (\<lambda>(missing_txs, nd).
       Inr (Fine, if missing \<noteq> [] \<or> missing_txs \<noteq> []
                  then at_peer i (send (message ''not_found'' [(''blocks'', hex_list missing), (''txs'', hex_list missing_txs)])) nd
                  else nd))))"
  proof (intro answers_decoded 1(2))
    fix txs
    obtain missing2 nd2 where "for_each (serve_tx i) txs ([], nd1) = Inr (missing2, nd2)" "backed E nd2"
      using for_each_returns [of txs "\<lambda>s. backed E (snd s)" "serve_tx i" "([], nd1)"] serve_tx_returns 1(2) by fastforce
    then show "answers E (rbind (for_each (serve_tx i) txs ([], nd1)) (\<lambda>(missing_txs, nd).
       Inr (Fine, if missing \<noteq> [] \<or> missing_txs \<noteq> []
                  then at_peer i (send (message ''not_found'' [(''blocks'', hex_list missing), (''txs'', hex_list missing_txs)])) nd
                  else nd)))"
      by (simp add: answers_def)
  qed
  then show "answers E (rbind (for_each (serve_block i) blocks ([], nd)) (\<lambda>(missing_blocks, nd).
     decoded (ids_of m ''txs'' MAX_INV) nd (\<lambda>txs.
     rbind (for_each (serve_tx i) txs ([], nd)) (\<lambda>(missing_txs, nd).
       Inr (Fine, if missing_blocks \<noteq> [] \<or> missing_txs \<noteq> []
                  then at_peer i (send (message ''not_found'' [(''blocks'', hex_list missing_blocks), (''txs'', hex_list missing_txs)])) nd
                  else nd)))))"
    by (simp add: 1(1))
qed

lemma on_not_found_answers: "backed E nd \<Longrightarrow> answers E (on_not_found i m nd)"
  unfolding on_not_found_def by (intro answers_decoded answers_return)

lemma on_get_headers_answers:
  assumes "backed E nd"
  shows "answers E (on_get_headers i m nd)"
proof (unfold on_get_headers_def, intro answers_decoded assms)
  fix ids
  from headers_after_returns [OF backed_readable [OF assms]] obtain hs where
    h: "headers_after ids (int MAX_HEADERS) (sv_store nd) = Inr hs" "list_all header_fits hs" by blast
  from serialize_headers [OF h(2)] obtain ds where "map_each serialize_header hs = Inr ds" by blast
  with h(1) show "answers E (rbind (headers_after ids (int MAX_HEADERS) (sv_store nd)) (\<lambda>headers.
     rbind (map_each serialize_header headers) (\<lambda>ds.
       Inr (Fine, at_peer i (send (message ''headers'' [(''headers'', hex_list ds)])) nd))))"
    by (simp add: answers_def assms)
qed

lemma on_get_peers_answers: "backed E nd \<Longrightarrow> answers E (on_get_peers E i nd)"
  unfolding on_get_peers_def Let_def by (simp add: answers_def)

lemma on_peers_answers: "backed E nd \<Longrightarrow> answers E (on_peers E i m nd)"
  unfolding on_peers_def by (intro answers_decoded answers_return) simp_all

lemma map_each_raises: "map_each f xs = Inl e \<Longrightarrow> \<exists>x\<in>set xs. f x = Inl e"
  by (induction xs) (auto simp: result_simps)

lemma read_headers_raises: "read_headers vs = Inl e \<Longrightarrow> e \<in> {TypeError, ValueError, DecodeError}"
  by (auto simp: read_headers_def result_simps dest!: map_each_raises dest: bytes_fromhex_raises header_from_bytes_error)

lemma on_headers_answers: "backed E nd \<Longrightarrow> answers E (on_headers E i m nd)"
  unfolding on_headers_def Let_def
  by (intro answers_decoded answers_if answers_return; (simp split: sum.split)?)
    (auto simp: answers_def dest: read_headers_raises)

section \<open>Transfers\<close>

lemma encodes: "is_known_payload a \<Longrightarrow> \<exists>t. encode_address P a prefix = Inr t"
  by (simp add: encode_address_def)

lemma announce_addresses_returns:
  assumes "digest32 P" and "\<forall>p\<in>set (tf_outputs t). is_known_payload (out_address p)"
  shows "\<exists>sv'. announce_addresses P N (Transfer t) status sv = Inr sv' \<and> same_core sv sv'"
  unfolding announce_addresses_def
proof (rule for_each_returns [where I = "same_core sv"])
  fix a s
  assume "a \<in> set (addresses_of P (Transfer t))" and core: "same_core sv s"
  then have "is_known_payload a"
    using assms by (auto simp: addresses_of_def sender_def is_known_payload_from_public_key split: if_splits)
  then obtain x where "encode_address P a (address_prefix N) = Inr x" using encodes by blast
  with core show "\<exists>s'. rbind (address_text P N a) (\<lambda>x. Inr (announce (''address:'' @ x)
      (event_json ''address'' ([(''address'', text_json x), (''txid'', hex_json (txid P (Transfer t)))] @ status)) s)) = Inr s'
      \<and> same_core sv s'"
    by (simp add: address_text_def same_core_def)
qed simp

lemma tx_event_returns:
  assumes "digest32 P" and "\<forall>p\<in>set (tf_outputs t). is_known_payload (out_address p)"
  shows "\<exists>m. tx_event P N t = Inr m"
proof -
  have "is_known_payload (sender P t)" using assms(1) by (simp add: sender_def is_known_payload_from_public_key)
  from encodes [OF this, of P "address_prefix N"] obtain a where "address_json P N (sender P t) = Inr a"
    by (auto simp: address_json_def)
  moreover have "\<exists>ys. map_each (output_view P N) (tf_outputs t) = Inr ys"
  proof (rule map_each_Inr_ex)
    fix p assume "p \<in> set (tf_outputs t)"
    then have "is_known_payload (out_address p)" using assms(2) by blast
    from encodes [OF this, of P "address_prefix N"] show "\<exists>y. output_view P N p = Inr y"
      by (auto simp: output_view_def address_json_def)
  qed
  ultimately show ?thesis by (auto simp: tx_event_def)
qed

lemma submit_transaction_returns:
  assumes "site_ok E" and b: "backed E nd" and "tx_fits tx"
  shows "\<exists>r nd'. submit_transaction (e_prims E) (e_params E) (e_policy E) L now tx origin nd = Inr (r, nd') \<and> backed E nd' \<and>
    (case r of Inl x \<Rightarrow> \<exists>code. x = ValidationError code | Inr _ \<Rightarrow> True)"
proof -
  let ?P = "e_prims E" and ?N = "e_params E" and ?po = "e_policy E" and ?st = "get_account (sv_store nd)"
  have size: "0 \<le> po_max_bytes ?po" and digest: "digest32 ?P" using assms(1) by (simp_all add: site_ok_def)
  have "mempool_ok ?P ?N ?po ?st (sv_mempool nd)" using b by (simp add: backed_def)
  from add_keeps_all [OF this size assms(3), of now] obtain r mp where
    add: "add ?P ?N ?po ?st now tx (sv_mempool nd) = Inr (r, mp)" and ok: "mempool_ok ?P ?N ?po ?st mp"
    and r: "case r of Inl x \<Rightarrow> \<exists>code. x = ValidationError code | Inr e \<Rightarrow> tx = Transfer (me_tx e) \<and> e \<in> pool mp"
    and new: "\<forall>e\<in>pool mp. e \<in> pool (sv_mempool nd) \<or> Transfer (me_tx e) = tx" by blast
  let ?nd1 = "nd\<lparr>sv_mempool := mp\<rparr>"
  have "\<forall>e\<in>pool mp. transfer_fits (me_tx e)"
    using new b assms(3) by (auto simp: backed_def tx_fits_def split: transaction.splits)
  then have b1: "backed E ?nd1" using b ok by (simp add: backed_def sv_store_def)
  show ?thesis
  proof (cases r)
    case (Inl x)
    with add r b1 show ?thesis by (auto simp: submit_transaction_def)
  next
    case (Inr e)
    then have tx: "tx = Transfer (me_tx e)" and e: "e \<in> pool mp" using r by simp_all
    have "check_transaction ?P ?N (Transfer (me_tx e)) = Inr ()" using ok e by (auto simp: mempool_ok_def entry_ok_def)
    then have known: "\<forall>p\<in>set (tf_outputs (me_tx e)). is_known_payload (out_address p)" using check_transaction_Transfer by blast
    let ?nd2 = "tell_tx L (me_tx e) origin ?nd1"
    have b2: "backed E ?nd2" by (rule backed_core [OF _ b1]) (simp add: same_core_def tell_tx_def)
    from tx_event_returns [OF digest known] obtain m where m: "tx_event ?P ?N (me_tx e) = Inr m" by blast
    let ?nd3 = "announce ''mempool'' m ?nd2"
    have b3: "backed E ?nd3" by (rule backed_core [OF _ b2]) (simp add: same_core_def)
    from announce_addresses_returns [OF digest known] obtain nd4 where
      nd4: "announce_addresses ?P ?N (Transfer (me_tx e)) [(''status'', text_json ''pending'')] ?nd3 = Inr nd4" "same_core ?nd3 nd4" by blast
    have "backed E nd4" by (rule backed_core [OF nd4(2) b3])
    with add Inr tx m nd4(1) show ?thesis by (auto simp: submit_transaction_def Let_def)
  qed
qed

lemma on_tx_answers:
  assumes "site_ok E" and "backed E nd"
  shows "answers E (on_tx E now i m nd)"
proof (unfold on_tx_def, intro answers_decoded assms)
  fix data
  show "answers E (case transaction_from_bytes data of
         Inl e \<Rightarrow> if e = DecodeError then Inr (Broke True, nd) else Inl e
       | Inr tx \<Rightarrow>
           let t = txid (e_prims E) tx;
               nd = at_peer i (\<lambda>p. p\<lparr>pr_known_txs := recent_add t (pr_known_txs p)\<rparr>) nd
           in if mempool_get t (sv_mempool nd) \<noteq> None \<or> recent_has (nt_rejected_txs (sv_peers nd)) t then Inr (Fine, nd)
              else rbind (submit_transaction (e_prims E) (e_params E) (e_policy E) (p2p_listeners E) now tx (Some i) nd)
                     (\<lambda>(r, nd). case r of
                         Inr _ \<Rightarrow> Inr (Fine, nd)
                       | Inl (ValidationError code) \<Rightarrow>
                           if code \<in> INVALID_TX_ERRORS then Inr (Broke True, nd)
                           else Inr (Fine, on_net (\<lambda>nt. nt\<lparr>nt_rejected_txs := recent_add t (nt_rejected_txs nt)\<rparr>) nd)
                       | Inl e \<Rightarrow> Inl e))"
  proof (cases "transaction_from_bytes data")
    case (Inl e)
    then show ?thesis using transaction_from_bytes_error [OF Inl] assms(2) by (simp add: answers_def)
  next
    case (Inr tx)
    let ?t = "txid (e_prims E) tx"
    let ?nd1 = "at_peer i (\<lambda>p. p\<lparr>pr_known_txs := recent_add ?t (pr_known_txs p)\<rparr>) nd"
    have b1: "backed E ?nd1" using assms(2) by simp
    have "tx_fits tx" using Inr by (simp add: transaction_from_bytes_def txc.read_all_iff)
    from submit_transaction_returns [OF assms(1) b1 this] obtain r nd2 where
      sub: "submit_transaction (e_prims E) (e_params E) (e_policy E) (p2p_listeners E) now tx (Some i) ?nd1 = Inr (r, nd2)"
      and b2: "backed E nd2" and r: "case r of Inl x \<Rightarrow> \<exists>code. x = ValidationError code | Inr _ \<Rightarrow> True" by blast
    have "answers E (case r of Inr _ \<Rightarrow> Inr (Fine, nd2)
                       | Inl (ValidationError code) \<Rightarrow>
                           if code \<in> INVALID_TX_ERRORS then Inr (Broke True, nd2)
                           else Inr (Fine, on_net (\<lambda>nt. nt\<lparr>nt_rejected_txs := recent_add ?t (nt_rejected_txs nt)\<rparr>) nd2)
                       | Inl e \<Rightarrow> Inl e)"
      using r b2 by (auto simp: answers_def split: sum.split)
    then show ?thesis unfolding Inr sum.case Let_def sub rbind.simps prod.case using b1
      by (intro answers_if answers_return)
  qed
qed

section \<open>Every message\<close>

lemma greet_peer_returns:
  assumes "backed E nd"
  shows "\<exists>nd'. greet_peer E now i nid h work chunks listen nd = Inr nd' \<and> backed E nd'"
proof -
  have m: "\<exists>nd'. maybe_sync E now nd1 = Inr nd' \<and> backed E nd'" if "backed E nd1" for nd1
    using maybe_sync_returns [OF backed_readable [OF that]] backed_core that by blast
  show ?thesis unfolding greet_peer_def Let_def by (rule m) (simp add: assms)
qed

lemma handle_hello_answers:
  assumes "backed E nd"
  shows "answers E (handle_hello E now i kind m nd)"
proof -
  have greet: "answers E (fine (greet_peer E now i nid h work chunks listen (on_net f nd)))" for nid h work chunks listen f
  proof -
    have "backed E (on_net f nd)" using assms by simp
    from greet_peer_returns [OF this] show ?thesis by (metis answers_fine)
  qed
  show ?thesis
    unfolding handle_hello_def Let_def
    by (intro answers_if answers_text answers_decoded answers_return greet) (simp_all add: assms)
qed

lemma handle_answers:
  assumes "site_ok E" and "backed E nd" and "kind \<noteq> u ''block''"
  shows "answers E (handle E now i kind m nd)"
  unfolding handle_def
  using assms(3)
  by (intro answers_if on_inv_answers on_get_data_answers on_tx_answers on_not_found_answers on_get_headers_answers
      on_headers_answers on_get_peers_answers on_peers_answers answers_return assms) simp_all

lemma read_on_returns:
  assumes "backed E nd"
  shows "\<exists>nd'. read_on E now i (v, nd) = Inr nd' \<and> backed E nd'"
proof -
  have l: "\<exists>nd'. leave E now i b nd = Inr nd' \<and> backed E nd'" for b
    using leave_returns [OF backed_readable [OF assms]] backed_core assms by blast
  show ?thesis by (cases v) (auto simp: read_on_def l assms)
qed

lemma answers_read_on: "answers E h \<Longrightarrow> \<exists>nd'. rbind h (read_on E now i) = Inr nd' \<and> backed E nd'"
  using read_on_returns by (fastforce simp: answers_def)

lemma handle_now_returns:
  assumes "site_ok E" and "backed E nd" and "kind \<noteq> u ''block''"
  shows "\<exists>nd'. handle_now E now i kind m nd = Inr nd' \<and> backed E nd'"
proof (cases "pr_closed (node_peer i nd)")
  case True
  from leave_returns [OF backed_readable [OF assms(2)]] obtain nd' where
    "leave E now i False nd = Inr nd'" "same_core nd nd'" by blast
  with True show ?thesis using backed_core assms(2) by (auto simp: handle_now_def)
next
  case False
  then show ?thesis using answers_read_on [OF handle_answers [OF assms]] by (simp add: handle_now_def)
qed

lemma received_returns:
  assumes "site_ok E" and b: "backed E nd" and s: "sane (sv_peers nd)"
    and other: "\<And>m. parse_message (e_lib E) t \<noteq> Some (u ''block'', m)"
  shows "\<exists>nd'. received E now i t nd = Inr nd' \<and> backed E nd'"
proof -
  have l: "\<exists>nd'. leave E now i True nd = Inr nd' \<and> backed E nd'"
    using leave_returns [OF backed_readable [OF b], of E now i True] backed_core [OF _ b] by blast
  show ?thesis
  proof (cases "pr_reading (node_peer i nd)")
    case Expect_hello
    show ?thesis
    proof (cases "parse_message (e_lib E) t")
      case None
      with l Expect_hello show ?thesis by (simp add: received_def)
    next
      case (Some km)
      obtain kind m where km: "km = (kind, m)" by (cases km)
      show ?thesis
        using answers_read_on [OF handle_hello_answers [OF b, of now i kind m]] by (simp add: received_def Expect_hello Some km)
    qed
  next
    case Ready_to_read
    show ?thesis
    proof (cases "parse_message (e_lib E) t")
      case None
      with l Ready_to_read show ?thesis by (simp add: received_def)
    next
      case (Some km)
      obtain kind m where km: "km = (kind, m)" by (cases km)
      have "tb_rate (pr_budget (node_peer i nd)) = MESSAGE_RATE" using s by (simp add: sane_def peer_bounded_def node_peer_def)
      then obtain wait budget where take: "take_tokens now (message_cost kind m) (pr_budget (node_peer i nd)) = Inr (wait, budget)"
        using take_tokens_never_raises [of "pr_budget (node_peer i nd)" now "message_cost kind m"] by (auto simp: MESSAGE_RATE_def)
      let ?nd1 = "at_peer i (\<lambda>p. p\<lparr>pr_budget := budget\<rparr>) nd"
      have b1: "backed E ?nd1" using b by simp
      have "kind \<noteq> u ''block''" using other Some km by auto
      from handle_now_returns [OF assms(1) b1 this] obtain nd2 where
        "handle_now E now i kind m ?nd1 = Inr nd2" "backed E nd2" by blast
      then show ?thesis using b by (simp add: received_def Ready_to_read Some km take Let_def)
    qed
  qed (use b in \<open>simp_all add: received_def\<close>)
qed

text \<open>C40. Whatever texts peers send, in whatever order, at whatever times and on whatever connections, as long as
  none is a block: handling each of them returns, so that no exception of the program itself escapes to the
  reader, and leaves a node whose database can be read, whose mempool keeps its rules and whose view of the
  peers is in order, so that the next text is handled as well.\<close>

theorem messages_never_fail:
  assumes "digest32 (e_prims E)" and "0 \<le> po_max_bytes (e_policy E)"
    and "backed E nd" and "sane (sv_peers nd)"
    and "\<forall>(now, i, t)\<in>set msgs. \<forall>m. parse_message (e_lib E) t \<noteq> Some (u ''block'', m)"
  shows "\<exists>nd'. for_each (\<lambda>(now, i, t). received E now i t) msgs nd = Inr nd' \<and> backed E nd' \<and> sane (sv_peers nd')"
proof (rule for_each_returns [where I = "\<lambda>nd. backed E nd \<and> sane (sv_peers nd)"])
  fix x nd
  assume x: "x \<in> set msgs" and I: "backed E nd \<and> sane (sv_peers nd)"
  obtain now i t where xt: "x = (now, i, t)" by (cases x)
  have "site_ok E" using assms(1,2) by (simp add: site_ok_def)
  moreover have "parse_message (e_lib E) t \<noteq> Some (u ''block'', m)" for m using assms(5) x xt by auto
  ultimately obtain nd' where nd': "received E now i t nd = Inr nd'" "backed E nd'"
    using received_returns [of E nd t now i] I by blast
  moreover have "sane (sv_peers nd')" by (rule received_sane [OF nd'(1)]) (use I in simp)
  ultimately show "\<exists>s'. (case x of (now, i, t) \<Rightarrow> received E now i t) nd = Inr s' \<and> backed E s' \<and> sane (sv_peers s')"
    by (simp add: xt)
qed (use assms in simp)

lemma readable_genesis: "readable genesis_store"
proof -
  have "\<exists>h. header_from_bytes (hr_header genesis_row) = Inr h"
    using example_header_fits by (auto simp: genesis_row_def header_from_bytes_iff)
  then show ?thesis
    by (auto simp: readable_def genesis_store_def intro!: exI [of _ 0])
qed

lemma messages_never_fail_witness:
  "\<exists>L nd'. for_each (\<lambda>(now, i, t). received (example_site L) now i t) [(1, 0, u ''hi''), (2, 3, u ''x''), (2, 0, [])]
       (example_node example_config) = Inr nd' \<and> sane (sv_peers nd')"
proof -
  let ?L = "undefined\<lparr>loads := \<lambda>t. if t = [] then None else Some (JObj [(u ''type'', JStr t)])\<rparr> :: net_lib"
  let ?E = "example_site ?L" and ?nd = "example_node example_config"
  have "mempool_ok example_prims REGTEST default_policy (get_account genesis_store) new_mempool"
    by (rule mempool_ok_new) (simp add: default_policy_def)
  moreover have "pool new_mempool = {}" by (simp add: pool_def new_mempool_def)
  ultimately have "backed ?E ?nd"
    using readable_genesis by (simp add: backed_def example_node_def new_service_def sv_store_def example_site_def)
  moreover have "sane (sv_peers ?nd)" by (simp add: example_node_def new_service_def)
  moreover have "digest32 (e_prims ?E)" "0 \<le> po_max_bytes (e_policy ?E)"
    by (simp_all add: example_site_def digest32_example default_policy_def)
  moreover have "\<forall>(now, i, t)\<in>set [(1 :: rat, 0 :: nat, u ''hi''), (2, 3, u ''x''), (2, 0, [])].
      \<forall>m. parse_message (e_lib ?E) t \<noteq> Some (u ''block'', m)"
    by (simp add: example_site_def parse_message_def get_or_def u_def)
  ultimately show ?thesis using messages_never_fail [of ?E ?nd "[(1, 0, u ''hi''), (2, 3, u ''x''), (2, 0, [])]"] by blast
qed

end
