(* ===== verification/Miner.thy ===== *)
theory Miner
  imports Pow
begin

text \<open>
  \<open>miner/engine.py\<close>: mining on all cores.  Each worker is a process of its own; what the processes share (the
  number of the current job, the counters, a queue of jobs for each worker and one queue of results) is the state,
  and every access of a worker to it is one step, so that the steps of the workers and of the parent process
  interleave freely.  An item that was put into a queue may take a while until the other process sees it, so a
  worker that looks for the newest job sees any number of those that wait.  Random numbers are arguments.
\<close>

section \<open>Data\<close>

record job =
  j_id :: int
  j_prefix :: bytes
  j_target :: int
  j_pow :: pow_params
  j_first_nonce :: int
  j_stride :: int

text \<open>Where a worker is: it waits for a job, is about to check that the job is still the current one, is about
  to hash a nonce, or has ended.\<close>

datatype worker = Waiting | Trying job int | Hashing job int | Ended

record miner =
  m_workers :: nat
  m_current_job :: int
  m_hash_counts :: "int list"
  m_jobs :: "job option list list"
  m_results :: "(int \<times> int) list"
  m_job_id :: int
  m_states :: "worker list"

definition default_workers :: "int option \<Rightarrow> int" where
  "default_workers cpu_count = max 1 ((case cpu_count of None \<Rightarrow> 2 | Some n \<Rightarrow> if n = 0 then 2 else n) div 2)"

definition new_miner :: "int option \<Rightarrow> nat option \<Rightarrow> miner" where
  "new_miner cpu_count workers =
     (let n = (case workers of None \<Rightarrow> nat (default_workers cpu_count)
                 | Some w \<Rightarrow> if w = 0 then nat (default_workers cpu_count) else w)
      in \<lparr>m_workers = n, m_current_job = 0, m_hash_counts = replicate n 0, m_jobs = replicate n [], m_results = [],
          m_job_id = 0, m_states = replicate n Waiting\<rparr>)"

section \<open>The parent\<close>

text \<open>\<open>mine\<close>, with the 8 random bytes it draws.\<close>

definition start_mining :: "block_header \<Rightarrow> pow_params \<Rightarrow> bytes \<Rightarrow> miner \<Rightarrow> (int \<times> miner) result" where
  "start_mining h params random m =
     (let i = m_job_id m + 1; m = m\<lparr>m_job_id := i, m_current_job := i\<rparr>
      in rbind (serialize_header h) (\<lambda>d.
         let prefix = take (length d - NONCE_SIZE) d; start = from_be random div 2
         in Inr (i, m\<lparr>m_jobs := map (\<lambda>(k, q). q @ [Some \<lparr>j_id = i, j_prefix = prefix, j_target = bh_target h, j_pow = params,
                                                    j_first_nonce = start + int k, j_stride = int (m_workers m)\<rparr>])
                                 (enumerate 0 (m_jobs m))\<rparr>)))"

text \<open>\<open>wait\<close>: \<open>n\<close> is how many results it can take before its time is up.\<close>

fun wait_result :: "int \<Rightarrow> nat \<Rightarrow> (int \<times> int) list \<Rightarrow> int option \<times> (int \<times> int) list" where
  "wait_result i 0 rs = (None, rs)"
| "wait_result i (Suc n) [] = (None, [])"
| "wait_result i (Suc n) ((j, nonce) # rs) = (if j = i then (Some nonce, rs) else wait_result i n rs)"

definition wait_nonce :: "nat \<Rightarrow> miner \<Rightarrow> int option \<times> miner" where
  "wait_nonce n m = (let (r, rs) = wait_result (m_job_id m) n (m_results m) in (r, m\<lparr>m_results := rs\<rparr>))"

definition pause :: "miner \<Rightarrow> miner" where
  "pause m = m\<lparr>m_job_id := m_job_id m + 1, m_current_job := m_job_id m + 1\<rparr>"

definition total_hashes :: "miner \<Rightarrow> int" where
  "total_hashes m = sum_list (m_hash_counts m)"

text \<open>\<open>close\<close>: the workers are asked to stop; those that do not in time are terminated.\<close>

definition close_miner :: "miner \<Rightarrow> miner" where
  "close_miner m = (let m = pause m in m\<lparr>m_jobs := map (\<lambda>q. q @ [None]) (m_jobs m), m_states := map (\<lambda>_. Ended) (m_states m)\<rparr>)"

section \<open>The workers\<close>

definition set_worker :: "nat \<Rightarrow> worker \<Rightarrow> miner \<Rightarrow> miner" where
  "set_worker i w m = m\<lparr>m_states := (m_states m)[i := w]\<rparr>"

text \<open>\<open>_latest_job\<close>, which sees \<open>n\<close> of the jobs that wait, the newest of them last.\<close>

definition latest_job :: "nat \<Rightarrow> nat \<Rightarrow> miner \<Rightarrow> miner" where
  "latest_job i n m =
     (let seen = take n (m_jobs m ! i); m = m\<lparr>m_jobs := (m_jobs m)[i := drop n (m_jobs m ! i)]\<rparr>
      in if seen = [] then m
         else case last seen of None \<Rightarrow> set_worker i Ended m | Some job \<Rightarrow> set_worker i (Trying job (j_first_nonce job)) m)"

text \<open>The top of the inner loop, and the hash; an exception ends the process.\<close>

definition check_job :: "nat \<Rightarrow> job \<Rightarrow> int \<Rightarrow> miner \<Rightarrow> miner" where
  "check_job i job nonce m = set_worker i (if m_current_job m \<noteq> j_id job then Waiting else Hashing job nonce) m"

definition hash_nonce :: "prims \<Rightarrow> nat \<Rightarrow> job \<Rightarrow> int \<Rightarrow> miner \<Rightarrow> miner" where
  "hash_nonce P i job nonce m =
     (case to_bytes nonce NONCE_SIZE of
        Inl e \<Rightarrow> set_worker i Ended m
      | Inr d \<Rightarrow>
          let m = m\<lparr>m_hash_counts := (m_hash_counts m)[i := m_hash_counts m ! i + 1]\<rparr>
          in if from_be (pow_hash_bytes P (j_prefix job @ d) (j_pow job)) \<le> j_target job
             then set_worker i Waiting (m\<lparr>m_results := m_results m @ [(j_id job, nonce)]\<rparr>)
             else if nonce + j_stride job \<ge> 2 ^ 64 then set_worker i Waiting m
             else set_worker i (Trying job (nonce + j_stride job)) m)"

text \<open>One step of worker \<open>i\<close>.\<close>

definition work :: "prims \<Rightarrow> nat \<Rightarrow> nat \<Rightarrow> miner \<Rightarrow> miner" where
  "work P i n m =
     (if \<not> i < length (m_states m) then m
      else case m_states m ! i of
        Waiting \<Rightarrow> latest_job i n m
      | Trying job nonce \<Rightarrow> check_job i job nonce m
      | Hashing job nonce \<Rightarrow> hash_nonce P i job nonce m
      | Ended \<Rightarrow> m)"

section \<open>A nonce that is handed out solves the job that was asked for last\<close>

text \<open>What may happen after a job was started and before the next one is: workers work, the parent waits.\<close>

datatype mining_step = Work nat nat | Wait nat

fun mining_run :: "prims \<Rightarrow> mining_step list \<Rightarrow> miner \<Rightarrow> miner" where
  "mining_run P [] m = m"
| "mining_run P (Work i n # es) m = mining_run P es (work P i n m)"
| "mining_run P (Wait n # es) m = mining_run P es (snd (wait_nonce n m))"

text \<open>The states that a miner can come to.\<close>

inductive mining :: "prims \<Rightarrow> miner \<Rightarrow> bool" for P where
  fresh: "mining P (new_miner cpu_count workers)"
| worked: "mining P m \<Longrightarrow> mining P (work P i n m)"
| waited: "mining P m \<Longrightarrow> mining P (snd (wait_nonce n m))"
| started: "mining P m \<Longrightarrow> start_mining h params random m = Inr (i, m') \<Longrightarrow> mining P m'"
| paused: "mining P m \<Longrightarrow> mining P (pause m)"
| closed: "mining P m \<Longrightarrow> mining P (close_miner m)"

text \<open>The jobs a miner holds, and the numbers of the results.\<close>

definition held_jobs :: "miner \<Rightarrow> job set" where
  "held_jobs m = {j. \<exists>q\<in>set (m_jobs m). Some j \<in> set q} \<union> {j. \<exists>n. Trying j n \<in> set (m_states m) \<or> Hashing j n \<in> set (m_states m)}"

definition numbered :: "miner \<Rightarrow> bool" where
  "numbered m \<longleftrightarrow> (\<forall>j\<in>held_jobs m. j_id j \<le> m_job_id m) \<and> (\<forall>(i, n)\<in>set (m_results m). i \<le> m_job_id m) \<and>
     length (m_jobs m) = length (m_states m)"

text \<open>Every job with the number of the current one is about the header \<open>h\<close>; every result with that number wins.\<close>

definition solves :: "prims \<Rightarrow> block_header \<Rightarrow> pow_params \<Rightarrow> miner \<Rightarrow> bool" where
  "solves P h params m \<longleftrightarrow>
     (\<forall>j\<in>held_jobs m. j_id j = m_job_id m \<longrightarrow>
        j_prefix j = take (length (header_bytes h) - NONCE_SIZE) (header_bytes h) \<and> j_target j = bh_target h \<and> j_pow j = params) \<and>
     (\<forall>(i, n)\<in>set (m_results m). i = m_job_id m \<longrightarrow> meets_target P (h\<lparr>bh_nonce := n\<rparr>) params = Inr True)"

lemma set_worker_jobs:
  "held_jobs (set_worker i w m) \<subseteq> held_jobs m \<union> {j. \<exists>n. w = Trying j n \<or> w = Hashing j n}"
  using set_update_subset_insert [of "m_states m" i w] by (auto simp: held_jobs_def set_worker_def)

lemma set_worker_fields [simp]:
  "m_job_id (set_worker i w m) = m_job_id m" "m_results (set_worker i w m) = m_results m"
  "m_jobs (set_worker i w m) = m_jobs m" "length (m_states (set_worker i w m)) = length (m_states m)"
  by (simp_all add: set_worker_def)

text \<open>A step of a worker finds no new jobs, and adds a result only for a job it held.\<close>

lemma latest_job_keeps:
  assumes "i < length (m_jobs m)"
  shows "held_jobs (latest_job i n m) \<subseteq> held_jobs m" "m_job_id (latest_job i n m) = m_job_id m"
    "m_results (latest_job i n m) = m_results m"
    "length (m_jobs (latest_job i n m)) = length (m_jobs m)" "length (m_states (latest_job i n m)) = length (m_states m)"
proof -
  let ?m = "m\<lparr>m_jobs := (m_jobs m)[i := drop n (m_jobs m ! i)]\<rparr>"
  have q: "m_jobs m ! i \<in> set (m_jobs m)" using assms by simp
  have sub: "held_jobs ?m \<subseteq> held_jobs m"
    using q set_update_subset_insert [of "m_jobs m" i "drop n (m_jobs m ! i)"]
    by (fastforce simp: held_jobs_def dest: in_set_dropD)
  have mem: "j \<in> held_jobs m" if "last (take n (m_jobs m ! i)) = Some j" "take n (m_jobs m ! i) \<noteq> []" for j
  proof -
    from that have "Some j \<in> set (take n (m_jobs m ! i))" by (metis last_in_set)
    then have "Some j \<in> set (m_jobs m ! i)" by (rule in_set_takeD)
    with q show ?thesis by (auto simp: held_jobs_def)
  qed
  show "held_jobs (latest_job i n m) \<subseteq> held_jobs m"
  proof (cases "take n (m_jobs m ! i) = []")
    case True
    then show ?thesis using sub by (simp add: latest_job_def Let_def)
  next
    case seen: False
    show ?thesis
    proof (cases "last (take n (m_jobs m ! i))")
      case None
      then show ?thesis using seen sub set_worker_jobs [of i Ended ?m] by (auto simp: latest_job_def Let_def)
    next
      case (Some j)
      then show ?thesis
        using seen sub mem [OF Some seen] set_worker_jobs [of i "Trying j (j_first_nonce j)" ?m]
        by (auto simp: latest_job_def Let_def)
    qed
  qed
qed (simp_all add: latest_job_def Let_def split: option.split)

lemma wait_result_subset: "set (snd (wait_result i n rs)) \<subseteq> set rs"
  by (induction i n rs rule: wait_result.induct) auto

lemma wait_result_some: "fst (wait_result i n rs) = Some nonce \<Longrightarrow> (i, nonce) \<in> set rs"
  by (induction i n rs rule: wait_result.induct) (auto split: if_splits)

lemma working_held:
  "i < length (m_states m) \<Longrightarrow> m_states m ! i = Trying j n \<Longrightarrow> j \<in> held_jobs m"
  "i < length (m_states m) \<Longrightarrow> m_states m ! i = Hashing j n \<Longrightarrow> j \<in> held_jobs m"
  by (auto simp: held_jobs_def) (metis nth_mem)+

lemma held_more [simp]:
  "held_jobs (m\<lparr>m_results := r\<rparr>) = held_jobs m" "held_jobs (m\<lparr>m_hash_counts := c\<rparr>) = held_jobs m"
  "held_jobs (m\<lparr>m_job_id := k\<rparr>) = held_jobs m" "held_jobs (m\<lparr>m_current_job := k\<rparr>) = held_jobs m"
  by (simp_all add: held_jobs_def)

lemma hash_nonce_keeps:
  assumes "j \<in> held_jobs m"
  shows "held_jobs (hash_nonce P i j n m) \<subseteq> held_jobs m" "m_job_id (hash_nonce P i j n m) = m_job_id m"
    "length (m_jobs (hash_nonce P i j n m)) = length (m_jobs m)"
    "length (m_states (hash_nonce P i j n m)) = length (m_states m)"
    "set (m_results (hash_nonce P i j n m)) \<subseteq> set (m_results m) \<union>
       {r. r = (j_id j, n) \<and> (\<exists>d. to_bytes n NONCE_SIZE = Inr d \<and> from_be (pow_hash_bytes P (j_prefix j @ d) (j_pow j)) \<le> j_target j)}"
proof -
  have w: "held_jobs (set_worker i w m') \<subseteq> held_jobs m" if "held_jobs m' = held_jobs m" "w \<in> {Ended, Waiting, Trying j (n + j_stride j)}" for w m'
    using set_worker_jobs [of i w m'] that assms by auto
  show "held_jobs (hash_nonce P i j n m) \<subseteq> held_jobs m"
    by (auto simp: hash_nonce_def Let_def split: sum.split dest!: w [THEN subsetD, rotated 2])
qed (auto simp: hash_nonce_def Let_def split: sum.split)

lemma work_keeps:
  assumes "numbered m"
  shows "numbered (work P i n m)" "m_job_id (work P i n m) = m_job_id m" "held_jobs (work P i n m) \<subseteq> held_jobs m"
    "set (m_results (work P i n m)) \<subseteq> set (m_results m) \<union>
       {(j_id j, k) |j k. j \<in> held_jobs m \<and>
          (\<exists>d. to_bytes k NONCE_SIZE = Inr d \<and> from_be (pow_hash_bytes P (j_prefix j @ d) (j_pow j)) \<le> j_target j)}"
    (is "_ \<subseteq> _ \<union> ?new")
proof -
  have same: "length (m_jobs m) = length (m_states m)" using assms by (simp add: numbered_def)
  have *: "m_job_id (work P i n m) = m_job_id m \<and> held_jobs (work P i n m) \<subseteq> held_jobs m \<and>
      length (m_jobs (work P i n m)) = length (m_jobs m) \<and> length (m_states (work P i n m)) = length (m_states m) \<and>
      set (m_results (work P i n m)) \<subseteq> set (m_results m) \<union> ?new"
  proof (cases "i < length (m_states m)")
    case here: True
    show ?thesis
    proof (cases "m_states m ! i")
      case Waiting
      with here same latest_job_keeps [of i m n] show ?thesis by (auto simp: work_def)
    next
      case (Trying j k)
      have "j \<in> held_jobs m" by (rule working_held(1) [OF here Trying])
      then show ?thesis
        using here Trying set_worker_jobs [of i _ m] by (auto simp: work_def check_job_def dest: set_worker_jobs [THEN subsetD])
    next
      case (Hashing j k)
      have "j \<in> held_jobs m" by (rule working_held(2) [OF here Hashing])
      note keeps = hash_nonce_keeps [OF this, of P i k]
      have "set (m_results (hash_nonce P i j k m)) \<subseteq> set (m_results m) \<union> ?new"
        using keeps(5) \<open>j \<in> held_jobs m\<close> by blast
      with keeps here Hashing show ?thesis by (simp add: work_def)
    next
      case Ended
      with here show ?thesis by (simp add: work_def)
    qed
  qed (simp add: work_def)
  then show "m_job_id (work P i n m) = m_job_id m" "held_jobs (work P i n m) \<subseteq> held_jobs m"
    "set (m_results (work P i n m)) \<subseteq> set (m_results m) \<union> ?new" by blast+
  have "\<forall>(j, k)\<in>set (m_results (work P i n m)). j \<le> m_job_id m"
    using * assms by (fastforce simp: numbered_def)
  then show "numbered (work P i n m)" using * assms by (auto simp: numbered_def)
qed

lemma wait_fields:
  "m_job_id (snd (wait_nonce n m)) = m_job_id m" "held_jobs (snd (wait_nonce n m)) = held_jobs m"
  "set (m_results (snd (wait_nonce n m))) \<subseteq> set (m_results m)"
  "m_jobs (snd (wait_nonce n m)) = m_jobs m" "m_states (snd (wait_nonce n m)) = m_states m"
  using wait_result_subset [of "m_job_id m" n "m_results m"] by (simp_all add: wait_nonce_def split_beta)

lemma numbered_wait: "numbered m \<Longrightarrow> numbered (snd (wait_nonce n m))"
  using wait_fields [of n m] by (auto simp: numbered_def)

lemma held_close: "held_jobs (close_miner m) \<subseteq> held_jobs m"
  by (auto simp: held_jobs_def close_miner_def Let_def pause_def)

lemma start_mining_jobs:
  assumes "start_mining h params random m = Inr (i, m')"
  shows "i = m_job_id m + 1" "m_job_id m' = i" "m_results m' = m_results m" "length (m_jobs m') = length (m_jobs m)"
    "m_states m' = m_states m" "header_fits h"
    "j \<in> held_jobs m' \<Longrightarrow> j \<in> held_jobs m \<or> (j_id j = i \<and> j_pow j = params \<and> j_target j = bh_target h \<and>
       j_prefix j = take (length (header_bytes h) - NONCE_SIZE) (header_bytes h))"
proof -
  define new where "new = (\<lambda>k. \<lparr>j_id = m_job_id m + 1, j_prefix = take (length (header_bytes h) - NONCE_SIZE) (header_bytes h),
      j_target = bh_target h, j_pow = params, j_first_nonce = from_be random div 2 + int k, j_stride = int (m_workers m)\<rparr>)"
  have fits: "header_fits h" using assms by (auto simp: start_mining_def Let_def result_simps serialize_header_iff)
  then have "serialize_header h = Inr (header_bytes h)" by (simp add: serialize_header_iff)
  with assms have i: "i = m_job_id m + 1"
    and new: "m' = m\<lparr>m_job_id := i, m_current_job := i, m_jobs := map (\<lambda>(k, q). q @ [Some (new k)]) (enumerate 0 (m_jobs m))\<rparr>"
    by (auto simp: start_mining_def Let_def new_def)
  have jobs: "j_id (new k) = i \<and> j_pow (new k) = params \<and> j_target (new k) = bh_target h \<and>
       j_prefix (new k) = take (length (header_bytes h) - NONCE_SIZE) (header_bytes h)" for k
    by (simp add: new_def i)
  show "i = m_job_id m + 1" "m_job_id m' = i" "m_results m' = m_results m" "length (m_jobs m') = length (m_jobs m)"
    "m_states m' = m_states m" "header_fits h"
    by (simp_all add: new fits i)
  have "q \<in> set (m_jobs m)" if "(k, q) \<in> set (enumerate 0 (m_jobs m))" for k q
    using that by (metis in_set_zip enumerate_eq_zip nth_mem snd_conv)
  then show "j \<in> held_jobs m' \<Longrightarrow> j \<in> held_jobs m \<or> (j_id j = i \<and> j_pow j = params \<and> j_target j = bh_target h \<and>
       j_prefix j = take (length (header_bytes h) - NONCE_SIZE) (header_bytes h))"
    using jobs by (fastforce simp: held_jobs_def new)
qed

lemma mining_numbered: "mining P m \<Longrightarrow> numbered m"
proof (induction rule: mining.induct)
  case (fresh cpu_count workers)
  show ?case by (auto simp: numbered_def new_miner_def Let_def held_jobs_def)
next
  case (worked m i n)
  then show ?case by (simp add: work_keeps)
next
  case (waited m n)
  then show ?case by (simp add: numbered_wait)
next
  case (started m h params random i m')
  note jobs = start_mining_jobs [OF started(2)]
  have "j_id j \<le> i" if "j \<in> held_jobs m'" for j
    using jobs(7) [OF that] jobs(1) started(3) by (auto simp: numbered_def)
  moreover have "k \<le> i" if "(k, n) \<in> set (m_results m')" for k n
    using that jobs(1,3) started(3) by (fastforce simp: numbered_def)
  ultimately show ?case using jobs started(3) by (auto simp: numbered_def)
next
  case (paused m)
  then show ?case by (fastforce simp: numbered_def pause_def)
next
  case (closed m)
  then show ?case
    using held_close [of m] by (fastforce simp: numbered_def close_miner_def pause_def Let_def)
qed

lemma started_solves:
  assumes "numbered m" and "start_mining h params random m = Inr (i, m')"
  shows "solves P h params m'"
  using assms(1) start_mining_jobs [OF assms(2)] by (fastforce simp: solves_def numbered_def)

lemma job_wins:
  assumes "header_fits h" "to_bytes k NONCE_SIZE = Inr d"
    and "from_be (pow_hash_bytes P (take (length (header_bytes h) - NONCE_SIZE) (header_bytes h) @ d) params) \<le> bh_target h"
  shows "meets_target P (h\<lparr>bh_nonce := k\<rparr>) params = Inr True"
proof -
  from assms(2) have k: "0 \<le> k" "k < 2 ^ 64" and d: "d = to_be 8 k"
    by (auto simp: to_bytes_def NONCE_SIZE_def split: if_splits)
  have "wins P h params k" using assms(3) prefix_header_bytes [OF assms(1), of k] by (simp add: wins_def d)
  then have "wins P (h\<lparr>bh_nonce := k\<rparr>) params k" by (simp add: wins_def)
  with header_fits_nonce [OF assms(1) k] show ?thesis by (simp add: meets_target_iff)
qed

lemma work_solves:
  assumes "numbered m" and "solves P h params m" and "header_fits h"
  shows "solves P h params (work P i n m)"
proof -
  note keeps = work_keeps [OF assms(1), where P = P and i = i and n = n]
  have "meets_target P (h\<lparr>bh_nonce := k\<rparr>) params = Inr True" if "(m_job_id m, k) \<in> set (m_results (work P i n m))" for k
  proof (cases "(m_job_id m, k) \<in> set (m_results m)")
    case True
    then show ?thesis using assms(2) by (auto simp: solves_def)
  next
    case False
    with subsetD [OF keeps(4) that] obtain j d where j: "j \<in> held_jobs m" "j_id j = m_job_id m" "to_bytes k NONCE_SIZE = Inr d"
      "from_be (pow_hash_bytes P (j_prefix j @ d) (j_pow j)) \<le> j_target j" by auto
    then show ?thesis using assms(2) job_wins [OF assms(3) j(3)] by (auto simp: solves_def)
  qed
  then show ?thesis using keeps(2,3) assms(2) by (auto simp: solves_def)
qed

lemma run_solves:
  "numbered m \<Longrightarrow> solves P h params m \<Longrightarrow> header_fits h \<Longrightarrow> numbered (mining_run P es m) \<and> solves P h params (mining_run P es m)"
proof (induction es arbitrary: m)
  case (Cons e es)
  show ?case
  proof (cases e)
    case (Work i n)
    with Cons work_keeps(1) work_solves show ?thesis by simp
  next
    case (Wait n)
    have "solves P h params (snd (wait_nonce n m))"
      using Cons.prems(2) wait_fields [of n m] by (auto simp: solves_def)
    with Wait Cons numbered_wait show ?thesis by simp
  qed
qed simp

text \<open>C21. However the workers, the parent and the delays of the queues between them interleave, and whatever was
  mined before: a nonce that \<open>wait\<close> hands out after \<open>mine\<close> was called with a header solves that header, never an
  older job.\<close>

theorem mined_nonces_win:
  assumes "mining P m" and "start_mining h params random m = Inr (i, m')"
    and "fst (wait_nonce n (mining_run P es m')) = Some nonce"
  shows "meets_target P (h\<lparr>bh_nonce := nonce\<rparr>) params = Inr True"
proof -
  have num: "numbered m'" by (rule mining_numbered [OF mining.started [OF assms(1,2)]])
  have "solves P h params m'" by (rule started_solves [OF mining_numbered [OF assms(1)] assms(2)])
  with run_solves [OF num] start_mining_jobs(6) [OF assms(2)] have "solves P h params (mining_run P es m')" by blast
  moreover have "(m_job_id (mining_run P es m'), nonce) \<in> set (m_results (mining_run P es m'))"
    using assms(3) by (auto simp: wait_nonce_def split_beta intro: wait_result_some)
  ultimately show ?thesis by (auto simp: solves_def)
qed

lemma mined_nonces_win_witness:
  "\<exists>m'. start_mining example_header ARGON2_MAINNET [0, 0, 0, 0, 0, 0, 1, 240] (new_miner None (Some 1)) = Inr (1, m') \<and>
     fst (wait_nonce 1 (mining_run example_prims [Work 0 1, Work 0 0, Work 0 0] m')) = Some 248 \<and>
     meets_target example_prims (example_header\<lparr>bh_nonce := 248\<rparr>) ARGON2_MAINNET = Inr True"
proof -
  have "header_fits example_header" by (simp add: header_fits_def example_header_def fits_def)
  then obtain m' where m': "start_mining example_header ARGON2_MAINNET [0, 0, 0, 0, 0, 0, 1, 240] (new_miner None (Some 1)) = Inr (1, m')"
    and eq: "m' = \<lparr>m_workers = 1, m_current_job = 1, m_hash_counts = [0], m_jobs = [[Some \<lparr>j_id = 1,
        j_prefix = take (length (header_bytes example_header) - 8) (header_bytes example_header), j_target = 7,
        j_pow = ARGON2_MAINNET, j_first_nonce = 248, j_stride = 1\<rparr>]], m_results = [], m_job_id = 1, m_states = [Waiting]\<rparr>"
    by (auto simp: start_mining_def new_miner_def Let_def serialize_header_iff [THEN iffD2] example_header_def NONCE_SIZE_def from_be_def)
  have "to_bytes 248 8 = Inr [0, 0, 0, 0, 0, 0, 0, 248]" "from_be [7 :: byte] = 7" by code_simp+
  moreover have "pow_hash_bytes example_prims (x @ [0, 0, 0, 0, 0, 0, 0, 248]) ARGON2_MAINNET = [7]" for x
    by (simp add: pow_hash_bytes_def example_prims_def)
  ultimately have r: "fst (wait_nonce 1 (mining_run example_prims [Work 0 1, Work 0 0, Work 0 0] m')) = Some 248"
    by (simp add: eq work_def latest_job_def check_job_def hash_nonce_def set_worker_def wait_nonce_def NONCE_SIZE_def Let_def)
  show ?thesis using m' r mined_nonces_win [OF mining.fresh m' r] by blast
qed

end
