(* ===== verification/Api.thy ===== *)
theory Api
  imports P2P
begin

text \<open>
  \<open>node/api.py\<close>: the HTTP and WebSocket API.  FastAPI routes requests and checks the types of their parameters; a
  request is a value of the datatype \<open>request\<close>, whose bounds (\<open>Query(ge=1, le=...)\<close>) are checked where the source
  states them.  An \<open>ApiError\<close> is the value \<open>Api_error\<close> with its status and code (the detail is dropped); any other
  exception, which the server answers with status 500, gives \<open>Inl\<close>.  What the handler of a WebSocket keeps in its local
  variables is an entry of \<open>api_sockets\<close>, and what it does between two awaits is one step.
\<close>

section \<open>Policy\<close>

record api_policy =
  pl_public :: bool
  pl_trusted :: "string list"
  pl_requests_per_second :: rat
  pl_burst :: rat
  pl_websockets_per_host :: nat
  pl_max_websockets :: nat
  pl_stranger_topics :: int
  pl_stranger_list_limit :: int

definition default_api_policy :: api_policy where
  "default_api_policy =
     \<lparr>pl_public = False, pl_trusted = [], pl_requests_per_second = 20, pl_burst = 100, pl_websockets_per_host = 4,
      pl_max_websockets = 1000, pl_stranger_topics = 100, pl_stranger_list_limit = 100\<rparr>"

definition MAX_TOPICS :: nat where "MAX_TOPICS = 1000"

definition is_trusted :: "net_lib \<Rightarrow> api_policy \<Rightarrow> string option \<Rightarrow> bool" where
  "is_trusted L pol host \<longleftrightarrow>
     \<not> pl_public pol \<or> (case host of None \<Rightarrow> False | Some h \<Rightarrow> h \<in> set (pl_trusted pol)) \<or> is_loopback L (map_option u host)"

section \<open>State\<close>

record ws_session =
  ws_host :: "string option"
  ws_trusted :: bool
  ws_sub :: nat

text \<open>\<open>api_peers\<close>: the node talks to other nodes.  The open sockets are numbered in the order they came.\<close>

record api =
  api_node :: node
  api_peers :: bool
  api_requests :: host_buckets
  api_websockets :: "(string option, nat) fmap"
  api_sockets :: "(nat \<times> ws_session) list"
  api_accepted :: nat

definition create_app :: "api_policy \<Rightarrow> bool \<Rightarrow> node \<Rightarrow> api" where
  "create_app pol peers nd =
     \<lparr>api_node = nd, api_peers = peers, api_requests = new_hosts (pl_requests_per_second pol) (pl_burst pol) 10000,
      api_websockets = fmempty, api_sockets = [], api_accepted = 0\<rparr>"

text \<open>Who listens to the service: the peer manager, when there is one.\<close>

definition api_listeners :: "site \<Rightarrow> api \<Rightarrow> (nat, net) listeners" where
  "api_listeners E ap = (if api_peers ap then p2p_listeners E else \<lparr>tip_listeners = [], tx_listeners = []\<rparr>)"

definition try_request :: "rat \<Rightarrow> string option \<Rightarrow> api \<Rightarrow> bool \<times> api" where
  "try_request now host ap =
     (let (ok, hb) = host_try_take now (case host of None \<Rightarrow> ''None'' | Some h \<Rightarrow> h) 1 (api_requests ap)
      in (ok, ap\<lparr>api_requests := hb\<rparr>))"

section \<open>Replies\<close>

datatype 'a reply = Answer 'a | Api_error int string

type_synonym 'a replied = "'a reply result"

definition andthen :: "'a replied \<Rightarrow> ('a \<Rightarrow> 'b replied) \<Rightarrow> 'b replied" where
  "andthen m f = rbind m (\<lambda>r. case r of Answer x \<Rightarrow> f x | Api_error st code \<Rightarrow> Inr (Api_error st code))"

definition answer :: "'a result \<Rightarrow> 'a replied" where
  "answer m = rmap Answer m"

definition list_limit :: "api_policy \<Rightarrow> bool \<Rightarrow> int \<Rightarrow> int" where
  "list_limit pol trusted limit = (if trusted then limit else min limit (pl_stranger_list_limit pol))"

definition parse_address :: "site \<Rightarrow> ustr \<Rightarrow> bytes replied" where
  "parse_address E t =
     (case decode_address (e_prims E) (chars t) (address_prefix (e_params E)) of
        Inr payload \<Rightarrow> Inr (Answer payload)
      | Inl e \<Rightarrow> if e = ValueError then Inr (Api_error 400 ''bad-address'') else Inl e)"

definition parse_hex :: "ustr \<Rightarrow> bytes replied" where
  "parse_hex t =
     (case bytes_fromhex (JStr t) of
        Inr data \<Rightarrow> Inr (Answer data)
      | Inl e \<Rightarrow> if e = ValueError then Inr (Api_error 400 ''bad-hex'') else Inl e)"

definition decoding :: "'a result \<Rightarrow> 'a replied" where
  "decoding m =
     (case m of
        Inr x \<Rightarrow> Inr (Answer x)
      | Inl e \<Rightarrow> if e = DecodeError then Inr (Api_error 400 ''bad-encoding'') else Inl e)"

text \<open>\<open>{**a, **b}\<close>: a later value replaces an earlier one in its place.\<close>

definition merged :: "dict \<Rightarrow> dict \<Rightarrow> dict" where
  "merged a b = fold (\<lambda>(k, v). AList.update k v) b a"

definition dict_of :: "json \<Rightarrow> dict" where
  "dict_of v = (case v of JObj d \<Rightarrow> d | _ \<Rightarrow> [])"

definition entries_json :: "(string \<times> json) list \<Rightarrow> dict" where
  "entries_json kvs = map (\<lambda>(k, v). (u k, v)) kvs"

section \<open>Handlers\<close>

definition item_view :: "site \<Rightarrow> history_item \<Rightarrow> node \<Rightarrow> dict result" where
  "item_view E item nd =
     rbind (tx_view (e_prims E) (lossy_utf8 (e_lib E)) (e_params E) (hi_tx item)) (\<lambda>view.
       case hi_location item of
         None \<Rightarrow> Inr (merged (dict_of view) (entries_json [(''status'', text_json ''pending'')]))
       | Some loc \<Rightarrow>
           rbind (confirmations (tl_height loc) nd) (\<lambda>n.
             Inr (merged (dict_of view) (entries_json
               [(''status'', text_json ''confirmed''), (''height'', JInt (tl_height loc)), (''position'', JInt (tl_position loc)),
                (''block'', hex_json (tl_block_id loc)),
                (''time'', case hi_time item of None \<Rightarrow> JNull | Some t \<Rightarrow> JInt t), (''confirmations'', JInt n)]))))"

definition block_summary :: "site \<Rightarrow> block_header \<Rightarrow> json result" where
  "block_summary E h =
     rbind (difficulty (bh_target h) (e_params E)) (\<lambda>d.
       Inr (obj [(''id'', hex_json (block_id (e_prims E) h)), (''height'', JInt (bh_height h)), (''time'', JInt (bh_timestamp h)),
                 (''difficulty'', JFloat d)]))"

definition node_version :: string where "node_version = ''0.1.0.dev0''"

definition status :: "site \<Rightarrow> api \<Rightarrow> json result" where
  "status E ap =
     (let nd = api_node ap; N = e_params E
      in rbind (the_tip (sv_store nd)) (\<lambda>tip.
         rbind (block_summary E (sh_header tip)) (\<lambda>summary.
         rbind (finalized_height N (sv_store nd)) (\<lambda>finalized.
           Inr (obj
             [(''network'', text_json (name N)), (''version'', text_json node_version),
              (''genesis'', hex_json (block_id (e_prims E) (header (ch_genesis (sv_chain nd))))),
              (''height'', JInt (sh_height tip)), (''tip'', summary), (''finalized_height'', JInt finalized),
              (''sealed_chunks'', JInt (sealed_chunks (sv_store nd))), (''chunk_size'', JInt (chunk_size N)),
              (''target_spacing'', JInt (target_spacing N)), (''block_reward'', text_json (amount_text (block_reward N))),
              (''coinbase_maturity'', JInt (coinbase_maturity N)), (''address_prefix'', text_json (address_prefix N)),
              (''min_fee_per_byte'', text_json (amount_text (po_min_fee_per_byte (e_policy E)))),
              (''mempool'', obj [(''count'', JInt (int (length (mp_by_id (sv_mempool nd))))), (''bytes'', JInt (mp_bytes (sv_mempool nd)))]),
              (''peers'', JInt (if api_peers ap then int (length (ready_peers (sv_peers nd))) else 0))])))))"

definition chunk_file :: "int \<Rightarrow> node \<Rightarrow> bytes replied" where
  "chunk_file index nd =
     (if \<not> (0 \<le> index \<and> index < sealed_chunks (sv_store nd)) then Inr (Api_error 404 ''unknown-chunk'')
      else answer (stored_file (chunk_name index) (sv_store nd)))"

definition genesis :: "site \<Rightarrow> node \<Rightarrow> json result" where
  "genesis E nd =
     (let b = ch_genesis (sv_chain nd)
      in rbind (coinbase_of b) (\<lambda>c.
           Inr (obj [(''network'', text_json (name (e_params E))), (''id'', hex_json (block_id (e_prims E) (header b))),
                     (''timestamp'', JInt (bh_timestamp (header b))), (''message'', hex_json (cb_memo c)),
                     (''nonce'', JInt (bh_nonce (header b)))])))"

text \<open>\<open>PeerManager.status\<close>\<close>

definition peers_status :: "net \<Rightarrow> json" where
  "peers_status nt =
     JList (map (\<lambda>i. let p = peer_of i nt
                     in obj [(''peer'', JStr (pr_label p)), (''outbound'', JBool (pr_outbound p)), (''height'', JInt (pr_height p)),
                             (''syncing'', JBool (nt_sync_peer nt = Some i))])
       (sort_key (\<lambda>i. pr_label (peer_of i nt)) (ready_peers nt)))"

definition peers :: "api \<Rightarrow> json" where
  "peers ap = (if api_peers ap then peers_status (sv_peers (api_node ap)) else JList [])"

text \<open>\<open>text.isascii() and text.isdigit()\<close>, and \<open>int(text)\<close> of such a text\<close>

definition ascii_digits_only :: "ustr \<Rightarrow> bool" where
  "ascii_digits_only t \<longleftrightarrow> t \<noteq> [] \<and> list_all (\<lambda>n. 48 \<le> n \<and> n \<le> 57) t"

definition digits_int :: "ustr \<Rightarrow> int" where
  "digits_int t = foldl (\<lambda>n c. n * 10 + (int c - 48)) 0 t"

definition block_named :: "site \<Rightarrow> ustr \<Rightarrow> node \<Rightarrow> block option replied" where
  "block_named E ref nd =
     (if length ref < 64 \<and> ascii_digits_only ref
      then answer (rbind (tip_height (sv_store nd)) (\<lambda>tip.
             if digits_int ref \<le> tip then main_block (e_prims E) (digits_int ref) (sv_store nd) else Inr None))
      else andthen (parse_hex ref) (\<lambda>bid.
             answer (if length bid = 32 then find_block (e_prims E) bid (sv_store nd) else Inr None)))"

definition get_block :: "site \<Rightarrow> ustr \<Rightarrow> ustr \<Rightarrow> node \<Rightarrow> json replied" where
  "get_block E ref format nd =
     andthen (block_named E ref nd) (\<lambda>found.
       case found of
         None \<Rightarrow> Inr (Api_error 404 ''unknown-block'')
       | Some b \<Rightarrow>
           if format = u ''hex'' then answer (rbind (serialize_block b) (\<lambda>d. Inr (obj [(''hex'', hex_json d)])))
           else answer (rbind (is_on_main_chain (block_id (e_prims E) (header b)) (sv_store nd)) (\<lambda>on_main.
                  rbind (if on_main then confirmations (bh_height (header b)) nd else Inr 0) (\<lambda>n.
                    block_view (e_prims E) (lossy_utf8 (e_lib E)) (e_params E) b on_main n))))"

definition get_tx :: "site \<Rightarrow> ustr \<Rightarrow> node \<Rightarrow> json replied" where
  "get_tx E tid nd =
     andthen (parse_hex tid) (\<lambda>tid.
     andthen (answer (find_transaction (e_prims E) tid nd)) (\<lambda>found.
       case found of
         None \<Rightarrow> Inr (Api_error 404 ''unknown-transaction'')
       | Some item \<Rightarrow> answer (rmap JObj (item_view E item nd))))"

text \<open>Handlers that change the node give its state beside their reply.\<close>

definition acting :: "api \<Rightarrow> 'a replied \<Rightarrow> ('a \<Rightarrow> ('b reply \<times> api) result) \<Rightarrow> ('b reply \<times> api) result" where
  "acting ap m f = rbind m (\<lambda>r. case r of Answer x \<Rightarrow> f x | Api_error st code \<Rightarrow> Inr (Api_error st code, ap))"

text \<open>\<open>except ValidationError\<close>\<close>

definition refusal :: "exn \<Rightarrow> json replied" where
  "refusal e = (case e of ValidationError code \<Rightarrow> Inr (Api_error 400 code) | _ \<Rightarrow> Inl e)"

definition post_tx :: "site \<Rightarrow> rat \<Rightarrow> ustr \<Rightarrow> api \<Rightarrow> (json reply \<times> api) result" where
  "post_tx E now body ap =
     acting ap (andthen (parse_hex body) (\<lambda>data. decoding (transaction_from_bytes data))) (\<lambda>tx.
       rbind (submit_transaction (e_prims E) (e_params E) (e_policy E) (api_listeners E ap) now tx None (api_node ap)) (\<lambda>(r, nd).
         let ap = ap\<lparr>api_node := nd\<rparr>
         in case r of
              Inl e \<Rightarrow> rmap (\<lambda>reply. (reply, ap)) (refusal e)
            | Inr _ \<Rightarrow> Inr (Answer (obj [(''txid'', hex_json (txid (e_prims E) tx)), (''status'', text_json ''pending'')]), ap)))"

definition mempool_view :: "site \<Rightarrow> int \<Rightarrow> node \<Rightarrow> json" where
  "mempool_view E limit nd =
     (let pool = sv_mempool nd
      in obj [(''count'', JInt (int (length (mp_by_id pool)))), (''bytes'', JInt (mp_bytes pool)),
              (''txids'', JList (map (\<lambda>e. hex_json (entry_id (e_prims E) e)) (take (nat limit) (entries pool))))])"

definition get_address :: "site \<Rightarrow> ustr \<Rightarrow> node \<Rightarrow> json replied" where
  "get_address E address nd =
     andthen (parse_address E address) (\<lambda>payload.
     andthen (answer (account_of (e_prims E) (e_params E) payload nd)) (\<lambda>info.
       Inr (Answer (obj
         [(''address'', JStr address), (''balance'', text_json (amount_text (ai_balance info))),
          (''available'', text_json (amount_text (available info))), (''pending_out'', text_json (amount_text (ai_pending_out info))),
          (''pending_in'', text_json (amount_text (ai_pending_in info))), (''immature'', text_json (amount_text (ai_immature info))),
          (''nonce'', JInt (ai_nonce info)), (''next_nonce'', JInt (ai_next_nonce info))]))))"

definition parse_cursor :: "ustr \<Rightarrow> (int \<times> int) replied" where
  "parse_cursor before =
     (case partition_at 58 before of (h, _, p) \<Rightarrow>
        if ascii_digits_only h \<and> ascii_digits_only p \<and> length h \<le> 18 \<and> length p \<le> 6
        then Inr (Answer (digits_int h, digits_int p)) else Inr (Api_error 400 ''bad-cursor''))"

text \<open>How a transaction changes the balance of an address, as the history shows it.\<close>

definition change_for :: "prims \<Rightarrow> bytes \<Rightarrow> transaction \<Rightarrow> string \<times> int" where
  "change_for P payload tx =
     (case tx of
        Coinbase c \<Rightarrow> (''mined'', cb_amount c)
      | Transfer t \<Rightarrow>
          let received = sum_list (map out_amount (filter (\<lambda>p. out_address p = payload) (tf_outputs t)));
              spent = (if sender P t = payload then total_spent t else 0)
          in (if spent = 0 then ''received'' else if received \<noteq> 0 then ''self'' else ''sent'', received - spent))"

definition history_view :: "site \<Rightarrow> bytes \<Rightarrow> history_item \<Rightarrow> node \<Rightarrow> json result" where
  "history_view E payload item nd =
     (let (kind, delta) = change_for (e_prims E) payload (hi_tx item)
      in rbind (item_view E item nd) (\<lambda>view.
           Inr (JObj (merged (entries_json [(''kind'', text_json kind), (''amount'', text_json (amount_text delta))]) view))))"

definition get_history :: "site \<Rightarrow> ustr \<Rightarrow> int \<Rightarrow> ustr option \<Rightarrow> node \<Rightarrow> json replied" where
  "get_history E address limit before nd =
     andthen (parse_address E address) (\<lambda>payload.
     andthen (case before of None \<Rightarrow> Inr (Answer None)
                | Some b \<Rightarrow> andthen (parse_cursor b) (\<lambda>c. Inr (Answer (Some c)))) (\<lambda>cursor.
     andthen (answer (history (e_prims E) payload (nat limit) cursor nd)) (\<lambda>items.
       answer (rmap JList (map_each (\<lambda>item. history_view E payload item nd) items)))))"

definition mining_template :: "site \<Rightarrow> rat \<Rightarrow> ustr \<Rightarrow> node \<Rightarrow> json replied" where
  "mining_template E now address nd =
     andthen (parse_address E address) (\<lambda>payload.
     andthen (answer (service_template (e_prims E) (e_params E) now payload [] nd)) (\<lambda>b.
       answer (rbind (serialize_block b) (\<lambda>d.
         Inr (obj
           [(''height'', JInt (bh_height (header b))), (''hex'', hex_json d), (''target'', JStr (target_text (bh_target (header b)))),
            (''pow'', obj [(''algorithm'', text_json ''argon2id''), (''memory_kib'', JInt (memory_kib (pow (e_params E)))),
                          (''iterations'', JInt (iterations (pow (e_params E)))), (''salt'', hex_json (salt (pow (e_params E))))])])))))"

definition outcome_text :: "outcome \<Rightarrow> string" where
  "outcome_text r =
     (case r of NEW_TIP \<Rightarrow> ''new_tip'' | SIDE_BRANCH \<Rightarrow> ''side_branch'' | DUPLICATE \<Rightarrow> ''duplicate''
        | ORPHAN \<Rightarrow> ''orphan'' | INVALID \<Rightarrow> ''invalid'')"

definition error_code :: "exn option \<Rightarrow> json" where
  "error_code e = (case e of Some (ValidationError code) \<Rightarrow> text_json code | _ \<Rightarrow> JNull)"

definition mining_submit :: "site \<Rightarrow> rat \<Rightarrow> ustr \<Rightarrow> api \<Rightarrow> (json reply \<times> api) result" where
  "mining_submit E now body ap =
     acting ap (andthen (parse_hex body) (\<lambda>data.
         if int (length data) > max_block_size (e_params E) then Inr (Api_error 400 ''block-too-large'')
         else decoding (block_from_bytes data))) (\<lambda>b.
       rbind (Service.submit_block (e_prims E) (e_params E) (e_policy E) (api_listeners E ap) now b None False (api_node ap))
         (\<lambda>(r, nd).
            Inr (Answer (obj [(''id'', hex_json (block_id (e_prims E) (header b))),
                              (''result'', text_json (outcome_text (sr_outcome r))), (''error'', error_code (sr_error r))]),
                 ap\<lparr>api_node := nd\<rparr>)))"

section \<open>Requests\<close>

datatype request =
    Get_status
  | Get_chunk int
  | Get_genesis
  | Get_peers
  | Get_block ustr ustr
  | Get_tx ustr
  | Post_tx ustr
  | Get_mempool int
  | Get_address ustr
  | Get_history ustr int "ustr option"
  | Get_template ustr
  | Post_block ustr

text \<open>\<open>request.url.path.startswith("/v1/mining/")\<close>\<close>

fun is_mining :: "request \<Rightarrow> bool" where
  "is_mining (Get_template _) = True"
| "is_mining (Post_block _) = True"
| "is_mining _ = False"

datatype response = Json json | Octets bytes

definition json_of :: "api \<Rightarrow> json replied \<Rightarrow> (response reply \<times> api) result" where
  "json_of ap m = rmap (\<lambda>r. (map_reply Json r, ap)) m"

definition changed :: "(json reply \<times> api) result \<Rightarrow> (response reply \<times> api) result" where
  "changed m = rmap (\<lambda>(r, ap). (map_reply Json r, ap)) m"

text \<open>A parameter outside its bounds: FastAPI answers with status 422.\<close>

definition in_query :: "bool \<Rightarrow> 'a replied \<Rightarrow> 'a replied" where
  "in_query ok m = (if ok then m else Inr (Api_error 422 ''unprocessable''))"

fun handle_request :: "site \<Rightarrow> api_policy \<Rightarrow> rat \<Rightarrow> bool \<Rightarrow> request \<Rightarrow> api \<Rightarrow> (response reply \<times> api) result" where
  "handle_request E pol now trusted Get_status ap = json_of ap (answer (status E ap))"
| "handle_request E pol now trusted (Get_chunk index) ap =
     rmap (\<lambda>r. (map_reply Octets r, ap)) (chunk_file index (api_node ap))"
| "handle_request E pol now trusted Get_genesis ap = json_of ap (answer (genesis E (api_node ap)))"
| "handle_request E pol now trusted Get_peers ap = json_of ap (Inr (Answer (peers ap)))"
| "handle_request E pol now trusted (Get_block ref format) ap = json_of ap (get_block E ref format (api_node ap))"
| "handle_request E pol now trusted (Get_tx tid) ap = json_of ap (get_tx E tid (api_node ap))"
| "handle_request E pol now trusted (Post_tx body) ap = changed (post_tx E now body ap)"
| "handle_request E pol now trusted (Get_mempool limit) ap =
     json_of ap (in_query (1 \<le> limit \<and> limit \<le> 10000)
       (Inr (Answer (mempool_view E (list_limit pol trusted limit) (api_node ap)))))"
| "handle_request E pol now trusted (Get_address address) ap = json_of ap (get_address E address (api_node ap))"
| "handle_request E pol now trusted (Get_history address limit before) ap =
     json_of ap (in_query (1 \<le> limit \<and> limit \<le> 500 \<and> (case before of None \<Rightarrow> True | Some b \<Rightarrow> length b \<le> 30))
       (get_history E address (list_limit pol trusted limit) before (api_node ap)))"
| "handle_request E pol now trusted (Get_template address) ap = json_of ap (mining_template E now address (api_node ap))"
| "handle_request E pol now trusted (Post_block body) ap = changed (mining_submit E now body ap)"

text \<open>\<open>guard\<close>, around every request.  A request that fails inside keeps what the guard changed: the bucket.\<close>

definition guard :: "site \<Rightarrow> api_policy \<Rightarrow> rat \<Rightarrow> string option \<Rightarrow> request \<Rightarrow> api \<Rightarrow> response replied \<times> api" where
  "guard E pol now host rq ap =
     (let trusted = is_trusted (e_lib E) pol host;
          (ok, ap) = (if trusted then (True, ap) else try_request now host ap)
      in if \<not> ok then (Inr (Api_error 429 ''rate-limited''), ap)
         else if \<not> trusted \<and> is_mining rq then (Inr (Api_error 403 ''local-only''), ap)
         else case handle_request E pol now trusted rq ap of
                Inl e \<Rightarrow> (Inl e, ap)
              | Inr (r, ap) \<Rightarrow> (Inr r, ap))"

section \<open>Live events over a WebSocket\<close>

definition valid_topic :: "site \<Rightarrow> json \<Rightarrow> bool" where
  "valid_topic E topic \<longleftrightarrow>
     (case topic of
        JStr t \<Rightarrow> t = u ''blocks'' \<or> t = u ''mempool'' \<or>
          (startswith t (u ''address:'') \<and>
           is_valid_address (e_prims E) (chars (drop (length (u ''address:'')) t)) (address_prefix (e_params E)))
      | _ \<Rightarrow> False)"

definition open_of :: "string option \<Rightarrow> (string option, nat) fmap \<Rightarrow> nat" where
  "open_of h counts = lookup_or 0 counts h"

definition open_total :: "(string option, nat) fmap \<Rightarrow> nat" where
  "open_total counts = sum (\<lambda>h. open_of h counts) (fset (fmdom counts))"

definition on_events :: "(json event_bus \<Rightarrow> json event_bus) \<Rightarrow> api \<Rightarrow> api" where
  "on_events f ap = ap\<lparr>api_node := (api_node ap)\<lparr>sv_events := f (sv_events (api_node ap))\<rparr>\<rparr>"

text \<open>The handler up to its first await; None is a refused connection.\<close>

definition ws_open :: "site \<Rightarrow> api_policy \<Rightarrow> string option \<Rightarrow> api \<Rightarrow> nat option \<times> api" where
  "ws_open E pol host ap =
     (let trusted = is_trusted (e_lib E) pol host; counts = api_websockets ap
      in if \<not> trusted \<and> (open_of host counts \<ge> pl_websockets_per_host pol \<or> open_total counts \<ge> pl_max_websockets pol)
         then (None, ap)
         else let (sub, bus) = subscribe (sv_events (api_node ap));
                  ap = on_events (\<lambda>_. bus) ap; i = api_accepted ap
              in (Some i, ap\<lparr>api_websockets := (if trusted then counts else fmupd host (Suc (open_of host counts)) counts),
                             api_sockets := api_sockets ap @ [(i, \<lparr>ws_host = host, ws_trusted = trusted, ws_sub = sub\<rparr>)],
                             api_accepted := Suc i\<rparr>))"

definition tell :: "nat \<Rightarrow> string \<Rightarrow> (string \<times> json) list \<Rightarrow> api \<Rightarrow> api" where
  "tell i kind data ap = on_events (change_sub i (deliver (event_json kind data))) ap"

definition ws_error :: "nat \<Rightarrow> string \<Rightarrow> api \<Rightarrow> api" where
  "ws_error i code ap = tell i ''error'' [(''error'', text_json code)] ap"

text \<open>Asking for topics: those that are valid, as far as the limit goes.\<close>

definition ws_subscribe :: "site \<Rightarrow> api_policy \<Rightarrow> nat \<Rightarrow> bool \<Rightarrow> json list \<Rightarrow> api \<Rightarrow> api" where
  "ws_subscribe E pol i trusted topics ap =
     (let topics = take MAX_TOPICS topics;
          max_topics = (if trusted then int MAX_TOPICS else pl_stranger_topics pol);
          valid = map (\<lambda>t. case t of JStr s \<Rightarrow> chars s | _ \<Rightarrow> []) (filter (valid_topic E) topics);
          ap = on_events (add_topics i valid max_topics) ap;
          mine = topics_of i (sv_events (api_node ap))
      in tell i ''subscribed''
           [(''topics'', JList (map text_json (sorted_list_of_fset mine))),
            (''rejected'', JList (filter (\<lambda>t. \<not> (case t of JStr s \<Rightarrow> \<exists>x\<in>fset mine. u x = s | _ \<Rightarrow> False)) topics))] ap)"

text \<open>One turn of \<open>read\<close>, over the subscription \<open>ws_sub s\<close>; \<open>m\<close> is what \<open>receive_json\<close> gives, None when it raises.\<close>

definition ws_message :: "site \<Rightarrow> api_policy \<Rightarrow> rat \<Rightarrow> ws_session \<Rightarrow> json option \<Rightarrow> api \<Rightarrow> api" where
  "ws_message E pol now s m ap =
     (case m of
        None \<Rightarrow> ws_error (ws_sub s) ''bad-json'' ap
      | Some v \<Rightarrow>
          let (ok, ap) = (if ws_trusted s then (True, ap) else try_request now (ws_host s) ap)
          in if \<not> ok then ws_error (ws_sub s) ''rate-limited'' ap
             else case (case v of JObj d \<Rightarrow> get d ''subscribe'' | _ \<Rightarrow> JNull) of
                    JList topics \<Rightarrow> ws_subscribe E pol (ws_sub s) (ws_trusted s) topics ap
                  | _ \<Rightarrow> ws_error (ws_sub s) ''expected {\"subscribe\": [...]}'' ap)"

definition close_socket :: "nat \<Rightarrow> ws_session \<Rightarrow> api \<Rightarrow> api" where
  "close_socket i s ap =
     (let ap = on_events (unsubscribe (ws_sub s)) ap; counts = api_websockets ap; n = open_of (ws_host s) counts - 1
      in ap\<lparr>api_sockets := filter (\<lambda>e. fst e \<noteq> i) (api_sockets ap),
            api_websockets := (if ws_trusted s then counts
              else if n = 0 then fmdrop (ws_host s) counts else fmupd (ws_host s) n counts)\<rparr>)"

text \<open>One turn of \<open>write\<close>: what is sent, if anything.  A subscriber that fell behind is disconnected.\<close>

definition ws_write :: "nat \<Rightarrow> ws_session \<Rightarrow> api \<Rightarrow> json option \<times> api" where
  "ws_write i s ap =
     (let sub = bus_subscriptions (sv_events (api_node ap)) ! ws_sub s
      in if sub_overflowed sub then (None, close_socket i s ap)
         else case sub_queue sub of
                [] \<Rightarrow> (None, ap)
              | m # ms \<Rightarrow> (Some m, on_events (change_sub (ws_sub s) (\<lambda>x. x\<lparr>sub_queue := ms\<rparr>)) ap))"

section \<open>The server\<close>

datatype api_event =
    Request "string option" request
  | Ws_connect "string option"
  | Ws_received nat "json option"
  | Ws_sending nat
  | Ws_gone nat
  | Node_event event

text \<open>One step of the event loop.  An exception that no handler catches ends what the model says.\<close>

fun api_step :: "site \<Rightarrow> api_policy \<Rightarrow> ustr \<Rightarrow> rat \<Rightarrow> api_event \<Rightarrow> api \<Rightarrow> api result" where
  "api_step E pol agent now (Request host rq) ap =
     (case guard E pol now host rq ap of (Inl e, ap') \<Rightarrow> Inl e | (Inr _, ap') \<Rightarrow> Inr ap')"
| "api_step E pol agent now (Ws_connect host) ap = Inr (snd (ws_open E pol host ap))"
| "api_step E pol agent now (Ws_received i m) ap =
     (case map_of (api_sockets ap) i of None \<Rightarrow> Inr ap | Some s \<Rightarrow> Inr (ws_message E pol now s m ap))"
| "api_step E pol agent now (Ws_sending i) ap =
     (case map_of (api_sockets ap) i of None \<Rightarrow> Inr ap | Some s \<Rightarrow> Inr (snd (ws_write i s ap)))"
| "api_step E pol agent now (Ws_gone i) ap =
     (case map_of (api_sockets ap) i of None \<Rightarrow> Inr ap | Some s \<Rightarrow> Inr (close_socket i s ap))"
| "api_step E pol agent now (Node_event e) ap =
     rmap (\<lambda>nd. ap\<lparr>api_node := nd\<rparr>) (node_step E agent now e (api_node ap))"

text \<open>What the server can come to, whoever calls it, in whatever order.\<close>

inductive api_reaches :: "site \<Rightarrow> api_policy \<Rightarrow> ustr \<Rightarrow> api \<Rightarrow> api \<Rightarrow> bool" for E pol agent ap where
  started: "api_reaches E pol agent ap ap"
| stepped: "api_reaches E pol agent ap ap1 \<Longrightarrow> api_step E pol agent now e ap1 = Inr ap2 \<Longrightarrow> api_reaches E pol agent ap ap2"

end
