(* ===== verification/Api_Inv.thy ===== *)
theory Api_Inv
  imports Api P2P_Inv
begin

text \<open>
  What strangers can do to a public node through its API: the counters of their open sockets are exact, so that a
  stranger never holds more sockets than its share and a closed one frees its place; and no request of a stranger
  reaches the handlers for miners or changes the chain.
\<close>

section \<open>Sockets\<close>

definition is_stranger :: "string option \<Rightarrow> nat \<times> ws_session \<Rightarrow> bool" where
  "is_stranger h entry \<longleftrightarrow> \<not> ws_trusted (snd entry) \<and> ws_host (snd entry) = h"

definition stranger_sockets :: "string option \<Rightarrow> api \<Rightarrow> nat" where
  "stranger_sockets h ap = length (filter (is_stranger h) (api_sockets ap))"

definition sockets_ok :: "api_policy \<Rightarrow> api \<Rightarrow> bool" where
  "sockets_ok pol ap \<longleftrightarrow> distinct (map fst (api_sockets ap)) \<and> (\<forall>e\<in>set (api_sockets ap). fst e < api_accepted ap) \<and>
     (\<forall>h. open_of h (api_websockets ap) = stranger_sockets h ap) \<and>
     (\<forall>h. open_of h (api_websockets ap) \<le> pl_websockets_per_host pol) \<and>
     open_total (api_websockets ap) \<le> pl_max_websockets pol"

text \<open>What the sockets depend on; every other step leaves it alone.\<close>

definition sockets_of :: "api \<Rightarrow> (string option, nat) fmap \<times> (nat \<times> ws_session) list \<times> nat" where
  "sockets_of ap = (api_websockets ap, api_sockets ap, api_accepted ap)"

lemma sockets_ok_same: "sockets_of ap' = sockets_of ap \<Longrightarrow> sockets_ok pol ap \<Longrightarrow> sockets_ok pol ap'"
  unfolding sockets_of_def sockets_ok_def stranger_sockets_def prod.inject by (elim conjE) (simp only:, blast)

lemma sockets_of_fields [simp]:
  "sockets_of (on_events f ap) = sockets_of ap" "sockets_of (ap\<lparr>api_node := nd\<rparr>) = sockets_of ap"
  "sockets_of (snd (try_request now host ap)) = sockets_of ap" "sockets_of (tell i kind d ap) = sockets_of ap"
  "sockets_of (ws_error i code ap) = sockets_of ap" "sockets_of (ws_subscribe E pol i trusted ts ap) = sockets_of ap"
  by (simp_all add: sockets_of_def on_events_def try_request_def tell_def ws_error_def ws_subscribe_def Let_def split: prod.splits)

lemma try_request_sockets: "try_request now host ap = (ok, ap') \<Longrightarrow> sockets_of ap' = sockets_of ap"
  using sockets_of_fields(3) [of now host ap] by simp

lemma ws_message_sockets [simp]: "sockets_of (ws_message E pol now s m ap) = sockets_of ap"
  by (auto simp: ws_message_def Let_def try_request_sockets split: option.split prod.split json.split)

lemma acting_Inr:
  assumes "acting ap m f = Inr (r, ap')"
  shows "ap' = ap \<or> (\<exists>x. f x = Inr (r, ap'))"
proof -
  from assms obtain y where "(case y of Answer x \<Rightarrow> f x | Api_error st code \<Rightarrow> Inr (Api_error st code, ap)) = Inr (r, ap')"
    unfolding acting_def rbind_Inr_iff by blast
  then show ?thesis by (cases y) auto
qed

lemma api_node_same: "\<exists>nd. ap = ap\<lparr>api_node := nd\<rparr> \<and> sv_chain nd = sv_chain (api_node ap)"
  by (rule exI [of _ "api_node ap"]) simp

text \<open>A submitted transfer changes the node, but not its chain.\<close>

lemma submit_transaction_chain:
  assumes "submit_transaction P N po L now tx origin sv = Inr (r, sv')"
  shows "sv_chain sv' = sv_chain sv"
proof -
  from assms obtain a mp where a: "add P N po (get_account (sv_store sv)) now tx (sv_mempool sv) = Inr (a, mp)"
    by (auto simp: submit_transaction_def result_simps)
  show ?thesis
  proof (cases a)
    case (Inl e)
    with assms a show ?thesis by (auto simp: submit_transaction_def)
  next
    case (Inr e)
    with assms a show ?thesis
      by (cases tx) (auto simp: submit_transaction_def result_simps tell_tx_def dest!: announce_addresses_fields)
  qed
qed

lemma post_tx_keeps:
  assumes "post_tx E now body ap = Inr (r, ap')"
  shows "\<exists>nd. ap' = ap\<lparr>api_node := nd\<rparr> \<and> sv_chain nd = sv_chain (api_node ap)"
  using acting_Inr [OF assms [unfolded post_tx_def]]
proof (elim disjE exE)
  fix tx
  assume "rbind (submit_transaction (e_prims E) (e_params E) (e_policy E) (api_listeners E ap) now tx None (api_node ap)) (\<lambda>(r, nd).
      let ap = ap\<lparr>api_node := nd\<rparr>
      in case r of Inl e \<Rightarrow> rmap (\<lambda>reply. (reply, ap)) (refusal e)
         | Inr _ \<Rightarrow> Inr (Answer (obj [(''txid'', hex_json (txid (e_prims E) tx)), (''status'', text_json ''pending'')]), ap)) = Inr (r, ap')"
  then obtain a nd where a: "submit_transaction (e_prims E) (e_params E) (e_policy E) (api_listeners E ap) now tx None (api_node ap) = Inr (a, nd)"
    and r: "(case a of Inl e \<Rightarrow> rmap (\<lambda>reply. (reply, ap\<lparr>api_node := nd\<rparr>)) (refusal e)
       | Inr _ \<Rightarrow> Inr (Answer (obj [(''txid'', hex_json (txid (e_prims E) tx)), (''status'', text_json ''pending'')]), ap\<lparr>api_node := nd\<rparr>))
       = Inr (r, ap')"
    by (auto simp: rbind_Inr_iff Let_def)
  from r have "ap' = ap\<lparr>api_node := nd\<rparr>" by (cases a) (auto simp: result_simps)
  then show ?thesis using submit_transaction_chain [OF a] by blast
qed (simp add: api_node_same)

lemma mining_submit_keeps:
  assumes "mining_submit E now body ap = Inr (r, ap')"
  shows "\<exists>nd. ap' = ap\<lparr>api_node := nd\<rparr>"
  using acting_Inr [OF assms [unfolded mining_submit_def]]
proof (elim disjE)
  assume "ap' = ap"
  then show ?thesis using api_node_same [of ap] by auto
qed (auto simp: result_simps)

text \<open>The requests that only ask.\<close>

lemma handle_request_keeps:
  assumes "handle_request E pol now trusted rq ap = Inr (r, ap')"
  shows "\<exists>nd. ap' = ap\<lparr>api_node := nd\<rparr> \<and> (\<not> is_mining rq \<longrightarrow> sv_chain nd = sv_chain (api_node ap))"
proof (cases rq)
  case (Post_tx body)
  with assms show ?thesis by (auto simp: changed_def result_simps dest!: post_tx_keeps)
next
  case (Post_block body)
  with assms show ?thesis by (auto simp: changed_def result_simps dest!: mining_submit_keeps)
qed (use assms api_node_same [of ap] in \<open>auto simp: json_of_def result_simps\<close>)

lemma try_request_fields: "try_request now host ap = (ok, ap') \<Longrightarrow> api_node ap' = api_node ap"
  by (auto simp: try_request_def split: prod.splits)

lemma guard_sockets:
  assumes "guard E pol now host rq ap = (r, ap')"
  shows "sockets_of ap' = sockets_of ap"
  using assms by (auto simp: guard_def Let_def dest!: try_request_sockets handle_request_keeps split: if_splits prod.splits sum.splits)

lemma open_of_upd [simp]: "open_of h (fmupd h' n counts) = (if h = h' then n else open_of h counts)"
  by (simp add: open_of_def lookup_or_def)

lemma open_of_drop [simp]: "open_of h (fmdrop h' counts) = (if h = h' then 0 else open_of h counts)"
  by (simp add: open_of_def lookup_or_def)

lemma open_of_empty [simp]: "open_of h fmempty = 0"
  by (simp add: open_of_def lookup_or_def)

text \<open>The total over any hosts that include those counted.\<close>

lemma open_total_over:
  assumes "finite A" "fset (fmdom counts) \<subseteq> A"
  shows "open_total counts = sum (\<lambda>h. open_of h counts) A"
  unfolding open_total_def
  by (rule sum.mono_neutral_left) (use assms in \<open>auto simp: open_of_def lookup_or_def fmlookup_dom_iff split: option.splits\<close>)

lemma open_total_upd:
  "open_total (fmupd h n counts) + open_of h counts = open_total counts + n"
proof -
  let ?A = "insert h (fset (fmdom counts))"
  have "open_total (fmupd h n counts) = sum (\<lambda>x. open_of x (fmupd h n counts)) ?A" by (rule open_total_over) auto
  moreover have "open_total counts = sum (\<lambda>x. open_of x counts) ?A" by (rule open_total_over) auto
  moreover have "sum (\<lambda>x. open_of x (fmupd h n counts)) (?A - {h}) = sum (\<lambda>x. open_of x counts) (?A - {h})"
    by (rule sum.cong) auto
  ultimately show ?thesis
    using sum.remove [of ?A h "\<lambda>x. open_of x (fmupd h n counts)"] sum.remove [of ?A h "\<lambda>x. open_of x counts"] by simp
qed

lemma open_total_drop: "open_total (fmdrop h counts) + open_of h counts = open_total counts"
proof -
  let ?A = "insert h (fset (fmdom counts))"
  have "open_total (fmdrop h counts) = sum (\<lambda>x. open_of x (fmdrop h counts)) ?A" by (rule open_total_over) auto
  moreover have "open_total counts = sum (\<lambda>x. open_of x counts) ?A" by (rule open_total_over) auto
  moreover have "sum (\<lambda>x. open_of x (fmdrop h counts)) (?A - {h}) = sum (\<lambda>x. open_of x counts) (?A - {h})"
    by (rule sum.cong) auto
  ultimately show ?thesis
    using sum.remove [of ?A h "\<lambda>x. open_of x (fmdrop h counts)"] sum.remove [of ?A h "\<lambda>x. open_of x counts"] by simp
qed


lemma ws_open_keeps:
  assumes ok: "sockets_ok pol ap"
  shows "sockets_ok pol (snd (ws_open E pol host ap))"
proof (cases "\<not> is_trusted (e_lib E) pol host \<and>
    (open_of host (api_websockets ap) \<ge> pl_websockets_per_host pol \<or> open_total (api_websockets ap) \<ge> pl_max_websockets pol)")
  case True
  with ok show ?thesis by (simp add: ws_open_def)
next
  case room: False
  define trusted where "trusted = is_trusted (e_lib E) pol host"
  obtain sub bus where bus: "subscribe (sv_events (api_node ap)) = (sub, bus)" by fastforce
  define e where "e = (api_accepted ap, \<lparr>ws_host = host, ws_trusted = trusted, ws_sub = sub\<rparr>)"
  define counts where "counts = (if trusted then api_websockets ap
    else fmupd host (Suc (open_of host (api_websockets ap))) (api_websockets ap))"
  have s: "sockets_of (snd (ws_open E pol host ap)) = (counts, api_sockets ap @ [e], Suc (api_accepted ap))"
    using room bus by (auto simp: ws_open_def Let_def sockets_of_def e_def counts_def trusted_def on_events_def)
  have total: "open_total counts \<le> pl_max_websockets pol"
    using room ok open_total_upd [of host "Suc (open_of host (api_websockets ap))" "api_websockets ap"]
    by (auto simp: counts_def trusted_def sockets_ok_def)
  have exact: "open_of h counts = length (filter (is_stranger h) (api_sockets ap @ [e]))" for h
    using ok by (auto simp: counts_def e_def is_stranger_def sockets_ok_def stranger_sockets_def)
  have share: "open_of h counts \<le> pl_websockets_per_host pol" for h
    using room ok by (auto simp: counts_def trusted_def sockets_ok_def)
  have "distinct (map fst (api_sockets ap @ [e]))" "\<forall>x\<in>set (api_sockets ap @ [e]). fst x < Suc (api_accepted ap)"
    using ok by (auto simp: sockets_ok_def e_def less_Suc_eq)
  with total exact share s show ?thesis
    by (simp add: sockets_ok_def sockets_of_def stranger_sockets_def)
qed

lemma filter_key_out:
  assumes "distinct (map fst xs)" "(i, s) \<in> set xs"
  shows "length (filter p (filter (\<lambda>e. fst e \<noteq> i) xs)) + (if p (i, s) then 1 else 0) = length (filter p xs)"
  using assms
proof (induction xs)
  case (Cons x xs)
  show ?case
  proof (cases "x = (i, s)")
    case True
    have "filter (\<lambda>e. fst e \<noteq> i) xs = xs" using Cons.prems True by (intro filter_True) force
    with True show ?thesis by simp
  next
    case False
    then have "(i, s) \<in> set xs" using Cons.prems by auto
    moreover have "fst x \<noteq> i" using Cons.prems image_eqI [of i fst "(i, s)" "set xs"] \<open>(i, s) \<in> set xs\<close> by auto
    ultimately show ?thesis using Cons by auto
  qed
qed simp

lemma close_socket_keeps:
  assumes ok: "sockets_ok pol ap" and there: "map_of (api_sockets ap) i = Some s"
  shows "sockets_ok pol (close_socket i s ap)"
proof -
  let ?left = "filter (\<lambda>e. fst e \<noteq> i) (api_sockets ap)"
  let ?n = "open_of (ws_host s) (api_websockets ap)"
  define counts where "counts = (if ws_trusted s then api_websockets ap
    else if ?n - 1 = 0 then fmdrop (ws_host s) (api_websockets ap) else fmupd (ws_host s) (?n - 1) (api_websockets ap))"
  have s: "sockets_of (close_socket i s ap) = (counts, ?left, api_accepted ap)"
    by (simp add: close_socket_def Let_def sockets_of_def on_events_def counts_def)
  have left: "length (filter (is_stranger h) ?left) + (if is_stranger h (i, s) then 1 else 0) = stranger_sockets h ap" for h
    unfolding stranger_sockets_def by (rule filter_key_out) (use ok map_of_SomeD [OF there] in \<open>auto simp: sockets_ok_def\<close>)
  have exact: "open_of h counts = length (filter (is_stranger h) ?left)" for h
  proof -
    define k where "k = length (filter (is_stranger h) ?left)"
    have "is_stranger h (i, s) \<longleftrightarrow> \<not> ws_trusted s \<and> ws_host s = h" by (simp add: is_stranger_def)
    moreover have "open_of h (api_websockets ap) = stranger_sockets h ap" using ok by (simp add: sockets_ok_def)
    ultimately show ?thesis using left [of h] unfolding k_def [symmetric] counts_def by (auto split: if_splits)
  qed
  have fewer: "open_of h counts \<le> open_of h (api_websockets ap)" for h by (simp add: counts_def)
  have total: "open_total counts \<le> open_total (api_websockets ap)"
    using open_total_upd [of "ws_host s" "?n - 1" "api_websockets ap"] open_total_drop [of "ws_host s" "api_websockets ap"]
    by (auto simp: counts_def)
  have "distinct (map fst ?left)" using ok by (simp add: sockets_ok_def distinct_map_filter)
  with exact order_trans [OF fewer] order_trans [OF total] s ok show ?thesis
    by (auto simp: sockets_ok_def sockets_of_def stranger_sockets_def)
qed

lemma ws_write_keeps:
  "sockets_ok pol ap \<Longrightarrow> map_of (api_sockets ap) i = Some s \<Longrightarrow> sockets_ok pol (snd (ws_write i s ap))"
  by (auto simp: ws_write_def Let_def close_socket_keeps intro: sockets_ok_same [OF sockets_of_fields(1)] split: list.split)

lemma api_step_keeps:
  assumes "api_step E pol agent now e ap = Inr ap'" "sockets_ok pol ap"
  shows "sockets_ok pol ap'"
proof (cases e)
  case (Request host rq)
  obtain r ap1 where g: "guard E pol now host rq ap = (r, ap1)" by fastforce
  with assms Request have "ap' = ap1" by (auto split: sum.splits)
  with sockets_ok_same [OF guard_sockets [OF g]] assms(2) show ?thesis by simp
next
  case (Ws_received i m)
  with assms show ?thesis by (auto intro: sockets_ok_same [OF ws_message_sockets] split: option.splits)
next
  case (Node_event ev)
  with assms show ?thesis by (auto simp: result_simps intro: sockets_ok_same [OF sockets_of_fields(2)])
qed (use assms in \<open>auto simp: ws_open_keeps ws_write_keeps close_socket_keeps split: option.splits\<close>)

lemma sockets_ok_create: "sockets_ok pol (create_app pol with_peers nd)"
  by (simp add: sockets_ok_def create_app_def stranger_sockets_def open_total_def)

lemma api_reaches_keeps:
  assumes "api_reaches E pol agent ap ap'" "sockets_ok pol ap"
  shows "sockets_ok pol ap'"
  using assms by induction (auto intro: api_step_keeps)


text \<open>All strangers together.\<close>

definition all_strangers :: "api \<Rightarrow> nat" where
  "all_strangers ap = length (filter (\<lambda>e. \<not> ws_trusted (snd e)) (api_sockets ap))"

lemma length_filter_by_key:
  assumes "finite A" "\<forall>x\<in>set xs. p x \<longrightarrow> f x \<in> A"
  shows "length (filter p xs) = sum (\<lambda>h. length (filter (\<lambda>x. p x \<and> f x = h) xs)) A"
  using assms(2)
proof (induction xs)
  case (Cons x xs)
  show ?case
  proof (cases "p x")
    case True
    with Cons.prems have "f x \<in> A" by simp
    let ?g = "\<lambda>h. length (filter (\<lambda>x. p x \<and> f x = h) xs)"
    have "sum (\<lambda>h. length (filter (\<lambda>x. p x \<and> f x = h) (x # xs))) A = sum (\<lambda>h. ?g h + (if h = f x then 1 else 0)) A"
      using True by (intro sum.cong) auto
    also have "\<dots> = sum ?g A + 1" using \<open>finite A\<close> \<open>f x \<in> A\<close> by (simp add: sum.distrib)
    finally show ?thesis using Cons True by simp
  next
    case False
    with Cons show ?thesis by simp
  qed
qed simp

lemma open_total_strangers:
  assumes "sockets_ok pol ap"
  shows "open_total (api_websockets ap) = all_strangers ap"
proof -
  let ?counts = "api_websockets ap"
  have "is_stranger h = (\<lambda>e. \<not> ws_trusted (snd e) \<and> ws_host (snd e) = h)" for h by (rule ext) (simp add: is_stranger_def)
  then have exact: "open_of h ?counts = length (filter (\<lambda>e. \<not> ws_trusted (snd e) \<and> ws_host (snd e) = h) (api_sockets ap))" for h
    using assms by (simp add: sockets_ok_def stranger_sockets_def)
  have "ws_host (snd e) \<in> fset (fmdom ?counts)" if "e \<in> set (api_sockets ap)" "\<not> ws_trusted (snd e)" for e
  proof (rule ccontr)
    assume "ws_host (snd e) \<notin> fset (fmdom ?counts)"
    then have "open_of (ws_host (snd e)) ?counts = 0" by (simp add: open_of_def lookup_or_def fmdom_notD)
    with exact that show False by (auto simp: filter_empty_conv)
  qed
  then show ?thesis
    unfolding open_total_def exact all_strangers_def by (intro length_filter_by_key [symmetric]) auto
qed

lemma guard_mining:
  assumes "\<not> is_trusted (e_lib E) pol host" "guard E pol now host rq ap = (r, ap')" "is_mining rq"
  shows "api_node ap' = api_node ap \<and> (r = Inr (Api_error 429 ''rate-limited'') \<or> r = Inr (Api_error 403 ''local-only''))"
  using assms by (auto simp: guard_def Let_def dest: try_request_fields split: prod.splits if_splits)

lemma guard_chain:
  assumes "guard E pol now host rq ap = (r, ap')" "\<not> is_mining rq"
  shows "sv_chain (api_node ap') = sv_chain (api_node ap)"
  using assms by (auto simp: guard_def Let_def dest!: try_request_fields handle_request_keeps split: prod.splits if_splits sum.splits)

text \<open>C12. In whatever order computers connect, disconnect and send requests, and whatever the node does meanwhile:
  no stranger has more open sockets than its share, all strangers together no more than the limit, and a
  connection of a stranger is refused exactly when one of the two is used up, so that every closed socket frees its
  place.  No request of a stranger changes the chain, and those for miners get the answer 429 or 403 and change
  nothing of the node.\<close>

theorem strangers_are_limited:
  assumes "api_reaches E pol agent (create_app pol with_peers nd) ap"
    and "\<not> is_trusted (e_lib E) pol host" and "guard E pol now host rq ap = (r, ap')"
  shows "stranger_sockets host ap \<le> pl_websockets_per_host pol \<and> all_strangers ap \<le> pl_max_websockets pol \<and>
    (fst (ws_open E pol host ap) = None \<longleftrightarrow>
       stranger_sockets host ap = pl_websockets_per_host pol \<or> all_strangers ap = pl_max_websockets pol) \<and>
    sv_chain (api_node ap') = sv_chain (api_node ap) \<and>
    (is_mining rq \<longrightarrow> api_node ap' = api_node ap \<and>
       (r = Inr (Api_error 429 ''rate-limited'') \<or> r = Inr (Api_error 403 ''local-only'')))"
proof -
  have ok: "sockets_ok pol ap" by (rule api_reaches_keeps [OF assms(1) sockets_ok_create])
  then have "stranger_sockets host ap \<le> pl_websockets_per_host pol" "open_of host (api_websockets ap) = stranger_sockets host ap"
    "all_strangers ap \<le> pl_max_websockets pol" "open_total (api_websockets ap) = all_strangers ap"
    using open_total_strangers [OF ok] by (auto simp: sockets_ok_def)
  moreover from this have "fst (ws_open E pol host ap) = None \<longleftrightarrow>
      stranger_sockets host ap = pl_websockets_per_host pol \<or> all_strangers ap = pl_max_websockets pol"
    using assms(2) by (auto simp: ws_open_def Let_def split: prod.splits)
  moreover have "sv_chain (api_node ap') = sv_chain (api_node ap)"
    using guard_mining [OF assms(2,3)] guard_chain [OF assms(3)] by (cases "is_mining rq") auto
  ultimately show ?thesis using guard_mining [OF assms(2,3)] by blast
qed

section \<open>An example\<close>

definition example_net :: net_lib where
  "example_net = \<lparr>urlsplit = \<lambda>_. Inl ValueError, ip_address = \<lambda>_. None,
     uni = undefined, loads = \<lambda>_. None, lossy_utf8 = \<lambda>_. []\<rparr>"

definition public_policy :: api_policy where
  "public_policy = default_api_policy\<lparr>pl_public := True\<rparr>"

definition example_app :: api where
  "example_app = create_app public_policy False (example_node example_config)"

lemma strangers_are_limited_witness:
  "\<exists>ap r ap'. api_reaches (example_site example_net) public_policy [] example_app ap \<and> stranger_sockets (Some ''h'') ap = 1 \<and>
     guard (example_site example_net) public_policy 0 (Some ''h'') (Get_template []) ap = (r, ap') \<and>
     r = Inr (Api_error 403 ''local-only'')"
proof -
  let ?E = "example_site example_net"
  define ap where "ap = snd (ws_open ?E public_policy (Some ''h'') example_app)"
  have stranger: "\<not> is_trusted (e_lib ?E) public_policy (Some ''h'')"
    by (simp add: example_site_def example_net_def public_policy_def default_api_policy_def is_trusted_def is_loopback_def u_def)
  have "api_step ?E public_policy [] 0 (Ws_connect (Some ''h'')) example_app = Inr ap" by (simp add: ap_def)
  from api_reaches.stepped [OF api_reaches.started this] have reached: "api_reaches ?E public_policy [] example_app ap" .
  obtain r ap' where g: "guard ?E public_policy 0 (Some ''h'') (Get_template []) ap = (r, ap')" by fastforce
  have one: "stranger_sockets (Some ''h'') ap = 1"
    using stranger by (simp add: ap_def ws_open_def Let_def example_app_def create_app_def stranger_sockets_def is_stranger_def
        public_policy_def default_api_policy_def open_total_def subscribe_def on_events_def)
  have "r = Inr (Api_error 429 ''rate-limited'') \<or> r = Inr (Api_error 403 ''local-only'')"
    using strangers_are_limited [OF reached [unfolded example_app_def] stranger g] by simp
  moreover have "r \<noteq> Inr (Api_error 429 ''rate-limited'')"
    using g stranger by (auto simp: guard_def Let_def try_request_def host_try_take_def ap_def ws_open_def example_app_def create_app_def
        public_policy_def default_api_policy_def open_total_def subscribe_def on_events_def new_hosts_def new_bucket_def try_take_def
        refill_def split: prod.splits if_splits)
  ultimately show ?thesis using reached one g by blast
qed

end
