(* ===== verification/Api_History.thy ===== *)
theory Api_History
  imports Api P2P_Inv
begin

text \<open>
  Reading a history page by page.  A client passes the height and the position of the last item it received as the
  cursor of its next request (\<open>before=HEIGHT:POSITION\<close>); the pages together are shown to be the whole history, each
  item once and in order.
\<close>

section \<open>The client\<close>

definition cursor_text :: "tx_location \<Rightarrow> ustr" where
  "cursor_text loc = u (str_of_int (tl_height loc)) @ 58 # u (str_of_int (tl_position loc))"

text \<open>One page, as \<open>get_history\<close> finds it.\<close>

definition history_page :: "prims \<Rightarrow> bytes \<Rightarrow> int \<Rightarrow> ustr option \<Rightarrow> 'l service \<Rightarrow> history_item list replied" where
  "history_page P payload limit before sv =
     andthen (case before of None \<Rightarrow> Inr (Answer None)
                | Some b \<Rightarrow> andthen (parse_cursor b) (\<lambda>c. Inr (Answer (Some c)))) (\<lambda>cursor.
       answer (history P payload (nat limit) cursor sv))"

lemma get_history_page:
  "get_history E address limit before nd =
     andthen (parse_address E address) (\<lambda>payload.
     andthen (history_page (e_prims E) payload limit before nd) (\<lambda>items.
       answer (rmap JList (map_each (\<lambda>item. history_view E payload item nd) items))))"
  unfolding get_history_def history_page_def andthen_def
  by (rule rbind_cong [OF refl]) (auto simp: rbind_assoc intro!: rbind_cong split: reply.split)

text \<open>At most \<open>n\<close> pages of at most \<open>limit\<close> items, until one is empty.\<close>

fun read_pages :: "prims \<Rightarrow> bytes \<Rightarrow> int \<Rightarrow> nat \<Rightarrow> ustr option \<Rightarrow> 'l service \<Rightarrow> history_item list replied" where
  "read_pages P payload limit 0 before sv = Inr (Answer [])"
| "read_pages P payload limit (Suc n) before sv =
     andthen (history_page P payload limit before sv) (\<lambda>items.
       if items = [] then Inr (Answer [])
       else case hi_location (last items) of
              None \<Rightarrow> Inr (Answer items)
            | Some loc \<Rightarrow> andthen (read_pages P payload limit n (Some (cursor_text loc)) sv) (\<lambda>further. Inr (Answer (items @ further))))"

section \<open>Cursors\<close>

lemma u_digits: "list_all is_digit s \<Longrightarrow> list_all (\<lambda>n. 48 \<le> n \<and> n \<le> 57) (u s)"
  by (auto simp: u_def list_all_iff is_digit_def Let_def)

lemma digits_int_u: "digits_int (u s) = int_of_digits s"
  by (simp add: digits_int_def int_of_digits_def u_def foldl_map digit_value_def)

lemma cursor_reads_back:
  assumes "0 \<le> tl_height loc" "tl_height loc < 10 ^ 18" "0 \<le> tl_position loc" "tl_position loc < 10 ^ 6"
  shows "parse_cursor (cursor_text loc) = Inr (Answer (tl_height loc, tl_position loc))"
proof -
  let ?h = "u (str_of_int (tl_height loc))" and ?p = "u (str_of_int (tl_position loc))"
  have h: "list_all (\<lambda>n. 48 \<le> n \<and> n \<le> 57) ?h" by (rule u_digits [OF str_of_int_digits]) (rule assms(1))
  have p: "list_all (\<lambda>n. 48 \<le> n \<and> n \<le> 57) ?p" by (rule u_digits [OF str_of_int_digits]) (rule assms(3))
  have "\<forall>n\<in>set ?h. n \<noteq> 58" using h by (auto simp: list_all_iff)
  then have "partition_at 58 (cursor_text loc) = (?h, True, ?p)"
    by (simp add: partition_at_def cursor_text_def dropWhile_append takeWhile_append)
  moreover have "length ?h \<le> 18" "length ?p \<le> 6"
    using length_str_of_int [OF assms(1,2)] length_str_of_int [OF assms(3,4)] by (simp_all add: u_def)
  moreover have "?h \<noteq> []" "?p \<noteq> []" by (simp_all add: u_def)
  ultimately show ?thesis
    using h p assms(1,3) by (simp add: parse_cursor_def ascii_digits_only_def digits_int_u)
qed

section \<open>The rows\<close>

definition older :: "(int \<times> int) option \<Rightarrow> int \<times> int \<times> bytes \<Rightarrow> bool" where
  "older before r = (case (before, r) of (None, _) \<Rightarrow> True | (Some (bh, bp), (h, p, _)) \<Rightarrow> h < bh \<or> (h = bh \<and> p < bp))"

text \<open>Everything that concerns an address, newest first.\<close>

definition all_rows :: "bytes \<Rightarrow> store \<Rightarrow> (int \<times> int \<times> bytes) list" where
  "all_rows a s = map (\<lambda>(b, h, p). (h, p, the (fmlookup (st_address_index s) (b, h, p))))
     (rev (filter (\<lambda>(b, h, p). b = a) (sorted_list_of_fset (fmdom (st_address_index s)))))"

lemma address_history_rows: "address_history a n before s = take n (filter (older before) (all_rows a s))"
  by (cases before) (auto simp: address_history_def all_rows_def filter_map rev_filter [symmetric] comp_def older_def
      case_prod_beta intro!: arg_cong [of _ _ "take n"] arg_cong [of _ _ "map _"] arg_cong [of _ _ rev] filter_cong)

definition newest_first :: "(int \<times> int \<times> bytes) list \<Rightarrow> bool" where
  "newest_first = sorted_wrt (\<lambda>(h, p, _) (h', p', _). h' < h \<or> (h' = h \<and> p' < p))"

lemma all_rows_newest_first: "newest_first (all_rows a s)"
proof -
  have "sorted_wrt (<) (sorted_list_of_fset (fmdom (st_address_index s)))"
    by (simp add: sorted_list_of_fset.rep_eq)
  then have "sorted_wrt (<) (filter (\<lambda>(b, h, p). b = a) (sorted_list_of_fset (fmdom (st_address_index s))))"
    by (rule sorted_wrt_filter)
  then show ?thesis
    unfolding newest_first_def all_rows_def sorted_wrt_map sorted_wrt_rev
    by (rule sorted_wrt_mono_rel [rotated]) (auto simp: less_prod_def)
qed

lemma rows_after_page:
  assumes sorted: "newest_first rows" and "0 < k" "k \<le> length rows" "rows ! (k - 1) = (h, p, t)"
  shows "filter (older (Some (h, p))) rows = drop k rows"
proof -
  note nth = sorted_wrt_nth_less [OF sorted [unfolded newest_first_def]]
  have before: "\<not> older (Some (h, p)) r" if r: "r \<in> set (take k rows)" for r
  proof -
    from r obtain i where i: "i < k" "r = rows ! i" using assms(3) by (auto simp: in_set_conv_nth)
    show ?thesis
    proof (cases "i = k - 1")
      case False
      with i assms(2,3) have "i < k - 1" "k - 1 < length rows" by auto
      with nth [of i "k - 1"] i assms(4) show ?thesis by (auto simp: older_def split: prod.splits)
    qed (use i assms(4) in \<open>simp add: older_def\<close>)
  qed
  have after: "older (Some (h, p)) r" if r: "r \<in> set (drop k rows)" for r
  proof -
    from r obtain j where "j < length (drop k rows)" "r = drop k rows ! j" unfolding in_set_conv_nth by blast
    with nth [of "k - 1" "k + j"] assms(2-4) show ?thesis by (auto simp: older_def split: prod.splits)
  qed
  have "filter (older (Some (h, p))) (take k rows @ drop k rows) = drop k rows"
    unfolding filter_append using before after by (simp add: filter_empty_conv filter_id_conv)
  then show ?thesis by simp
qed

section \<open>The pages\<close>

definition row_item :: "prims \<Rightarrow> 'l service \<Rightarrow> int \<times> int \<times> bytes \<Rightarrow> history_item result" where
  "row_item P sv = (\<lambda>(h, position, _).
     rbind (main_block P h (sv_store sv)) (\<lambda>b.
       case b of
         None \<Rightarrow> Inl AttributeError
       | Some b' \<Rightarrow> located_item b \<lparr>tl_block_id = block_id P (header b'), tl_height = h, tl_position = position\<rparr>))"

definition waiting_items :: "prims \<Rightarrow> bytes \<Rightarrow> 'l service \<Rightarrow> history_item list" where
  "waiting_items P a sv = map waiting_item (involving P a (sv_mempool sv))"

lemma history_rows:
  "history P a n before sv =
     (let items = (if before \<noteq> None then [] else take n (waiting_items P a sv))
      in rmap ((@) items) (map_each (row_item P sv) (take (n - length items) (filter (older before) (all_rows a (sv_store sv))))))"
  unfolding history_def waiting_items_def row_item_def address_history_rows Let_def
  by (cases "before = None") (simp_all add: rmap_def)

lemma row_item_location:
  assumes "row_item P sv r = Inr item"
  shows "\<exists>loc. hi_location item = Some loc \<and> tl_height loc = fst r \<and> tl_position loc = fst (snd r)"
  using assms by (auto simp: row_item_def located_item_def result_simps split: prod.splits option.splits if_splits)

lemma waiting_no_location: "item \<in> set (waiting_items P a sv) \<Longrightarrow> hi_location item = None"
  by (auto simp: waiting_items_def waiting_item_def)

lemma map_each_take: "map_each f xs = Inr ys \<Longrightarrow> map_each f (take n xs) = Inr (take n ys)"
  by (simp add: map_each_Inr list_all2_takeI)

lemma map_each_drop: "map_each f xs = Inr ys \<Longrightarrow> map_each f (drop n xs) = Inr (drop n ys)"
  by (simp add: map_each_Inr list_all2_dropI)

definition rows_fit :: "(int \<times> int \<times> bytes) list \<Rightarrow> bool" where
  "rows_fit rows \<longleftrightarrow> (\<forall>(h, p, _)\<in>set rows. 0 \<le> h \<and> h < 10 ^ 18 \<and> 0 \<le> p \<and> p < 10 ^ 6)"

text \<open>The location of the item before offset \<open>k\<close>, and what a client reads that has come to it.\<close>

lemma item_location:
  assumes "map_each (row_item P sv) rows = Inr items" "0 < k" "k \<le> length items"
  obtains loc h p t where "hi_location (items ! (k - 1)) = Some loc" "rows ! (k - 1) = (h, p, t)"
    "tl_height loc = h" "tl_position loc = p" "(h, p, t) \<in> set rows"
proof -
  from assms have len: "length items = length rows" and "row_item P sv (rows ! (k - 1)) = Inr (items ! (k - 1))"
    by (auto simp: map_each_Inr list_all2_conv_all_nth)
  from row_item_location [OF this(2)] obtain loc where loc: "hi_location (items ! (k - 1)) = Some loc"
    "tl_height loc = fst (rows ! (k - 1))" "tl_position loc = fst (snd (rows ! (k - 1)))" by blast
  have "rows ! (k - 1) \<in> set rows" using assms(2,3) len by (intro nth_mem) simp
  with loc show thesis by (cases "rows ! (k - 1)") (auto intro: that)
qed

lemma read_on:
  assumes items: "map_each (row_item P sv) rows = Inr items" and rows: "rows = all_rows a (sv_store sv)" "rows_fit rows"
    and "0 < limit" "0 < k" "k \<le> length items" "length items - k < n" "hi_location (items ! (k - 1)) = Some loc"
  shows "read_pages P a limit n (Some (cursor_text loc)) sv = Inr (Answer (drop k items))"
  using assms(5-)
proof (induction n arbitrary: k loc)
  case (Suc n)
  obtain h p t where at: "rows ! (k - 1) = (h, p, t)" "tl_height loc = h" "tl_position loc = p" "(h, p, t) \<in> set rows"
    using item_location [OF items Suc.prems(1,2)] Suc.prems(4) by (metis option.inject)
  have len: "length items = length rows" using items by (simp add: map_each_Inr list_all2_lengthD)
  have "parse_cursor (cursor_text loc) = Inr (Answer (h, p))"
    using cursor_reads_back [of loc] at rows(2) by (auto simp: rows_fit_def)
  moreover have "filter (older (Some (h, p))) rows = drop k rows"
    using rows_after_page [OF all_rows_newest_first, of k a "sv_store sv"] rows(1) at(1) Suc.prems(1,2) len by simp
  ultimately have page: "history_page P a limit (Some (cursor_text loc)) sv = Inr (Answer (take (nat limit) (drop k items)))"
    using map_each_take [OF map_each_drop [OF items]] rows(1)
    by (simp add: history_page_def history_rows andthen_def answer_def)
  show ?case
  proof (cases "drop k items = []")
    case True
    with page show ?thesis by (simp add: andthen_def)
  next
    case False
    define k' where "k' = k + min (nat limit) (length items - k)"
    have k': "k < k'" "k' \<le> length items" using False assms(4) by (auto simp: k'_def)
    have last: "last (take (nat limit) (drop k items)) = items ! (k' - 1)"
      using False assms(4) by (auto simp: k'_def last_conv_nth min_def)
    obtain loc' where loc': "hi_location (items ! (k' - 1)) = Some loc'"
      using item_location [OF items, of k'] k' by auto
    have "read_pages P a limit n (Some (cursor_text loc')) sv = Inr (Answer (drop k' items))"
      using k' Suc.prems loc' by (intro Suc.IH) auto
    moreover have "take (nat limit) (drop k items) @ drop k' items = drop k items"
      using append_take_drop_id [of "nat limit" "drop k items"] by (cases "nat limit \<le> length items - k") (simp_all add: k'_def add.commute)
    moreover have "take (nat limit) (drop k items) \<noteq> []" using False assms(4) by simp
    ultimately show ?thesis using page last loc' by (simp add: andthen_def)
  qed
qed simp


text \<open>C22. A client that reads the history of an address page by page, asking each time for what is older than the last
  item it received, with any page size above the number of waiting transfers, receives exactly the whole history:
  every item once, in order, and then an empty page.\<close>

theorem pages_are_the_history:
  assumes "history P a n None sv = Inr items"
    and "length (waiting_items P a sv) + length (all_rows a (sv_store sv)) \<le> n"
    and "rows_fit (all_rows a (sv_store sv))" and "int (length (waiting_items P a sv)) < limit"
  shows "read_pages P a limit (Suc (length items)) None sv = Inr (Answer items)"
proof -
  let ?w = "waiting_items P a sv" and ?rows = "all_rows a (sv_store sv)"
  have all: "filter (older None) ?rows = ?rows" by (simp add: older_def)
  from assms(1,2) all obtain confirmed where confirmed: "map_each (row_item P sv) ?rows = Inr confirmed"
    and items: "items = ?w @ confirmed"
    by (auto simp: history_rows Let_def result_simps)
  define k where "k = min (nat limit - length ?w) (length confirmed)"
  have page: "history_page P a limit None sv = Inr (Answer (?w @ take (nat limit - length ?w) confirmed))"
    using assms(4) all map_each_take [OF confirmed] by (simp add: history_page_def history_rows andthen_def answer_def Let_def)
  have k: "take (nat limit - length ?w) confirmed = take k confirmed" "k \<le> length confirmed"
    by (simp_all add: k_def min_def)
  show ?thesis
  proof (cases "confirmed = []")
    case True
    with page items waiting_no_location [of "last ?w" P a sv] show ?thesis by (simp add: andthen_def)
  next
    case False
    then have "0 < k" using assms(4) by (auto simp: k_def)
    have last: "last (?w @ take k confirmed) = confirmed ! (k - 1)"
    proof -
      have "last (?w @ take k confirmed) = last (take k confirmed)" using False \<open>0 < k\<close> by simp
      also have "\<dots> = confirmed ! (k - 1)" using \<open>0 < k\<close> k(2) False by (subst last_conv_nth) auto
      finally show ?thesis .
    qed
    obtain loc where loc: "hi_location (confirmed ! (k - 1)) = Some loc"
      using item_location [OF confirmed \<open>0 < k\<close> k(2)] by auto
    have "read_pages P a limit (length items) (Some (cursor_text loc)) sv = Inr (Answer (drop k confirmed))"
      using assms(3,4) \<open>0 < k\<close> k(2) items loc by (intro read_on [OF confirmed refl]) auto
    with page k(1) last loc items False \<open>0 < k\<close> show ?thesis by (simp add: andthen_def)
  qed
qed

text \<open>Waiting transfers have no height and position: when they fill the first page, nothing that is confirmed can be
  asked for.\<close>

lemma waiting_fill_the_page:
  assumes "0 < limit" "limit \<le> int (length (waiting_items P a sv))"
  shows "read_pages P a limit (Suc n) None sv = Inr (Answer (take (nat limit) (waiting_items P a sv)))"
proof -
  let ?w = "take (nat limit) (waiting_items P a sv)"
  have page: "history_page P a limit None sv = Inr (Answer ?w)"
    using assms by (simp add: history_page_def history_rows andthen_def answer_def Let_def)
  have some: "?w \<noteq> []" using assms by auto
  then have "last ?w \<in> set (waiting_items P a sv)" by (rule in_set_takeD [OF last_in_set])
  then have "hi_location (last ?w) = None" by (rule waiting_no_location)
  with page some show ?thesis by (simp only: read_pages.simps andthen_def rbind.simps reply.case if_False option.case)
qed

section \<open>An example\<close>

definition one_payment :: "unit service" where
  "one_payment = new_service \<lparr>ch_store = genesis_store
       \<lparr>st_files := fmupd (recent_name 0 (bid example_prims example_genesis)) (block_bytes example_genesis) fmempty,
        st_address_index := fmupd (BURN_PAYLOAD, 0, 0) [] fmempty\<rparr>,
     ch_genesis = example_genesis, ch_orphans = [], ch_orphan_bytes = 0, ch_pow_checked = []\<rparr> ()"

definition its_item :: history_item where
  "its_item = \<lparr>hi_tx = Coinbase (example_coinbase 0),
     hi_location = Some \<lparr>tl_block_id = bid example_prims example_genesis, tl_height = 0, tl_position = 0\<rparr>, hi_time = Some 1000\<rparr>"

lemma example_genesis_read: "block_from_bytes (block_bytes example_genesis) = Inr example_genesis"
  using example_header_fits
  by (simp add: block_from_bytes_iff block_fits_def example_genesis_def example_link_def tx_fits_def coinbase_fits_def
      example_coinbase_def fits_def REGTEST_def BURN_PAYLOAD_def PAYLOAD_SIZE_def)

lemma pages_are_the_history_witness:
  "history example_prims BURN_PAYLOAD 1 None one_payment = Inr [its_item] \<and>
   read_pages example_prims BURN_PAYLOAD 1 2 None one_payment = Inr (Answer [its_item])"
proof -
  let ?P = example_prims and ?a = BURN_PAYLOAD
  have waiting: "waiting_items ?P ?a one_payment = []"
    by (simp add: waiting_items_def one_payment_def new_service_def involving_def new_mempool_def
        incoming_for_def pending_for_def paying_def pending_of_def in_order_def
        sorted_list_of_fset.rep_eq)
  have rows: "all_rows ?a (sv_store one_payment) = [(0, 0, [])]"
    by (simp add: all_rows_def one_payment_def new_service_def sv_store_def sorted_list_of_fset.rep_eq)
  have "main_block ?P 0 (sv_store one_payment) = Inr (Some example_genesis)"
    using example_genesis_read
    by (simp add: main_block_def main_id_def find_block_def find_block_bytes_def stored_file_def one_payment_def new_service_def
        sv_store_def genesis_store_def genesis_row_def)
  then have "row_item ?P one_payment (0, 0, []) = Inr its_item"
    by (simp add: row_item_def located_item_def its_item_def example_genesis_def example_link_def bid_def)
  with waiting rows have "history ?P ?a 1 None one_payment = Inr [its_item]"
    by (simp add: history_rows older_def)
  moreover from this have "read_pages ?P ?a 1 (Suc (length [its_item])) None one_payment = Inr (Answer [its_item])"
    by (rule pages_are_the_history) (simp_all add: waiting rows rows_fit_def)
  ultimately show ?thesis by (simp add: numeral_2_eq_2)
qed

end
