(* ===== verification/Reindex.thy ===== *)
theory Reindex
  imports Chain Json
begin

text \<open>
  What reads the names of the block files back: \<open>recent_blocks\<close> and \<open>chunk_indexes\<close> of \<open>node/blockfiles.py\<close>,
  \<open>tidy_recent_files\<close> of \<open>node/store.py\<close>, opening a chain (\<open>ChainManager\<close> of \<open>node/chain.py\<close>) and
  \<open>node/reindex.py\<close>, which builds the database again from the files alone.  Names are of code points below 256.
  Tidying is shown never to delete a file that the database still reads.
\<close>

section \<open>Names\<close>

definition names_under :: "string \<Rightarrow> store \<Rightarrow> string list" where
  "names_under prefix s =
     filter (\<lambda>nm. startswith nm prefix \<and> \<not> startswith (rev nm) (rev ''.tmp'')) (sorted_list_of_fset (fmdom (st_files s)))"

text \<open>\<open>text.removesuffix(suffix)\<close>\<close>

definition removesuffix :: "'a list \<Rightarrow> 'a list \<Rightarrow> 'a list" where
  "removesuffix t suffix =
     (if startswith (rev t) (rev suffix) then take (length t - length suffix) t else t)"

text \<open>\<open>text.isdigit()\<close>, which is also true of superscript digits, on which \<open>int\<close> raises.\<close>

definition isdigit :: "string \<Rightarrow> bool" where
  "isdigit t \<longleftrightarrow> t \<noteq> [] \<and> list_all (\<lambda>c. is_digit c \<or> (of_char c :: nat) \<in> {178, 179, 185}) t"

definition int_of_text :: "string \<Rightarrow> int result" where
  "int_of_text t = (if list_all is_digit t then Inr (int_of_digits t) else Inl ValueError)"

text \<open>The height and the block id of one file name, if it is the name of a block.\<close>

definition recent_entry :: "string \<Rightarrow> (int \<times> bytes) list result" where
  "recent_entry nm =
     (case partition_at CHR ''-'' (removesuffix (drop (length ''recent/'') nm) ''.block'') of (h, _, hex_id) \<Rightarrow>
        if isdigit h \<and> length hex_id = 64
        then rbind (int_of_text h) (\<lambda>h. rbind (bytes_fromhex (JStr (u hex_id))) (\<lambda>bid. Inr [(h, bid)]))
        else Inr [])"

definition recent_blocks :: "store \<Rightarrow> (int \<times> bytes) list result" where
  "recent_blocks s = rmap (\<lambda>found. sort (concat found)) (map_each recent_entry (names_under ''recent/'' s))"

definition chunk_indexes :: "unicode_db \<Rightarrow> store \<Rightarrow> int list result" where
  "chunk_indexes D s =
     map_each (\<lambda>nm. py_int D 10 (u (removesuffix (drop (length ''chunks/'') nm) ''.chunk'')))
       (filter (\<lambda>nm. startswith (rev nm) (rev ''.chunk'')) (names_under ''chunks/'' s))"

section \<open>Tidying\<close>

definition tidy_file :: "int \<times> bytes \<Rightarrow> store \<Rightarrow> store" where
  "tidy_file entry s =
     (case fmlookup (st_headers s) (snd entry) of
        None \<Rightarrow> delete_recent_file entry s
      | Some row \<Rightarrow> if hr_location row \<noteq> None then delete_recent_file entry s else s)"

definition tidy_recent_files :: "int \<Rightarrow> store \<Rightarrow> store result" where
  "tidy_recent_files last_sealed_height s =
     rmap (\<lambda>found. fold tidy_file (takeWhile (\<lambda>(h, _). h \<le> last_sealed_height) found) s) (recent_blocks s)"

section \<open>Opening a chain\<close>

definition open_chain :: "prims \<Rightarrow> network_params \<Rightarrow> store \<Rightarrow> chain result" where
  "open_chain P N s =
     rbind (genesis_block P N) (\<lambda>genesis.
     rbind (init_genesis P N genesis s) (\<lambda>s.
     rbind (seal_ready_chunks P N s) (\<lambda>s.
     rbind (tidy_recent_files (sealed_height N s) s) (\<lambda>s.
       Inr \<lparr>ch_store = s, ch_genesis = genesis, ch_orphans = [], ch_orphan_bytes = 0, ch_pow_checked = []\<rparr>))))"

section \<open>Rebuilding the database\<close>

text \<open>The chunk files in order, until one is missing its predecessor.\<close>

fun reindex_chunks :: "prims \<Rightarrow> network_params \<Rightarrow> int list \<Rightarrow> int \<Rightarrow> chain \<Rightarrow> (int \<times> chain) result" where
  "reindex_chunks P N [] blocks c = Inr (blocks, c)"
| "reindex_chunks P N (index # is) blocks c =
     (if index \<noteq> sealed_chunks (ch_store c) then Inr (blocks, c)
      else rbind (stored_file (chunk_name index) (ch_store c)) (\<lambda>data.
           rbind (import_chunk P N data c) (\<lambda>(added, c).
           rbind added (\<lambda>n. reindex_chunks P N is (blocks + n) c))))"

text \<open>One recent block file: blocks of any branch, those that are on the active chain by now left out.\<close>

definition reindex_recent :: "prims \<Rightarrow> network_params \<Rightarrow> int \<Rightarrow> int \<times> bytes \<Rightarrow> int \<times> chain \<Rightarrow> (int \<times> chain) result" where
  "reindex_recent P N now entry t =
     (case (entry, t) of ((h, bid), (blocks, c)) \<Rightarrow>
        rbind (if h = 0 then Inr True else is_on_main_chain bid (ch_store c)) (\<lambda>there.
          if there then Inr (blocks, c)
          else rbind (stored_file (recent_name h bid) (ch_store c)) (\<lambda>data.
               rbind (block_from_bytes data) (\<lambda>b.
               rbind (submit_block P N now b c) (\<lambda>(r, c).
                 Inr (if sr_outcome r = NEW_TIP \<or> sr_outcome r = SIDE_BRANCH then blocks + 1 else blocks, c))))))"

text \<open>The database is deleted, the files stay.  The value is the height of the chain and the store.\<close>

definition reindex :: "prims \<Rightarrow> network_params \<Rightarrow> unicode_db \<Rightarrow> int \<Rightarrow> store \<Rightarrow> (int \<times> store) result" where
  "reindex P N D now old =
     rbind (open_store (new_store\<lparr>st_files := st_files old\<rparr>)) (\<lambda>s.
     rbind (open_chain P N s) (\<lambda>c.
     rbind (chunk_indexes D (ch_store c)) (\<lambda>indexes.
     rbind (reindex_chunks P N indexes 0 c) (\<lambda>(blocks, c).
     rbind (recent_blocks (ch_store c)) (\<lambda>found.
     rbind (for_each (reindex_recent P N now) found (blocks, c)) (\<lambda>(blocks, c).
       rmap (\<lambda>h. (h, ch_store c)) (tip_height (ch_store c))))))))"

section \<open>Tidying deletes nothing that is read\<close>

lemma hex_byte_inject: "hex_byte b = hex_byte c \<Longrightarrow> b = c"
proof -
  assume eq: "hex_byte b = hex_byte c"
  have nth: "i = j" if "Blockfiles.hex_digits ! i = Blockfiles.hex_digits ! j" "i < 16" "j < 16" for i j :: nat
    using that nth_eq_iff_index_eq [of Blockfiles.hex_digits i j] by (simp add: Blockfiles.hex_digits_def)
  have bound: "nat (uint x div 16) < 16" "nat (uint x mod 16) < 16" for x :: byte
    using uint_lt2p [of x] by auto
  from eq have "nat (uint b div 16) = nat (uint c div 16)" "nat (uint b mod 16) = nat (uint c mod 16)"
    using nth bound by (auto simp: hex_byte_def)
  then have "uint b div 16 = uint c div 16" "uint b mod 16 = uint c mod 16"
    by (simp_all add: pos_imp_zdiv_nonneg_iff eq_nat_nat_iff)
  then have "uint b = uint c" by (metis div_mult_mod_eq)
  then show "b = c" by (simp add: word_uint_eq_iff)
qed

lemma hex_of_inject: "hex_of a = hex_of b \<Longrightarrow> a = b"
proof (induction a arbitrary: b)
  case Nil
  then show ?case by (cases b) (auto simp: hex_of_def hex_byte_def)
next
  case (Cons x a)
  from Cons.prems obtain y b' where b: "b = y # b'" by (cases b) (auto simp: hex_of_def hex_byte_def)
  with Cons.prems have "hex_byte x = hex_byte y \<and> hex_of a = hex_of b'"
    by (simp add: hex_of_def hex_byte_def)
  with b Cons.IH hex_byte_inject show ?case by blast
qed

lemma recent_name_inject:
  assumes "recent_name h a = recent_name h' b" "0 \<le> h" "0 \<le> h'"
  shows "a = b"
proof -
  have cut: "dropWhile (\<lambda>c. c \<noteq> CHR ''-'') (zero_padded 10 n @ CHR ''-'' # t) = CHR ''-'' # t" if "0 \<le> n" for n t
  proof -
    have "\<forall>c\<in>set (zero_padded 10 n). c \<noteq> CHR ''-''"
      using zero_padded_digits [OF that, of 10] by (auto simp: list_all_iff is_digit_def)
    then show ?thesis by (simp add: dropWhile_append3 dropWhile_append2)
  qed
  from assms(1) have "zero_padded 10 h @ CHR ''-'' # hex_of a @ ''.block'' = zero_padded 10 h' @ CHR ''-'' # hex_of b @ ''.block''"
    by (simp add: recent_name_def)
  with cut [OF assms(2)] cut [OF assms(3)] have "hex_of a = hex_of b"
    by (metis append_same_eq list.inject)
  then show ?thesis by (rule hex_of_inject)
qed

lemma recent_name_no_chunk: "recent_name h b \<noteq> chunk_name i"
  by (simp add: recent_name_def chunk_name_def)

lemma recent_entry_height: "recent_entry nm = Inr found \<Longrightarrow> (h, b) \<in> set found \<Longrightarrow> 0 \<le> h"
  by (auto simp: recent_entry_def int_of_text_def result_simps int_of_digits_bounds split: prod.splits if_splits)

lemma recent_blocks_heights:
  assumes "recent_blocks s = Inr found" "(h, b) \<in> set found"
  shows "0 \<le> h"
proof -
  from assms obtain fs where fs: "map_each recent_entry (names_under ''recent/'' s) = Inr fs" "(h, b) \<in> set (concat fs)"
    by (auto simp: recent_blocks_def result_simps)
  then obtain f where f: "f \<in> set fs" "(h, b) \<in> set f" by auto
  from fs(1) have "list_all2 (\<lambda>x y. recent_entry x = Inr y) (names_under ''recent/'' s) fs" by (simp add: map_each_Inr)
  with f(1) obtain nm where "recent_entry nm = Inr f" by (auto simp: list_all2_conv_all_nth in_set_conv_nth)
  then show ?thesis using recent_entry_height f(2) by blast
qed

definition same_reads :: "prims \<Rightarrow> store \<Rightarrow> store \<Rightarrow> bool" where
  "same_reads P s s' \<longleftrightarrow> st_headers s' = st_headers s \<and> (\<forall>bid. find_block_bytes P bid s' = find_block_bytes P bid s)"

lemma tidy_file_reads:
  assumes "\<forall>bid row. fmlookup (st_headers s) bid = Some row \<longrightarrow> 0 \<le> hr_height row" "0 \<le> fst entry"
  shows "same_reads P s (tidy_file entry s)"
proof -
  obtain h b where e: "entry = (h, b)" by fastforce
  have "find_block_bytes P bid (delete_recent_file entry s) = find_block_bytes P bid s"
    if unread: "\<forall>row. fmlookup (st_headers s) b = Some row \<longrightarrow> hr_location row \<noteq> None" for bid
  proof (cases "fmlookup (st_headers s) bid")
    case (Some row)
    then have "0 \<le> hr_height row" using assms(1) by auto
    then have "hr_location row = None \<Longrightarrow> recent_name h b \<noteq> recent_name (hr_height row) bid"
      using recent_name_inject [of h b "hr_height row" bid] assms(2) e unread Some by auto
    moreover have "chunk_name i \<noteq> recent_name h b" for i using recent_name_no_chunk by metis
    ultimately show ?thesis
      using Some e by (cases "hr_location row") (simp_all add: find_block_bytes_def delete_recent_file_def stored_file_def)
  qed (simp add: find_block_bytes_def delete_recent_file_def)
  then show ?thesis
    using e by (auto simp: same_reads_def tidy_file_def delete_recent_file_def split: option.split)
qed

text \<open>After a crash while sealing, tidying leaves every stored block as it was.\<close>

theorem tidy_keeps_blocks:
  assumes "tidy_recent_files last_sealed s = Inr s'" and "\<forall>bid row. fmlookup (st_headers s) bid = Some row \<longrightarrow> 0 \<le> hr_height row"
  shows "find_block P bid s' = find_block P bid s"
proof -
  from assms(1) obtain found where found: "recent_blocks s = Inr found"
    and s': "s' = fold tidy_file (takeWhile (\<lambda>(h, _). h \<le> last_sealed) found) s"
    by (auto simp: tidy_recent_files_def result_simps)
  have "same_reads P s (fold tidy_file es s)" if "\<forall>e\<in>set es. 0 \<le> fst e" for es
    using that
  proof (induction es rule: rev_induct)
    case (snoc e es)
    then have "same_reads P s (fold tidy_file es s)" by simp
    moreover from this have "same_reads P (fold tidy_file es s) (tidy_file e (fold tidy_file es s))"
      using snoc.prems assms(2) by (intro tidy_file_reads) (auto simp: same_reads_def)
    ultimately show ?case by (simp add: same_reads_def)
  qed (simp add: same_reads_def)
  moreover have "\<forall>e\<in>set (takeWhile (\<lambda>(h, _). h \<le> last_sealed) found). 0 \<le> fst e"
    using recent_blocks_heights [OF found] by (auto dest!: set_takeWhileD)
  ultimately have "same_reads P s s'" unfolding s' by blast
  then show ?thesis by (simp add: same_reads_def find_block_def)
qed

end
