(* ===== verification/Network.thy ===== *)
theory Network
  imports Snapshot Wallet
begin

text \<open>
  \<open>node/network.py\<close>, \<open>paths.py\<close> and \<open>wallet/client.py\<close>: where files are kept, the parameters of a devnet (its genesis
  block is mined when it is first started, saved beside its chain, and copied by nodes that join it), and the wallet's
  connection to a node.  The disk is a map from paths to texts, as for the wallet; the JSON reader and writer, the
  clock and the answers of HTTP requests are arguments.
\<close>

section \<open>Paths\<close>

definition base_dir :: "string option \<Rightarrow> string \<Rightarrow> string" where
  "base_dir configured home =
     (case configured of Some c \<Rightarrow> if c \<noteq> [] then c else home @ ''/.talcash'' | None \<Rightarrow> home @ ''/.talcash'')"

definition network_dir :: "string \<Rightarrow> string \<Rightarrow> string" where
  "network_dir network base = base @ ''/'' @ network"

definition default_wallet_path :: "string \<Rightarrow> string \<Rightarrow> string" where
  "default_wallet_path network base = network_dir network base @ ''/wallet.json''"

definition GENESIS_FILE :: string where "GENESIS_FILE = ''genesis.json''"
definition CHAIN_FILE :: string where "CHAIN_FILE = ''chain.sqlite''"

definition devnet_file :: "string \<Rightarrow> string \<Rightarrow> string" where
  "devnet_file base file = network_dir (name DEVNET) base @ ''/'' @ file"

section \<open>The genesis of a devnet\<close>

text \<open>\<open>data[key]\<close> of any value that JSON can hold\<close>

definition subscript :: "json \<Rightarrow> string \<Rightarrow> json result" where
  "subscript v key = (case v of JObj d \<Rightarrow> item d key | _ \<Rightarrow> Inl TypeError)"

definition devnet_params :: "unicode_db \<Rightarrow> json \<Rightarrow> network_params result" where
  "devnet_params D v =
     rbind (rbind (subscript v ''timestamp'') (json_int D)) (\<lambda>timestamp.
     rbind (rbind (subscript v ''message'') bytes_fromhex) (\<lambda>message.
     rbind (rbind (subscript v ''nonce'') (json_int D)) (\<lambda>nonce.
     rbind (rbind (subscript v ''id'') bytes_fromhex) (\<lambda>gid.
       post_init (DEVNET\<lparr>genesis_timestamp := Some timestamp, genesis_message := message, genesis_nonce := Some nonce,
                         genesis_id := Some gid\<rparr>)))))"

definition write_genesis :: "(json \<Rightarrow> ustr) \<Rightarrow> string \<Rightarrow> json \<Rightarrow> disk \<Rightarrow> disk" where
  "write_genesis dumps path v disk = disk(path \<mapsto> dumps v)"

text \<open>\<open>stamp\<close> is the clock as text; None is a search for a nonce that does not return.\<close>

definition create_devnet_genesis :: "prims \<Rightarrow> (json \<Rightarrow> ustr) \<Rightarrow> int \<Rightarrow> string \<Rightarrow> string \<Rightarrow> disk \<Rightarrow> disk result option" where
  "create_devnet_genesis P dumps now stamp path disk =
     map_option (\<lambda>mined.
       rbind mined (\<lambda>b. rbind (coinbase_of b) (\<lambda>c.
         Inr (write_genesis dumps path (JObj
           [(u ''timestamp'', JInt now), (u ''message'', JStr (hex (cb_memo c))), (u ''nonce'', JInt (bh_nonce (header b))),
            (u ''id'', JStr (hex (block_id P (header b))))]) disk))))
       (mine_genesis P DEVNET now (ascii (''TalCash devnet '' @ stamp @ '' UTC'')))"

definition read_devnet :: "unicode_db \<Rightarrow> (ustr \<Rightarrow> json option) \<Rightarrow> string \<Rightarrow> disk \<Rightarrow> network_params result" where
  "read_devnet D loads path disk =
     (case disk path of
        None \<Rightarrow> Inl FileNotFoundError
      | Some t \<Rightarrow> (case loads t of None \<Rightarrow> Inl ValueError | Some v \<Rightarrow> devnet_params D v))"

definition load_params ::
  "prims \<Rightarrow> unicode_db \<Rightarrow> (json \<Rightarrow> ustr) \<Rightarrow> (ustr \<Rightarrow> json option) \<Rightarrow> int \<Rightarrow> string \<Rightarrow> string \<Rightarrow> string \<Rightarrow> bool \<Rightarrow> disk
     \<Rightarrow> (network_params \<times> disk) result option" where
  "load_params P D dumps loads now stamp network base create disk =
     (case find (\<lambda>N. name N = network) NETWORKS of
        None \<Rightarrow> Some (Inl KeyError)
      | Some N \<Rightarrow>
          if name N \<noteq> name DEVNET then Some (Inr (N, disk))
          else let path = devnet_file base GENESIS_FILE
               in if disk path \<noteq> None then Some (rmap (\<lambda>N. (N, disk)) (read_devnet D loads path disk))
                  else if \<not> create then Some (Inl RuntimeError)
                  else map_option (\<lambda>created. rbind created (\<lambda>disk. rmap (\<lambda>N. (N, disk)) (read_devnet D loads path disk)))
                         (create_devnet_genesis P dumps now stamp path disk))"

definition has_devnet :: "string \<Rightarrow> disk \<Rightarrow> bool" where
  "has_devnet base disk \<longleftrightarrow> disk (devnet_file base GENESIS_FILE) \<noteq> None"

text \<open>What was removed, beside the disk.\<close>

definition reset_devnet :: "string \<Rightarrow> disk \<Rightarrow> string list \<times> disk" where
  "reset_devnet base disk =
     (let targets = map (devnet_file base) [GENESIS_FILE, CHAIN_FILE, CHAIN_FILE @ ''-wal'', CHAIN_FILE @ ''-shm''];
          removed = filter (\<lambda>p. disk p \<noteq> None) targets
      in (removed, fold (\<lambda>p d. d(p := None)) removed disk))"

section \<open>Joining a devnet\<close>

text \<open>\<open>text.replace(old, new)\<close> and \<open>text.split(sep)[0]\<close>\<close>

function replace_all :: "'a list \<Rightarrow> 'a list \<Rightarrow> 'a list \<Rightarrow> 'a list" where
  "replace_all old new t =
     (if t = [] \<or> old = [] then t
      else if startswith t old then new @ replace_all old new (drop (length old) t)
      else hd t # replace_all old new (tl t))"
  by pat_completeness auto
termination
  by (relation "measure (\<lambda>(old, new, t). length t)") auto

declare replace_all.simps [simp del]

fun before_first :: "'a list \<Rightarrow> 'a list \<Rightarrow> 'a list" where
  "before_first sep [] = []"
| "before_first sep (c # t) = (if startswith (c # t) sep then [] else c # before_first sep t)"

definition genesis_url :: "string \<Rightarrow> string" where
  "genesis_url peer_url =
     before_first ''/v1/'' (replace_all ''ws://'' ''http://'' (replace_all ''wss://'' ''https://'' peer_url)) @ ''/v1/genesis''"

text \<open>What asking for a page gives: no connection, or a status and the JSON of the body, if it is JSON.\<close>

type_synonym http_answer = "(int \<times> json option) option"

definition bad_genesis :: "exn \<Rightarrow> bool" where
  "bad_genesis e \<longleftrightarrow> e \<in> {KeyError, TypeError, ValueError, OverflowError, DecodeError, UnicodeEncodeError, UnicodeDecodeError} \<or>
     (\<exists>code. e = ValidationError code)"

text \<open>The four fields that count, checked by building the genesis block they describe.\<close>

definition candidate_genesis :: "prims \<Rightarrow> unicode_db \<Rightarrow> json \<Rightarrow> json result" where
  "candidate_genesis P D v =
     rbind (map_each (\<lambda>key. rbind (subscript v key) (\<lambda>x. Inr (u key, x))) [''timestamp'', ''message'', ''nonce'', ''id'']) (\<lambda>kvs.
     rbind (devnet_params D (JObj kvs)) (\<lambda>N.
     rbind (genesis_block P N) (\<lambda>_. Inr (JObj kvs))))"

definition join_devnet :: "prims \<Rightarrow> unicode_db \<Rightarrow> (json \<Rightarrow> ustr) \<Rightarrow> (string \<Rightarrow> http_answer) \<Rightarrow> string \<Rightarrow> string \<Rightarrow> disk \<Rightarrow> disk result" where
  "join_devnet P D dumps http peer_url base disk =
     (case http (genesis_url peer_url) of
        None \<Rightarrow> Inl RuntimeError
      | Some (code, body) \<Rightarrow>
          if code < 200 \<or> code \<ge> 300 then Inl RuntimeError
          else case body of
                 Some (JObj d) \<Rightarrow>
                   if get d ''network'' \<noteq> JStr (u (name DEVNET)) then Inl RuntimeError
                   else (case candidate_genesis P D (JObj d) of
                           Inl e \<Rightarrow> Inl (if bad_genesis e then RuntimeError else e)
                         | Inr v \<Rightarrow> Inr (write_genesis dumps (devnet_file base GENESIS_FILE) v disk))
               | _ \<Rightarrow> Inl RuntimeError)"

text \<open>A devnet that was joined is the one that is loaded from then on, and its genesis block is valid.\<close>

theorem joined_devnet_loads:
  assumes "join_devnet P D dumps http peer_url base disk = Inr disk'" and "\<And>v. loads (dumps v) = Some v"
  shows "\<exists>N g. load_params P D dumps loads now stamp ''devnet'' base create disk' = Some (Inr (N, disk')) \<and>
    genesis_block P N = Inr g"
proof -
  from assms(1) obtain d v where v: "candidate_genesis P D (JObj d) = Inr v"
    and disk': "disk' = disk(devnet_file base GENESIS_FILE \<mapsto> dumps v)"
    by (auto simp: join_devnet_def write_genesis_def split: option.splits prod.splits if_splits json.splits sum.splits)
  from v obtain N g where "devnet_params D v = Inr N" "genesis_block P N = Inr g"
    unfolding candidate_genesis_def rbind_Inr_iff by auto
  moreover have "find (\<lambda>N. name N = ''devnet'') NETWORKS = Some DEVNET"
    by (simp add: NETWORKS_def MAINNET_def TESTNET_def DEVNET_def)
  moreover have "name DEVNET = ''devnet''" by (simp add: DEVNET_def)
  ultimately show ?thesis
    using assms(2) disk' by (simp add: load_params_def Let_def read_devnet_def)
qed

section \<open>The wallet's connection to a node\<close>

text \<open>\<open>NodeError\<close>, of which the code is kept\<close>

datatype 'a asked = Answered 'a | Node_error json

definition client_url :: "string \<Rightarrow> string" where
  "client_url url = rstrip (\<lambda>c. c = CHR ''/'') url"

text \<open>What is asked; an address in the path is what the wallet file holds, written out.\<close>

datatype http_request = Http_get string | Http_get_address json | Http_get_history json int | Http_post string json

definition ask :: "(http_request \<Rightarrow> http_answer) \<Rightarrow> http_request \<Rightarrow> json asked result" where
  "ask http rq =
     (case http rq of
        None \<Rightarrow> Inr (Node_error (JStr (u ''unreachable'')))
      | Some (code, body) \<Rightarrow>
          if code \<ge> 400
          then (case body of
                  None \<Rightarrow> Inr (Node_error (JStr (u ''http-error'')))
                | Some (JObj d) \<Rightarrow> Inr (Node_error (get_or (JStr (u ''error'')) d ''error''))
                | Some _ \<Rightarrow> Inl AttributeError)
          else (case body of None \<Rightarrow> Inl ValueError | Some v \<Rightarrow> Inr (Answered v)))"

definition ask_status :: "(http_request \<Rightarrow> http_answer) \<Rightarrow> json asked result" where
  "ask_status http = ask http (Http_get ''/v1/status'')"

definition ask_address :: "(http_request \<Rightarrow> http_answer) \<Rightarrow> json \<Rightarrow> json asked result" where
  "ask_address http a = ask http (Http_get_address a)"

definition ask_history :: "(http_request \<Rightarrow> http_answer) \<Rightarrow> json \<Rightarrow> int \<Rightarrow> json asked result" where
  "ask_history http a limit = ask http (Http_get_history a limit)"

text \<open>None is a transaction that the node does not know.\<close>

definition ask_transaction :: "(http_request \<Rightarrow> http_answer) \<Rightarrow> string \<Rightarrow> json option asked result" where
  "ask_transaction http tid =
     rbind (ask http (Http_get (''/v1/tx/'' @ tid))) (\<lambda>r.
       case r of
         Answered v \<Rightarrow> Inr (Answered (Some v))
       | Node_error code \<Rightarrow>
           if code = JStr (u ''unknown-transaction'') then Inr (Answered None) else Inr (Node_error code))"

definition submit_transfer :: "(http_request \<Rightarrow> http_answer) \<Rightarrow> transfer \<Rightarrow> json asked result" where
  "submit_transfer http t =
     rbind (serialize_tx (Transfer t)) (\<lambda>d. ask http (Http_post ''/v1/tx'' (JObj [(u ''hex'', JStr (hex d))])))"

end
