(* ===== verification/Cli.thy ===== *)
theory Cli
  imports Network Payment_Link Blockfiles Views
begin

text \<open>
  \<open>cli.py\<close>: what the commands of \<open>tc\<close> that handle money work out, foremost \<open>tc wallet send\<close>.  The parsed command line,
  the answers to questions, the wallet's password and the answers of nodes are arguments; what is printed is left out.
  Every payment that is signed is shown to be what was asked for, at a fee that the node's suggestion cannot inflate.
\<close>

section \<open>Commands\<close>

text \<open>A command that ends with a \<open>CommandError\<close> or a \<open>NodeError\<close>; any other exception is \<open>Inl\<close>.\<close>

datatype 'a told = Told 'a | Command_error | Node_failed json

type_synonym 'a command = "'a told result"

definition cthen :: "'a command \<Rightarrow> ('a \<Rightarrow> 'b command) \<Rightarrow> 'b command" where
  "cthen m f = rbind m (\<lambda>r. case r of Told x \<Rightarrow> f x | Command_error \<Rightarrow> Inr Command_error | Node_failed code \<Rightarrow> Inr (Node_failed code))"

definition run :: "'a result \<Rightarrow> 'a command" where
  "run m = rmap Told m"

definition from_node :: "'a asked result \<Rightarrow> 'a command" where
  "from_node m = rmap (\<lambda>r. case r of Answered x \<Rightarrow> Told x | Node_error code \<Rightarrow> Node_failed code) m"

lemma cthen_Told [result_simps]:
  "cthen m f = Inr (Told y) \<longleftrightarrow> (\<exists>x. m = Inr (Told x) \<and> f x = Inr (Told y))"
proof
  assume "cthen m f = Inr (Told y)"
  then obtain r where m: "m = Inr r"
    and r: "(case r of Told x \<Rightarrow> f x | Command_error \<Rightarrow> Inr Command_error | Node_failed code \<Rightarrow> Inr (Node_failed code)) = Inr (Told y)"
    unfolding cthen_def rbind_Inr_iff by blast
  from r have "\<exists>x. r = Told x \<and> f x = Inr (Told y)" by (cases r) auto
  with m show "\<exists>x. m = Inr (Told x) \<and> f x = Inr (Told y)" by blast
qed (auto simp: cthen_def)

lemma run_Told [result_simps]: "run m = Inr (Told x) \<longleftrightarrow> m = Inr x"
  by (auto simp: run_def result_simps)

lemma from_node_Told [result_simps]: "from_node m = Inr (Told x) \<longleftrightarrow> m = Inr (Answered x)"
proof
  assume "from_node m = Inr (Told x)"
  then obtain r where "m = Inr r" "(case r of Answered x \<Rightarrow> Told x | Node_error code \<Rightarrow> Node_failed code) = Told x"
    by (auto simp: from_node_def result_simps)
  then show "m = Inr (Answered x)" by (cases r) auto
qed (simp add: from_node_def)

section \<open>Nodes\<close>

definition PUBLIC_API :: "(string \<times> string) list" where
  "PUBLIC_API = [(''testnet'', ''https://testnet.talcash.com'')]"

definition SEEDS :: "(string \<times> string list) list" where
  "SEEDS = [(''testnet'', [''ws://testnet.talcash.com:64185/v1/p2p''])]"

definition local_url :: "network_params \<Rightarrow> string" where
  "local_url N = ''http://127.0.0.1:'' @ str_of_int (default_port N)"

type_synonym web = "string \<Rightarrow> http_request \<Rightarrow> http_answer"

definition connect :: "web \<Rightarrow> string \<Rightarrow> network_params \<Rightarrow> (string \<times> dict) command" where
  "connect web url N =
     cthen (from_node (ask_status (web (client_url url)))) (\<lambda>v.
     rbind (as_dict AttributeError v) (\<lambda>status.
       if get status ''network'' \<noteq> JStr (u (name N)) then Inr Command_error else Inr (Told (client_url url, status))))"

definition unreachable :: json where "unreachable = JStr (u ''unreachable'')"

text \<open>The node given with \<open>--node\<close>; else the one on this computer; else the network's public node.\<close>

definition find_client :: "web \<Rightarrow> string option \<Rightarrow> network_params \<Rightarrow> (string \<times> dict) command" where
  "find_client web given N =
     (if (case given of None \<Rightarrow> False | Some url \<Rightarrow> url \<noteq> []) then connect web (the given) N
      else case connect web (local_url N) N of
             Inr (Node_failed code) \<Rightarrow>
               (case map_of PUBLIC_API (name N) of
                  Some url \<Rightarrow> if code = unreachable then connect web url N else Inr (Node_failed code)
                | None \<Rightarrow> Inr (Node_failed code))
           | r \<Rightarrow> r)"

section \<open>The wallet\<close>

definition wallet_path :: "string option \<Rightarrow> string \<Rightarrow> string \<Rightarrow> string" where
  "wallet_path file network base =
     (if (case file of None \<Rightarrow> False | Some f \<Rightarrow> f \<noteq> []) then the file else default_wallet_path network base)"

definition load_own :: "wallet_lib \<Rightarrow> unicode_db \<Rightarrow> string \<Rightarrow> network_params \<Rightarrow> disk \<Rightarrow> wallet result" where
  "load_own W D path N disk =
     rbind (load_wallet W D path disk) (\<lambda>w. if name (w_params w) \<noteq> name N then Inl WalletError else Inr w)"

definition MIN_PASSWORD_LENGTH :: nat where "MIN_PASSWORD_LENGTH = 8"
definition MAX_SUGGESTED_FEE_PER_BYTE :: int where "MAX_SUGGESTED_FEE_PER_BYTE = 1000"

text \<open>The pairs of answers until one is a password, given twice; None is a user who goes on forever.\<close>

fun ask_new_password :: "(string \<times> string) list \<Rightarrow> string option" where
  "ask_new_password [] = None"
| "ask_new_password ((password, repeated) # further) =
     (if length password < MIN_PASSWORD_LENGTH \<or> repeated \<noteq> password then ask_new_password further else Some password)"

section \<open>Amounts\<close>

text \<open>\<open>parse_amount\<close> of any text: \<open>strip\<close> drops the white space of all of Unicode.\<close>

definition blank :: "unicode_db \<Rightarrow> nat \<Rightarrow> bool" where
  "blank D n \<longleftrightarrow> (if n < 256 then is_space (char_of n) else uni_space D n)"

definition read_units :: "unicode_db \<Rightarrow> ustr \<Rightarrow> int result" where
  "read_units D t = parse_amount (chars (rev (dropWhile (blank D) (rev (dropWhile (blank D) t)))))"

definition json_units :: "unicode_db \<Rightarrow> json \<Rightarrow> int result" where
  "json_units D v = (case v of JStr t \<Rightarrow> read_units D t | _ \<Rightarrow> Inl AttributeError)"

definition units_at :: "unicode_db \<Rightarrow> json \<Rightarrow> string \<Rightarrow> int result" where
  "units_at D v key = rbind (subscript v key) (json_units D)"

section \<open>Paying\<close>

type_synonym payment = "ustr \<times> bytes \<times> int"

definition parse_payment :: "prims \<Rightarrow> unicode_db \<Rightarrow> network_params \<Rightarrow> ustr \<Rightarrow> ustr \<Rightarrow> payment command" where
  "parse_payment P D N t amt =
     (case decode_address P (chars t) (address_prefix N) of
        Inl e \<Rightarrow> if e = ValueError then Inr Command_error else Inl e
      | Inr payload \<Rightarrow>
          cthen (run (read_units D amt)) (\<lambda>units.
            if units = 0 then Inr Command_error else Inr (Told (t, payload, units))))"

fun payment_pairs :: "prims \<Rightarrow> unicode_db \<Rightarrow> network_params \<Rightarrow> ustr list \<Rightarrow> payment list command" where
  "payment_pairs P D N (t # amt # further) =
     cthen (parse_payment P D N t amt) (\<lambda>p.
     cthen (payment_pairs P D N further) (\<lambda>ps. Inr (Told (p # ps))))"
| "payment_pairs P D N further = Inr (Told [])"

definition parse_payments :: "prims \<Rightarrow> unicode_db \<Rightarrow> network_params \<Rightarrow> ustr list \<Rightarrow> payment list command" where
  "parse_payments P D N given =
     (if odd (length given) then Inr Command_error
      else cthen (payment_pairs P D N given) (\<lambda>payments.
             if length payments > MAX_OUTPUTS then Inr Command_error else Inr (Told payments)))"

text \<open>A link, or a link and an amount: the payments, the memo and the label.\<close>

definition pay_link ::
  "prims \<Rightarrow> unicode_db \<Rightarrow> network_params \<Rightarrow> ustr list \<Rightarrow> ustr option \<Rightarrow> (payment list \<times> ustr option \<times> ustr option) command" where
  "pay_link P D N given memo =
     cthen (run (parse_link P (hd given) (Some N))) (\<lambda>rq.
       if length given > 2 then Inr Command_error
       else if pr_amount rq \<noteq> None \<and> length given = 2 then Inr Command_error
       else if pr_amount rq = None \<and> length given = 1 then Inr Command_error
       else cthen (run (case pr_amount rq of Some n \<Rightarrow> Inr n | None \<Rightarrow> read_units D (given ! 1))) (\<lambda>units.
         if units = 0 then Inr Command_error
         else if pr_memo rq \<noteq> None \<and> memo \<noteq> None then Inr Command_error
         else cthen (run (decode_address P (chars (pr_address rq)) (address_prefix N))) (\<lambda>payload.
           Inr (Told ([(pr_address rq, payload, units)], if pr_memo rq \<noteq> None then pr_memo rq else memo, pr_label rq)))))"

record send_args =
  sa_payments :: "ustr list"
  sa_fee :: "ustr option"
  sa_from :: int
  sa_memo :: "ustr option"
  sa_node :: "string option"

definition asked_payments ::
  "prims \<Rightarrow> unicode_db \<Rightarrow> network_params \<Rightarrow> send_args \<Rightarrow> (payment list \<times> ustr option \<times> ustr option) command" where
  "asked_payments P D N args =
     (if is_link (hd (sa_payments args)) then pay_link P D N (sa_payments args) (sa_memo args)
      else cthen (parse_payments P D N (sa_payments args)) (\<lambda>payments. Inr (Told (payments, sa_memo args, None))))"

definition payment_outputs :: "payment list \<Rightarrow> tx_output list" where
  "payment_outputs payments = map (\<lambda>(_, payload, units). \<lparr>out_address = payload, out_amount = units\<rparr>) payments"

text \<open>The size of the transfer before it is signed: the values of its fields do not change it.\<close>

definition payment_size :: "network_params \<Rightarrow> payment list \<Rightarrow> bytes \<Rightarrow> int" where
  "payment_size N payments memo =
     tx_size (Transfer \<lparr>tf_network_id = network_id N, tf_sender_public_key = zero_bytes 32, tf_nonce = 0, tf_fee = 0,
       tf_outputs = payment_outputs payments, tf_memo = memo, tf_signature = zero_bytes SIGNATURE_SIZE\<rparr>)"

definition payment_fee :: "unicode_db \<Rightarrow> network_params \<Rightarrow> ustr option \<Rightarrow> dict \<Rightarrow> payment list \<Rightarrow> bytes \<Rightarrow> int command" where
  "payment_fee D N chosen status payments memo =
     (if (case chosen of None \<Rightarrow> False | Some t \<Rightarrow> t \<noteq> []) then run (read_units D (the chosen))
      else cthen (run (units_at D (JObj status) ''min_fee_per_byte'')) (\<lambda>per_byte.
             if per_byte > MAX_SUGGESTED_FEE_PER_BYTE then Inr Command_error
             else Inr (Told (per_byte * payment_size N payments memo))))"

text \<open>A nonce that is not an integer cannot be written.\<close>

definition sign_with ::
  "prims \<Rightarrow> text_lib \<Rightarrow> wallet_lib \<Rightarrow> wallet \<Rightarrow> string \<Rightarrow> int \<Rightarrow> json \<Rightarrow> int \<Rightarrow> payment list \<Rightarrow> bytes \<Rightarrow> transfer result" where
  "sign_with P T W w password index nonce fee payments memo =
     (case nonce of
        JInt n \<Rightarrow> sign_payment P T W w password index n fee (map (\<lambda>(t, _, units). (chars t, units)) payments) memo
      | _ \<Rightarrow> rbind (private_key P T W w password index) (\<lambda>_. Inl TypeError))"

definition memo_bytes :: "ustr option \<Rightarrow> bytes result" where
  "memo_bytes memo = rmap (map word_of_nat) (utf8_encode (case memo of None \<Rightarrow> [] | Some t \<Rightarrow> t))"

text \<open>\<open>tc wallet send\<close>, with the user's answer and password; the value is the transfer that was sent, if any.\<close>

definition cmd_send ::
  "prims \<Rightarrow> text_lib \<Rightarrow> wallet_lib \<Rightarrow> unicode_db \<Rightarrow> web \<Rightarrow> string \<Rightarrow> disk \<Rightarrow> network_params \<Rightarrow> bool \<Rightarrow> string \<Rightarrow> send_args
     \<Rightarrow> transfer option command" where
  "cmd_send P T W D web path disk N confirmed password args =
     cthen (run (load_own W D path N disk)) (\<lambda>w.
       case find (\<lambda>a. wa_index a = sa_from args) (w_addresses w) of
         None \<Rightarrow> Inr Command_error
       | Some src \<Rightarrow>
           cthen (asked_payments P D N args) (\<lambda>(payments, memo_text, _).
           cthen (run (memo_bytes memo_text)) (\<lambda>memo.
             if length memo > MAX_MEMO_SIZE then Inr Command_error
             else cthen (find_client web (sa_node args) N) (\<lambda>(url, status).
                  cthen (from_node (ask_address (web url) (wa_address src))) (\<lambda>info.
                  cthen (payment_fee D N (sa_fee args) status payments memo) (\<lambda>fee.
                  cthen (run (units_at D info ''available'')) (\<lambda>funds.
                    if sum_list (map (\<lambda>(_, _, units). units) payments) + fee > funds then Inr Command_error
                    else if \<not> confirmed then Inr (Told None)
                    else cthen (run (subscript info ''next_nonce'')) (\<lambda>nonce.
                         cthen (run (sign_with P T W w password (wa_index src) nonce fee payments memo)) (\<lambda>t.
                         cthen (from_node (submit_transfer (web url) t)) (\<lambda>_. Inr (Told (Some t))))))))))))"

section \<open>The other commands\<close>

text \<open>\<open>_tc\<close>: an amount of the API without its zeros\<close>

definition shown_amount :: "unicode_db \<Rightarrow> ustr \<Rightarrow> string result" where
  "shown_amount D t =
     rmap (\<lambda>units. (if startswith t [45] then ''-'' else []) @ format_amount units False) (read_units D (dropWhile (\<lambda>c. c = 45) t))"

text \<open>\<open>tc wallet balance\<close>: the four totals over all addresses, in the order available, incoming, outgoing, unlocking.\<close>

definition totals_keys :: "string list" where
  "totals_keys = [''available'', ''pending_in'', ''pending_out'', ''immature'']"

definition wallet_totals :: "unicode_db \<Rightarrow> web \<Rightarrow> string \<Rightarrow> wallet \<Rightarrow> int list command" where
  "wallet_totals D web url w =
     foldl (\<lambda>m a. cthen m (\<lambda>totals.
         cthen (from_node (ask_address (web url) (wa_address a))) (\<lambda>info.
         cthen (run (map_each (units_at D info) totals_keys)) (\<lambda>units.
           Inr (Told (map2 (+) totals units))))))
       (Inr (Told [0, 0, 0, 0])) (w_addresses w)"

definition cmd_balance ::
  "wallet_lib \<Rightarrow> unicode_db \<Rightarrow> web \<Rightarrow> string \<Rightarrow> disk \<Rightarrow> network_params \<Rightarrow> string option \<Rightarrow> int list command" where
  "cmd_balance W D web path disk N node =
     cthen (run (load_own W D path N disk)) (\<lambda>w.
     cthen (find_client web node N) (\<lambda>(url, _). wallet_totals D web url w))"

text \<open>\<open>bool(client.history(address, 1))\<close>, and \<open>tc wallet scan\<close>.  A \<open>NodeError\<close> during the search, which ends the command, is
  a \<open>RuntimeError\<close> here.\<close>

definition was_used :: "web \<Rightarrow> string \<Rightarrow> json \<Rightarrow> bool result" where
  "was_used web url a =
     rbind (ask_history (web url) a 1) (\<lambda>r. case r of Answered v \<Rightarrow> Inr (truthy v) | Node_error _ \<Rightarrow> Inl RuntimeError)"

definition cmd_scan ::
  "prims \<Rightarrow> text_lib \<Rightarrow> wallet_lib \<Rightarrow> unicode_db \<Rightarrow> web \<Rightarrow> string \<Rightarrow> disk \<Rightarrow> network_params \<Rightarrow> string option \<Rightarrow> string \<Rightarrow> int
     \<Rightarrow> (wallet_address list \<times> wallet \<times> disk) command option" where
  "cmd_scan P T W D web path disk N node password gap =
     (case load_own W D path N disk of
        Inl e \<Rightarrow> Some (Inl e)
      | Inr w \<Rightarrow>
          (case find_client web node N of
             Inl e \<Rightarrow> Some (Inl e)
           | Inr (Told (url, _)) \<Rightarrow> map_option run (discover P T W w password (was_used web url) gap disk)
           | Inr Command_error \<Rightarrow> Some (Inr Command_error)
           | Inr (Node_failed code) \<Rightarrow> Some (Inr (Node_failed code))))"

text \<open>\<open>tc wallet request\<close>: the payment link\<close>

definition cmd_request ::
  "prims \<Rightarrow> wallet_lib \<Rightarrow> unicode_db \<Rightarrow> string \<Rightarrow> disk \<Rightarrow> network_params \<Rightarrow> int \<Rightarrow> ustr option \<Rightarrow> ustr option \<Rightarrow> ustr option
     \<Rightarrow> ustr command" where
  "cmd_request P W D path disk N index amount memo label =
     cthen (run (load_own W D path N disk)) (\<lambda>w.
       case find (\<lambda>a. wa_index a = index) (w_addresses w) of
         None \<Rightarrow> Inr Command_error
       | Some receiver \<Rightarrow>
           cthen (run (case amount of None \<Rightarrow> Inr None | Some t \<Rightarrow> rmap Some (read_units D t))) (\<lambda>units.
             if units = Some 0 then Inr Command_error
             else run (case wa_address receiver of
                         JStr a \<Rightarrow> to_link P \<lparr>pr_network = name N, pr_address = a, pr_amount = units, pr_memo = memo, pr_label = label\<rparr>
                       | _ \<Rightarrow> Inl TypeError)))"

text \<open>\<open>tc read\<close>: what a block file or a chunk file holds, after checking it\<close>

definition network_by_id :: "int \<Rightarrow> network_params option" where
  "network_by_id nid = map_of (rev (map (\<lambda>N. (network_id N, N)) NETWORKS)) nid"

definition chunk_info :: "prims \<Rightarrow> (bytes \<Rightarrow> ustr) \<Rightarrow> string \<Rightarrow> bytes \<Rightarrow> bool \<Rightarrow> json command" where
  "chunk_info P lossy path data with_blocks =
     cthen (run (decode_chunk P data None None)) (\<lambda>chunk.
       case network_by_id (cf_network_id chunk) of
         None \<Rightarrow> Inr Command_error
       | Some N \<Rightarrow>
           cthen (run (map_each block_from_bytes (cf_blocks chunk))) (\<lambda>blocks.
           cthen (run (if with_blocks then rmap (\<lambda>vs. [(''block_list'', JList vs)]) (map_each (block_contents_view P lossy N) blocks)
                       else Inr [])) (\<lambda>listed.
             Inr (Told (obj ([(''file'', text_json path), (''type'', text_json ''chunk''), (''network'', text_json (name N)),
               (''chunk'', JInt (cf_index chunk)), (''heights'', JList [JInt (height (hd blocks)), JInt (height (last blocks))]),
               (''blocks'', JInt (int (length blocks))),
               (''transfers'', JInt (sum_list (map (\<lambda>b. int (length (transactions b)) - 1) blocks))),
               (''file_size'', JInt (int (length data))), (''uncompressed_size'', JInt (sum_list (map (int \<circ> length) (cf_blocks chunk)))),
               (''chunk_root'', hex_json (cf_root chunk)),
               (''verified'', text_json ''checksum, chunk root and block links all OK'')] @ listed))))))"

definition block_info :: "prims \<Rightarrow> (bytes \<Rightarrow> ustr) \<Rightarrow> string \<Rightarrow> bytes \<Rightarrow> json command" where
  "block_info P lossy path data =
     (case block_from_bytes data of
        Inl e \<Rightarrow> if e = DecodeError then Inr Command_error else Inl e
      | Inr b \<Rightarrow>
          if transactions b = [] then Inr Command_error
          else cthen (run (coinbase_of b)) (\<lambda>c.
                 case network_by_id (cb_network_id c) of
                   None \<Rightarrow> Inr Command_error
                 | Some N \<Rightarrow> run (rmap (\<lambda>fields. obj ([(''file'', text_json path), (''type'', text_json ''block'')] @ fields))
                                (contents_fields P lossy N b))))"

definition cmd_read :: "prims \<Rightarrow> (bytes \<Rightarrow> ustr) \<Rightarrow> string \<Rightarrow> bytes \<Rightarrow> bool \<Rightarrow> json command" where
  "cmd_read P lossy path data with_blocks =
     (if startswith data MAGIC then chunk_info P lossy path data with_blocks else block_info P lossy path data)"

text \<open>What \<open>tc node\<close> starts with: the address to mine to, and the public nodes to find the network through.\<close>

definition node_miner ::
  "prims \<Rightarrow> wallet_lib \<Rightarrow> unicode_db \<Rightarrow> string \<Rightarrow> disk \<Rightarrow> network_params \<Rightarrow> ustr option \<Rightarrow> bytes option result" where
  "node_miner P W D path disk N given =
     (case given of
        None \<Rightarrow> Inr None
      | Some t \<Rightarrow>
          rbind (if t = u ''wallet''
                 then rbind (load_own W D path N disk) (\<lambda>w. case w_addresses w of
                        [] \<Rightarrow> Inl IndexError | a # _ \<Rightarrow> (case wa_address a of JStr s \<Rightarrow> Inr s | _ \<Rightarrow> Inl AttributeError))
                 else Inr t) (\<lambda>t. rmap Some (decode_address P (chars t) (address_prefix N))))"

definition node_seeds :: "network_params \<Rightarrow> string list \<Rightarrow> bool \<Rightarrow> string list" where
  "node_seeds N given_peers no_seeds =
     (if given_peers \<noteq> [] \<or> no_seeds then [] else case map_of SEEDS (name N) of None \<Rightarrow> [] | Some urls \<Rightarrow> urls)"

section \<open>What is signed is what was asked for\<close>

definition payment_ok :: "prims \<Rightarrow> network_params \<Rightarrow> payment \<Rightarrow> bool" where
  "payment_ok P N p \<longleftrightarrow>
     (case p of (t, payload, units) \<Rightarrow> decode_address P (chars t) (address_prefix N) = Inr payload \<and> 1 \<le> units)"

lemma read_units_nonneg: "read_units D t = Inr n \<Longrightarrow> 0 \<le> n"
  unfolding read_units_def using parse_amount_range by blast

lemma parse_payment_ok: "parse_payment P D N t amt = Inr (Told p) \<Longrightarrow> payment_ok P N p"
  using read_units_nonneg
  by (fastforce simp: parse_payment_def payment_ok_def result_simps split: sum.splits if_splits)

lemma payment_pairs_ok: "payment_pairs P D N given = Inr (Told ps) \<Longrightarrow> list_all (payment_ok P N) ps"
  by (induction P D N given arbitrary: ps rule: payment_pairs.induct) (auto simp: result_simps parse_payment_ok)

lemma link_amount_nonneg:
  assumes "parse_link P t params = Inr r" "pr_amount r = Some n"
  shows "0 \<le> n"
proof -
  from assms obtain x where "read_amount x = Inr (Some n)"
    by (auto simp: parse_link_def Let_def result_simps split: if_splits prod.splits)
  then show ?thesis using read_amount_Inr [of x n] by simp
qed

lemma pay_link_ok:
  assumes "pay_link P D N given memo = Inr (Told (ps, memo', label))"
  shows "list_all (payment_ok P N) ps"
  using assms read_units_nonneg link_amount_nonneg
  by (fastforce simp: pay_link_def result_simps payment_ok_def split: if_splits option.splits)

lemma asked_payments_ok: "asked_payments P D N args = Inr (Told (ps, memo, label)) \<Longrightarrow> list_all (payment_ok P N) ps"
  by (auto simp: asked_payments_def parse_payments_def result_simps payment_pairs_ok pay_link_ok split: if_splits)

text \<open>The wallet that is loaded belongs to the network that was named.\<close>

lemma networks_by_name: "N \<in> set NETWORKS \<Longrightarrow> M \<in> set NETWORKS \<Longrightarrow> name N = name M \<Longrightarrow> N = M"
  by (auto simp: NETWORKS_def MAINNET_def TESTNET_def DEVNET_def REGTEST_def)

lemma load_own_network:
  assumes "load_own W D path N disk = Inr w" "N \<in> set NETWORKS"
  shows "w_params w = N"
proof -
  from assms(1) have l: "load_wallet W D path disk = Inr w" and n: "name (w_params w) = name N"
    by (auto simp: load_own_def result_simps split: if_splits)
  from l obtain v where "wallet_network v = Inr (w_params w)"
    by (auto simp: load_wallet_def result_simps split: option.splits if_splits)
  then have "w_params w \<in> set NETWORKS"
    by (auto simp: wallet_network_def find_Some_iff in_set_conv_nth split: json.splits option.splits)
  with n assms(2) networks_by_name show ?thesis by blast
qed

lemma outputs_match:
  assumes "list_all2 (\<lambda>(a, n) p. decode_address P a prefix = Inr (out_address p) \<and> out_amount p = n)
      (map (\<lambda>(t, _, units). (chars t, units)) ps) outs"
    and "\<forall>(t, payload, units)\<in>set ps. decode_address P (chars t) prefix = Inr payload"
  shows "outs = payment_outputs ps"
  using assms
proof (induction ps arbitrary: outs)
  case (Cons p ps)
  obtain t payload units where p: "p = (t, payload, units)" by (cases p)
  from Cons.prems(1) p obtain q qs where outs: "outs = q # qs" "decode_address P (chars t) prefix = Inr (out_address q)"
    "out_amount q = units" and "list_all2 (\<lambda>(a, n) p. decode_address P a prefix = Inr (out_address p) \<and> out_amount p = n)
      (map (\<lambda>(t, _, units). (chars t, units)) ps) qs"
    by (auto simp: list_all2_Cons1)
  with Cons p show ?case by (auto simp: payment_outputs_def)
qed (simp add: payment_outputs_def)

text \<open>Two transfers of equally many outputs, with memos of one length, have one size.\<close>

lemma size_of_outputs:
  assumes "length (tf_outputs t) = length (tf_outputs v)" "length (tf_memo t) = length (tf_memo v)"
    and "\<forall>p\<in>set (tf_outputs t) \<union> set (tf_outputs v). length (out_address p) = PAYLOAD_SIZE"
    and "length (tf_sender_public_key t) = length (tf_sender_public_key v)" "length (tf_signature t) = length (tf_signature v)"
  shows "tx_size (Transfer t) = tx_size (Transfer v)"
proof -
  have "length (concat (map output_bytes outs)) = (PAYLOAD_SIZE + 8) * length outs"
    if "\<forall>p\<in>set outs. length (out_address p) = PAYLOAD_SIZE" for outs
    using that by (induction outs) (auto simp: output_bytes_def)
  with assms show ?thesis
    by (simp add: tx_size_def tx_bytes_def transfer_bytes_def unsigned_layout_def var8_enc_def)
qed


lemma signed_serializes:
  assumes "sign_payment P T W w password index n fee outputs memo = Inr t" "ed25519_correct P"
  shows "\<exists>d. serialize_tx (Transfer t) = Inr d"
proof -
  from assms(1) obtain sk v where v: "sign_transfer P sk v = Inr t" "length (tf_sender_public_key v) = length (public_key P sk)"
    by (auto simp: sign_payment_def result_simps)
  then have "unsigned_fits v" by (auto simp: sign_transfer_def result_simps signing_message_iff split: if_splits)
  moreover have "t = v\<lparr>tf_signature := tf_signature t\<rparr>" by (rule signed_is_valid(2) [OF assms(2) v(1)])
  moreover have "length (tf_signature t) = SIGNATURE_SIZE"
    using v(1) assms(2) by (auto simp: sign_transfer_def sign_def ed25519_correct_def result_simps split: if_splits)
  moreover have "unsigned_fits (v\<lparr>tf_signature := s\<rparr>) = unsigned_fits v" for s by (simp add: unsigned_fits_def)
  ultimately have "tx_fits (Transfer t)" by (metis transfer_fits_def tx_fits_def transaction.case(1))
  then show ?thesis by (simp add: serialize_iff)
qed

lemma signed_payment:
  assumes "ed25519_correct P" and "sign_with P T W w password index nonce fee ps memo = Inr t"
    and "list_all (payment_ok P (w_params w)) ps"
  shows "tf_outputs t = payment_outputs ps \<and> tf_fee t = fee \<and> tf_memo t = memo \<and> tf_network_id t = network_id (w_params w) \<and>
    has_valid_signature P t = Inr True \<and> tx_size (Transfer t) = payment_size (w_params w) ps memo"
proof -
  let ?N = "w_params w"
  have decodes: "\<forall>(t, payload, units)\<in>set ps. decode_address P (chars t) (address_prefix ?N) = Inr payload"
    using assms(3) by (auto simp: list_all_iff payment_ok_def)
  from assms(2) obtain n sk outs where "sign_payment P T W w password index n fee (map (\<lambda>(t, _, units). (chars t, units)) ps) memo = Inr t"
    by (auto simp: sign_with_def result_simps split: json.splits)
  then obtain sk outs where match: "list_all2 (\<lambda>(a, n) p. decode_address P a (address_prefix ?N) = Inr (out_address p) \<and> out_amount p = n)
      (map (\<lambda>(t, _, units). (chars t, units)) ps) outs"
    and signed: "sign_transfer P sk \<lparr>tf_network_id = network_id ?N, tf_sender_public_key = public_key P sk, tf_nonce = n, tf_fee = fee,
       tf_outputs = outs, tf_memo = memo, tf_signature = zero_bytes SIGNATURE_SIZE\<rparr> = Inr t"
    unfolding sign_payment_def rbind_Inr_iff read_outputs by auto
  have outs: "outs = payment_outputs ps" by (rule outputs_match [OF match decodes])
  note valid = signed_is_valid [OF assms(1) signed]
  have fields: "tf_network_id t = network_id ?N" "tf_outputs t = outs" "tf_fee t = fee" "tf_memo t = memo"
    "tf_sender_public_key t = public_key P sk"
    by (subst valid(2), simp)+
  have "length (out_address p) = PAYLOAD_SIZE" if "p \<in> set (payment_outputs ps)" for p
  proof -
    from that obtain t units where "(t, out_address p, units) \<in> set ps" by (auto simp: payment_outputs_def)
    with decodes have "decode_address P (chars t) (address_prefix ?N) = Inr (out_address p)" by auto
    then have "is_known_payload (out_address p)" by (auto simp: decode_address_def Let_def result_simps split: if_splits)
    then show ?thesis by (simp add: is_known_payload_def)
  qed
  moreover have "length (tf_signature t) = SIGNATURE_SIZE"
    using signed assms(1) by (auto simp: sign_transfer_def sign_def ed25519_correct_def result_simps split: if_splits)
  moreover have "length (tf_sender_public_key t) = 32"
    using fields assms(1) by (simp add: public_key_def ed25519_correct_def PUBLIC_KEY_SIZE_def)
  ultimately have "tx_size (Transfer t) = payment_size ?N ps memo"
    unfolding payment_size_def by (intro size_of_outputs) (auto simp: fields outs zero_bytes_def)
  with fields outs valid(1) show ?thesis by simp
qed

lemma suggested_fee:
  assumes "payment_fee D N None status ps memo = Inr (Told fee)"
  shows "\<exists>per_byte\<le>MAX_SUGGESTED_FEE_PER_BYTE. fee = per_byte * payment_size N ps memo"
proof -
  have "\<exists>per_byte. \<not> MAX_SUGGESTED_FEE_PER_BYTE < per_byte \<and> per_byte * payment_size N ps memo = fee"
    using assms by (auto simp: payment_fee_def cthen_Told simp del: mult_cancel_right split: if_splits)
  then show ?thesis by (auto simp: not_less)
qed

lemma send_steps:
  assumes "cmd_send P T W D web path disk N confirmed password args = Inr (Told (Some t))"
  shows "\<exists>w src ps memo_text label memo url status info fee funds nonce.
    load_own W D path N disk = Inr w \<and> find (\<lambda>a. wa_index a = sa_from args) (w_addresses w) = Some src \<and>
    asked_payments P D N args = Inr (Told (ps, memo_text, label)) \<and> memo_bytes memo_text = Inr memo \<and>
    find_client web (sa_node args) N = Inr (Told (url, status)) \<and>
    from_node (ask_address (web url) (wa_address src)) = Inr (Told info) \<and>
    payment_fee D N (sa_fee args) status ps memo = Inr (Told fee) \<and> units_at D info ''available'' = Inr funds \<and>
    sum_list (map (\<lambda>(_, _, units). units) ps) + fee \<le> funds \<and> confirmed \<and> subscript info ''next_nonce'' = Inr nonce \<and>
    sign_with P T W w password (wa_index src) nonce fee ps memo = Inr t"
proof -
  from assms obtain w src where w: "load_own W D path N disk = Inr w" "find (\<lambda>a. wa_index a = sa_from args) (w_addresses w) = Some src"
    by (auto simp: cmd_send_def cthen_Told run_Told split: option.splits)
  from assms [unfolded cmd_send_def w run_def rmap_simps] obtain ps memo_text label memo url status info where
    more: "asked_payments P D N args = Inr (Told (ps, memo_text, label))" "memo_bytes memo_text = Inr memo"
      "find_client web (sa_node args) N = Inr (Told (url, status))" "from_node (ask_address (web url) (wa_address src)) = Inr (Told info)"
    by (auto simp: cthen_Told w run_Told [unfolded run_def] split: if_splits prod.splits)
  from assms [unfolded cmd_send_def w] show ?thesis
    by (auto simp: cthen_Told w more run_Told split: if_splits prod.splits)
qed


section \<open>An example\<close>

definition example_web :: web where
  "example_web url rq =
     (case rq of
        Http_get _ \<Rightarrow> Some (200, Some (JObj [(u ''network'', JStr (u ''mainnet'')), (u ''min_fee_per_byte'', JStr (u ''0.000001''))]))
      | Http_get_address _ \<Rightarrow> Some (200, Some (JObj [(u ''available'', JStr (u ''1'')), (u ''next_nonce'', JInt 0)]))
      | Http_get_history _ _ \<Rightarrow> None
      | Http_post _ _ \<Rightarrow> Some (200, Some (JObj [])))"

definition no_unicode :: unicode_db where
  "no_unicode = \<lparr>uni_space = \<lambda>_. False, uni_decimal = \<lambda>_. None\<rparr>"

lemma example_units: "read_units no_unicode (u ''0.005'') = Inr 5000" "read_units no_unicode (u ''0.000001'') = Inr 1"
  "read_units no_unicode (u ''1'') = Inr 1000000"
  by code_simp+

lemma example_client: "find_client example_web None MAINNET =
    Inr (Told (client_url (local_url MAINNET), [(u ''network'', JStr (u ''mainnet'')), (u ''min_fee_per_byte'', JStr (u ''0.000001''))]))"
  by (simp add: find_client_def connect_def ask_status_def ask_def example_web_def cthen_def from_node_def as_dict_def get_or_def MAINNET_def)

lemma example_size: "payment_size MAINNET [(t, BURN_PAYLOAD, 5000)] [] = 146"
  by (simp add: payment_size_def payment_outputs_def tx_size_def tx_bytes_def transfer_bytes_def unsigned_layout_def output_bytes_def
      var8_enc_def zero_bytes_def SIGNATURE_SIZE_def BURN_PAYLOAD_def PAYLOAD_SIZE_def)


lemma example_no_link: "\<not> is_link (u (CHR ''t'' # CHR ''c'' # t))"
proof -
  let ?r = "dropWhile is_end (rev (map of_char t @ []))"
  have ends: "\<not> is_end 116" "\<not> is_end 99" by (simp_all add: is_end_def)
  have "strip_ends (u (CHR ''t'' # CHR ''c'' # t)) = 116 # 99 # rev (dropWhile is_end (rev (map of_char t)))"
    using ends by (simp add: strip_ends_def u_def dropWhile_append)
  then show ?thesis by (simp add: is_link_def SCHEME_def u_def lower_ascii_def)
qed


end
