(* ===== verification/Server.thy ===== *)
theory Server
  imports Service P2P_Peers Api Miner
begin

text \<open>
  \<open>node/server.py\<close>: mining on the node's own chain, dropping old transfers, and how the command line becomes the
  configuration of the node.  The loop of \<open>mining_loop\<close> is cut into steps where it waits for the processes of the
  miner; what the node does meanwhile lies between two steps.  Starting and stopping the HTTP server is not modelled.
\<close>

section \<open>Mining\<close>

record mining_task =
  mt_template :: block
  mt_version :: int
  mt_found :: int

text \<open>Rebuilding the template: every so many seconds, or when the tip has changed.\<close>

definition refresh_seconds :: "network_params \<Rightarrow> int" where
  "refresh_seconds N = max 1 (target_spacing N div 6)"

definition goes_on_mining :: "int option \<Rightarrow> int \<Rightarrow> bool" where
  "goes_on_mining blocks found \<longleftrightarrow> (case blocks of None \<Rightarrow> True | Some n \<Rightarrow> found < n)"

text \<open>A turn of the outer loop up to \<open>engine.mine\<close>; None when enough blocks are found.\<close>

definition mining_begin ::
  "prims \<Rightarrow> network_params \<Rightarrow> rat \<Rightarrow> bytes \<Rightarrow> int option \<Rightarrow> int \<Rightarrow> bytes \<Rightarrow> 'l service \<Rightarrow> miner \<Rightarrow> (mining_task \<times> miner) option result" where
  "mining_begin P N now payload blocks found random sv engine =
     (if \<not> goes_on_mining blocks found then Inr None
      else rbind (service_template P N now payload [] sv) (\<lambda>template.
           rbind (start_mining (header template) (pow N) random engine) (\<lambda>(_, engine).
             Inr (Some (\<lparr>mt_template = template, mt_version = sv_tip_version sv, mt_found = found\<rparr>, engine)))))"

text \<open>The condition of the inner loop, when the engine has not found anything yet.\<close>

definition keeps_waiting :: "rat \<Rightarrow> rat \<Rightarrow> mining_task \<Rightarrow> 'l service \<Rightarrow> bool" where
  "keeps_waiting deadline now t sv \<longleftrightarrow> now < deadline \<and> sv_tip_version sv = mt_version t"

text \<open>The engine found a nonce: the block is submitted.  The value is the number of blocks found so far.\<close>

definition mined_block :: "mining_task \<Rightarrow> int \<Rightarrow> block" where
  "mined_block t nonce = (mt_template t)\<lparr>header := (header (mt_template t))\<lparr>bh_nonce := nonce\<rparr>\<rparr>"

definition mining_finish ::
  "prims \<Rightarrow> network_params \<Rightarrow> policy \<Rightarrow> ('o, 'l) listeners \<Rightarrow> rat \<Rightarrow> mining_task \<Rightarrow> int \<Rightarrow> 'l service \<Rightarrow> (int \<times> 'l service) result" where
  "mining_finish P N po L now t nonce sv =
     rbind (Service.submit_block P N po L now (mined_block t nonce) None False sv) (\<lambda>(r, sv).
       Inr (if sr_outcome r = NEW_TIP then mt_found t + 1 else mt_found t, sv))"

section \<open>Housekeeping\<close>

definition HOUSEKEEPING_SECONDS :: int where "HOUSEKEEPING_SECONDS = 60"

definition housekeeping :: "prims \<Rightarrow> policy \<Rightarrow> rat \<Rightarrow> 'l service \<Rightarrow> 'l service result" where
  "housekeeping P po now sv = rbind (expire P po now (sv_mempool sv)) (\<lambda>(_, mp). Inr (sv\<lparr>sv_mempool := mp\<rparr>))"

section \<open>Configuration\<close>

text \<open>The proxies that are believed: only those of this computer.\<close>

definition LOCAL_PROXIES :: "string list" where "LOCAL_PROXIES = [''127.0.0.1'', ''::1'']"

definition node_port :: "network_params \<Rightarrow> int option \<Rightarrow> int" where
  "node_port N port = (case port of None \<Rightarrow> default_port N | Some p \<Rightarrow> p)"

definition node_url :: "network_params \<Rightarrow> string \<Rightarrow> int option \<Rightarrow> string option \<Rightarrow> string option" where
  "node_url N host port public_url =
     (if public_url = None \<and> host \<notin> {''0.0.0.0'', ''::''} \<and> node_port N port \<noteq> 0
      then Some (''ws://'' @ host @ '':'' @ str_of_int (node_port N port) @ ''/v1/p2p'') else public_url)"

definition node_config :: "network_params \<Rightarrow> string \<Rightarrow> int option \<Rightarrow> string list \<Rightarrow> string list \<Rightarrow> string option \<Rightarrow> p2p_config" where
  "node_config N host port peers' seeds public_url =
     \<lparr>listen_url = map_option u (node_url N host port public_url), connect_urls = map u peers', seed_urls = map u seeds,
      target_outbound = 8, max_inbound = 32\<rparr>"

definition node_policy :: "net_lib \<Rightarrow> string \<Rightarrow> string list \<Rightarrow> api_policy" where
  "node_policy L host trusted =
     default_api_policy\<lparr>pl_public := \<not> is_loopback L (Some (u host)), pl_trusted := trusted\<rparr>"

text \<open>A node that listens to this computer only trusts everyone who can reach it.\<close>

lemma local_node_trusts: "is_trusted L (node_policy L ''localhost'' trusted) host"
  by (simp add: is_trusted_def node_policy_def is_loopback_def u_def)

end
