(* ===== verification/Spec2Isabelle.thy ===== *)
theory Spec2Isabelle
  imports Address Amounts Pow Chain_Spec Mempool_Select Template Rate_Limits Events
    Mnemonic Payment_Link Wallet P2P_Answers Miner Api_Inv Api_History
    Reindex Cli Server
begin

text \<open>
  A verification library for TalCash, a proof-of-work currency in Python (\<open>src/talcash\<close>): accounts with balances and
  nonces, Argon2id proof of work, Ed25519 signatures, a target adjusted at every block (ASERT), and the fingerprint of
  all balances committed to once a day.

  How the program is put together.  \<open>core/\<close> and \<open>crypto/\<close> are pure functions: encodings, hashes, addresses,
  transactions, blocks, and the state transition \<open>apply_block\<close>.  \<open>node/chain.py\<close> decides which blocks are stored and
  which chain is active; it keeps its tables in \<open>node/store.py\<close> (SQLite) and the blocks in the files of
  \<open>node/blockfiles.py\<close>.  \<open>node/service.py\<close> is the one object through which blocks and transfers reach the chain, the
  pool of waiting transfers (\<open>node/mempool.py\<close>) and the subscribers of live events (\<open>node/events.py\<close>); its callers are
  the peer-to-peer protocol (\<open>node/p2p.py\<close>), the HTTP and WebSocket API (\<open>node/api.py\<close>) and the node's own miner
  (\<open>node/server.py\<close>, \<open>miner/engine.py\<close>).  The wallet (\<open>wallet/\<close>) and the command line (\<open>cli.py\<close>) are clients of the
  API.

  Which theory models what:

  \<^item> \<open>Prelude\<close>: exceptions and results, loops that may raise or run forever, bytes, insertion-ordered dictionaries.
  \<^item> \<open>Encoding\<close> (\<open>core/encoding.py\<close>), \<open>Hashing\<close> (\<open>core/hashing.py\<close>), \<open>Amounts\<close> (\<open>core/amounts.py\<close>), \<open>Params\<close>
    (\<open>core/params.py\<close>), \<open>Base58\<close> (\<open>crypto/base58.py\<close>), \<open>Address\<close> (\<open>crypto/address.py\<close>, \<open>crypto/keys.py\<close>).
  \<^item> \<open>Tx\<close> (\<open>core/tx.py\<close>), \<open>Block\<close> (\<open>core/block.py\<close>), \<open>Difficulty\<close> (\<open>core/difficulty.py\<close>), \<open>Pow\<close> (\<open>core/pow.py\<close>),
    \<open>State\<close> (\<open>core/state.py\<close>), \<open>Snapshot\<close> (\<open>core/snapshot.py\<close>, \<open>core/genesis.py\<close>).
  \<^item> \<open>Blockfiles\<close> (\<open>node/blockfiles.py\<close>), \<open>Store\<close> (\<open>node/store.py\<close>), \<open>Chain\<close> (\<open>node/chain.py\<close>), \<open>Chain_Spec\<close> (what
    the chain manager promises), \<open>Reindex\<close> (\<open>node/reindex.py\<close>, the names of block files, opening a chain).
  \<^item> \<open>Mempool\<close>, \<open>Mempool_Inv\<close>, \<open>Mempool_Queues\<close>, \<open>Mempool_Select\<close> (\<open>node/mempool.py\<close>: the operations, the rules of
    the pool and the heaps, insertion and following the chain, selection and expiry), \<open>Template\<close> (\<open>node/template.py\<close>).
  \<^item> \<open>Rate_Limits\<close> (\<open>node/limits.py\<close>), \<open>Events\<close> (\<open>node/events.py\<close>), \<open>Texts\<close> and \<open>Json\<close> (what Python does with texts and
    with the values that \<open>json.loads\<close> gives), \<open>Views\<close> (\<open>node/views.py\<close>), \<open>Service\<close> (\<open>node/service.py\<close>).
  \<^item> \<open>P2P_Peers\<close>, \<open>P2P_Sync\<close>, \<open>P2P\<close> (\<open>node/p2p.py\<close>: peers, addresses and bans; catching up; messages, connections
    and timers, one step \<open>node_step\<close> for each event), \<open>P2P_Inv\<close> and \<open>P2P_Answers\<close> (what holds of every run).
  \<^item> \<open>Api\<close> (\<open>node/api.py\<close>, one step \<open>api_step\<close> for each event), \<open>Api_Inv\<close>, \<open>Api_History\<close>, \<open>Server\<close> (\<open>node/server.py\<close>),
    \<open>Miner\<close> (\<open>miner/engine.py\<close>).
  \<^item> \<open>Mnemonic\<close> (\<open>crypto/mnemonic.py\<close>), \<open>Payment_Link\<close> (\<open>wallet/payment_link.py\<close>), \<open>Wallet\<close> (\<open>crypto/hd.py\<close>,
    \<open>wallet/keystore.py\<close>, \<open>wallet/wallet.py\<close>), \<open>Network\<close> (\<open>node/network.py\<close>, \<open>paths.py\<close>, \<open>wallet/client.py\<close>),
    \<open>Cli\<close> (\<open>cli.py\<close>).

  Conventions.  A function that may raise gives \<open>exn + 'a\<close>, so that every raise is a branch; of a \<open>ValidationError\<close> the
  stable code is kept.  State is passed explicitly, in records with the source's fields; a mutable object that several
  parts share is an entry of one table.  What an \<open>async\<close> handler does between two awaits is one step, and the
  inductive relations \<open>reaches\<close>, \<open>api_reaches\<close> and \<open>mining\<close> relate the states that any steps in any order lead to,
  so that theorems about them cover every interleaving.
  The clock, random numbers and the answers of other machines are arguments.  Loops whose end depends on data
  (\<open>run_loop\<close>, \<open>mine\<close>, \<open>discover\<close>) are partial functions whose value for a run without end is \<open>NoReturn\<close> or None; no
  fuel is used, and that they end is proved where it is claimed (\<open>Pow.mine_finds_first\<close>, \<open>Wallet.discover_finds\<close>).

  Parameters.  The record \<open>prims\<close> holds the libraries' functions (SHA-256, Ed25519, Argon2id, zlib), \<open>text_lib\<close>,
  \<open>wallet_lib\<close> and \<open>net_lib\<close> those for Unicode normal forms, key derivation, encryption, URLs, IP addresses and JSON.
  The theorems that rely on one state its documented contract as a hypothesis (\<open>zlib_correct\<close>, that signatures made with
  a key verify under it, that what is encrypted decrypts with the same password); SHA-256 is never assumed free of
  collisions: where a theorem needs it, it exhibits the collision instead.

  Interfaces.  The locale \<open>codec\<close> (\<open>Encoding\<close>) is the contract between a writer, its bytes and a reader, interpreted for
  the primitive fields, transfers, headers, blocks, chunk entries and more; \<open>state_store\<close> (\<open>State\<close>) the contract of a
  place where accounts are kept, interpreted for the table of the database and the in-memory state; \<open>priority_queue\<close>
  (\<open>Mempool\<close>) the contract of the heaps of the mempool.

  What the groups of lemmas show.
  Encodings: every value has exactly one encoding and every text or byte string is read as at most one value.
  Hashing: the Merkle root is that of RFC 6962, and a collision of roots or fingerprints is a collision of SHA-256.
  State: blocks move money exactly as their transfers say, create exactly the reward, never replay or skip a nonce, and
  are undone exactly.  Chain: the tables are a function of the active chain, and the supply is what the schedule says.
  Files: chunks give their blocks back, and the cache of recent files is invisible.  Pool: the queues stay consistent
  with the chain and what is selected applies to the tip, so that the template of a miner is a valid block up to its
  proof of work.  Miner: an answer that is handed out solves the header asked for last.  Peers: what a peer can make the
  node keep is bounded, catching up stays in order, and no text other than a block makes a handler fail.  API: strangers
  are limited, and the pages of a history are the history.  Wallet: words, links and keystores are read back as they
  were written, used addresses are found, and what is signed is what was asked for.

  Not modelled, and why.  Opening sockets, TLS and proxies (\<open>node/peer_net.py\<close> apart from \<open>parse_peer_url\<close> and
  \<open>public_address\<close>), processes, signals and queues of the operating system (the start and stop of workers and of the HTTP
  server), FastAPI's routing, the argument parser, prompts, printing and log lines: input and output with no state of the
  program's own.  \<open>devnet.py\<close> only starts processes.  The texts of errors are dropped, their codes kept.  Floating point
  times and rates are rationals.  SQLite's transactions are computations whose store is dropped when they raise.
\<close>

end
